(* ===== verification/Prelude.thy ===== *)
theory Prelude
  imports Complex_Main "HOL-Library.Product_Lexorder" "HOL-Library.List_Lexorder"
    "HOL-Library.Char_ord" "HOL-Library.Sublist"
begin

text \<open>
  Shared ground of the development: the identifiers, timestamps and results every component
  uses, the operations of a database table (a list of rows in insertion order) that the
  SQLAlchemy statements of the code translate to, and three interface locales: a machine whose
  steps keep an invariant, a table of legal status transitions, and such a table with a rank.
\<close>

named_theorems table_simps "characteristic equations of the table operations"
named_theorems inv_intros "preservation facts of component invariants"

section \<open>Identifiers, time, values, events, results\<close>

text \<open>Row ids are uuid strings; a timestamp is its number of microseconds since the epoch.\<close>

type_synonym ident = string
type_synonym time = int

text \<open>The values an event payload carries, and an event as the bus receives it.\<close>

datatype pyval = PNone | PBool bool | PInt int | PStr string | PTime int | PList "pyval list"
  | PDict "(string \<times> pyval) list"

type_synonym payload = "(string \<times> pyval) list"

datatype event = Event (event_name: string) (event_payload: payload)

definition pstr :: "string option \<Rightarrow> pyval" where
  "pstr x = (case x of None \<Rightarrow> PNone | Some s \<Rightarrow> PStr s)"

definition ptime :: "time option \<Rightarrow> pyval" where
  "ptime x = (case x of None \<Rightarrow> PNone | Some t \<Rightarrow> PTime t)"

text \<open>
  A raised \<open>HTTPException\<close> is its status code and its detail, a text or (second form) an
  object; a handler returns either that or its value.
\<close>

datatype http_error = HTTPException (status_code: int) (detail: string)
  | HTTPException_Object (status_code: int) (detail_object: payload)

type_synonym 'a res = "http_error + 'a"

fun res_bind :: "'e + 'a \<Rightarrow> ('a \<Rightarrow> 'e + 'b) \<Rightarrow> 'e + 'b" where
  "res_bind (Inl e) f = Inl e"
| "res_bind (Inr x) f = f x"

definition is_ok :: "'e + 'a \<Rightarrow> bool" where
  "is_ok r = (case r of Inl _ \<Rightarrow> False | Inr _ \<Rightarrow> True)"

lemma is_ok_simps [simp]: "is_ok (Inl e) = False" "is_ok (Inr x) = True"
  by (simp_all add: is_ok_def)

lemma res_bind_Inr_iff: "res_bind r f = Inr y \<longleftrightarrow> (\<exists>x. r = Inr x \<and> f x = Inr y)"
  by (cases r) auto

text \<open>A check that raises when it fails.\<close>

definition ensure :: "bool \<Rightarrow> int \<Rightarrow> string \<Rightarrow> unit res" where
  "ensure ok code msg = (if ok then Inr () else Inl (HTTPException code msg))"

lemma ensure_simps [simp]:
  "ensure True code msg = Inr ()" "ensure False code msg = Inl (HTTPException code msg)"
  "ensure ok code msg = Inr u \<longleftrightarrow> ok" "ensure ok code msg = Inl e \<longleftrightarrow> \<not> ok \<and> e = HTTPException code msg"
  by (auto simp: ensure_def)

section \<open>Tables\<close>

text \<open>
  \<open>UPDATE t SET f WHERE P\<close> maps the rows that match; its \<open>rowcount\<close> is how many
  did. \<open>SELECT ... LIMIT 1\<close> through \<open>db.scalar\<close> is \<open>find\<close>, a
  \<open>func.count\<close> is the length of a filter.
\<close>

definition update_where :: "('r \<Rightarrow> bool) \<Rightarrow> ('r \<Rightarrow> 'r) \<Rightarrow> 'r list \<Rightarrow> 'r list" where
  "update_where P f rows = map (\<lambda>r. if P r then f r else r) rows"

definition count_where :: "('r \<Rightarrow> bool) \<Rightarrow> 'r list \<Rightarrow> nat" where
  "count_where P rows = length (filter P rows)"

definition delete_where :: "('r \<Rightarrow> bool) \<Rightarrow> 'r list \<Rightarrow> 'r list" where
  "delete_where P rows = filter (\<lambda>r. \<not> P r) rows"

definition exists_where :: "('r \<Rightarrow> bool) \<Rightarrow> 'r list \<Rightarrow> bool" where
  "exists_where P rows = list_ex P rows"

text \<open>\<open>func.max\<close> over a possibly empty selection (SQL's NULL is \<open>None\<close>).\<close>

definition max_opt :: "int list \<Rightarrow> int option" where
  "max_opt xs = (if xs = [] then None else Some (Max (set xs)))"

text \<open>\<open>func.coalesce(a, b)\<close> with a second column that is never NULL.\<close>

definition coalesce :: "'a option \<Rightarrow> 'a \<Rightarrow> 'a" where
  "coalesce a b = (case a of Some x \<Rightarrow> x | None \<Rightarrow> b)"

lemma coalesce_simps [simp]: "coalesce None b = b" "coalesce (Some a) b = a"
  by (simp_all add: coalesce_def)

lemma update_where_Nil [table_simps, simp]: "update_where P f [] = []"
  by (simp add: update_where_def)

lemma update_where_append [table_simps, simp]:
  "update_where P f (xs @ ys) = update_where P f xs @ update_where P f ys"
  by (simp add: update_where_def)

lemma update_where_Cons [table_simps, simp]:
  "update_where P f (x # xs) = (if P x then f x else x) # update_where P f xs"
  by (simp add: update_where_def)

lemma length_update_where [table_simps, simp]: "length (update_where P f xs) = length xs"
  by (simp add: update_where_def)

lemma set_update_where: "set (update_where P f xs) = (\<lambda>r. if P r then f r else r) ` set xs"
  by (simp add: update_where_def)

lemma map_update_where:
  assumes "\<And>r. r \<in> set xs \<Longrightarrow> P r \<Longrightarrow> g (f r) = g r"
  shows "map g (update_where P f xs) = map g xs"
  using assms by (auto simp: update_where_def)

lemma filter_update_where:
  assumes "\<And>r. r \<in> set xs \<Longrightarrow> P r \<Longrightarrow> Q (f r) = Q r"
  shows "filter Q (update_where P f xs) = update_where P f (filter Q xs)"
  using assms by (induction xs) auto

lemma count_where_update_where:
  assumes "\<And>r. r \<in> set xs \<Longrightarrow> P r \<Longrightarrow> Q (f r) = Q r"
  shows "count_where Q (update_where P f xs) = count_where Q xs"
  by (simp add: count_where_def filter_update_where assms)

lemma count_where_Nil [table_simps, simp]: "count_where P [] = 0"
  by (simp add: count_where_def)

lemma count_where_Cons [table_simps, simp]:
  "count_where P (x # xs) = (if P x then Suc (count_where P xs) else count_where P xs)"
  by (simp add: count_where_def)

lemma count_where_append [table_simps, simp]:
  "count_where P (xs @ ys) = count_where P xs + count_where P ys"
  by (simp add: count_where_def)

lemma count_where_0_iff: "count_where P xs = 0 \<longleftrightarrow> (\<forall>x\<in>set xs. \<not> P x)"
  by (simp add: count_where_def filter_empty_conv)

lemma count_where_pos_iff: "0 < count_where P xs \<longleftrightarrow> (\<exists>x\<in>set xs. P x)"
  using count_where_0_iff [of P xs] by auto

lemma exists_where_iff [table_simps]: "exists_where P xs \<longleftrightarrow> (\<exists>x\<in>set xs. P x)"
  by (simp add: exists_where_def list_ex_iff)

lemma count_where_cong:
  "(\<And>x. x \<in> set xs \<Longrightarrow> P x = Q x) \<Longrightarrow> count_where P xs = count_where Q xs"
  unfolding count_where_def by (metis filter_cong)

lemma count_where_mono:
  "(\<And>x. x \<in> set xs \<Longrightarrow> P x \<Longrightarrow> Q x) \<Longrightarrow> count_where P xs \<le> count_where Q xs"
  by (induction xs) auto

lemma count_where_map_filter:
  "(\<And>x. x \<in> set xs \<Longrightarrow> P (f x) \<Longrightarrow> Q x) \<Longrightarrow> count_where P (map f (filter keep xs)) \<le> count_where Q xs"
  by (induction xs) (auto intro: le_SucI)

lemma find_Some_in: "find P xs = Some x \<Longrightarrow> x \<in> set xs \<and> P x"
  by (auto simp: find_Some_iff)

lemma find_None_all: "find P xs = None \<Longrightarrow> y \<in> set xs \<Longrightarrow> \<not> P y"
  by (auto simp: find_None_iff)

lemma max_opt_None_iff [simp]: "max_opt xs = None \<longleftrightarrow> xs = []"
  by (simp add: max_opt_def)

section \<open>Strings\<close>

text \<open>
  Python's \<open>str.lower\<close>, \<open>str.strip\<close> and \<open>in\<close> on ASCII text (a
  \<open>char\<close> is a byte; text outside ASCII is not modelled).
\<close>

definition lower_char :: "char \<Rightarrow> char" where
  "lower_char c = (let n = (of_char c :: nat) in if 65 \<le> n \<and> n \<le> 90 then char_of (n + 32) else c)"

definition lower :: "string \<Rightarrow> string" where
  "lower s = map lower_char s"

definition is_space :: "char \<Rightarrow> bool" where
  "is_space c = (let n = (of_char c :: nat) in n = 32 \<or> (9 \<le> n \<and> n \<le> 13) \<or> (28 \<le> n \<and> n \<le> 31))"

definition strip :: "string \<Rightarrow> string" where
  "strip s = rev (dropWhile is_space (rev (dropWhile is_space s)))"

lemma length_lower [simp]: "length (lower s) = length s"
  by (simp add: lower_def)

text \<open>\<open>str(n)\<close> in decimal and \<open>sep.join(parts)\<close>.\<close>

fun nat_str :: "nat \<Rightarrow> string" where
  "nat_str n = (if n < 10 then [char_of (48 + n)] else nat_str (n div 10) @ [char_of (48 + n mod 10)])"

declare nat_str.simps [simp del]

definition int_str :: "int \<Rightarrow> string" where
  "int_str i = (if i < 0 then ''-'' @ nat_str (nat (- i)) else nat_str (nat i))"

fun join_with :: "string \<Rightarrow> string list \<Rightarrow> string" where
  "join_with sep [] = []"
| "join_with sep [x] = x"
| "join_with sep (x # xs) = x @ sep @ join_with sep xs"

section \<open>Machines that keep an invariant\<close>

text \<open>
  Several operations of a component share one contract: each keeps the component's invariant.
  The locale states the contract for a step function over labelled operations and gives the
  run and prefix facts once.
\<close>

locale invariant_machine =
  fixes step :: "'s \<Rightarrow> 'l \<Rightarrow> 's"
    and inv :: "'s \<Rightarrow> bool"
  assumes step_inv: "inv s \<Longrightarrow> inv (step s l)"
begin

lemma run_inv: "inv s \<Longrightarrow> inv (foldl step s ls)"
  by (induction ls arbitrary: s) (auto simp: step_inv)

lemma prefix_inv: "inv s \<Longrightarrow> prefix ks ls \<Longrightarrow> inv (foldl step s ks)"
  by (rule run_inv)

end

section \<open>Status tables\<close>

text \<open>
  A lifecycle is a table from a status to the statuses it may move to; re-entering the current
  status is always legal. The code has two such tables (challenge instances, judgings) with the
  same rule for reading them.
\<close>

definition can_move :: "('st \<Rightarrow> 'st list) \<Rightarrow> 'st \<Rightarrow> 'st \<Rightarrow> bool" where
  "can_move table current target = (current = target \<or> target \<in> set (table current))"

fun legal_path :: "('st \<Rightarrow> 'st list) \<Rightarrow> 'st \<Rightarrow> 'st list \<Rightarrow> bool" where
  "legal_path table s [] = True"
| "legal_path table s (t # ts) = (can_move table s t \<and> legal_path table t ts)"

locale lifecycle =
  fixes table :: "'st \<Rightarrow> 'st list"
    and terminal :: "'st \<Rightarrow> bool"
  assumes terminal_no_exit: "terminal s \<Longrightarrow> table s = []"
begin

lemma terminal_move: "terminal s \<Longrightarrow> can_move table s t \<longleftrightarrow> t = s"
  by (auto simp: can_move_def terminal_no_exit)

lemma terminal_path: "terminal s \<Longrightarrow> legal_path table s ts \<Longrightarrow> t \<in> set ts \<Longrightarrow> t = s"
proof (induction ts)
  case Nil
  then show ?case by simp
next
  case (Cons u us)
  then have "u = s" by (simp add: terminal_move)
  with Cons show ?case by auto
qed

end

text \<open>A lifecycle whose every real move raises a rank: it cannot go round in circles.\<close>

fun real_moves :: "'st \<Rightarrow> 'st list \<Rightarrow> nat" where
  "real_moves s [] = 0"
| "real_moves s (t # ts) = (if s = t then 0 else 1) + real_moves t ts"

locale ranked_lifecycle = lifecycle table terminal
  for table :: "'st \<Rightarrow> 'st list" and terminal :: "'st \<Rightarrow> bool" +
  fixes rank :: "'st \<Rightarrow> nat"
  assumes rank_up: "t \<in> set (table s) \<Longrightarrow> rank s < rank t"
begin

lemma path_rank: "legal_path table s ts \<Longrightarrow> rank s + real_moves s ts \<le> rank (last (s # ts))"
proof (induction ts arbitrary: s)
  case Nil
  then show ?case by simp
next
  case (Cons u us)
  then have IH: "rank u + real_moves u us \<le> rank (last (u # us))" by simp
  have "s \<noteq> u \<Longrightarrow> rank s < rank u"
    using Cons.prems by (auto simp: can_move_def intro: rank_up)
  with IH show ?case by auto
qed

end

end
