(* ===== verification/Data_Model.thy ===== *)
theory Data_Model
  imports Prelude
begin

text \<open>
  The tables of \<open>src/backend/models/\<close> that the modelled components read and write: one
  record per mapped class, one field per column, a column's enumeration of strings as a datatype,
  a nullable column as an \<open>option\<close>. The record \<open>db\<close> is the committed database, every
  table the list of its rows in insertion order. A rich-text JSON column is an uninterpreted
  \<open>pyval\<close>; no modelled operation looks inside one.
\<close>

section \<open>Enumerated columns\<close>

datatype comp_status = Not_Started | Running | Ended

text \<open>The lifecycle order of the gate: a competition is not started, then running, then ended.\<close>

instantiation comp_status :: linorder
begin

definition status_ord :: "comp_status \<Rightarrow> nat" where
  "status_ord s = (case s of Not_Started \<Rightarrow> 0 | Running \<Rightarrow> 1 | Ended \<Rightarrow> 2)"

definition less_eq_comp_status :: "comp_status \<Rightarrow> comp_status \<Rightarrow> bool" where
  "less_eq_comp_status s t = (status_ord s \<le> status_ord t)"

definition less_comp_status :: "comp_status \<Rightarrow> comp_status \<Rightarrow> bool" where
  "less_comp_status s t = (status_ord s < status_ord t)"

instance
  by standard
    (auto simp: less_eq_comp_status_def less_comp_status_def status_ord_def split: comp_status.splits)

end

datatype participation = Team_Mode | Individual_Mode

datatype visibility = Public | Private

datatype scoring_type = Static_Scoring | Dynamic_Scoring

datatype challenge_state = Draft | Published

datatype flag_type = Static_Flag | Regex_Flag | Multiple_Choice | Programming

datatype role_scope = Global_Scope | Competition_Scope

datatype link_capability = Join_Link | View_Link

datatype deployment_backend = Docker | Kubernetes | Shared_Static

datatype exposure = Tcp_Exposure | Http_Exposure | No_Exposure

datatype flag_mode = Static_Mode | Unique_Per_Instance

datatype instance_status =
  Inst_Requested | Inst_Provisioning | Inst_Running | Inst_Expiring | Inst_Destroyed | Inst_Failed

text \<open>One entry of an instance's \<open>endpoints\<close>; an absent key is \<open>None\<close>.\<close>

record endpoint =
  ep_kind :: string
  ep_host :: "string option"
  ep_port :: "int option"
  ep_url :: "string option"

text \<open>The code judge's columns: \<open>kind\<close>, \<open>origin\<close>, \<open>status\<close> and the executor's verdicts.\<close>

datatype code_kind = Submit_Kind | Run_Kind | Reference_Kind

datatype judging_origin = Origin_Submission | Origin_Rejudge | Origin_Override

datatype judging_status = Judging_Queued | Judging_Running | Judging_Done | Judging_Failed

datatype verdict = Accepted | Wrong_Answer | Time_Limit | Memory_Limit | Output_Limit
  | Runtime_Error | Compile_Error | Internal_Error

section \<open>Rows\<close>

record competition =
  co_id :: ident
  co_name :: string
  co_description :: string
  co_start_at :: "time option"
  co_end_at :: "time option"
  co_registration_opens_at :: "time option"
  co_registration_closes_at :: "time option"
  co_participation_mode :: participation
  co_visibility :: visibility
  co_invite_code :: string
  co_archived_at :: "time option"
  co_purge_after :: "time option"
  co_mc_guess_limit :: "int option"
  co_mc_penalty_pct :: "int option"
  co_challenge_ratings_enabled :: bool
  co_challenge_tags :: "string list option"
  co_difficulty_tiers :: "string list option"
  co_brackets :: "string list option"
  co_max_team_size :: "int option"
  co_instance_max_alive :: "int option"
  co_instance_lifetime_s :: "int option"
  co_paused :: bool
  co_scoreboard_frozen_at :: "time option"
  co_public_scoreboard :: bool
  co_ctftime_enabled :: bool
  co_rules_override :: "pyval option"
  co_rules_display_only :: bool
  co_status :: comp_status
  co_started_event_fired :: bool
  co_ended_event_fired :: bool
  co_created_at :: time

record challenge =
  ch_id :: ident
  ch_competition_id :: ident
  ch_title :: string
  ch_description :: pyval
  ch_category_id :: "ident option"
  ch_points :: int
  ch_scoring_type :: scoring_type
  ch_min_points :: "int option"
  ch_decay :: "int option"
  ch_state :: challenge_state
  ch_release_at :: "time option"
  ch_prerequisites :: "ident list option"
  ch_tags :: "string list option"
  ch_difficulty :: "string option"
  ch_connection_info :: "string option"
  ch_flag_type :: flag_type
  ch_case_insensitive :: bool
  ch_flag_hash :: "string option"
  ch_flag_salt :: "string option"
  ch_flag_regex :: "string option"
  ch_choices :: "string list option"
  ch_created_at :: time

record submission =
  su_id :: ident
  su_competition_id :: ident
  su_challenge_id :: ident
  su_user_id :: ident
  su_team_id :: "ident option"
  su_value :: string
  su_is_correct :: bool
  su_is_duplicate :: bool
  su_points_awarded :: int
  su_mc_penalty :: int
  su_created_at :: time

record mc_guess_reset =
  gr_competition_id :: ident
  gr_challenge_id :: ident
  gr_user_id :: "ident option"
  gr_team_id :: "ident option"
  gr_reset_by :: "ident option"
  gr_created_at :: time

record hint =
  hi_id :: ident
  hi_competition_id :: ident
  hi_challenge_id :: ident
  hi_body :: string
  hi_cost :: int
  hi_hidden :: bool
  hi_release_at :: "time option"
  hi_created_at :: time

record hint_reveal =
  hr_competition_id :: ident
  hr_hint_id :: ident
  hr_challenge_id :: ident
  hr_user_id :: ident
  hr_team_id :: "ident option"
  hr_cost_charged :: int
  hr_created_at :: time

record score_adjustment =
  sa_competition_id :: ident
  sa_points :: int
  sa_reason :: string
  sa_user_id :: "ident option"
  sa_team_id :: "ident option"
  sa_rule_id :: "ident option"
  sa_created_at :: time

record achievement =
  ac_competition_id :: ident
  ac_title :: string
  ac_description :: "string option"
  ac_points :: int
  ac_user_id :: "ident option"
  ac_team_id :: "ident option"
  ac_rule_id :: "ident option"
  ac_awarded_by_user_id :: "ident option"
  ac_created_at :: time

record bracket_membership =
  bm_competition_id :: ident
  bm_subject_id :: ident
  bm_bracket :: string

record team =
  te_id :: ident
  te_competition_id :: ident
  te_name :: string
  te_invite_code :: string
  te_affiliation :: "string option"
  te_country :: "string option"
  te_website :: "string option"
  te_approval_required :: bool
  te_created_at :: time

record team_membership =
  tm_competition_id :: ident
  tm_team_id :: ident
  tm_user_id :: ident
  tm_is_captain :: bool
  tm_created_at :: time

record team_application =
  ta_id :: ident
  ta_competition_id :: ident
  ta_team_id :: ident
  ta_user_id :: ident
  ta_created_at :: time

record user =
  us_id :: ident
  us_email :: "string option"
  us_password_hash :: string
  us_display_name :: string
  us_is_active :: bool
  us_email_verified_at :: "time option"
  us_username_changed_at :: "time option"
  us_created_at :: time

text \<open>
  The refresh sessions and the two tables of mailed tokens (e-mail verification, password reset),
  which have the same columns.
\<close>

record refresh_session =
  rs_id :: ident
  rs_user_id :: ident
  rs_token_hash :: string
  rs_expires_at :: time
  rs_revoked_at :: "time option"
  rs_family_id :: "string option"

record mail_token =
  mt_id :: ident
  mt_user_id :: ident
  mt_token_hash :: string
  mt_expires_at :: time
  mt_email :: "string option"

record role =
  ro_id :: ident
  ro_name :: string
  ro_description :: string
  ro_is_system :: bool
  ro_scope :: role_scope
  ro_permissions :: "string list"

record role_assignment =
  ra_id :: ident
  ra_user_id :: ident
  ra_competition_id :: "ident option"
  ra_role_id :: ident

record api_token =
  at_id :: ident
  at_user_id :: ident
  at_token_hash :: string
  at_expires_at :: time
  at_last_used_at :: "time option"
  at_revoked_at :: "time option"

record invite_link =
  il_id :: ident
  il_competition_id :: ident
  il_token :: string
  il_capability :: link_capability
  il_label :: "string option"
  il_expires_at :: "time option"
  il_max_uses :: "int option"
  il_use_count :: int
  il_last_used_at :: "time option"
  il_revoked_at :: "time option"
  il_created_by :: "ident option"
  il_created_at :: time

record rules_acceptance =
  rx_competition_id :: ident
  rx_user_id :: ident
  rx_accepted_at :: time

datatype field_type = Text_Field | Textarea_Field | Select_Field | Checkbox_Field

record registration_field =
  rf_id :: ident
  rf_competition_id :: ident
  rf_key :: string
  rf_label :: string
  rf_field_type :: field_type
  rf_options :: "string list option"
  rf_required :: bool
  rf_position :: int

record registration_values =
  rv_competition_id :: ident
  rv_subject_id :: ident
  rv_values :: payload

text \<open>The columns of the one \<open>site_settings\<close> row that the modelled routes read or write.\<close>

record site_settings =
  ss_registration_open :: bool
  ss_email_domain_allowlist_enabled :: bool
  ss_allowed_email_domains :: "string list"
  ss_email_verification_enabled :: bool
  ss_username_changes_enabled :: bool
  ss_rules_text :: "pyval option"
  ss_rules_display_only :: bool
  ss_setup_completed_at :: "time option"

record category =
  ca_id :: ident
  ca_competition_id :: ident
  ca_name :: string

record challenge_rating =
  cr_competition_id :: ident
  cr_challenge_id :: ident
  cr_user_id :: ident
  cr_rating :: int

text \<open>A rule's condition (the operator by its name) and its actions, which are objects.\<close>

record competition_module =
  cm_competition_id :: ident
  cm_module_id :: ident
  cm_enabled :: bool

text \<open>
  The instancing tables. Registry credentials, the Kubernetes settings, resource limits,
  environment and manifest only travel to the provisioner and are left out.
\<close>

record instance_settings =
  is_enabled :: bool
  is_backend :: deployment_backend
  is_public_host :: "string option"
  is_tcp_port_min :: int
  is_tcp_port_max :: int
  is_max_concurrent :: int
  is_chal_base_domain :: "string option"
  is_spawn_rate_limit :: int
  is_spawn_rate_window_seconds :: int

record challenge_deployment =
  cd_id :: ident
  cd_competition_id :: ident
  cd_challenge_id :: ident
  cd_backend :: deployment_backend
  cd_image_ref :: "string option"
  cd_exposure :: exposure
  cd_ports :: "int list"
  cd_lifetime_s :: "int option"
  cd_per_subject_cap :: int
  cd_flag_mode :: flag_mode
  cd_flag_template :: "string option"

record challenge_instance =
  ci_id :: ident
  ci_competition_id :: ident
  ci_challenge_id :: ident
  ci_deployment_id :: ident
  ci_user_id :: ident
  ci_team_id :: "ident option"
  ci_status :: instance_status
  ci_backend_handle :: "string option"
  ci_subdomain :: "string option"
  ci_endpoints :: "endpoint list"
  ci_flag_hash :: "string option"
  ci_flag_salt :: "string option"
  ci_expires_at :: "time option"
  ci_started_at :: "time option"
  ci_destroyed_at :: "time option"
  ci_last_seen_at :: "time option"
  ci_extend_count :: int
  ci_failure_reason :: "string option"
  ci_created_at :: time

text \<open>
  The judge's tables. Of a problem only the test-data object and the manifest of its cases (the
  example flag of each) are kept, of a language what decides its availability: limits, images and
  commands only travel to the executor.
\<close>

record attachment =
  at_challenge_id :: ident
  at_object_key :: string

record judge_settings =
  js_enabled :: bool
  js_max_concurrent_judgings :: int

record judge_language =
  jl_key :: string
  jl_name :: string
  jl_enabled :: bool

record judge_problem =
  jp_competition_id :: ident
  jp_challenge_id :: ident
  jp_allowed_languages :: "string list option"
  jp_object_key :: "string option"
  jp_testcases :: "bool list"

record code_submission =
  cs_id :: ident
  cs_competition_id :: ident
  cs_challenge_id :: ident
  cs_user_id :: ident
  cs_team_id :: "ident option"
  cs_kind :: code_kind
  cs_language_key :: string
  cs_language_name :: string
  cs_source_object_key :: string
  cs_source_bytes :: int
  cs_submission_id :: "ident option"
  cs_created_at :: time

record judging =
  ju_id :: ident
  ju_competition_id :: ident
  ju_code_submission_id :: ident
  ju_challenge_id :: ident
  ju_user_id :: ident
  ju_team_id :: "ident option"
  ju_kind :: code_kind
  ju_origin :: judging_origin
  ju_requested_by_user_id :: "ident option"
  ju_note :: "string option"
  ju_status :: judging_status
  ju_verdict :: "verdict option"
  ju_claimed_at :: "time option"
  ju_deadline_at :: "time option"
  ju_finished_at :: "time option"
  ju_attempts :: int
  ju_compile_output :: "string option"
  ju_max_time_ms :: "int option"
  ju_max_memory_kb :: "int option"
  ju_tests_passed :: "int option"
  ju_tests_total :: "int option"
  ju_error :: "string option"
  ju_problem_version :: "string option"
  ju_submission_id :: "ident option"
  ju_created_at :: time

record judging_run =
  jr_judging_id :: ident
  jr_test_index :: int
  jr_sample :: bool
  jr_verdict :: verdict
  jr_time_ms :: int
  jr_wall_ms :: int
  jr_memory_kb :: int
  jr_exit_code :: "int option"
  jr_signal :: "int option"
  jr_output :: "string option"

section \<open>The database\<close>

record db =
  db_competitions :: "competition list"
  db_challenges :: "challenge list"
  db_submissions :: "submission list"
  db_guess_resets :: "mc_guess_reset list"
  db_hints :: "hint list"
  db_hint_reveals :: "hint_reveal list"
  db_adjustments :: "score_adjustment list"
  db_achievements :: "achievement list"
  db_brackets :: "bracket_membership list"
  db_teams :: "team list"
  db_memberships :: "team_membership list"
  db_applications :: "team_application list"
  db_users :: "user list"
  db_roles :: "role list"
  db_assignments :: "role_assignment list"
  db_api_tokens :: "api_token list"
  db_invite_links :: "invite_link list"
  db_categories :: "category list"
  db_ratings :: "challenge_rating list"
  db_modules :: "competition_module list"
  db_instance_settings :: "instance_settings option"
  db_deployments :: "challenge_deployment list"
  db_instances :: "challenge_instance list"
  db_attachments :: "attachment list"
  db_judge_settings :: "judge_settings option"
  db_judge_languages :: "judge_language list"
  db_judge_problems :: "judge_problem list"
  db_code_submissions :: "code_submission list"
  db_judgings :: "judging list"
  db_judging_runs :: "judging_run list"
  db_sessions :: "refresh_session list"
  db_verification_tokens :: "mail_token list"
  db_reset_tokens :: "mail_token list"
  db_rules_acceptances :: "rules_acceptance list"
  db_registration_fields :: "registration_field list"
  db_registration_values :: "registration_values list"
  db_site_settings :: "site_settings option"

definition empty_db :: db where
  "empty_db = \<lparr>db_competitions = [], db_challenges = [], db_submissions = [],
     db_guess_resets = [], db_hints = [], db_hint_reveals = [], db_adjustments = [],
     db_achievements = [], db_brackets = [], db_teams = [], db_memberships = [],
     db_applications = [], db_users = [], db_roles = [], db_assignments = [],
     db_api_tokens = [], db_invite_links = [], db_categories = [], db_ratings = [],
     db_modules = [], db_instance_settings = None, db_deployments = [], db_instances = [],
     db_attachments = [], db_judge_settings = None, db_judge_languages = [],
     db_judge_problems = [], db_code_submissions = [], db_judgings = [], db_judging_runs = [],
     db_sessions = [], db_verification_tokens = [], db_reset_tokens = [],
     db_rules_acceptances = [], db_registration_fields = [], db_registration_values = [],
     db_site_settings = None\<rparr>"

text \<open>
  A competition, a challenge and a user with the column defaults of the models (and empty texts), the
  starting points of the concrete inputs that witnesses evaluate.
\<close>

definition blank_competition :: "ident \<Rightarrow> competition" where
  "blank_competition c = \<lparr>co_id = c, co_name = c, co_description = '''', co_start_at = None,
     co_end_at = None, co_registration_opens_at = None, co_registration_closes_at = None,
     co_participation_mode = Team_Mode, co_visibility = Private, co_invite_code = '''',
     co_archived_at = None, co_purge_after = None, co_mc_guess_limit = None,
     co_mc_penalty_pct = None, co_challenge_ratings_enabled = False, co_challenge_tags = None,
     co_difficulty_tiers = None, co_brackets = None, co_max_team_size = None,
     co_instance_max_alive = None, co_instance_lifetime_s = None, co_paused = False,
     co_scoreboard_frozen_at = None, co_public_scoreboard = False, co_ctftime_enabled = False,
     co_rules_override = None, co_rules_display_only = False, co_status = Not_Started,
     co_started_event_fired = False, co_ended_event_fired = False, co_created_at = 0\<rparr>"

definition blank_challenge :: "ident \<Rightarrow> ident \<Rightarrow> challenge" where
  "blank_challenge c i = \<lparr>ch_id = i, ch_competition_id = c, ch_title = i, ch_description = PNone,
     ch_category_id = None, ch_points = 100, ch_scoring_type = Static_Scoring,
     ch_min_points = None, ch_decay = None, ch_state = Draft, ch_release_at = None,
     ch_prerequisites = None, ch_tags = None, ch_difficulty = None, ch_connection_info = None,
     ch_flag_type = Static_Flag, ch_case_insensitive = False, ch_flag_hash = None,
     ch_flag_salt = None, ch_flag_regex = None, ch_choices = None, ch_created_at = 0\<rparr>"

definition blank_user :: "ident \<Rightarrow> user" where
  "blank_user u = \<lparr>us_id = u, us_email = None, us_password_hash = '''', us_display_name = u,
     us_is_active = True, us_email_verified_at = None, us_username_changed_at = None,
     us_created_at = 0\<rparr>"

text \<open>\<open>Challenge.has_flag\<close>.\<close>

definition has_flag :: "challenge \<Rightarrow> bool" where
  "has_flag ch =
     (if ch_flag_type ch = Regex_Flag then ch_flag_regex ch \<noteq> None
      else if ch_flag_type ch = Multiple_Choice
        then ch_flag_hash ch \<noteq> None \<and> coalesce (ch_choices ch) [] \<noteq> []
      else ch_flag_hash ch \<noteq> None)"

text \<open>\<open>db.get(Model, id)\<close>.\<close>

definition get_competition :: "db \<Rightarrow> ident \<Rightarrow> competition option" where
  "get_competition d c = find (\<lambda>r. co_id r = c) (db_competitions d)"

definition get_user :: "db \<Rightarrow> ident \<Rightarrow> user option" where
  "get_user d u = find (\<lambda>r. us_id r = u) (db_users d)"

definition get_challenge :: "db \<Rightarrow> ident \<Rightarrow> challenge option" where
  "get_challenge d c = find (\<lambda>r. ch_id r = c) (db_challenges d)"

definition get_team :: "db \<Rightarrow> ident \<Rightarrow> team option" where
  "get_team d t = find (\<lambda>r. te_id r = t) (db_teams d)"

definition get_role :: "db \<Rightarrow> ident \<Rightarrow> role option" where
  "get_role d r = find (\<lambda>x. ro_id x = r) (db_roles d)"

text \<open>
  What a handler returns: its response or the exception it raised, the database after it, and
  the events it put on the bus, in order.
\<close>

type_synonym 'a outcome = "'a res \<times> db \<times> event list"

definition raise :: "db \<Rightarrow> int \<Rightarrow> string \<Rightarrow> 'a outcome" where
  "raise d code msg = (Inl (HTTPException code msg), d, [])"

end
