(* ===== verification/Permissions.thy ===== *)
theory Permissions
  imports Data_Model
begin

text \<open>
  Role based access control: the permission catalog and the built-in role sets
  (\<open>auth/permissions.py\<close>), the identity a bearer token resolves to and the one permission
  check every route goes through (\<open>auth/deps.py\<close>), and the membership helpers
  (\<open>auth/membership.py\<close>). The check reads the rows of \<open>roles\<close> joined with
  \<open>role_assignments\<close>; \<open>permission_oracle\<close> is the contract its clients rely on.
  Token hashing and JWT decoding are parameters.
\<close>

section \<open>The catalog\<close>

datatype permission = Permission
  (pm_key: string) (pm_category: string) (pm_scope: role_scope) (pm_reserved: bool)

definition PERMISSIONS :: "permission list" where
  "PERMISSIONS =
    [Permission ''create_competition'' ''Competition Management'' Global_Scope False,
     Permission ''edit_competition'' ''Competition Management'' Competition_Scope False,
     Permission ''delete_competition'' ''Competition Management'' Competition_Scope False,
     Permission ''manage_schedule'' ''Competition Management'' Competition_Scope False,
     Permission ''manage_modules'' ''Competition Management'' Competition_Scope False,
     Permission ''generate_report'' ''Competition Management'' Competition_Scope False,
     Permission ''manage_invite_links'' ''Competition Management'' Competition_Scope False,
     Permission ''challenge_view'' ''Challenges'' Competition_Scope False,
     Permission ''challenge_create'' ''Challenges'' Competition_Scope False,
     Permission ''challenge_edit'' ''Challenges'' Competition_Scope False,
     Permission ''challenge_delete'' ''Challenges'' Competition_Scope False,
     Permission ''challenge_publish'' ''Challenges'' Competition_Scope False,
     Permission ''score_override'' ''Scoring'' Competition_Scope False,
     Permission ''scoreboard_freeze'' ''Scoring'' Competition_Scope False,
     Permission ''team_view_all'' ''Teams'' Competition_Scope False,
     Permission ''team_edit_any'' ''Teams'' Competition_Scope False,
     Permission ''team_disqualify'' ''Teams'' Competition_Scope False,
     Permission ''ticket_view'' ''Support Tickets'' Competition_Scope False,
     Permission ''ticket_respond'' ''Support Tickets'' Competition_Scope False,
     Permission ''ticket_assign'' ''Support Tickets'' Competition_Scope False,
     Permission ''ticket_view_internal_notes'' ''Support Tickets'' Competition_Scope False,
     Permission ''announcement_create'' ''Announcements'' Competition_Scope False,
     Permission ''announcement_delete'' ''Announcements'' Competition_Scope False,
     Permission ''feedback_manage'' ''Feedback'' Competition_Scope False,
     Permission ''feedback_view_responses'' ''Feedback'' Competition_Scope False,
     Permission ''feedback_submit'' ''Feedback'' Competition_Scope False,
     Permission ''manage_certificates'' ''Certificates'' Competition_Scope False,
     Permission ''manage_users'' ''Users & Roles'' Global_Scope False,
     Permission ''manage_roles'' ''Users & Roles'' Global_Scope False,
     Permission ''view_all_users'' ''Users & Roles'' Global_Scope False,
     Permission ''manage_api_tokens'' ''Users & Roles'' Global_Scope False,
     Permission ''manage_site_settings'' ''Site Settings'' Global_Scope False,
     Permission ''manage_auth_providers'' ''Site Settings'' Global_Scope False,
     Permission ''manage_ai'' ''Site Settings'' Global_Scope False,
     Permission ''manage_pages'' ''Site Settings'' Global_Scope False,
     Permission ''ai_view_transcripts'' ''AI Assistants'' Competition_Scope False,
     Permission ''view_competition_analytics'' ''Analytics'' Competition_Scope False,
     Permission ''view_global_analytics'' ''Analytics'' Global_Scope False,
     Permission ''view_submissions'' ''Analytics'' Competition_Scope False,
     Permission ''customize_dashboard'' ''Dashboard'' Competition_Scope False,
     Permission ''manage_dashboard_widgets'' ''Dashboard'' Competition_Scope False,
     Permission ''automation_view'' ''Automations'' Competition_Scope False,
     Permission ''automation_create'' ''Automations'' Competition_Scope False,
     Permission ''automation_edit'' ''Automations'' Competition_Scope False,
     Permission ''view_audit_log'' ''Audit'' Global_Scope False,
     Permission ''manage_instance_infra'' ''Site Settings'' Global_Scope False,
     Permission ''instance_launch'' ''Challenge Instances'' Competition_Scope False,
     Permission ''instance_view'' ''Challenge Instances'' Competition_Scope False,
     Permission ''instance_manage'' ''Challenge Instances'' Competition_Scope False,
     Permission ''manage_judge_infra'' ''Site Settings'' Global_Scope False,
     Permission ''judging_view'' ''Code Judge'' Competition_Scope False,
     Permission ''judging_rejudge'' ''Code Judge'' Competition_Scope False,
     Permission ''install_content_pack'' ''Marketplace'' Global_Scope False,
     Permission ''manage_marketplace'' ''Marketplace'' Global_Scope False]"

definition find_permission :: "string \<Rightarrow> permission option" where
  "find_permission k = find (\<lambda>p. pm_key p = k) PERMISSIONS"

definition is_known :: "string \<Rightarrow> bool" where
  "is_known k = (find_permission k \<noteq> None)"

text \<open>\<open>scope_of\<close> raises \<open>KeyError\<close> on an unknown key, here \<open>None\<close>.\<close>

definition scope_of :: "string \<Rightarrow> role_scope option" where
  "scope_of k = map_option pm_scope (find_permission k)"

definition ADMINISTRATOR_PERMISSIONS :: "string list" where
  "ADMINISTRATOR_PERMISSIONS = map pm_key PERMISSIONS"

definition JUDGE_PERMISSIONS :: "string list" where
  "JUDGE_PERMISSIONS =
    [''edit_competition'', ''manage_schedule'', ''manage_modules'', ''generate_report'',
     ''manage_invite_links'', ''challenge_view'', ''challenge_create'', ''challenge_edit'',
     ''challenge_delete'', ''challenge_publish'', ''score_override'', ''scoreboard_freeze'',
     ''team_view_all'', ''team_edit_any'', ''team_disqualify'', ''ticket_view'',
     ''ticket_respond'', ''ticket_assign'', ''ticket_view_internal_notes'',
     ''announcement_create'', ''announcement_delete'', ''feedback_manage'',
     ''feedback_view_responses'', ''feedback_submit'', ''manage_certificates'',
     ''view_competition_analytics'', ''view_submissions'', ''ai_view_transcripts'',
     ''customize_dashboard'', ''automation_view'', ''automation_create'', ''automation_edit'',
     ''instance_view'', ''instance_manage'', ''instance_launch'', ''judging_view'',
     ''judging_rejudge'']"

definition PARTICIPANT_PERMISSIONS :: "string list" where
  "PARTICIPANT_PERMISSIONS =
    [''challenge_view'', ''ticket_view'', ''ticket_respond'', ''feedback_submit'',
     ''instance_launch'']"

section \<open>The permission check\<close>

text \<open>
  \<open>select(Role.permissions, Role.scope, RoleAssignment.competition_id)\<close> joined on the role
  id, for one user.
\<close>

definition role_rows :: "db \<Rightarrow> ident \<Rightarrow> (string list \<times> role_scope \<times> ident option) list" where
  "role_rows d u =
     concat (map (\<lambda>a. map (\<lambda>r. (ro_permissions r, ro_scope r, ra_competition_id a))
                          (filter (\<lambda>r. ro_id r = ra_role_id a) (db_roles d)))
       (filter (\<lambda>a. ra_user_id a = u) (db_assignments d)))"

fun check_rows ::
  "string \<Rightarrow> ident option \<Rightarrow> (string list \<times> role_scope \<times> ident option) list \<Rightarrow> bool" where
  "check_rows k c [] = False"
| "check_rows k c ((perms, scope, ac) # rows) =
     (if k \<notin> set perms then check_rows k c rows
      else (case ac of
              None \<Rightarrow> if scope = Global_Scope then True else check_rows k c rows
            | Some a \<Rightarrow> if c \<noteq> None \<and> Some a = c then True else check_rows k c rows))"

definition user_has_permission :: "db \<Rightarrow> ident \<Rightarrow> string \<Rightarrow> ident option \<Rightarrow> bool" where
  "user_has_permission d u k c = check_rows k c (role_rows d u)"

definition users_with_permission :: "db \<Rightarrow> string \<Rightarrow> ident option \<Rightarrow> ident set" where
  "users_with_permission d k c =
     set (concat (map (\<lambda>a. map (\<lambda>r. ra_user_id a)
                          (filter (\<lambda>r. ro_id r = ra_role_id a \<and> k \<in> set (ro_permissions r)) (db_roles d)))
       (filter (\<lambda>a. ra_competition_id a = c \<or> ra_competition_id a = None) (db_assignments d))))"

text \<open>The competition context of a request: its path parameter, else its query parameter.\<close>

definition competition_id_from_request :: "string option \<Rightarrow> string option \<Rightarrow> string option" where
  "competition_id_from_request path_param query_param =
     (case path_param of
        Some p \<Rightarrow> if p \<noteq> [] then Some p else query_param
      | None \<Rightarrow> query_param)"

text \<open>
  \<open>require_permission key\<close> fails when the route is declared if the key is unknown
  (\<open>None\<close>); otherwise it is the dependency that lets a request through or answers 403.
\<close>

definition require_permission ::
  "string \<Rightarrow> (db \<Rightarrow> ident \<Rightarrow> string option \<Rightarrow> string option \<Rightarrow> ident res) option" where
  "require_permission k =
     (if \<not> is_known k then None
      else Some (\<lambda>d u path_param query_param.
        let c = (if scope_of k = Some Global_Scope then None
                 else competition_id_from_request path_param query_param) in
        if \<not> user_has_permission d u k c
        then Inl (HTTPException 403 (''Missing permission: '' @ k))
        else Inr u))"

section \<open>Identity\<close>

definition API_TOKEN_PREFIX :: string where
  "API_TOKEN_PREFIX = ''flp_''"

definition LAST_USED_RESOLUTION :: time where
  "LAST_USED_RESOLUTION = 5 * 60 * 1000000"

text \<open>
  \<open>_touch_last_used\<close>: at most one write per window, dropped when its commit fails
  (\<open>commit_ok\<close>).
\<close>

definition touch_last_used :: "bool \<Rightarrow> time \<Rightarrow> api_token \<Rightarrow> db \<Rightarrow> db" where
  "touch_last_used commit_ok now tok d =
     (if (case at_last_used_at tok of Some t \<Rightarrow> now - t < LAST_USED_RESOLUTION | None \<Rightarrow> False)
         \<or> \<not> commit_ok
      then d
      else d\<lparr>db_api_tokens := update_where (\<lambda>r. at_id r = at_id tok)
               (\<lambda>r. r\<lparr>at_last_used_at := Some now\<rparr>) (db_api_tokens d)\<rparr>)"

definition resolve_api_token ::
  "(string \<Rightarrow> string) \<Rightarrow> bool \<Rightarrow> time \<Rightarrow> string \<Rightarrow> db \<Rightarrow> user res \<times> db" where
  "resolve_api_token hash_api_token commit_ok now raw d =
     (case find (\<lambda>t. at_token_hash t = hash_api_token raw) (db_api_tokens d) of
        None \<Rightarrow> (Inl (HTTPException 401 ''Invalid or revoked API token''), d)
      | Some tok \<Rightarrow>
          if at_revoked_at tok \<noteq> None
          then (Inl (HTTPException 401 ''Invalid or revoked API token''), d)
          else if at_expires_at tok < now
          then (Inl (HTTPException 401 ''API token has expired''), d)
          else (case get_user d (at_user_id tok) of
                  None \<Rightarrow> (Inl (HTTPException 401 ''User no longer exists''), d)
                | Some u \<Rightarrow>
                    if \<not> us_is_active u
                    then (Inl (HTTPException 401 ''This account has been disabled''), d)
                    else (Inr u, touch_last_used commit_ok now tok d)))"

text \<open>
  \<open>decode_access_token\<close> is \<open>None\<close> where PyJWT raises, else the \<open>sub\<close> claim, which
  may be missing.
\<close>

definition get_current_user ::
  "(string \<Rightarrow> string) \<Rightarrow> (string \<Rightarrow> ident option option) \<Rightarrow> bool \<Rightarrow> time \<Rightarrow> string option \<Rightarrow> db
   \<Rightarrow> user res \<times> db" where
  "get_current_user hash_api_token decode_access_token commit_ok now creds d =
     (case creds of
        None \<Rightarrow> (Inl (HTTPException 401 ''Not authenticated''), d)
      | Some raw \<Rightarrow>
          if take (length API_TOKEN_PREFIX) raw = API_TOKEN_PREFIX
          then resolve_api_token hash_api_token commit_ok now raw d
          else (case decode_access_token raw of
                  None \<Rightarrow> (Inl (HTTPException 401 ''Invalid or expired token''), d)
                | Some sub \<Rightarrow>
                    (case Option.bind sub (get_user d) of
                       None \<Rightarrow> (Inl (HTTPException 401 ''User no longer exists''), d)
                     | Some u \<Rightarrow>
                         if \<not> us_is_active u
                         then (Inl (HTTPException 401 ''This account has been disabled''), d)
                         else (Inr u, d))))"

section \<open>Membership\<close>

text \<open>
  The sets \<open>effective_permissions\<close> builds and then sorts for the response: one for the global
  assignments, one per competition.
\<close>

fun collect_permissions ::
  "(string list \<times> role_scope \<times> ident option) list \<Rightarrow> string set \<Rightarrow> (ident \<Rightarrow> string set option)
   \<Rightarrow> string set \<times> (ident \<Rightarrow> string set option)" where
  "collect_permissions [] g m = (g, m)"
| "collect_permissions ((perms, scope, ac) # rows) g m =
     (case ac of
        None \<Rightarrow> collect_permissions rows (if scope = Global_Scope then g \<union> set perms else g) m
      | Some c \<Rightarrow> collect_permissions rows g (m(c \<mapsto> coalesce (m c) {} \<union> set perms)))"

definition effective_permissions ::
  "db \<Rightarrow> ident \<Rightarrow> string list \<times> (ident \<Rightarrow> string list option)" where
  "effective_permissions d u =
     (let (g, m) = collect_permissions (role_rows d u) {} (\<lambda>_. None) in
      (sorted_list_of_set g, \<lambda>c. map_option sorted_list_of_set (m c)))"

definition participant_role :: "db \<Rightarrow> role option" where
  "participant_role d = find (\<lambda>r. ro_name r = ''Participant'') (db_roles d)"

definition ensure_participant_role :: "ident \<Rightarrow> db \<Rightarrow> ident \<Rightarrow> ident \<Rightarrow> bool \<times> db" where
  "ensure_participant_role new_id d c u =
     (case participant_role d of
        None \<Rightarrow> (False, d)
      | Some role \<Rightarrow>
          if exists_where (\<lambda>a. ra_user_id a = u \<and> ra_competition_id a = Some c
                               \<and> ra_role_id a = ro_id role) (db_assignments d)
          then (False, d)
          else (True, d\<lparr>db_assignments := db_assignments d
                  @ [\<lparr>ra_id = new_id, ra_user_id = u, ra_competition_id = Some c,
                       ra_role_id = ro_id role\<rparr>]\<rparr>))"

definition member_competition_ids :: "db \<Rightarrow> ident \<Rightarrow> ident set" where
  "member_competition_ids d u =
     set (List.map_filter ra_competition_id (filter (\<lambda>a. ra_user_id a = u) (db_assignments d)))"

definition sees_every_competition :: "db \<Rightarrow> ident \<Rightarrow> bool" where
  "sees_every_competition d u =
     list_ex (\<lambda>(perms, scope, ac). ac = None \<and> scope = Global_Scope
        \<and> list_ex (\<lambda>k. is_known k \<and> scope_of k = Some Competition_Scope) perms) (role_rows d u)"

section \<open>What the check decides\<close>

text \<open>
  \<open>grants\<close> is the rule the documentation of the check states: a row grants a permission
  site-wide when it is an unscoped assignment of a global role, and in one competition when it
  is an assignment scoped to it.
\<close>

fun grants :: "string \<Rightarrow> ident option \<Rightarrow> string list \<times> role_scope \<times> ident option \<Rightarrow> bool" where
  "grants k c (perms, scope, ac) =
     (k \<in> set perms \<and> (ac = None \<and> scope = Global_Scope \<or> ac \<noteq> None \<and> ac = c))"

lemma check_rows_iff: "check_rows k c rows \<longleftrightarrow> list_ex (grants k c) rows"
  by (induction k c rows rule: check_rows.induct) (auto split: option.splits)

lemma role_rows_ex:
  "list_ex P (role_rows d u) \<longleftrightarrow>
     (\<exists>a\<in>set (db_assignments d). \<exists>r\<in>set (db_roles d). ra_user_id a = u \<and> ra_role_id a = ro_id r
        \<and> P (ro_permissions r, ro_scope r, ra_competition_id a))"
proof -
  have "set (role_rows d u) =
    (\<Union>a\<in>{a \<in> set (db_assignments d). ra_user_id a = u}.
       (\<lambda>r. (ro_permissions r, ro_scope r, ra_competition_id a)) `
         {r \<in> set (db_roles d). ro_id r = ra_role_id a})"
    by (simp add: role_rows_def)
  then show ?thesis by (simp add: list_ex_iff eq_commute [of "ra_role_id _"]) blast
qed

lemma user_has_permission_iff:
  "user_has_permission d u k c \<longleftrightarrow>
     (\<exists>a\<in>set (db_assignments d). \<exists>r\<in>set (db_roles d). ra_user_id a = u \<and> ra_role_id a = ro_id r
        \<and> k \<in> set (ro_permissions r)
        \<and> (ra_competition_id a = None \<and> ro_scope r = Global_Scope
           \<or> ra_competition_id a \<noteq> None \<and> ra_competition_id a = c))"
  by (simp add: user_has_permission_def check_rows_iff role_rows_ex)

text \<open>What one assignment row confers, through the role it names.\<close>

definition confers :: "role list \<Rightarrow> role_assignment \<Rightarrow> string \<Rightarrow> ident option \<Rightarrow> bool" where
  "confers roles a k c =
     (\<exists>r\<in>set roles. ra_role_id a = ro_id r \<and> k \<in> set (ro_permissions r)
        \<and> (ra_competition_id a = None \<and> ro_scope r = Global_Scope
           \<or> ra_competition_id a \<noteq> None \<and> ra_competition_id a = c))"

lemma user_has_permission_confers:
  "user_has_permission d u k c \<longleftrightarrow>
     (\<exists>a\<in>set (db_assignments d). ra_user_id a = u \<and> confers (db_roles d) a k c)"
  unfolding user_has_permission_iff confers_def by blast

lemma user_has_permission_cong:
  assumes "db_roles d' = db_roles d" "db_assignments d' = db_assignments d"
  shows "user_has_permission d' = user_has_permission d"
  by (intro ext) (simp add: user_has_permission_def role_rows_def assms)

text \<open>The contract a client of the check relies on: a site-wide grant holds in every competition.\<close>

locale permission_oracle =
  fixes has :: "ident \<Rightarrow> string \<Rightarrow> ident option \<Rightarrow> bool"
  assumes global_everywhere: "has u k None \<Longrightarrow> has u k (Some c)"
begin

lemma not_here_not_global: "\<not> has u k (Some c) \<Longrightarrow> \<not> has u k None"
  using global_everywhere by blast

end

interpretation perm: permission_oracle "user_has_permission d" for d
  by unfold_locales (fastforce simp: user_has_permission_iff)

section \<open>Properties\<close>

fun scoped_grant :: "string \<Rightarrow> ident \<Rightarrow> string list \<times> role_scope \<times> ident option \<Rightarrow> bool" where
  "scoped_grant k c (perms, scope, ac) = (k \<in> set perms \<and> ac = Some c)"

lemma collect_permissions_spec:
  "k \<in> fst (collect_permissions rows g m) \<longleftrightarrow> k \<in> g \<or> list_ex (grants k None) rows"
  "k \<in> coalesce (snd (collect_permissions rows g m) c) {} \<longleftrightarrow>
     k \<in> coalesce (m c) {} \<or> list_ex (scoped_grant k c) rows"
  by (induction rows g m rule: collect_permissions.induct) (auto split: option.splits)

definition finite_sets :: "string set \<times> (ident \<Rightarrow> string set option) \<Rightarrow> bool" where
  "finite_sets gm = (finite (fst gm) \<and> (\<forall>c. finite (coalesce (snd gm c) {})))"

lemma collect_permissions_finite:
  "finite_sets (g, m) \<Longrightarrow> finite_sets (collect_permissions rows g m)"
proof (induction rows g m rule: collect_permissions.induct)
  case (1 g m)
  then show ?case by simp
next
  case (2 perms scope ac rows g m)
  show ?case
  proof (cases ac)
    case None
    with 2(3) have "finite_sets (if scope = Global_Scope then g \<union> set perms else g, m)"
      by (simp add: finite_sets_def)
    with None show ?thesis by (simp add: 2(1))
  next
    case (Some c)
    with 2(3) have "finite_sets (g, m(c \<mapsto> coalesce (m c) {} \<union> set perms))"
      by (simp add: finite_sets_def)
    with Some 2(2) [OF Some] show ?thesis by (simp add: fun_upd_def)
  qed
qed

lemma grants_split:
  "grants k c row \<longleftrightarrow> grants k None row \<or> (\<exists>c'. c = Some c' \<and> scoped_grant k c' row)"
  by (cases row) auto

text \<open>The two halves of the report, each as the check reads it.\<close>

lemma effective_global_iff:
  "k \<in> set (fst (effective_permissions d u)) \<longleftrightarrow> list_ex (grants k None) (role_rows d u)"
proof -
  obtain g m where gm: "collect_permissions (role_rows d u) {} (\<lambda>_. None) = (g, m)"
    by (cases "collect_permissions (role_rows d u) {} (\<lambda>_. None)") auto
  have "finite g"
    using collect_permissions_finite [of "{}" "\<lambda>_. None" "role_rows d u"]
    by (simp add: finite_sets_def gm)
  then show ?thesis
    using collect_permissions_spec(1) [of k "role_rows d u" "{}" "\<lambda>_. None", unfolded gm, simplified]
    by (simp add: effective_permissions_def gm)
qed

lemma effective_scoped_iff:
  "k \<in> set (coalesce (snd (effective_permissions d u) c) []) \<longleftrightarrow>
     list_ex (scoped_grant k c) (role_rows d u)"
proof -
  obtain g m where gm: "collect_permissions (role_rows d u) {} (\<lambda>_. None) = (g, m)"
    by (cases "collect_permissions (role_rows d u) {} (\<lambda>_. None)") auto
  have "finite (coalesce (m c) {})"
    using collect_permissions_finite [of "{}" "\<lambda>_. None" "role_rows d u"]
    by (simp add: finite_sets_def gm)
  then show ?thesis
    using collect_permissions_spec(2) [of k "role_rows d u" "{}" "\<lambda>_. None" c, unfolded gm, simplified]
    by (cases "m c") (auto simp: effective_permissions_def gm)
qed

lemma effective_global_holds: "k \<in> set (fst (effective_permissions d u)) \<longleftrightarrow> user_has_permission d u k None"
  unfolding effective_global_iff user_has_permission_def check_rows_iff ..

text \<open>
  C13: The permissions reported to the client are exactly those the check enforces: a user holds a
  permission in a context iff it is in the reported global set or, in a competition, in the set
  reported for that competition.
\<close>

theorem effective_permissions_enforced:
  "user_has_permission d u k c \<longleftrightarrow>
     k \<in> set (fst (effective_permissions d u))
     \<or> (\<exists>c'. c = Some c' \<and> k \<in> set (coalesce (snd (effective_permissions d u) c') []))"
  unfolding effective_global_iff effective_scoped_iff user_has_permission_def check_rows_iff list_ex_iff
  using grants_split [of k c] by blast

text \<open>
  Competition isolation: what a user may do in a context depends only on that user's own
  assignments that are unscoped or scoped to this very competition; every other row of the
  assignments table could be missing.
\<close>

theorem permission_isolated:
  "user_has_permission (d\<lparr>db_assignments :=
       filter (\<lambda>a. ra_user_id a = u \<and> (ra_competition_id a = None \<or> ra_competition_id a = c))
         (db_assignments d)\<rparr>) u k c
   = user_has_permission d u k c"
  by (auto simp: user_has_permission_iff)

text \<open>
  A route that requires a global permission lets nobody through but the holders of a
  site-wide assignment of a global role: a user whose unscoped assignments, if any, all name
  competition roles gets 403 whatever the request says its competition is.
\<close>

theorem global_route_refused:
  assumes "scope_of k = Some Global_Scope"
    and "\<forall>a\<in>set (db_assignments d). \<forall>r\<in>set (db_roles d).
           ra_user_id a = u \<and> ra_role_id a = ro_id r \<and> ra_competition_id a = None \<longrightarrow>
           ro_scope r = Competition_Scope"
  shows "\<exists>dependency. require_permission k = Some dependency
           \<and> dependency d u path_param query_param
             = Inl (HTTPException 403 (''Missing permission: '' @ k))"
proof -
  have "is_known k" using assms(1) by (auto simp: is_known_def scope_of_def)
  moreover have "\<not> user_has_permission d u k None"
    using assms(2) by (fastforce simp: user_has_permission_iff)
  ultimately show ?thesis using assms(1) by (simp add: require_permission_def Let_def)
qed

definition judge_db :: db where
  "judge_db = empty_db\<lparr>
     db_roles := [\<lparr>ro_id = ''r1'', ro_name = ''Judge'', ro_description = '''', ro_is_system = True,
                   ro_scope = Competition_Scope, ro_permissions = JUDGE_PERMISSIONS\<rparr>],
     db_assignments := [\<lparr>ra_id = ''a1'', ra_user_id = ''u'', ra_competition_id = Some ''A'', ra_role_id = ''r1''\<rparr>,
                        \<lparr>ra_id = ''a2'', ra_user_id = ''v'', ra_competition_id = None, ra_role_id = ''r1''\<rparr>]\<rparr>"

theorem global_route_refused_witness:
  "\<exists>dependency. require_permission ''manage_users'' = Some dependency
     \<and> dependency judge_db ''v'' (Some ''A'') None
       = Inl (HTTPException 403 (''Missing permission: '' @ ''manage_users''))"
  by (rule global_route_refused)
    (simp add: scope_of_def find_permission_def PERMISSIONS_def,
     simp add: judge_db_def empty_db_def)

text \<open>
  The audience query answers exactly the users who pass the check in that competition,
  and besides them those an unscoped assignment of a competition role, which the check ignores as
  malformed, gives the permission.
\<close>

theorem users_with_permission_audience:
  "v \<in> users_with_permission d k (Some c) \<longleftrightarrow>
     user_has_permission d v k (Some c)
     \<or> (\<exists>a\<in>set (db_assignments d). \<exists>r\<in>set (db_roles d). ra_user_id a = v \<and> ra_role_id a = ro_id r
          \<and> k \<in> set (ro_permissions r) \<and> ra_competition_id a = None
          \<and> ro_scope r = Competition_Scope)"
proof -
  have "v \<in> users_with_permission d k (Some c) \<longleftrightarrow>
     (\<exists>a\<in>set (db_assignments d). \<exists>r\<in>set (db_roles d). ra_user_id a = v \<and> ra_role_id a = ro_id r
        \<and> k \<in> set (ro_permissions r)
        \<and> (ra_competition_id a = None \<or> ra_competition_id a = Some c))"
    by (force simp: users_with_permission_def)
  moreover have "x = Global_Scope \<or> x = Competition_Scope" for x
    by (cases x) auto
  ultimately show ?thesis
    unfolding user_has_permission_iff by fastforce
qed

lemma judge_db_audience_gap:
  "''v'' \<in> users_with_permission judge_db ''challenge_edit'' (Some ''A'')
   \<and> \<not> user_has_permission judge_db ''v'' ''challenge_edit'' (Some ''A'')"
  by (simp add: users_with_permission_def user_has_permission_def role_rows_def judge_db_def
      empty_db_def JUDGE_PERMISSIONS_def)

text \<open>
  Granting the Participant role changes exactly one thing: in that competition that user
  gains the role's permissions. No other user, no other competition and no global check is
  affected, and granting it twice adds nothing.
\<close>

theorem ensure_participant_role_effect:
  assumes "distinct (map ro_id (db_roles d))"
    and "participant_role d = Some role"
  shows "(user_has_permission (snd (ensure_participant_role i d c u)) v k ctx \<longleftrightarrow>
           user_has_permission d v k ctx
           \<or> v = u \<and> ctx = Some c \<and> k \<in> set (ro_permissions role))
         \<and> ensure_participant_role j (snd (ensure_participant_role i d c u)) c u
           = (False, snd (ensure_participant_role i d c u))"
proof (rule conjI)
  let ?new = "\<lparr>ra_id = i, ra_user_id = u, ra_competition_id = Some c, ra_role_id = ro_id role\<rparr>"
  have role: "role \<in> set (db_roles d)"
    using assms(2) by (auto simp: participant_role_def dest: find_Some_in)
  have uniq: "r = role" if "r \<in> set (db_roles d)" "ro_id r = ro_id role" for r
    using assms(1) role that by (metis (no_types) distinct_map inj_onD)
  have conf: "confers (db_roles d) a k ctx \<longleftrightarrow> ctx = Some c \<and> k \<in> set (ro_permissions role)"
    if "ra_competition_id a = Some c" "ra_role_id a = ro_id role" for a
    using role that by (auto simp: confers_def dest: uniq [OF _ sym])
  have roles: "db_roles (snd (ensure_participant_role i d c u)) = db_roles d"
    by (simp add: ensure_participant_role_def split: option.split)
  show "user_has_permission (snd (ensure_participant_role i d c u)) v k ctx \<longleftrightarrow>
           user_has_permission d v k ctx
           \<or> v = u \<and> ctx = Some c \<and> k \<in> set (ro_permissions role)"
  proof (cases "exists_where (\<lambda>a. ra_user_id a = u \<and> ra_competition_id a = Some c
                               \<and> ra_role_id a = ro_id role) (db_assignments d)")
    case True
    then obtain a where a: "a \<in> set (db_assignments d)" "ra_user_id a = u"
        "ra_competition_id a = Some c" "ra_role_id a = ro_id role"
      by (auto simp only: exists_where_iff)
    have "user_has_permission d v k ctx" if "v = u" "ctx = Some c" "k \<in> set (ro_permissions role)"
      unfolding user_has_permission_confers using a that conf [OF a(3,4)] by blast
    with True show ?thesis by (auto simp: ensure_participant_role_def assms(2))
  next
    case False
    then have "db_assignments (snd (ensure_participant_role i d c u)) = db_assignments d @ [?new]"
      by (simp add: ensure_participant_role_def assms(2))
    then show ?thesis
      unfolding user_has_permission_confers roles using conf [of ?new] by auto
  qed
  show "ensure_participant_role j (snd (ensure_participant_role i d c u)) c u
           = (False, snd (ensure_participant_role i d c u))"
    using assms(2)
    by (auto simp: ensure_participant_role_def exists_where_iff participant_role_def)
qed


definition participant_db :: db where
  "participant_db = empty_db\<lparr>db_roles := [\<lparr>ro_id = ''p'', ro_name = ''Participant'',
     ro_description = '''', ro_is_system = True, ro_scope = Competition_Scope,
     ro_permissions = PARTICIPANT_PERMISSIONS\<rparr>]\<rparr>"

lemma ensure_participant_role_effect_witness:
  "user_has_permission (snd (ensure_participant_role ''a'' participant_db ''A'' ''u''))
     ''u'' ''challenge_view'' (Some ''A'')"
  using ensure_participant_role_effect [of participant_db "hd (db_roles participant_db)" "''a''" "''A''" "''u''"
      "''u''" "''challenge_view''" "Some ''A''"]
  by (simp add: participant_role_def participant_db_def empty_db_def PARTICIPANT_PERMISSIONS_def)

lemma get_user_SomeD: "get_user d i = Some v \<Longrightarrow> us_id v = i \<and> v \<in> set (db_users d)"
  by (auto simp: get_user_def dest: find_Some_in)

lemma touch_last_used_frame:
  "touch_last_used b now tok d = d\<lparr>db_api_tokens := db_api_tokens (touch_last_used b now tok d)\<rparr>
   \<and> map (at_last_used_at_update (\<lambda>_. None)) (db_api_tokens (touch_last_used b now tok d))
     = map (at_last_used_at_update (\<lambda>_. None)) (db_api_tokens d)"
  by (auto simp: touch_last_used_def intro!: map_update_where)

lemma resolve_api_token_ok:
  assumes "resolve_api_token h b now raw d = (Inr u, d')"
  obtains tok where "tok \<in> set (db_api_tokens d)" "at_token_hash tok = h raw"
    "at_revoked_at tok = None" "now \<le> at_expires_at tok" "at_user_id tok = us_id u"
    "us_is_active u" "u \<in> set (db_users d)" "d' = touch_last_used b now tok d"
proof -
  from assms obtain tok where tok: "find (\<lambda>t. at_token_hash t = h raw) (db_api_tokens d) = Some tok"
    and rest: "at_revoked_at tok = None" "\<not> at_expires_at tok < now"
      "get_user d (at_user_id tok) = Some u" "us_is_active u" "d' = touch_last_used b now tok d"
    by (auto simp: resolve_api_token_def split: option.splits if_splits)
  show ?thesis
    using that [of tok] find_Some_in [OF tok] get_user_SomeD [OF rest(3)] rest by simp
qed

text \<open>
  Authentication fails closed: whenever a request is let through, its user exists and is not
  disabled, and the credential was either a personal token that is on file, unrevoked and
  unexpired and belongs to that user, or a JWT that decodes to that user's id. Serving the request
  touches nothing but the token's \<open>last_used_at\<close>.
\<close>

theorem authentication_fails_closed:
  assumes "get_current_user hash_api_token decode commit_ok now creds d = (Inr u, d')"
  shows "us_is_active u \<and> u \<in> set (db_users d)
    \<and> (\<exists>raw. creds = Some raw \<and>
         ((\<exists>tok\<in>set (db_api_tokens d). at_token_hash tok = hash_api_token raw
             \<and> at_revoked_at tok = None \<and> now \<le> at_expires_at tok \<and> at_user_id tok = us_id u)
          \<or> decode raw = Some (Some (us_id u))))
    \<and> d' = d\<lparr>db_api_tokens := db_api_tokens d'\<rparr>
    \<and> map (at_last_used_at_update (\<lambda>_. None)) (db_api_tokens d')
        = map (at_last_used_at_update (\<lambda>_. None)) (db_api_tokens d)"
proof -
  from assms obtain raw where raw: "creds = Some raw"
    by (auto simp: get_current_user_def split: option.splits)
  show ?thesis
  proof (cases "take (length API_TOKEN_PREFIX) raw = API_TOKEN_PREFIX")
    case True
    with assms raw have "resolve_api_token hash_api_token commit_ok now raw d = (Inr u, d')"
      by (simp add: get_current_user_def)
    then obtain tok where tok: "tok \<in> set (db_api_tokens d)" "at_token_hash tok = hash_api_token raw"
        "at_revoked_at tok = None" "now \<le> at_expires_at tok" "at_user_id tok = us_id u"
      and u: "us_is_active u" "u \<in> set (db_users d)"
      and d': "d' = touch_last_used commit_ok now tok d"
      by (rule resolve_api_token_ok)
    show ?thesis
      using tok u touch_last_used_frame [of commit_ok now tok d] raw unfolding d' by blast
  next
    case False
    with assms raw show ?thesis
      by (auto simp: get_current_user_def bind_eq_Some_conv split: option.splits if_splits
          dest: get_user_SomeD)
  qed
qed

definition token_db :: db where
  "token_db = empty_db\<lparr>
     db_users := [blank_user ''u''],
     db_api_tokens := [\<lparr>at_id = ''t'', at_user_id = ''u'', at_token_hash = ''flp_x'',
       at_expires_at = 10, at_last_used_at = None, at_revoked_at = None\<rparr>]\<rparr>"

lemma authentication_fails_closed_witness:
  "map (at_last_used_at_update (\<lambda>_. None))
      (db_api_tokens (snd (get_current_user id (\<lambda>_. None) True 5 (Some ''flp_x'') token_db)))
   = map (at_last_used_at_update (\<lambda>_. None)) (db_api_tokens token_db)
   \<and> is_ok (fst (get_current_user id (\<lambda>_. None) True 5 (Some ''flp_x'') token_db))"
proof -
  have run: "get_current_user id (\<lambda>_. None) True 5 (Some ''flp_x'') token_db
    = (Inr (blank_user ''u''),
       touch_last_used True 5 (hd (db_api_tokens token_db)) token_db)"
    by (simp add: get_current_user_def resolve_api_token_def API_TOKEN_PREFIX_def token_db_def
        get_user_def empty_db_def blank_user_def)
  show ?thesis using authentication_fails_closed [OF run] by (simp add: run)
qed

end
