(* ===== verification/Competition_Status.thy ===== *)
theory Competition_Status
  imports Permissions
begin

text \<open>
  The gameplay lifecycle of a competition: the gate and its transitions
  (\<open>utils/competition_status.py\<close>), the routes through which a judge starts, stops, archives
  and unarchives (\<open>routers/competitions.py\<close>), and the scheduler tick that follows the
  schedule (\<open>emit_lifecycle_events\<close> of \<open>utils/automation_scheduler.py\<close>).
\<close>

section \<open>The gate\<close>

definition is_playable :: "competition \<Rightarrow> bool" where
  "is_playable c = (co_status c = Running)"

definition has_started :: "competition \<Rightarrow> bool" where
  "has_started c = (co_status c \<noteq> Not_Started)"

definition gate_message :: "comp_status \<Rightarrow> string" where
  "gate_message s =
     (if s = Not_Started then ''This competition hasn't started yet.''
      else if s = Ended then ''This competition has ended.''
      else ''This competition isn't open.'')"

definition require_playable :: "db \<Rightarrow> competition \<Rightarrow> ident \<Rightarrow> unit res" where
  "require_playable d c u =
     (if is_playable c then Inr ()
      else if user_has_permission d u ''challenge_edit'' (Some (co_id c)) then Inr ()
      else Inl (HTTPException 403 (gate_message (co_status c))))"

definition require_started :: "db \<Rightarrow> competition \<Rightarrow> ident \<Rightarrow> unit res" where
  "require_started d c u =
     (if has_started c then Inr ()
      else if user_has_permission d u ''challenge_edit'' (Some (co_id c)) then Inr ()
      else Inl (HTTPException 403 (gate_message (co_status c))))"

section \<open>Transitions\<close>

definition lifecycle_event :: "string \<Rightarrow> competition \<Rightarrow> event" where
  "lifecycle_event name c =
     Event name [(''competition_id'', PStr (co_id c)), (''name'', PStr (co_name c))]"

definition start_transition :: "competition \<Rightarrow> competition \<times> event option" where
  "start_transition c =
     (if co_status c = Running then (c, None)
      else let c1 = c\<lparr>co_status := Running\<rparr> in
        if co_started_event_fired c1 then (c1, None)
        else let c2 = c1\<lparr>co_started_event_fired := True\<rparr> in
          (c2, Some (lifecycle_event ''competition.started'' c2)))"

definition stop_transition :: "competition \<Rightarrow> competition \<times> event option" where
  "stop_transition c =
     (if co_status c = Ended then (c, None)
      else let c1 = c\<lparr>co_status := Ended, co_started_event_fired := True\<rparr> in
        if co_ended_event_fired c1 then (c1, None)
        else let c2 = c1\<lparr>co_ended_event_fired := True\<rparr> in
          (c2, Some (lifecycle_event ''competition.ended'' c2)))"

text \<open>One competition's turn in the scheduler tick: the start boundary, then the end boundary.\<close>

definition cross_start :: "time \<Rightarrow> competition \<Rightarrow> competition \<times> event list" where
  "cross_start now c =
     (if \<not> co_started_event_fired c \<and> (case co_start_at c of None \<Rightarrow> False | Some s \<Rightarrow> s \<le> now)
      then (let c1 = c\<lparr>co_started_event_fired := True\<rparr>;
                c2 = (if co_status c1 = Not_Started then c1\<lparr>co_status := Running\<rparr> else c1) in
            (c2, [lifecycle_event ''competition.started'' c2]))
      else (c, []))"

definition cross_end :: "time \<Rightarrow> competition \<Rightarrow> competition \<times> event list" where
  "cross_end now c =
     (if \<not> co_ended_event_fired c \<and> (case co_end_at c of None \<Rightarrow> False | Some e \<Rightarrow> e \<le> now)
      then (let c1 = c\<lparr>co_ended_event_fired := True, co_status := Ended\<rparr> in
            (c1, [lifecycle_event ''competition.ended'' c1]))
      else (c, []))"

definition lifecycle_due :: "competition \<Rightarrow> bool" where
  "lifecycle_due c =
     (co_archived_at c = None \<and> (\<not> co_started_event_fired c \<or> \<not> co_ended_event_fired c))"

definition tick_competition :: "time \<Rightarrow> competition \<Rightarrow> competition \<times> event list" where
  "tick_competition now c =
     (if lifecycle_due c
      then (let (c1, es1) = cross_start now c; (c2, es2) = cross_end now c1 in (c2, es1 @ es2))
      else (c, []))"

definition emit_lifecycle_events :: "time \<Rightarrow> db \<Rightarrow> db \<times> event list" where
  "emit_lifecycle_events now d =
     (let to_emit = concat (map (snd \<circ> tick_competition now) (db_competitions d)) in
      (d\<lparr>db_competitions := map (fst \<circ> tick_competition now) (db_competitions d)\<rparr>, to_emit))"

section \<open>Routes\<close>

definition put_competition :: "competition \<Rightarrow> db \<Rightarrow> db" where
  "put_competition c d =
     d\<lparr>db_competitions := update_where (\<lambda>r. co_id r = co_id c) (\<lambda>_. c) (db_competitions d)\<rparr>"

definition start_competition :: "ident \<Rightarrow> db \<Rightarrow> competition outcome" where
  "start_competition cid d =
     (case get_competition d cid of
        None \<Rightarrow> raise d 404 ''Competition not found''
      | Some c \<Rightarrow>
          (let (c1, ev) = start_transition c in
           (Inr c1, put_competition c1 d, (case ev of None \<Rightarrow> [] | Some e \<Rightarrow> [e]))))"

definition stop_competition :: "ident \<Rightarrow> db \<Rightarrow> competition outcome" where
  "stop_competition cid d =
     (case get_competition d cid of
        None \<Rightarrow> raise d 404 ''Competition not found''
      | Some c \<Rightarrow>
          (let (c1, ev) = stop_transition c in
           (Inr c1, put_competition c1 d, (case ev of None \<Rightarrow> [] | Some e \<Rightarrow> [e]))))"

text \<open>\<open>retention_days\<close> is the site's retention in days when its auto-delete is on.\<close>

definition archive_competition :: "int option \<Rightarrow> time \<Rightarrow> ident \<Rightarrow> ident \<Rightarrow> db \<Rightarrow> competition outcome" where
  "archive_competition retention_days now u cid d =
     (case get_competition d cid of
        None \<Rightarrow> raise d 404 ''Competition not found''
      | Some c \<Rightarrow>
          if co_archived_at c \<noteq> None then (Inr c, d, [])
          else (let c1 = c\<lparr>co_archived_at := Some now\<rparr>;
                    c2 = (case retention_days of None \<Rightarrow> c1
                          | Some n \<Rightarrow> c1\<lparr>co_purge_after := Some (now + n * 86400000000)\<rparr>) in
            (Inr c2, put_competition c2 d,
             [Event ''competition.archived''
                [(''competition_id'', PStr cid), (''user_id'', PStr u),
                 (''purge_after'', ptime (co_purge_after c2))]])))"

definition unarchive_competition :: "ident \<Rightarrow> ident \<Rightarrow> db \<Rightarrow> competition outcome" where
  "unarchive_competition u cid d =
     (case get_competition d cid of
        None \<Rightarrow> raise d 404 ''Competition not found''
      | Some c \<Rightarrow>
          if co_archived_at c = None then (Inr c, d, [])
          else (let c1 = c\<lparr>co_archived_at := None, co_purge_after := None\<rparr> in
            (Inr c1, put_competition c1 d,
             [Event ''competition.unarchived'' [(''competition_id'', PStr cid), (''user_id'', PStr u)]])))"

section \<open>The lifecycle as a machine\<close>

text \<open>
  Everything that moves a competition through its life, in any order: a judge's start and stop,
  an edit of the schedule, archiving and unarchiving, and scheduler ticks. The state is the
  competition and the names of the lifecycle events emitted so far.
\<close>

datatype lifecycle_op =
    Op_Start
  | Op_Stop
  | Op_Tick time
  | Op_Reschedule "time option" "time option"
  | Op_Archive time
  | Op_Unarchive

fun lifecycle_step :: "competition \<times> string list \<Rightarrow> lifecycle_op \<Rightarrow> competition \<times> string list" where
  "lifecycle_step (c, tr) Op_Start =
     (let (c1, ev) = start_transition c in (c1, tr @ map event_name (case ev of None \<Rightarrow> [] | Some e \<Rightarrow> [e])))"
| "lifecycle_step (c, tr) Op_Stop =
     (let (c1, ev) = stop_transition c in (c1, tr @ map event_name (case ev of None \<Rightarrow> [] | Some e \<Rightarrow> [e])))"
| "lifecycle_step (c, tr) (Op_Tick now) =
     (let (c1, es) = tick_competition now c in (c1, tr @ map event_name es))"
| "lifecycle_step (c, tr) (Op_Reschedule s e) = (c\<lparr>co_start_at := s, co_end_at := e\<rparr>, tr)"
| "lifecycle_step (c, tr) (Op_Archive now) =
     (if co_archived_at c = None then c\<lparr>co_archived_at := Some now\<rparr> else c, tr)"
| "lifecycle_step (c, tr) Op_Unarchive = (c\<lparr>co_archived_at := None, co_purge_after := None\<rparr>, tr)"

lemmas transition_defs = start_transition_def stop_transition_def tick_competition_def
  cross_start_def cross_end_def lifecycle_event_def Let_def

text \<open>
  The dedup flags count what was emitted: no event without its flag, and no second one. (The stop
  of a competition that never started claims the start flag without emitting.)
\<close>

definition events_once :: "competition \<times> string list \<Rightarrow> bool" where
  "events_once s =
     (count_list (snd s) ''competition.started'' \<le> 1
      \<and> (\<not> co_started_event_fired (fst s) \<longrightarrow> count_list (snd s) ''competition.started'' = 0)
      \<and> count_list (snd s) ''competition.ended'' \<le> 1
      \<and> (\<not> co_ended_event_fired (fst s) \<longrightarrow> count_list (snd s) ''competition.ended'' = 0))"

lemma events_once_step [inv_intros]: "events_once s \<Longrightarrow> events_once (lifecycle_step s l)"
  by (cases s; cases l)
    (auto simp: events_once_def transition_defs split: option.splits)

text \<open>An ended competition has claimed its end, and one that was ever opened its start.\<close>

definition flags_claimed :: "competition \<Rightarrow> bool" where
  "flags_claimed c =
     ((co_status c = Ended \<longrightarrow> co_ended_event_fired c)
      \<and> (co_status c = Running \<longrightarrow> co_started_event_fired c))"

lemma flags_claimed_step [inv_intros]:
  "flags_claimed (fst s) \<Longrightarrow> flags_claimed (fst (lifecycle_step s l))"
  by (cases s; cases l) (auto simp: flags_claimed_def transition_defs split: option.splits)

interpretation once: invariant_machine lifecycle_step events_once
  by unfold_locales (rule events_once_step)

interpretation claimed: invariant_machine lifecycle_step "\<lambda>s. flags_claimed (fst s)"
  by unfold_locales (rule flags_claimed_step)

text \<open>A scheduler-side step: everything but a judge's start and stop.\<close>

fun scheduler_op :: "lifecycle_op \<Rightarrow> bool" where
  "scheduler_op Op_Start = False"
| "scheduler_op Op_Stop = False"
| "scheduler_op _ = True"

definition both_claimed :: "comp_status \<Rightarrow> competition \<times> string list \<Rightarrow> bool" where
  "both_claimed st s =
     (co_status (fst s) = st \<and> co_started_event_fired (fst s) \<and> co_ended_event_fired (fst s))"

lemma both_claimed_step [inv_intros]:
  "both_claimed st s \<Longrightarrow> scheduler_op l \<Longrightarrow> both_claimed st (lifecycle_step s l)"
  by (cases s; cases l) (auto simp: both_claimed_def transition_defs lifecycle_due_def)

interpretation settled: invariant_machine
  "\<lambda>s l. if scheduler_op l then lifecycle_step s l else s" "both_claimed st" for st
  by unfold_locales (simp add: both_claimed_step)

lemma foldl_scheduler:
  "\<forall>l\<in>set ls. scheduler_op l \<Longrightarrow>
     foldl lifecycle_step s ls = foldl (\<lambda>s l. if scheduler_op l then lifecycle_step s l else s) s ls"
  by (induction ls arbitrary: s) auto

section \<open>Properties\<close>

text \<open>
  Over the whole life of a competition, whatever starts, stops, restarts, schedule edits,
  archivings and scheduler ticks happen in whatever order, \<open>competition.started\<close> and
  \<open>competition.ended\<close> are each emitted at most once.
\<close>

theorem lifecycle_events_once:
  "count_list (snd (foldl lifecycle_step
       (c\<lparr>co_started_event_fired := False, co_ended_event_fired := False\<rparr>, []) ops))
     ''competition.started'' \<le> 1
   \<and> count_list (snd (foldl lifecycle_step
       (c\<lparr>co_started_event_fired := False, co_ended_event_fired := False\<rparr>, []) ops))
     ''competition.ended'' \<le> 1"
proof -
  have "events_once (foldl lifecycle_step
      (c\<lparr>co_started_event_fired := False, co_ended_event_fired := False\<rparr>, []) ops)"
    by (rule once.run_inv) (simp add: events_once_def)
  then show ?thesis unfolding events_once_def by blast
qed

text \<open>
  C12: A judge's decision stands: after a stop that closes a competition, and after a restart that
  follows it, no scheduler tick at any time, under any edit of the schedule, archiving or
  unarchiving, changes the status again.
\<close>

theorem manual_stop_authoritative:
  assumes "co_status c \<noteq> Ended" and "\<forall>l\<in>set ops. scheduler_op l" and "\<forall>l\<in>set ops'. scheduler_op l"
  shows "co_status (fst (foldl lifecycle_step (c, tr) (Op_Stop # ops))) = Ended
    \<and> co_status (fst (foldl lifecycle_step (c, tr) (Op_Stop # ops @ Op_Start # ops'))) = Running"
proof -
  let ?s = "foldl lifecycle_step (lifecycle_step (c, tr) Op_Stop) ops"
  have "both_claimed Ended (lifecycle_step (c, tr) Op_Stop)"
    using assms(1) by (simp add: both_claimed_def transition_defs)
  then have 1: "both_claimed Ended ?s"
    unfolding foldl_scheduler [OF assms(2)] by (rule settled.run_inv)
  then have "both_claimed Running (lifecycle_step ?s Op_Start)"
    by (cases ?s) (simp add: both_claimed_def transition_defs)
  then have "both_claimed Running (foldl lifecycle_step (lifecycle_step ?s Op_Start) ops')"
    unfolding foldl_scheduler [OF assms(3)] by (rule settled.run_inv)
  with 1 show ?thesis by (simp add: both_claimed_def)
qed

lemma manual_stop_authoritative_witness:
  "co_status (fst (foldl lifecycle_step ((blank_competition ''A'')\<lparr>co_end_at := Some 5\<rparr>, [])
       [Op_Stop, Op_Tick 3, Op_Start, Op_Tick 9])) = Running"
  using manual_stop_authoritative
    [of "(blank_competition ''A'')\<lparr>co_end_at := Some 5\<rparr>" "[Op_Tick 3]" "[Op_Tick 9]" "[]"]
  by (simp add: blank_competition_def)

end
