(* ===== verification/Py_Float.thy ===== *)
theory Py_Float
  imports Prelude "HOL-Library.Log_Nat"
begin

text \<open>
  Python's \<open>float\<close> arithmetic as the scoring code uses it. A float is the rational number it
  denotes; every operation is the exact rational operation followed by \<open>fl\<close>, IEEE 754
  round-to-nearest-even on a 53 bit significand. The exponent range is unbounded: the magnitudes
  that occur here are between \<open>2 ^ -64\<close> and \<open>2 ^ 64\<close>. \<open>round\<close> is Python's
  round-half-to-even.
\<close>

section \<open>Round half to even\<close>

definition round_half_even :: "rat \<Rightarrow> int" where
  "round_half_even x =
     (let f = \<lfloor>x\<rfloor>; d = x - of_int f in
      if d < 1/2 then f else if 1/2 < d then f + 1 else if even f then f else f + 1)"

lemma round_half_even_cases: "round_half_even x = \<lfloor>x\<rfloor> \<or> round_half_even x = \<lfloor>x\<rfloor> + 1"
  by (simp add: round_half_even_def Let_def)

lemma round_half_even_err: "\<bar>of_int (round_half_even x) - x\<bar> \<le> 1/2"
proof -
  have "of_int \<lfloor>x\<rfloor> \<le> x" "x < of_int \<lfloor>x\<rfloor> + 1" by linarith+
  then show ?thesis
    by (auto simp: round_half_even_def Let_def abs_le_iff)
qed

lemma round_half_even_of_int [simp]: "round_half_even (of_int n) = n"
  by (simp add: round_half_even_def)

lemma round_half_even_mono:
  assumes "x \<le> y"
  shows "round_half_even x \<le> round_half_even y"
proof (cases "\<lfloor>x\<rfloor> = \<lfloor>y\<rfloor>")
  case True
  with assms show ?thesis by (simp add: round_half_even_def Let_def)
next
  case False
  with floor_mono [OF assms] have "\<lfloor>x\<rfloor> + 1 \<le> \<lfloor>y\<rfloor>" by linarith
  then show ?thesis using round_half_even_cases [of x] round_half_even_cases [of y] by linarith
qed

lemma round_half_even_near:
  assumes "\<bar>x - of_int n\<bar> < 1/2"
  shows "round_half_even x = n"
proof -
  have "\<bar>of_int (round_half_even x) - of_int n\<bar> < (1::rat)"
    using assms round_half_even_err [of x] by linarith
  then have "\<bar>of_int (round_half_even x - n)\<bar> < (1::rat)" by simp
  then have "\<bar>round_half_even x - n\<bar> < 1" by linarith
  then show ?thesis by linarith
qed

section \<open>Powers of two and the binary exponent\<close>

definition pow2 :: "int \<Rightarrow> rat" where
  "pow2 n = 2 powi n"

lemma pow2_add: "pow2 (m + n) = pow2 m * pow2 n"
  by (simp add: pow2_def power_int_add)

lemma pow2_gt_0 [simp]: "0 < pow2 n"
  by (simp add: pow2_def)

lemma pow2_ge_0 [simp]: "0 \<le> pow2 n" "pow2 n \<noteq> 0"
  using pow2_gt_0 [of n] by linarith+

lemma pow2_mono: "m \<le> n \<Longrightarrow> pow2 m \<le> pow2 n"
  unfolding pow2_def by (rule power_int_increasing) auto

lemma pow2_less_imp: "pow2 m < pow2 n \<Longrightarrow> m < n"
  using pow2_mono [of n m] by linarith

lemma pow2_nonneg: "0 \<le> n \<Longrightarrow> pow2 n = of_int (2 ^ nat n)"
  by (simp add: pow2_def power_int_def)

lemma pow2_significand: "pow2 52 = of_int (2 ^ 52)" "pow2 53 = of_int (2 ^ 53)"
  by (simp_all add: pow2_nonneg)

lemma pow2_diff: "pow2 m = pow2 (m - n) * pow2 n"
  by (simp flip: pow2_add)

lemma pow2_divide: "x / pow2 n = x * pow2 (- n)"
proof -
  have "pow2 (- n) * pow2 n = 1" by (simp add: pow2_def flip: pow2_add power_int_add)
  then have "x * pow2 (- n) * pow2 n = x" by (simp add: mult.assoc)
  then show ?thesis by (simp add: divide_eq_eq)
qed

definition exponent :: "rat \<Rightarrow> int" where
  "exponent x =
     (let (p, q) = quotient_of x; e = bitlen p - bitlen q in
      if pow2 e \<le> x then e else e - 1)"

lemma bitlen_pow2_bounds:
  assumes "0 < p"
  shows "pow2 (bitlen p - 1) \<le> of_int p \<and> of_int p < pow2 (bitlen p)"
proof -
  have "0 \<le> bitlen p - 1" using assms bitlen_eq_zero_iff [of p] bitlen_nonneg [of p] by linarith
  then show ?thesis
    using bitlen_bounds [OF assms] by (simp only: pow2_nonneg bitlen_nonneg of_int_le_iff of_int_less_iff)
qed

lemma exponent_bounds:
  assumes "0 < x"
  shows "pow2 (exponent x) \<le> x \<and> x < pow2 (exponent x + 1)"
proof -
  obtain p q where pq: "quotient_of x = (p, q)" by (cases "quotient_of x")
  then have x: "x = of_int p / of_int q" and q: "0 < q"
    using quotient_of_div quotient_of_denom_pos by blast+
  have qpos: "(0::rat) < of_int q" using q by simp
  with assms x have p: "0 < p" by (simp add: zero_less_divide_iff)
  note P = bitlen_pow2_bounds [OF p] and Q = bitlen_pow2_bounds [OF q]
  let ?e = "bitlen p - bitlen q"
  have "of_int p < pow2 (?e + 1) * pow2 (bitlen q - 1)" using P by (simp flip: pow2_add)
  also have "\<dots> \<le> pow2 (?e + 1) * of_int q" using Q by (intro mult_left_mono) auto
  finally have up: "x < pow2 (?e + 1)" using qpos by (simp add: x divide_less_eq)
  have "pow2 (?e - 1) * of_int q \<le> pow2 (?e - 1) * pow2 (bitlen q)"
    using Q by (intro mult_left_mono) auto
  also have "\<dots> \<le> of_int p" using P by (simp flip: pow2_add)
  finally have lo: "pow2 (?e - 1) \<le> x" using qpos by (simp add: x le_divide_eq)
  show ?thesis using up lo by (auto simp: exponent_def pq Let_def)
qed

lemma exponent_mono:
  assumes "0 < x" "x \<le> y"
  shows "exponent x \<le> exponent y"
proof -
  have "pow2 (exponent x) < pow2 (exponent y + 1)"
    using exponent_bounds [of x] exponent_bounds [of y] assms by linarith
  then show ?thesis using pow2_less_imp by fastforce
qed

section \<open>Rounding to a double\<close>

definition fl_pos :: "rat \<Rightarrow> rat" where
  "fl_pos x = (let u = pow2 (exponent x - 52) in of_int (round_half_even (x / u)) * u)"

definition fl :: "rat \<Rightarrow> rat" where
  "fl x = (if x = 0 then 0 else if 0 < x then fl_pos x else - fl_pos (- x))"

lemma fl_0 [simp]: "fl 0 = 0"
  by (simp add: fl_def)

lemma fl_neg: "fl (- x) = - fl x"
  by (simp add: fl_def)

lemma fl_pos_bounds:
  assumes "0 < x"
  shows "pow2 (exponent x) \<le> fl_pos x \<and> fl_pos x \<le> pow2 (exponent x + 1)"
proof -
  let ?e = "exponent x" and ?u = "pow2 (exponent x - 52)" and ?r = "round_half_even (x / pow2 (exponent x - 52))"
  have lo: "pow2 52 * ?u \<le> x" "x \<le> pow2 53 * ?u"
    using exponent_bounds [OF assms] by (auto simp: add.commute simp flip: pow2_add)
  then have "of_int (2 ^ 52) \<le> x / ?u" "x / ?u \<le> of_int (2 ^ 53)"
    unfolding pow2_significand by (simp_all add: le_divide_eq divide_le_eq)
  then have "2 ^ 52 \<le> ?r" "?r \<le> 2 ^ 53"
    using round_half_even_mono round_half_even_of_int by metis+
  then have "pow2 52 \<le> of_int ?r" "of_int ?r \<le> pow2 53"
    by (simp_all only: pow2_significand of_int_le_iff)
  then have "pow2 52 * ?u \<le> of_int ?r * ?u" "of_int ?r * ?u \<le> pow2 53 * ?u"
    by (simp_all add: mult_right_mono)
  then show ?thesis by (simp add: fl_pos_def Let_def add.commute flip: pow2_add)
qed

lemma fl_pos_mono:
  assumes "0 < x" "x \<le> y"
  shows "fl_pos x \<le> fl_pos y"
proof (cases "exponent x = exponent y")
  case True
  have "x / pow2 (exponent x - 52) \<le> y / pow2 (exponent x - 52)"
    using assms by (simp add: divide_right_mono)
  then show ?thesis
    using True by (simp add: fl_pos_def Let_def round_half_even_mono mult_right_mono)
next
  case False
  with exponent_mono [OF assms] have "pow2 (exponent x + 1) \<le> pow2 (exponent y)"
    by (simp add: pow2_mono)
  then show ?thesis
    using fl_pos_bounds [of x] fl_pos_bounds [of y] assms by linarith
qed

lemma fl_pos_gt_0: "0 < x \<Longrightarrow> 0 < fl_pos x"
  using fl_pos_bounds [of x] pow2_gt_0 [of "exponent x"] by linarith

lemma fl_mono:
  assumes "x \<le> y"
  shows "fl x \<le> fl y"
proof -
  consider "0 < x" | "x \<le> 0" "0 \<le> y" | "y < 0" using assms by linarith
  then show ?thesis
  proof cases
    case 1
    with assms show ?thesis by (simp add: fl_def fl_pos_mono)
  next
    case 2
    have "fl x \<le> 0" using 2 fl_pos_gt_0 [of "- x"] by (auto simp: fl_def)
    moreover have "0 \<le> fl y" using 2 fl_pos_gt_0 [of y] by (auto simp: fl_def)
    ultimately show ?thesis by simp
  next
    case 3
    with assms have "fl_pos (- y) \<le> fl_pos (- x)" by (intro fl_pos_mono) auto
    with 3 assms show ?thesis by (simp add: fl_def)
  qed
qed

lemma fl_pos_err:
  assumes "0 < x"
  shows "\<bar>fl_pos x - x\<bar> \<le> x / 2 ^ 53"
proof -
  let ?u = "pow2 (exponent x - 52)"
  have "fl_pos x - x = (of_int (round_half_even (x / ?u)) - x / ?u) * ?u"
    by (simp add: fl_pos_def Let_def left_diff_distrib)
  then have "\<bar>fl_pos x - x\<bar> = \<bar>of_int (round_half_even (x / ?u)) - x / ?u\<bar> * ?u"
    by (simp add: abs_mult)
  also have "\<dots> \<le> 1/2 * ?u" by (intro mult_right_mono round_half_even_err) simp
  also have "\<dots> = pow2 (exponent x) / 2 ^ 53"
    using pow2_add [of 52 "exponent x - 52"] by (simp add: pow2_nonneg)
  also have "\<dots> \<le> x / 2 ^ 53"
    using exponent_bounds [OF assms] by (simp add: divide_right_mono)
  finally show ?thesis .
qed

lemma fl_err: "\<bar>fl x - x\<bar> \<le> \<bar>x\<bar> / 2 ^ 53"
proof -
  consider "x = 0" | "0 < x" | "x < 0" by linarith
  then show ?thesis
  proof cases
    case 3
    then show ?thesis using fl_pos_err [of "- x"] by (simp add: fl_def)
  qed (use fl_pos_err [of x] in \<open>simp_all add: fl_def\<close>)
qed

lemma fl_pos_scaled_int:
  assumes "x / pow2 (exponent x - 52) = of_int k"
  shows "fl_pos x = x"
  using assms by (simp add: fl_pos_def Let_def) (metis nonzero_eq_divide_eq pow2_ge_0(2))

lemma fl_pos_int:
  assumes "0 < n" "n \<le> 2 ^ 53"
  shows "fl_pos (of_int n) = of_int n"
proof -
  let ?e = "exponent (of_int n)"
  have n: "(0::rat) < of_int n" using assms by simp
  show ?thesis
  proof (cases "?e \<le> 52")
    case True
    have "of_int n / pow2 (?e - 52) = of_int n * pow2 (52 - ?e)" by (simp add: pow2_divide)
    also have "\<dots> = of_int (n * 2 ^ nat (52 - ?e))"
      using True by (simp add: pow2_nonneg)
    finally show ?thesis by (rule fl_pos_scaled_int)
  next
    case False
    then have "pow2 53 \<le> pow2 ?e" by (simp add: pow2_mono)
    moreover have "(of_int n :: rat) \<le> pow2 53"
      using assms(2) by (simp only: pow2_significand of_int_le_iff)
    ultimately have eq: "of_int n = pow2 ?e" using exponent_bounds [OF n] by linarith
    then have "of_int n / pow2 (?e - 52) = pow2 52"
      using pow2_diff [of ?e "?e - 52"] by (simp add: divide_eq_eq)
    also have "\<dots> = of_int (2 ^ 52)" by (rule pow2_significand)
    finally show ?thesis by (rule fl_pos_scaled_int)
  qed
qed

lemma fl_int: "\<bar>n\<bar> \<le> 2 ^ 53 \<Longrightarrow> fl (of_int n) = of_int n"
  using fl_pos_int [of n] fl_pos_int [of "- n"] by (auto simp: fl_def)

section \<open>What the scoring code needs of a rounding\<close>

locale float_rounding =
  fixes rnd :: "rat \<Rightarrow> rat"
  assumes rnd_mono: "x \<le> y \<Longrightarrow> rnd x \<le> rnd y"
    and rnd_err: "\<bar>rnd x - x\<bar> \<le> \<bar>x\<bar> / 2 ^ 53"
    and rnd_int: "\<bar>n\<bar> \<le> 2 ^ 53 \<Longrightarrow> rnd (of_int n) = of_int n"
begin

lemma rnd_0: "rnd 0 = 0"
  using rnd_int [of 0] by simp

lemma rnd_nonneg: "0 \<le> x \<Longrightarrow> 0 \<le> rnd x"
  using rnd_mono [of 0 x] by (simp add: rnd_0)

lemma rnd_nonpos: "x \<le> 0 \<Longrightarrow> rnd x \<le> 0"
  using rnd_mono [of x 0] by (simp add: rnd_0)

lemma falling_line_antimono:
  assumes "slope \<le> 0" "0 \<le> m" "m \<le> n"
  shows "rnd (rnd (slope * rnd n) + c) \<le> rnd (rnd (slope * rnd m) + c)"
proof -
  have "rnd m \<le> rnd n" using assms by (simp add: rnd_mono)
  then have "slope * rnd n \<le> slope * rnd m" using assms by (simp add: mult_left_mono_neg)
  then show ?thesis by (intro rnd_mono add_right_mono)
qed

text \<open>A quotient multiplied back by its divisor, then added to an integer, is off by very little.\<close>

lemma quotient_times_back:
  assumes "\<bar>a\<bar> \<le> 2 ^ 20" "0 < d" "d \<le> 2 ^ 53"
  shows "\<bar>rnd (rnd (of_int a / of_int d) * rnd (of_int d)) - of_int a\<bar> \<le> 1/8"
proof -
  let ?q = "of_int a / of_int d :: rat"
  have A: "\<bar>of_int a :: rat\<bar> \<le> 2 ^ 20"
    using assms(1) by (metis of_int_abs of_int_le_iff of_int_numeral of_int_power)
  have d: "(0::rat) < of_int d" "rnd (of_int d) = of_int d" using assms by (auto intro: rnd_int)
  have "rnd ?q * of_int d - of_int a = (rnd ?q - ?q) * of_int d"
    using d by (simp add: left_diff_distrib)
  then have "\<bar>rnd ?q * of_int d - of_int a\<bar> = \<bar>rnd ?q - ?q\<bar> * of_int d"
    using d by (simp add: abs_mult)
  also have "\<dots> \<le> \<bar>?q\<bar> / 2 ^ 53 * of_int d" using d by (intro mult_right_mono rnd_err) simp
  also have "\<dots> = \<bar>of_int a\<bar> / 2 ^ 53" using d by (simp add: abs_divide)
  also have "\<dots> \<le> 2 ^ 20 / 2 ^ 53" using A by (intro divide_right_mono) auto
  finally have 1: "\<bar>rnd ?q * of_int d - of_int a\<bar> \<le> 1 / 2 ^ 33" by simp
  then have "\<bar>rnd ?q * of_int d - of_int a\<bar> \<le> 1" by simp
  then have "\<bar>rnd ?q * of_int d\<bar> \<le> \<bar>of_int a\<bar> + 1" by linarith
  also have "\<dots> \<le> 2 ^ 21" using A by simp
  finally have "\<bar>rnd ?q * of_int d\<bar> \<le> 2 ^ 21" .
  then have "\<bar>rnd ?q * of_int d\<bar> / 2 ^ 53 \<le> 1/16" by simp
  then have "\<bar>rnd (rnd ?q * of_int d) - rnd ?q * of_int d\<bar> \<le> 1/16"
    by (rule order_trans [OF rnd_err])
  moreover have "\<bar>rnd ?q * of_int d - of_int a\<bar> \<le> 1/16" by (rule order_trans [OF 1]) simp
  ultimately show ?thesis unfolding d(2) by linarith
qed

end

interpretation py: float_rounding fl
  by unfold_locales (rule fl_mono fl_err fl_int; assumption?)+

end
