(* ===== verification/Scoring.thy ===== *)
theory Scoring
  imports Data_Model Py_Float
begin

text \<open>
  \<open>utils/scoring.py\<close>: what a challenge is worth, who a solve is credited to, and the solve,
  guess and reveal state of a subject as it is read off the tables. The values are computed in
  Python floats, here in the rounded rationals of \<open>Py_Float\<close>; the bounds of the properties
  are those the request schemas enforce.
\<close>

section \<open>The worth of a challenge\<close>

definition dynamic_value :: "int \<Rightarrow> int \<Rightarrow> int \<Rightarrow> int \<Rightarrow> int" where
  "dynamic_value initial minimum decay solve_count =
     (if decay \<le> 0 then (if initial < minimum then minimum else initial)
      else
        let slope = fl (of_int (minimum - initial) / of_int (decay ^ 2));
            value = fl (fl (slope * fl (of_int (solve_count ^ 2))) + fl (of_int initial))
        in max (round_half_even value) minimum)"

definition challenge_value :: "challenge \<Rightarrow> int \<Rightarrow> int" where
  "challenge_value ch solve_count =
     (if ch_scoring_type ch = Dynamic_Scoring
      then dynamic_value (ch_points ch) (coalesce (ch_min_points ch) 0) (coalesce (ch_decay ch) 0)
             solve_count
      else ch_points ch)"

definition penalised_value :: "int \<Rightarrow> int option \<Rightarrow> int \<Rightarrow> int" where
  "penalised_value base_value penalty_pct wrong_guesses =
     (if coalesce penalty_pct 0 = 0 \<or> wrong_guesses \<le> 0 then base_value
      else
        let pct = fl (of_int (coalesce penalty_pct 0) / 100);
            penalty = round_half_even
              (fl (fl (fl (of_int base_value) * pct) * fl (of_int wrong_guesses)))
        in max 0 (base_value - penalty))"

section \<open>Subjects\<close>

datatype subject_kind = Team_Kind | User_Kind

record subject =
  sj_kind :: subject_kind
  sj_id :: ident
  sj_team_id :: "ident option"

definition resolve_subject :: "db \<Rightarrow> competition \<Rightarrow> ident \<Rightarrow> subject option" where
  "resolve_subject d c u =
     (if co_participation_mode c = Team_Mode
      then (case find (\<lambda>m. tm_competition_id m = co_id c \<and> tm_user_id m = u) (db_memberships d) of
              None \<Rightarrow> None
            | Some m \<Rightarrow> Some \<lparr>sj_kind = Team_Kind, sj_id = tm_team_id m, sj_team_id = Some (tm_team_id m)\<rparr>)
      else Some \<lparr>sj_kind = User_Kind, sj_id = u, sj_team_id = None\<rparr>)"

text \<open>The shape of every subject \<open>resolve_subject\<close> returns.\<close>

definition wf_subject :: "subject \<Rightarrow> bool" where
  "wf_subject s = (sj_team_id s = (if sj_kind s = Team_Kind then Some (sj_id s) else None))"

lemma resolve_subject_wf: "resolve_subject d c u = Some s \<Longrightarrow> wf_subject s"
  by (auto simp: resolve_subject_def wf_subject_def split: if_splits option.splits)

section \<open>Solve state\<close>

definition subject_solve_filter :: "subject \<Rightarrow> submission \<Rightarrow> bool" where
  "subject_solve_filter s r =
     (if sj_kind s = Team_Kind then su_team_id r = Some (sj_id s)
      else su_user_id r = sj_id s \<and> su_team_id r = None)"

definition subject_has_solved :: "db \<Rightarrow> ident \<Rightarrow> subject \<Rightarrow> bool" where
  "subject_has_solved d ch s =
     exists_where (\<lambda>r. su_challenge_id r = ch \<and> su_is_correct r \<and> subject_solve_filter s r)
       (db_submissions d)"

definition subject_reset_filter :: "subject \<Rightarrow> mc_guess_reset \<Rightarrow> bool" where
  "subject_reset_filter s g =
     (if sj_kind s = Team_Kind then gr_team_id g = Some (sj_id s)
      else gr_user_id g = Some (sj_id s) \<and> gr_team_id g = None)"

text \<open>A reset applies to a subject when it is challenge-wide or targeted at it.\<close>

definition reset_applies :: "subject \<Rightarrow> mc_guess_reset \<Rightarrow> bool" where
  "reset_applies s g = ((gr_user_id g = None \<and> gr_team_id g = None) \<or> subject_reset_filter s g)"

definition reset_cutoff :: "db \<Rightarrow> ident \<Rightarrow> subject \<Rightarrow> time option" where
  "reset_cutoff d ch s =
     max_opt (map gr_created_at
       (filter (\<lambda>g. gr_challenge_id g = ch \<and> reset_applies s g) (db_guess_resets d)))"

definition subject_attempt_count :: "db \<Rightarrow> ident \<Rightarrow> subject \<Rightarrow> int" where
  "subject_attempt_count d ch s =
     (case reset_cutoff d ch s of
        None \<Rightarrow> int (count_where (\<lambda>r. su_challenge_id r = ch \<and> subject_solve_filter s r)
                      (db_submissions d))
      | Some cutoff \<Rightarrow>
          int (count_where (\<lambda>r. su_challenge_id r = ch \<and> subject_solve_filter s r
                               \<and> cutoff < su_created_at r) (db_submissions d)))"

text \<open>\<open>SELECT key, count(id) ... GROUP BY key\<close> as a dictionary.\<close>

definition group_count :: "('r \<Rightarrow> ident) \<Rightarrow> 'r list \<Rightarrow> ident \<Rightarrow> int option" where
  "group_count key rows k =
     (if k \<in> set (map key rows) then Some (int (count_where (\<lambda>r. key r = k) rows)) else None)"

definition cutoff_rows :: "db \<Rightarrow> ident \<Rightarrow> subject \<Rightarrow> (ident \<times> time option) list" where
  "cutoff_rows d cid s =
     (let gs = filter (\<lambda>g. gr_competition_id g = cid \<and> reset_applies s g) (db_guess_resets d) in
      map (\<lambda>ch. (ch, max_opt (map gr_created_at (filter (\<lambda>g. gr_challenge_id g = ch) gs))))
        (remdups (map gr_challenge_id gs)))"

definition attempts_since :: "db \<Rightarrow> subject \<Rightarrow> ident \<Rightarrow> time \<Rightarrow> int" where
  "attempts_since d s ch t =
     int (count_where (\<lambda>r. su_challenge_id r = ch \<and> subject_solve_filter s r
                          \<and> t < su_created_at r) (db_submissions d))"

definition subject_attempt_counts :: "db \<Rightarrow> ident \<Rightarrow> subject \<Rightarrow> ident \<Rightarrow> int option" where
  "subject_attempt_counts d cid s =
     foldl (\<lambda>counts (ch, cutoff).
         case cutoff of
           None \<Rightarrow> counts
         | Some t \<Rightarrow> counts(ch \<mapsto> attempts_since d s ch t))
       (group_count su_challenge_id
          (filter (\<lambda>r. su_competition_id r = cid \<and> subject_solve_filter s r) (db_submissions d)))
       (cutoff_rows d cid s)"

definition awarded :: "submission \<Rightarrow> bool" where
  "awarded r = (su_is_correct r \<and> \<not> su_is_duplicate r)"

definition solve_counts :: "db \<Rightarrow> ident \<Rightarrow> time option \<Rightarrow> ident \<Rightarrow> int option" where
  "solve_counts d cid as_of =
     group_count su_challenge_id
       (filter (\<lambda>r. su_competition_id r = cid \<and> awarded r
                    \<and> (case as_of of None \<Rightarrow> True | Some t \<Rightarrow> su_created_at r \<le> t))
          (db_submissions d))"

definition solved_challenge_ids :: "db \<Rightarrow> ident \<Rightarrow> subject \<Rightarrow> ident set" where
  "solved_challenge_ids d cid s =
     set (map su_challenge_id
       (filter (\<lambda>r. su_competition_id r = cid \<and> su_is_correct r \<and> subject_solve_filter s r)
          (db_submissions d)))"

section \<open>Hint reveals\<close>

definition subject_reveal_filter :: "subject \<Rightarrow> hint_reveal \<Rightarrow> bool" where
  "subject_reveal_filter s r =
     (if sj_kind s = Team_Kind then hr_team_id r = Some (sj_id s)
      else hr_user_id r = sj_id s \<and> hr_team_id r = None)"

definition subject_has_revealed :: "db \<Rightarrow> ident \<Rightarrow> subject \<Rightarrow> bool" where
  "subject_has_revealed d h s =
     exists_where (\<lambda>r. hr_hint_id r = h \<and> subject_reveal_filter s r) (db_hint_reveals d)"

definition revealed_hint_ids :: "db \<Rightarrow> ident \<Rightarrow> subject \<Rightarrow> ident set" where
  "revealed_hint_ids d ch s =
     set (map hr_hint_id
       (filter (\<lambda>r. hr_challenge_id r = ch \<and> subject_reveal_filter s r) (db_hint_reveals d)))"

section \<open>Dynamic scoring\<close>

lemma dynamic_value_ge_min: "minimum \<le> dynamic_value initial minimum decay n"
  by (simp add: dynamic_value_def Let_def)

lemma dynamic_value_0:
  assumes "minimum \<le> initial" "\<bar>initial\<bar> \<le> 2 ^ 53"
  shows "dynamic_value initial minimum decay 0 = initial"
  using assms by (simp add: dynamic_value_def Let_def fl_int)

lemma dynamic_value_antimono:
  assumes "minimum \<le> initial" "0 \<le> m" "m \<le> n"
  shows "dynamic_value initial minimum decay n \<le> dynamic_value initial minimum decay m"
proof (cases "decay \<le> 0")
  case True
  then show ?thesis by (simp add: dynamic_value_def)
next
  case False
  let ?slope = "fl (of_int (minimum - initial) / of_int (decay ^ 2))"
  have "m ^ 2 \<le> n ^ 2" using assms by (simp add: power_mono)
  moreover have "?slope \<le> 0"
    using assms by (intro py.rnd_nonpos divide_nonpos_nonneg) (simp_all add: of_int_diff)
  ultimately have "fl (fl (?slope * fl (of_int (n ^ 2))) + fl (of_int initial))
      \<le> fl (fl (?slope * fl (of_int (m ^ 2))) + fl (of_int initial))"
    by (intro py.falling_line_antimono) (simp_all only: of_int_le_iff of_int_0_le_iff zero_le_power2)
  from round_half_even_mono [OF this] False show ?thesis
    by (simp add: dynamic_value_def Let_def)
qed

lemma dynamic_value_at_decay:
  assumes "0 \<le> minimum" "minimum \<le> initial" "initial \<le> 100000" "1 \<le> decay" "decay \<le> 100000"
  shows "dynamic_value initial minimum decay decay = minimum"
proof -
  let ?a = "minimum - initial" and ?d = "decay ^ 2"
  have "decay ^ 2 \<le> 100000 ^ 2" "1 ^ 2 \<le> decay ^ 2" using assms by (intro power_mono; simp)+
  then have d: "0 < ?d" "?d \<le> 2 ^ 53" using assms by auto
  have "\<bar>?a\<bar> \<le> 2 ^ 20" using assms by simp
  from py.quotient_times_back [OF this d]
  have near: "\<bar>fl (fl (of_int ?a / of_int ?d) * fl (of_int ?d)) - of_int ?a\<bar> \<le> 1/8" .
  define s where "s = fl (fl (of_int ?a / of_int ?d) * fl (of_int ?d)) + of_int initial"
  have init: "fl (of_int initial) = of_int initial" using assms by (intro fl_int) simp
  have "s - of_int minimum = fl (fl (of_int ?a / of_int ?d) * fl (of_int ?d)) - of_int ?a"
    unfolding s_def of_int_diff by (simp only: diff_diff_eq2)
  with near have s: "\<bar>s - of_int minimum\<bar> \<le> 1/8" by (simp only:)
  moreover have "\<bar>of_int minimum :: rat\<bar> \<le> 100000" using assms by simp
  ultimately have "\<bar>s\<bar> \<le> 100001" by linarith
  then have "\<bar>s\<bar> / 2 ^ 53 \<le> 1/8" by simp
  then have "\<bar>fl s - s\<bar> \<le> 1/8" by (rule order_trans [OF fl_err])
  with s have "\<bar>fl s - of_int minimum\<bar> < 1/2" by linarith
  then have "round_half_even (fl s) = minimum" by (rule round_half_even_near)
  with assms init show ?thesis by (simp add: dynamic_value_def Let_def s_def)
qed

text \<open>
  C11: The worth of a dynamic challenge, with the parameters the schemas admit: it starts at the
  initial value, never rises with the number of solves, always stays between the minimum and the
  initial value, and equals the minimum from the \<open>decay\<close>-th solve on. In floating point, for
  every solve count.
\<close>

theorem dynamic_value_decays:
  assumes "0 \<le> minimum" "minimum \<le> initial" "initial \<le> 100000" "1 \<le> decay" "decay \<le> 100000"
    and "0 \<le> m" "m \<le> n"
  shows "dynamic_value initial minimum decay 0 = initial
    \<and> dynamic_value initial minimum decay n \<le> dynamic_value initial minimum decay m
    \<and> minimum \<le> dynamic_value initial minimum decay n
    \<and> dynamic_value initial minimum decay n \<le> initial
    \<and> (decay \<le> n \<longrightarrow> dynamic_value initial minimum decay n = minimum)"
proof -
  have 0: "dynamic_value initial minimum decay 0 = initial"
    using assms by (intro dynamic_value_0) simp_all
  moreover have "dynamic_value initial minimum decay n \<le> dynamic_value initial minimum decay 0"
    using assms by (intro dynamic_value_antimono) simp_all
  moreover have "dynamic_value initial minimum decay n = minimum" if "decay \<le> n"
    using dynamic_value_antimono [of minimum initial decay n decay] dynamic_value_at_decay [of minimum initial decay]
      dynamic_value_ge_min [of minimum initial decay n] assms that by simp
  ultimately show ?thesis
    using assms dynamic_value_ge_min dynamic_value_antimono by auto
qed

lemma dynamic_value_decays_witness:
  "dynamic_value 500 100 30 31 = 100 \<and> dynamic_value 500 100 30 3 = 496"
  by (rule conjI, use dynamic_value_decays [of 100 500 30 3 31] in simp) code_simp

section \<open>The wrong-guess penalty\<close>

lemma penalty_factor_bounds:
  assumes "0 \<le> pct" "pct \<le> 100"
  shows "0 \<le> fl (of_int pct / 100)" "fl (of_int pct / 100) \<le> 1"
proof -
  show "0 \<le> fl (of_int pct / 100)" using assms by (intro py.rnd_nonneg) simp
  have "(of_int pct :: rat) \<le> 100" using assms by simp
  then have "fl (of_int pct / 100) \<le> fl (of_int 1)" by (intro fl_mono) simp
  also have "fl (of_int 1) = 1" by (subst fl_int) simp_all
  finally show "fl (of_int pct / 100) \<le> 1" .
qed

text \<open>
  The multiple-choice penalty: a solve after wrong guesses is worth between 0 and the base
  value, no more after more wrong guesses than after fewer, and exactly the base value without a
  penalty or without a wrong guess.
\<close>

theorem penalised_value_bounds:
  assumes "0 \<le> base" "0 \<le> coalesce pct 0" "coalesce pct 0 \<le> 100" "0 \<le> m" "m \<le> n"
  shows "0 \<le> penalised_value base pct n
    \<and> penalised_value base pct n \<le> penalised_value base pct m
    \<and> penalised_value base pct m \<le> base
    \<and> penalised_value base pct 0 = base
    \<and> penalised_value base None n = base"
proof -
  let ?f = "fl (fl (of_int base) * fl (of_int (coalesce pct 0) / 100))"
  have f: "0 \<le> ?f"
    using assms penalty_factor_bounds(1) [of "coalesce pct 0"]
    by (intro py.rnd_nonneg mult_nonneg_nonneg) (simp_all add: py.rnd_nonneg)
  have "fl (of_int k) \<ge> 0" if "0 \<le> k" for k using that by (intro py.rnd_nonneg) simp
  with f have pos: "round_half_even (fl (?f * fl (of_int k))) \<ge> 0" if "0 \<le> k" for k
    using that round_half_even_mono [of 0 "fl (?f * fl (of_int k))"] round_half_even_of_int [of 0]
    by (simp add: py.rnd_nonneg)
  have mono: "round_half_even (fl (?f * fl (of_int m))) \<le> round_half_even (fl (?f * fl (of_int n)))"
    using f assms by (intro round_half_even_mono fl_mono mult_left_mono) simp_all
  show ?thesis
    using assms pos [of m] pos [of n] mono by (auto simp: penalised_value_def Let_def)
qed

lemma penalised_value_bounds_witness:
  "penalised_value 100 (Some 33) 2 \<le> penalised_value 100 (Some 33) 1
   \<and> penalised_value 100 (Some 33) 2 = 34"
  by (rule conjI, use penalised_value_bounds [of 100 "Some 33" 1 2] in simp) code_simp

section \<open>Batched counts\<close>

lemma foldl_upd_notin:
  "k \<notin> fst ` set xs \<Longrightarrow>
     foldl (\<lambda>counts (ch, cutoff). case cutoff of None \<Rightarrow> counts | Some t \<Rightarrow> counts(ch \<mapsto> f ch t)) m xs k = m k"
  by (induction xs arbitrary: m) (auto split: option.split)

lemma foldl_upd_in:
  "distinct (map fst xs) \<Longrightarrow> (k, Some t) \<in> set xs \<Longrightarrow>
     foldl (\<lambda>counts (ch, cutoff). case cutoff of None \<Rightarrow> counts | Some t \<Rightarrow> counts(ch \<mapsto> f ch t)) m xs k
       = Some (f k t)"
proof (induction xs arbitrary: m)
  case Nil
  then show ?case by simp
next
  case (Cons x xs)
  then show ?case
    by (cases "x = (k, Some t)") (force simp: foldl_upd_notin split: option.split)+
qed

lemma group_count_coalesce:
  "coalesce (group_count key rows k) 0 = int (count_where (\<lambda>r. key r = k) rows)"
  using count_where_0_iff [of "\<lambda>r. key r = k" rows] by (auto simp: group_count_def)

lemma count_where_filter: "count_where P (filter Q xs) = count_where (\<lambda>x. Q x \<and> P x) xs"
  by (induction xs) auto

text \<open>
  The one grouped query behind the challenge list answers, for every challenge of the
  competition, the same guess count as the per-challenge query that enforces the guess cap, guess
  resets included; a challenge it does not mention has a count of 0.
\<close>

theorem attempt_counts_agree:
  assumes "\<forall>r\<in>set (db_submissions d). su_challenge_id r = ch \<longrightarrow> su_competition_id r = cid"
    and "\<forall>g\<in>set (db_guess_resets d). gr_challenge_id g = ch \<longrightarrow> gr_competition_id g = cid"
  shows "coalesce (subject_attempt_counts d cid s ch) 0 = subject_attempt_count d ch s"
proof -
  let ?gs = "filter (\<lambda>g. gr_competition_id g = cid \<and> reset_applies s g) (db_guess_resets d)"
  have gs: "filter (\<lambda>g. gr_challenge_id g = ch) ?gs
      = filter (\<lambda>g. gr_challenge_id g = ch \<and> reset_applies s g) (db_guess_resets d)"
    using assms(2) by (auto intro: filter_cong)
  have dist: "distinct (map fst (cutoff_rows d cid s))"
    by (simp add: cutoff_rows_def Let_def comp_def)
  show ?thesis
  proof (cases "reset_cutoff d ch s")
    case None
    then have "filter (\<lambda>g. gr_challenge_id g = ch) ?gs = []"
      unfolding gs by (simp add: reset_cutoff_def)
    then have "ch \<notin> fst ` set (cutoff_rows d cid s)"
      by (auto simp: cutoff_rows_def Let_def filter_empty_conv)
    then have "coalesce (subject_attempt_counts d cid s ch) 0
      = int (count_where (\<lambda>r. su_challenge_id r = ch)
          (filter (\<lambda>r. su_competition_id r = cid \<and> subject_solve_filter s r) (db_submissions d)))"
      by (simp add: subject_attempt_counts_def foldl_upd_notin group_count_coalesce)
    with None show ?thesis
      using assms(1)
      by (auto simp: subject_attempt_count_def count_where_filter intro!: count_where_cong)
  next
    case (Some t)
    then have "(ch, Some t) \<in> set (cutoff_rows d cid s)"
    proof -
      have "filter (\<lambda>g. gr_challenge_id g = ch) ?gs \<noteq> []"
        using Some unfolding gs reset_cutoff_def by (auto simp: max_opt_def split: if_splits)
      then have "ch \<in> set (remdups (map gr_challenge_id ?gs))"
        by (auto simp: filter_empty_conv)
      with Some show ?thesis
        unfolding cutoff_rows_def Let_def reset_cutoff_def gs [symmetric] by (simp add: image_iff)
    qed
    from foldl_upd_in [OF dist this]
    have "subject_attempt_counts d cid s ch = Some (attempts_since d s ch t)"
      unfolding subject_attempt_counts_def by this
    with Some show ?thesis by (simp add: subject_attempt_count_def attempts_since_def)
  qed
qed

definition guess_db :: db where
  "guess_db = empty_db\<lparr>
     db_submissions := map (\<lambda>t. \<lparr>su_id = ''s'', su_competition_id = ''A'', su_challenge_id = ''q'',
       su_user_id = ''u'', su_team_id = None, su_value = ''x'', su_is_correct = False,
       su_is_duplicate = False, su_points_awarded = 0, su_mc_penalty = 0, su_created_at = t\<rparr>) [1, 2, 5],
     db_guess_resets := [\<lparr>gr_competition_id = ''A'', gr_challenge_id = ''q'', gr_user_id = None,
       gr_team_id = None, gr_reset_by = None, gr_created_at = 2\<rparr>]\<rparr>"

lemma attempt_counts_agree_witness:
  "subject_attempt_count guess_db ''q'' \<lparr>sj_kind = User_Kind, sj_id = ''u'', sj_team_id = None\<rparr> = 1
   \<and> coalesce (subject_attempt_counts guess_db ''A''
        \<lparr>sj_kind = User_Kind, sj_id = ''u'', sj_team_id = None\<rparr> ''q'') 0 = 1"
  using attempt_counts_agree [of guess_db "''q''" "''A''"
      "\<lparr>sj_kind = User_Kind, sj_id = ''u'', sj_team_id = None\<rparr>"]
  by (simp add: guess_db_def empty_db_def subject_attempt_count_def reset_cutoff_def
      reset_applies_def subject_solve_filter_def max_opt_def)

end
