(* ===== verification/Grading.thy ===== *)
theory Grading
  imports Scoring
begin

text \<open>
  \<open>utils/grading.py\<close>: recording a graded submission, the one path on which points are
  awarded, and changing a recorded verdict. \<open>record_grade\<close> reads one committed state and
  inserts into a possibly newer one, which is what two concurrent requests do; the partial unique
  index of \<open>models/submission.py\<close> is checked against the state at the time of the insert.
\<close>

section \<open>The awarded rows and their index\<close>

definition subject_key :: "submission \<Rightarrow> ident \<times> ident" where
  "subject_key r = (su_challenge_id r, coalesce (su_team_id r) (su_user_id r))"

text \<open>\<open>uq_submissions_awarded_subject\<close>, as a property of a state and as the check an insert makes.\<close>

definition awarded_unique :: "submission list \<Rightarrow> bool" where
  "awarded_unique rows = distinct (map subject_key (filter awarded rows))"

definition index_conflict :: "submission list \<Rightarrow> submission \<Rightarrow> bool" where
  "index_conflict rows row =
     (awarded row \<and> exists_where (\<lambda>r. awarded r \<and> subject_key r = subject_key row) rows)"

definition awarded_on :: "ident \<Rightarrow> submission \<Rightarrow> bool" where
  "awarded_on ch r = (su_challenge_id r = ch \<and> awarded r)"

text \<open>\<open>case((net < 0, 0), else_=net)\<close> over the awarded rows of a challenge.\<close>

definition revalue :: "ident \<Rightarrow> int \<Rightarrow> submission list \<Rightarrow> submission list" where
  "revalue ch base rows =
     update_where (awarded_on ch)
       (\<lambda>r. let net = base - su_mc_penalty r in r\<lparr>su_points_awarded := (if net < 0 then 0 else net)\<rparr>)
       rows"

section \<open>Recording a grade\<close>

record grade_outcome =
  go_correct :: bool
  go_award :: bool
  go_already_solved :: bool
  go_is_first_blood :: bool
  go_points_awarded :: int
  go_base_value :: int
  go_mc_penalty :: int
  go_submission :: submission

text \<open>
  The arguments of one call: the caller's keyword arguments, the fresh row id, and the clock that
  stamps the row unless it is backdated.
\<close>

record grade_call =
  gc_competition :: competition
  gc_challenge :: challenge
  gc_subject :: subject
  gc_user_id :: ident
  gc_value :: string
  gc_correct :: bool
  gc_created_at :: "time option"
  gc_row_id :: ident
  gc_now :: time

definition grade_row :: "grade_call \<Rightarrow> bool \<Rightarrow> int \<Rightarrow> int \<Rightarrow> submission" where
  "grade_row g duplicate points penalty =
     \<lparr>su_id = gc_row_id g, su_competition_id = co_id (gc_competition g),
      su_challenge_id = ch_id (gc_challenge g), su_user_id = gc_user_id g,
      su_team_id = sj_team_id (gc_subject g), su_value = gc_value g,
      su_is_correct = gc_correct g, su_is_duplicate = duplicate, su_points_awarded = points,
      su_mc_penalty = penalty,
      su_created_at = (case gc_created_at g of Some t \<Rightarrow> t | None \<Rightarrow> gc_now g)\<rparr>"

text \<open>What the reads before the insert decide: first blood, the base value, the award, the penalty.\<close>

definition grade_figures :: "db \<Rightarrow> grade_call \<Rightarrow> bool \<times> int \<times> int \<times> int" where
  "grade_figures d g =
     (let ch = gc_challenge g; cid = ch_id ch;
          prior_solves = count_where (awarded_on cid) (db_submissions d);
          first_blood = (case gc_created_at g of
              None \<Rightarrow> prior_solves = 0
            | Some t \<Rightarrow> count_where (\<lambda>r. awarded_on cid r \<and> su_created_at r < t) (db_submissions d) = 0);
          base = challenge_value ch (int prior_solves + 1);
          pct = co_mc_penalty_pct (gc_competition g);
          points = (if ch_flag_type ch = Multiple_Choice \<and> coalesce pct 0 \<noteq> 0
                    then penalised_value base pct (subject_attempt_count d cid (gc_subject g))
                    else base)
      in (first_blood, base, points, base - points))"

definition record_grade :: "db \<Rightarrow> db \<Rightarrow> grade_call \<Rightarrow> grade_outcome \<times> db" where
  "record_grade read d g =
     (let ch = gc_challenge g;
          already_solved = gc_correct g \<and> subject_has_solved read (ch_id ch) (gc_subject g);
          award = gc_correct g \<and> \<not> already_solved;
          (first_blood, base, points, penalty) =
            (if award then grade_figures read g else (False, 0, 0, 0));
          insert = (\<lambda>row. db_submissions d @ [row])
      in if award then
           (let row = grade_row g False points penalty in
            if index_conflict (db_submissions d) row
            then (let dup = grade_row g True 0 0 in
              (\<lparr>go_correct = gc_correct g, go_award = False, go_already_solved = True,
                go_is_first_blood = False, go_points_awarded = 0, go_base_value = base,
                go_mc_penalty = penalty, go_submission = dup\<rparr>,
               d\<lparr>db_submissions := insert dup\<rparr>))
            else
              (\<lparr>go_correct = gc_correct g, go_award = True, go_already_solved = already_solved,
                go_is_first_blood = first_blood, go_points_awarded = points, go_base_value = base,
                go_mc_penalty = penalty, go_submission = row\<rparr>,
               d\<lparr>db_submissions :=
                   (if ch_scoring_type ch = Dynamic_Scoring
                    then revalue (ch_id ch) base (insert row) else insert row)\<rparr>))
         else
           (let row = grade_row g (gc_correct g \<and> already_solved) points 0 in
            (\<lparr>go_correct = gc_correct g, go_award = False, go_already_solved = already_solved,
              go_is_first_blood = first_blood, go_points_awarded = points, go_base_value = base,
              go_mc_penalty = penalty, go_submission = row\<rparr>,
             d\<lparr>db_submissions := insert row\<rparr>)))"

definition emit_grade :: "grade_outcome \<Rightarrow> ident \<Rightarrow> ident \<Rightarrow> ident \<Rightarrow> ident option \<Rightarrow> event list" where
  "emit_grade out cid chid u team =
     Event ''challenge.attempted''
       [(''competition_id'', PStr cid), (''challenge_id'', PStr chid), (''user_id'', PStr u),
        (''team_id'', pstr team), (''correct'', PBool (go_correct out))]
     # (if go_award out
        then [Event ''challenge.solved''
          [(''competition_id'', PStr cid), (''challenge_id'', PStr chid), (''user_id'', PStr u),
           (''team_id'', pstr team), (''points'', PInt (go_points_awarded out)),
           (''is_first_blood'', PBool (go_is_first_blood out)),
           (''solved_at'', PTime (su_created_at (go_submission out)))]]
        else [])"

section \<open>Changing a verdict\<close>

record regrade_outcome =
  rg_granted :: bool
  rg_revoked :: bool
  rg_points_awarded :: int
  rg_is_first_blood :: bool
  rg_moved :: bool
  rg_solved_at :: "time option"

definition mine :: "ident \<Rightarrow> subject \<Rightarrow> submission \<Rightarrow> bool" where
  "mine ch s r = (su_challenge_id r = ch \<and> subject_solve_filter s r)"

definition solve_order :: "submission \<Rightarrow> time \<times> ident" where
  "solve_order r = (su_created_at r, su_id r)"

text \<open>
  The statements of \<open>regrade\<close> in flush order: change the row, demote every correct row but the
  earliest, promote the earliest, re-value the awarded rows.
\<close>

definition flush_changed :: "ident \<Rightarrow> bool \<Rightarrow> submission list \<Rightarrow> submission list" where
  "flush_changed rid correct rows =
     update_where (\<lambda>r. su_id r = rid)
       (\<lambda>r. r\<lparr>su_is_correct := correct, su_is_duplicate := correct, su_points_awarded := 0\<rparr>) rows"

definition correct_rows :: "ident \<Rightarrow> subject \<Rightarrow> submission list \<Rightarrow> submission list" where
  "correct_rows ch s rows = sort_key solve_order (filter (\<lambda>r. mine ch s r \<and> su_is_correct r) rows)"

definition flush_demoted :: "submission list \<Rightarrow> submission list \<Rightarrow> submission list" where
  "flush_demoted losers rows =
     update_where (\<lambda>r. su_id r \<in> set (map su_id losers) \<and> (\<not> su_is_duplicate r \<or> su_points_awarded r \<noteq> 0))
       (\<lambda>r. r\<lparr>su_is_duplicate := True, su_points_awarded := 0\<rparr>) rows"

definition flush_promoted :: "submission option \<Rightarrow> submission list \<Rightarrow> submission list" where
  "flush_promoted winner rows =
     (case winner of
        None \<Rightarrow> rows
      | Some w \<Rightarrow> update_where (\<lambda>r. su_id r = su_id w \<and> su_is_duplicate r)
                    (\<lambda>r. r\<lparr>su_is_duplicate := False\<rparr>) rows)"

definition regrade_flushes ::
  "challenge \<Rightarrow> subject \<Rightarrow> ident \<Rightarrow> bool \<Rightarrow> submission list \<Rightarrow> submission list list" where
  "regrade_flushes ch s rid correct rows =
     (let rows1 = flush_changed rid correct rows;
          cs = correct_rows (ch_id ch) s rows1;
          winner = (case cs of [] \<Rightarrow> None | w # _ \<Rightarrow> Some w);
          rows2 = flush_demoted (tl cs) rows1;
          rows3 = flush_promoted winner rows2;
          solves = count_where (awarded_on (ch_id ch)) rows3;
          rows4 = revalue (ch_id ch) (challenge_value ch (int solves)) rows3
      in [rows1, rows2, rows3, rows4])"

definition regrade ::
  "challenge \<Rightarrow> subject \<Rightarrow> ident \<Rightarrow> bool \<Rightarrow> db \<Rightarrow> regrade_outcome \<times> db" where
  "regrade ch s rid correct d =
     (let cid = ch_id ch;
          previous = find (\<lambda>r. mine cid s r \<and> awarded r) (db_submissions d);
          had_award = previous \<noteq> None;
          cs = correct_rows cid s (flush_changed rid correct (db_submissions d));
          winner = (case cs of [] \<Rightarrow> None | w # _ \<Rightarrow> Some w);
          final = last (regrade_flushes ch s rid correct (db_submissions d));
          has_award = winner \<noteq> None;
          fresh = (case winner of None \<Rightarrow> None | Some w \<Rightarrow> find (\<lambda>r. su_id r = su_id w) final)
      in (\<lparr>rg_granted = has_award \<and> \<not> had_award,
           rg_revoked = had_award \<and> \<not> has_award,
           rg_points_awarded = (case fresh of None \<Rightarrow> 0 | Some w \<Rightarrow> su_points_awarded w),
           rg_is_first_blood = (case fresh of
               None \<Rightarrow> False
             | Some w \<Rightarrow> count_where (\<lambda>r. awarded_on cid r \<and> su_created_at r < su_created_at w) final = 0),
           rg_moved = has_award \<and> had_award \<and> map_option su_id winner \<noteq> map_option su_id previous,
           rg_solved_at = (case winner of
               Some w \<Rightarrow> Some (su_created_at w)
             | None \<Rightarrow> map_option su_created_at previous)\<rparr>,
          d\<lparr>db_submissions := final\<rparr>))"

text \<open>\<open>emit_regrade\<close>: whether the cached boards are dropped, and the events.\<close>

definition emit_regrade ::
  "regrade_outcome \<Rightarrow> ident \<Rightarrow> ident \<Rightarrow> ident \<Rightarrow> ident option \<Rightarrow> bool \<times> event list" where
  "emit_regrade out cid chid u team =
     (rg_moved out,
      if rg_granted out
      then [Event ''challenge.solved''
        [(''competition_id'', PStr cid), (''challenge_id'', PStr chid), (''user_id'', PStr u),
         (''team_id'', pstr team), (''points'', PInt (rg_points_awarded out)),
         (''is_first_blood'', PBool (rg_is_first_blood out)), (''regrade'', PBool True),
         (''solved_at'', ptime (rg_solved_at out))]]
      else if rg_revoked out
      then [Event ''challenge.solve_revoked''
        [(''competition_id'', PStr cid), (''challenge_id'', PStr chid), (''user_id'', PStr u),
         (''team_id'', pstr team), (''solved_at'', ptime (rg_solved_at out))]]
      else [])"

text \<open>
  \<open>lock_subject\<close> takes a row lock on an existing row and changes nothing: which row, if any.
\<close>

definition lock_subject :: "subject \<Rightarrow> (subject_kind \<times> ident) option" where
  "lock_subject s =
     (if sj_kind s = Team_Kind then map_option (\<lambda>t. (Team_Kind, t)) (sj_team_id s)
      else Some (User_Kind, sj_id s))"

section \<open>At most one award per subject\<close>

lemma awarded_on_simps [simp]: "awarded_on ch r \<longleftrightarrow> su_challenge_id r = ch \<and> su_is_correct r \<and> \<not> su_is_duplicate r"
  by (simp add: awarded_on_def awarded_def)

lemma awarded_unique_iff:
  "distinct (map su_id rows) \<Longrightarrow> awarded_unique rows \<longleftrightarrow>
     (\<forall>r\<in>set rows. \<forall>r'\<in>set rows. awarded r \<and> awarded r' \<and> subject_key r = subject_key r' \<longrightarrow> r = r')"
  by (auto simp: awarded_unique_def distinct_map inj_on_def)

lemma awarded_unique_map:
  assumes "\<And>r. r \<in> set rows \<Longrightarrow> awarded (f r) = awarded r \<and> subject_key (f r) = subject_key r"
  shows "awarded_unique (map f rows) = awarded_unique rows"
proof -
  have "map subject_key (filter awarded (map f rows)) = map subject_key (filter awarded rows)"
    using assms by (induction rows) auto
  then show ?thesis by (simp add: awarded_unique_def)
qed

lemma awarded_unique_revalue [simp]: "awarded_unique (revalue ch b rows) = awarded_unique rows"
  unfolding revalue_def update_where_def
  by (rule awarded_unique_map) (simp add: awarded_def subject_key_def Let_def)

lemma awarded_unique_drop:
  assumes "awarded_unique rows" "\<And>r. r \<in> set rows \<Longrightarrow> P r \<Longrightarrow> \<not> awarded (f r)"
  shows "awarded_unique (update_where P f rows)"
proof -
  have "filter awarded (update_where P f rows) = filter (\<lambda>r. \<not> P r) (filter awarded rows)"
    using assms(2) by (induction rows) auto
  then show ?thesis using assms(1) unfolding awarded_unique_def by (simp only: distinct_map_filter)
qed

lemma awarded_unique_append:
  "awarded_unique rows \<Longrightarrow> \<not> index_conflict rows row \<Longrightarrow> awarded_unique (rows @ [row])"
  by (auto simp: awarded_unique_def index_conflict_def exists_where_iff)

lemma not_awarded_no_conflict: "\<not> awarded row \<Longrightarrow> \<not> index_conflict rows row"
  by (simp add: index_conflict_def)

lemma awarded_grade_row: "awarded (grade_row g dup pts pen) \<longleftrightarrow> gc_correct g \<and> \<not> dup"
  by (simp add: awarded_def grade_row_def)

lemma record_grade_unique [inv_intros]:
  assumes "awarded_unique (db_submissions d)"
  shows "awarded_unique (db_submissions (snd (record_grade read d g)))"
  using assms
  by (auto simp: record_grade_def Let_def awarded_grade_row split: prod.split
      intro!: awarded_unique_append not_awarded_no_conflict)

text \<open>Grades in any order, each deciding from whatever committed state it happened to read.\<close>

definition grade_step :: "db \<Rightarrow> db \<times> grade_call \<Rightarrow> db" where
  "grade_step d rg = snd (record_grade (fst rg) d (snd rg))"

interpretation one_award: invariant_machine grade_step "\<lambda>d. awarded_unique (db_submissions d)"
  by unfold_locales (simp add: grade_step_def record_grade_unique)

text \<open>
  C1: First correct submission wins, under every interleaving: however many grades are recorded
  and whatever stale state each of them decided from, a subject (the team, or the user playing
  alone) holds at most one awarded row on a challenge.
\<close>

theorem one_award_per_subject:
  assumes "awarded_unique (db_submissions d)"
    and "i < length rows" "j < length rows" "i \<noteq> j"
    and "rows = db_submissions (foldl grade_step d grades)"
    and "su_challenge_id (rows ! i) = su_challenge_id (rows ! j)"
    and "coalesce (su_team_id (rows ! i)) (su_user_id (rows ! i))
         = coalesce (su_team_id (rows ! j)) (su_user_id (rows ! j))"
  shows "\<not> (awarded (rows ! i) \<and> awarded (rows ! j))"
proof
  assume aw: "awarded (rows ! i) \<and> awarded (rows ! j)"
  have "awarded_unique rows" using one_award.run_inv [OF assms(1)] assms(5) by simp
  moreover have "awarded_unique rows \<Longrightarrow> k < l \<Longrightarrow> l < length rows \<Longrightarrow> awarded (rows ! k) \<Longrightarrow>
      awarded (rows ! l) \<Longrightarrow> subject_key (rows ! k) \<noteq> subject_key (rows ! l)" for rows k l
  proof (induction rows arbitrary: k l)
    case (Cons x rows)
    then show ?case
      by (cases k; cases l) (auto simp: awarded_unique_def split: if_splits)
  qed simp
  ultimately show False
    using assms(2-4,6,7) aw by (metis linorder_neqE_nat subject_key_def)
qed

section \<open>Awards are worth the current value\<close>

definition valued :: "challenge \<Rightarrow> submission list \<Rightarrow> bool" where
  "valued ch rows =
     list_all (\<lambda>r. awarded_on (ch_id ch) r \<longrightarrow>
        su_points_awarded r =
          max 0 (challenge_value ch (int (count_where (awarded_on (ch_id ch)) rows)) - su_mc_penalty r))
       rows"

text \<open>The bounds the request schemas put on the parameters of a challenge.\<close>

definition wf_scoring :: "challenge \<Rightarrow> bool" where
  "wf_scoring ch = (0 \<le> ch_points ch \<and> 0 \<le> coalesce (ch_min_points ch) 0)"

lemma challenge_value_nonneg: "wf_scoring ch \<Longrightarrow> 0 \<le> challenge_value ch n"
  using dynamic_value_ge_min [of "coalesce (ch_min_points ch) 0"]
  by (auto simp: challenge_value_def wf_scoring_def intro: order_trans)

lemma challenge_value_static:
  "ch_scoring_type ch \<noteq> Dynamic_Scoring \<Longrightarrow> challenge_value ch n = ch_points ch"
  by (simp add: challenge_value_def)

lemma penalised_value_nonneg: "0 \<le> base \<Longrightarrow> 0 \<le> penalised_value base pct n"
  by (simp add: penalised_value_def Let_def)

lemma count_awarded_revalue [simp]:
  "count_where (awarded_on ch') (revalue ch b rows) = count_where (awarded_on ch') rows"
  unfolding revalue_def by (rule count_where_update_where) (simp add: Let_def)

lemma valued_revalue:
  "valued ch (revalue (ch_id ch)
     (challenge_value ch (int (count_where (awarded_on (ch_id ch)) rows))) rows)"
  unfolding valued_def count_awarded_revalue
  by (auto simp: revalue_def list_all_iff set_update_where Let_def)

lemma valued_append_other:
  "\<not> awarded row \<Longrightarrow> valued ch (rows @ [row]) = valued ch rows"
  by (auto simp: valued_def awarded_def)

lemma grade_figures_spec:
  assumes "grade_figures d g = (fb, base, points, penalty)" "wf_scoring (gc_challenge g)"
  shows "base = challenge_value (gc_challenge g)
           (int (count_where (awarded_on (ch_id (gc_challenge g))) (db_submissions d)) + 1)
    \<and> penalty = base - points \<and> 0 \<le> points"
  using assms challenge_value_nonneg [OF assms(2)]
  by (auto simp: grade_figures_def Let_def penalised_value_nonneg split: if_splits)

lemma valued_static_snoc:
  assumes "ch_scoring_type ch \<noteq> Dynamic_Scoring" "su_points_awarded row = max 0 (ch_points ch - su_mc_penalty row)"
  shows "valued ch (rows @ [row]) = valued ch rows"
  using assms by (auto simp: valued_def list_all_iff challenge_value_static)

text \<open>
  C2: A grade keeps a challenge's awards worth its current value, and mends them. Take a grade of a
  challenge that reads some state and commits into another in which the challenge has as many awards as
  it read (none was committed in between; \<open>concurrent_solves_overvalued\<close> is what happens otherwise),
  whatever else changed and whatever the awards are worth before, as after an edit of the challenge's
  points, which re-values nothing, or after a race. Once it is committed, every award of the challenge is
  worth the challenge's value for its number of solves, less the award's own stored wrong-guess penalty
  and floored at 0, if the grade awarded a dynamic challenge, and otherwise exactly if that was so before.
\<close>

theorem grading_keeps_rows_valued:
  assumes run: "record_grade read d g = (out, d')" and wf: "wf_scoring (gc_challenge g)"
    and fresh: "count_where (awarded_on (ch_id (gc_challenge g))) (db_submissions read)
      = count_where (awarded_on (ch_id (gc_challenge g))) (db_submissions d)"
  shows "valued (gc_challenge g) (db_submissions d')
    \<longleftrightarrow> go_award out \<and> ch_scoring_type (gc_challenge g) = Dynamic_Scoring \<or> valued (gc_challenge g) (db_submissions d)"
proof -
  obtain fb base points penalty where fig: "grade_figures read g = (fb, base, points, penalty)"
    by (cases "grade_figures read g") auto
  note spec = grade_figures_spec [OF fig wf]
  let ?ch = "gc_challenge g" and ?row = "grade_row g False points penalty"
  let ?rows = "db_submissions d @ [?row]"
  have row: "su_challenge_id ?row = ch_id ?ch" "su_points_awarded ?row = points"
      "su_mc_penalty ?row = penalty" "\<not> su_is_duplicate ?row" "su_is_correct ?row = gc_correct g"
    by (simp_all add: grade_row_def)
  have dyn: "valued ?ch (revalue (ch_id ?ch) base ?rows)" if "gc_correct g"
  proof -
    have "int (count_where (awarded_on (ch_id ?ch)) ?rows)
        = int (count_where (awarded_on (ch_id ?ch)) (db_submissions read)) + 1"
      using that row by (simp add: fresh)
    then have "base = challenge_value ?ch (int (count_where (awarded_on (ch_id ?ch)) ?rows))"
      using spec by (simp only:)
    then show ?thesis by (metis valued_revalue)
  qed
  have stat: "valued ?ch ?rows = valued ?ch (db_submissions d)" if "ch_scoring_type ?ch \<noteq> Dynamic_Scoring"
    using that spec row by (intro valued_static_snoc) (auto simp: challenge_value_static)
  show ?thesis
    using run dyn stat
    by (auto simp: record_grade_def Let_def fig valued_append_other awarded_grade_row split: if_splits)
qed

section \<open>Changing a verdict\<close>

text \<open>
  What a regrade is meant to leave behind, row by row: the award sits on the subject's earliest
  correct submission, every later correct one is a duplicate worth nothing.
\<close>

definition settled_row :: "ident \<Rightarrow> subject \<Rightarrow> submission list \<Rightarrow> submission \<Rightarrow> submission" where
  "settled_row ch s rows r =
     (if mine ch s r \<and> su_is_correct r
      then if list_all (\<lambda>r'. mine ch s r' \<and> su_is_correct r' \<longrightarrow> solve_order r \<le> solve_order r') rows
           then r\<lparr>su_is_duplicate := False\<rparr>
           else r\<lparr>su_is_duplicate := True, su_points_awarded := 0\<rparr>
      else r)"

lemma map_su_id_flushes [simp]:
  "map su_id (flush_changed rid c rows) = map su_id rows"
  "map su_id (flush_demoted ls rows) = map su_id rows"
  "map su_id (flush_promoted w rows) = map su_id rows"
  "map su_id (revalue ch b rows) = map su_id rows"
  by (auto simp: flush_changed_def flush_demoted_def flush_promoted_def revalue_def Let_def
      split: option.split intro!: map_update_where)

lemma su_id_inj: "distinct (map su_id rows) \<Longrightarrow> r \<in> set rows \<Longrightarrow> r' \<in> set rows \<Longrightarrow> su_id r = su_id r' \<Longrightarrow> r = r'"
  by (metis distinct_map inj_onD)

lemma settle_eq_map:
  assumes dist: "distinct (map su_id rows)"
    and cs: "cs = correct_rows ch s rows"
  shows "flush_promoted (case cs of [] \<Rightarrow> None | w # _ \<Rightarrow> Some w) (flush_demoted (tl cs) rows)
    = map (settled_row ch s rows) rows"
proof (cases cs)
  case Nil
  then have "filter (\<lambda>r. mine ch s r \<and> su_is_correct r) rows = []"
    using cs by (metis correct_rows_def length_0_conv length_sort)
  then have "settled_row ch s rows r = r" if "r \<in> set rows" for r
    using that by (auto simp: settled_row_def filter_empty_conv)
  then show ?thesis using Nil by (simp add: flush_demoted_def flush_promoted_def update_where_def map_idI)
next
  case (Cons w ls)
  have set: "set cs = {r \<in> set rows. mine ch s r \<and> su_is_correct r}"
    by (auto simp: cs correct_rows_def)
  have sorted: "sorted (map solve_order cs)" by (simp add: cs correct_rows_def)
  have "distinct rows" using dist by (simp add: distinct_map)
  then have dcs: "distinct cs" by (simp add: cs correct_rows_def)
  have w: "w \<in> set rows" "mine ch s w" "su_is_correct w" using set Cons by auto
  have least: "solve_order w \<le> solve_order r" if "r \<in> set rows" "mine ch s r" "su_is_correct r" for r
    using that set sorted Cons by auto
  have min_iff: "list_all (\<lambda>r'. mine ch s r' \<and> su_is_correct r' \<longrightarrow> solve_order r \<le> solve_order r') rows
      \<longleftrightarrow> su_id r = su_id w" if r: "r \<in> set rows" "mine ch s r" "su_is_correct r" for r
  proof
    assume "list_all (\<lambda>r'. mine ch s r' \<and> su_is_correct r' \<longrightarrow> solve_order r \<le> solve_order r') rows"
    then have "solve_order r \<le> solve_order w" using w by (simp add: list_all_iff)
    with least [OF r] have "solve_order r = solve_order w" by simp
    then show "su_id r = su_id w" by (simp add: solve_order_def)
  next
    assume "su_id r = su_id w"
    with su_id_inj [OF dist] r w have "r = w" by blast
    then show "list_all (\<lambda>r'. mine ch s r' \<and> su_is_correct r' \<longrightarrow> solve_order r \<le> solve_order r') rows"
      using least by (simp add: list_all_iff)
  qed
  have loser_iff: "su_id r \<in> su_id ` set ls \<longleftrightarrow> mine ch s r \<and> su_is_correct r \<and> su_id r \<noteq> su_id w"
    if "r \<in> set rows" for r
  proof -
    have "set ls = {r \<in> set rows. mine ch s r \<and> su_is_correct r} - {w}"
      using set dcs Cons by auto
    note ls = this
    show ?thesis
    proof
      assume "su_id r \<in> su_id ` set ls"
      then obtain q where q: "q \<in> set ls" "su_id r = su_id q" by blast
      then have "q \<in> set rows" "q \<noteq> w" using ls by blast+
      then have "r = q" "su_id q \<noteq> su_id w" using su_id_inj [OF dist] that q w by blast+
      then show "mine ch s r \<and> su_is_correct r \<and> su_id r \<noteq> su_id w" using q ls by blast
    next
      assume "mine ch s r \<and> su_is_correct r \<and> su_id r \<noteq> su_id w"
      then have "r \<in> set ls" using ls that by blast
      then show "su_id r \<in> su_id ` set ls" by (rule imageI)
    qed
  qed
  have same: "r\<lparr>su_is_duplicate := True, su_points_awarded := 0\<rparr> = r"
    if "su_is_duplicate r" "su_points_awarded r = 0" for r :: submission
    using that by (cases r) simp
  have keep: "r\<lparr>su_is_duplicate := False\<rparr> = r" if "\<not> su_is_duplicate r" for r :: submission
    using that by (cases r) simp
  have pr: "(\<lambda>r. if su_id r = su_id w \<and> su_is_duplicate r then r\<lparr>su_is_duplicate := False\<rparr> else r)
        (if su_id r \<in> su_id ` set ls \<and> (\<not> su_is_duplicate r \<or> su_points_awarded r \<noteq> 0)
         then r\<lparr>su_is_duplicate := True, su_points_awarded := 0\<rparr> else r)
       = settled_row ch s rows r" if r: "r \<in> set rows" for r
  proof (cases "mine ch s r \<and> su_is_correct r")
    case True
    then have settled: "settled_row ch s rows r =
        (if su_id r = su_id w then r\<lparr>su_is_duplicate := False\<rparr>
         else r\<lparr>su_is_duplicate := True, su_points_awarded := 0\<rparr>)"
      using min_iff [OF r] by (simp only: settled_row_def if_True simp_thms)
    show ?thesis
    proof (cases "su_id r = su_id w")
      case True
      then have "su_id r \<notin> su_id ` set ls" using loser_iff [OF r] by blast
      with True settled keep [of r] show ?thesis by simp
    next
      case False
      with \<open>mine ch s r \<and> su_is_correct r\<close> have "su_id r \<in> su_id ` set ls"
        using loser_iff [OF r] by blast
      with False settled same [of r] show ?thesis by simp
    qed
  next
    case False
    then have "su_id r \<noteq> su_id w" using su_id_inj [OF dist r w(1)] w by blast
    moreover have "su_id r \<notin> su_id ` set ls" using False loser_iff [OF r] by blast
    ultimately show ?thesis using settled_row_def [of ch s rows r] False by (simp only: if_False simp_thms)
  qed
  show ?thesis
    unfolding Cons flush_promoted_def flush_demoted_def update_where_def list.case option.case
      list.sel list.map_comp map_eq_conv comp_def set_map
    by (intro ballI) (rule pr)
qed

lemma settled_row_simps [simp]:
  "su_id (settled_row ch s rows r) = su_id r"
  "su_challenge_id (settled_row ch s rows r) = su_challenge_id r"
  "su_user_id (settled_row ch s rows r) = su_user_id r"
  "su_team_id (settled_row ch s rows r) = su_team_id r"
  "su_created_at (settled_row ch s rows r) = su_created_at r"
  "su_is_correct (settled_row ch s rows r) = su_is_correct r"
  "su_mc_penalty (settled_row ch s rows r) = su_mc_penalty r"
  by (simp_all add: settled_row_def)

lemma mine_cong:
  "su_challenge_id r = su_challenge_id r' \<Longrightarrow> su_user_id r = su_user_id r' \<Longrightarrow>
   su_team_id r = su_team_id r' \<Longrightarrow> mine ch s r = mine ch s r'"
  by (simp add: mine_def subject_solve_filter_def)

lemma mine_settled [simp]: "mine ch s (settled_row ch' s' rows r) = mine ch s r"
  by (rule mine_cong) simp_all

lemma awarded_settled:
  assumes "mine ch s r"
  shows "awarded (settled_row ch s rows r) \<longleftrightarrow> su_is_correct r \<and>
    list_all (\<lambda>r'. mine ch s r' \<and> su_is_correct r' \<longrightarrow> solve_order r \<le> solve_order r') rows"
  using assms by (simp add: settled_row_def awarded_def)

lemma settled_other: "\<not> mine ch s r \<Longrightarrow> settled_row ch s rows r = r"
  by (simp add: settled_row_def)

text \<open>
  Team ids and user ids do not collide: on this challenge, the rows whose credited subject is
  this one are the rows the subject's filter finds.
\<close>

definition own_rows :: "ident \<Rightarrow> subject \<Rightarrow> submission list \<Rightarrow> bool" where
  "own_rows ch s rows =
     list_all (\<lambda>r. su_challenge_id r = ch \<longrightarrow>
        (coalesce (su_team_id r) (su_user_id r) = sj_id s) = subject_solve_filter s r) rows"

lemma own_rows_changed: "own_rows ch s (flush_changed rid c rows) = own_rows ch s rows"
  by (induction rows) (simp_all add: own_rows_def flush_changed_def subject_solve_filter_def)

lemma own_rows_key:
  "own_rows ch s rows \<Longrightarrow> r \<in> set rows \<Longrightarrow> mine ch s r \<longleftrightarrow> subject_key r = (ch, sj_id s)"
  by (auto simp: own_rows_def list_all_iff mine_def subject_key_def)

lemma flush_changed_unique:
  "awarded_unique rows \<Longrightarrow> awarded_unique (flush_changed rid c rows)"
  unfolding flush_changed_def by (rule awarded_unique_drop) (simp_all add: awarded_def)

lemma flush_demoted_unique:
  "awarded_unique rows \<Longrightarrow> awarded_unique (flush_demoted ls rows)"
  unfolding flush_demoted_def by (rule awarded_unique_drop) (simp_all add: awarded_def)

lemma settled_unique:
  assumes dist: "distinct (map su_id rows)" and own: "own_rows ch s rows" and uniq: "awarded_unique rows"
  shows "awarded_unique (map (settled_row ch s rows) rows)"
proof -
  let ?f = "settled_row ch s rows"
  have key: "subject_key (?f r) = subject_key r" for r by (simp add: subject_key_def)
  have "x = y" if x: "x \<in> set rows" "awarded (?f x)" and y: "y \<in> set rows" "awarded (?f y)"
    and k: "subject_key x = subject_key y" for x y
  proof (cases "mine ch s x")
    case True
    then have "mine ch s y" using own_rows_key [OF own] x y k by simp
    with True x y have "solve_order x \<le> solve_order y" "solve_order y \<le> solve_order x"
      by (auto simp: awarded_settled list_all_iff)
    then have "solve_order x = solve_order y" by simp
    then have "su_id x = su_id y" by (simp add: solve_order_def)
    with dist x y show ?thesis by (simp add: su_id_inj)
  next
    case False
    then have "\<not> mine ch s y" using own_rows_key [OF own] x y k by simp
    with False have "awarded x" "awarded y" using x y by (simp_all add: settled_other)
    with uniq x y k show ?thesis by (simp add: awarded_unique_iff [OF dist])
  qed
  moreover have "distinct (map su_id (map ?f rows))" using dist by (simp add: comp_def)
  ultimately show ?thesis
    by (subst awarded_unique_iff) (auto simp: key)
qed

lemma regrade_rows:
  assumes "distinct (map su_id (db_submissions d))"
  shows "regrade_flushes ch s rid c (db_submissions d) =
    (let rows1 = flush_changed rid c (db_submissions d);
         rows2 = flush_demoted (tl (correct_rows (ch_id ch) s rows1)) rows1;
         rows3 = map (settled_row (ch_id ch) s rows1) rows1 in
     [rows1, rows2, rows3,
      revalue (ch_id ch) (challenge_value ch (int (count_where (awarded_on (ch_id ch)) rows3))) rows3])"
  using settle_eq_map [of "flush_changed rid c (db_submissions d)" _ "ch_id ch" s] assms
  by (simp add: regrade_flushes_def Let_def)

lemma regrade_submissions:
  assumes "distinct (map su_id (db_submissions d))"
    and "changed = flush_changed rid c (db_submissions d)"
    and "settled = map (settled_row (ch_id ch) s changed) changed"
  shows "db_submissions (snd (regrade ch s rid c d)) =
    revalue (ch_id ch) (challenge_value ch (int (count_where (awarded_on (ch_id ch)) settled))) settled"
  using regrade_rows [OF assms(1), of ch s rid c] assms(2,3)
  by (simp add: regrade_def Let_def)

text \<open>
  C3: A regrade implements its specification: after all its statements the submissions table is
  the old one with the row's verdict changed, every row of the subject settled (award on the
  earliest correct submission, every later correct one a worthless duplicate), and the awarded
  rows of the challenge re-valued for the new number of solves.
\<close>

theorem regrade_refines_settling:
  assumes "distinct (map su_id (db_submissions d))"
    and "changed = flush_changed rid c (db_submissions d)"
    and "settled = map (settled_row (ch_id ch) s changed) changed"
  shows "db_submissions (snd (regrade ch s rid c d)) =
    revalue (ch_id ch) (challenge_value ch (int (count_where (awarded_on (ch_id ch)) settled))) settled"
  using assms by (rule regrade_submissions)

text \<open>
  C4: A regrade never trips the index it lives under, and keeps the awards honest: at each of its
  flushes every subject holds at most one award, and afterwards all awards on the challenge are
  worth its current value.
\<close>

theorem regrade_safe:
  assumes "distinct (map su_id (db_submissions d))" "own_rows (ch_id ch) s (db_submissions d)"
    and "awarded_unique (db_submissions d)"
  shows "list_all awarded_unique (regrade_flushes ch s rid c (db_submissions d))
    \<and> awarded_unique (db_submissions (snd (regrade ch s rid c d)))
    \<and> valued ch (db_submissions (snd (regrade ch s rid c d)))"
proof -
  let ?rows1 = "flush_changed rid c (db_submissions d)"
  have u1: "awarded_unique ?rows1" using assms(3) by (rule flush_changed_unique)
  have u3: "awarded_unique (map (settled_row (ch_id ch) s ?rows1) ?rows1)"
    using assms u1 by (intro settled_unique) (simp_all add: own_rows_changed)
  show ?thesis
    using u1 u3 flush_demoted_unique [OF u1]
    by (simp add: regrade_submissions [OF assms(1) refl refl] regrade_rows [OF assms(1)]
        Let_def valued_revalue)
qed

lemma mine_points [simp]: "mine ch s (r\<lparr>su_points_awarded := p\<rparr>) = mine ch s r"
  by (rule mine_cong) simp_all

lemma regrade_final_map:
  assumes "distinct (map su_id (db_submissions d))"
  obtains F where "db_submissions (snd (regrade ch s rid c d)) = map F (flush_changed rid c (db_submissions d))"
    and "\<And>r. mine (ch_id ch) s (F r) = mine (ch_id ch) s r"
    and "\<And>r. su_is_correct (F r) = su_is_correct r" and "\<And>r. solve_order (F r) = solve_order r"
    and "\<And>r. awarded (F r) = awarded (settled_row (ch_id ch) s (flush_changed rid c (db_submissions d)) r)"
proof -
  let ?rows1 = "flush_changed rid c (db_submissions d)"
  let ?G = "\<lambda>b q. if awarded_on (ch_id ch) q
      then (let net = b - su_mc_penalty q in q\<lparr>su_points_awarded := if net < 0 then 0 else net\<rparr>) else q"
  obtain b where b: "db_submissions (snd (regrade ch s rid c d))
      = revalue (ch_id ch) b (map (settled_row (ch_id ch) s ?rows1) ?rows1)"
    using regrade_submissions [OF assms refl refl] by blast
  show ?thesis
    by (rule that [of "\<lambda>r. ?G b (settled_row (ch_id ch) s ?rows1 r)"])
      (simp_all add: b revalue_def update_where_def Let_def solve_order_def awarded_def)
qed

lemma regrade_awarded_iff:
  assumes "distinct (map su_id (db_submissions d))"
    and "rows = db_submissions (snd (regrade ch s rid c d))"
    and "r \<in> set rows" "mine (ch_id ch) s r"
  shows "awarded r \<longleftrightarrow> su_is_correct r \<and>
    (\<forall>r'\<in>set rows. mine (ch_id ch) s r' \<and> su_is_correct r' \<longrightarrow> solve_order r \<le> solve_order r')"
proof -
  obtain F where F: "rows = map F (flush_changed rid c (db_submissions d))"
    and pres: "\<And>r. mine (ch_id ch) s (F r) = mine (ch_id ch) s r"
      "\<And>r. su_is_correct (F r) = su_is_correct r" "\<And>r. solve_order (F r) = solve_order r"
      "\<And>r. awarded (F r) = awarded (settled_row (ch_id ch) s (flush_changed rid c (db_submissions d)) r)"
    using regrade_final_map [OF assms(1), of ch s rid c] assms(2) by metis
  from assms(3) F obtain q where q: "r = F q" by auto
  with assms(4) pres have "mine (ch_id ch) s q" by simp
  then show ?thesis by (simp add: q F pres awarded_settled list_all_iff)
qed

text \<open>
  First correct submission wins, after the fact too: after a regrade, a row of the subject
  holds the award on the challenge iff it is correct and no correct row of the subject is earlier
  (by submission time, then id).
\<close>

theorem regrade_award_is_earliest:
  assumes "distinct (map su_id (db_submissions d))"
    and "rows = db_submissions (snd (regrade ch s rid c d))"
    and "r \<in> set rows" "mine (ch_id ch) s r"
  shows "awarded r \<longleftrightarrow> su_is_correct r \<and>
    (\<forall>r'\<in>set rows. mine (ch_id ch) s r' \<and> su_is_correct r' \<longrightarrow> solve_order r \<le> solve_order r')"
  using assms by (rule regrade_awarded_iff)

text \<open>
  The flags that decide which events a regrade fires tell the truth: granted means the
  subject holds an award now and held none before, revoked means it held one and holds none now.
\<close>

theorem regrade_flags_true:
  assumes "distinct (map su_id (db_submissions d))"
    and "result = regrade ch s rid c d"
    and "held = (\<lambda>rows. list_ex (\<lambda>r. mine (ch_id ch) s r \<and> awarded r) rows)"
  shows "(rg_granted (fst result) \<longleftrightarrow>
      held (db_submissions (snd result)) \<and> \<not> held (db_submissions d))
    \<and> (rg_revoked (fst result) \<longleftrightarrow>
      held (db_submissions d) \<and> \<not> held (db_submissions (snd result)))"
proof -
  let ?rows1 = "flush_changed rid c (db_submissions d)"
  let ?cs = "correct_rows (ch_id ch) s ?rows1"
  obtain F where F: "db_submissions (snd result) = map F ?rows1"
    and pres: "\<And>r. mine (ch_id ch) s (F r) = mine (ch_id ch) s r"
      "\<And>r. su_is_correct (F r) = su_is_correct r" "\<And>r. solve_order (F r) = solve_order r"
      "\<And>r. awarded (F r) = awarded (settled_row (ch_id ch) s ?rows1 r)"
    using regrade_final_map [OF assms(1), of ch s rid c] assms(2) by metis
  have set: "set ?cs = {r \<in> set ?rows1. mine (ch_id ch) s r \<and> su_is_correct r}"
    by (auto simp: correct_rows_def)
  have sorted: "sorted (map solve_order ?cs)" by (simp add: correct_rows_def)
  have "held (map F ?rows1) \<longleftrightarrow> ?cs \<noteq> []"
  proof
    assume "held (map F ?rows1)"
    then obtain r where "r \<in> set ?rows1" "mine (ch_id ch) s r" "awarded (F r)"
      by (auto simp: assms(3) list_ex_iff pres(1))
    then have "r \<in> set ?cs" unfolding set by (simp add: pres(4) awarded_settled)
    then show "?cs \<noteq> []" by auto
  next
    assume "?cs \<noteq> []"
    then obtain w ws where w: "?cs = w # ws" by (cases ?cs) auto
    then have in_w: "w \<in> set ?rows1" "mine (ch_id ch) s w" "su_is_correct w" using set by auto
    have "solve_order w \<le> solve_order r"
      if "r \<in> set ?rows1" "mine (ch_id ch) s r" "su_is_correct r" for r
      using that set sorted w by auto
    with in_w have "awarded (F w)" by (simp add: pres(4) awarded_settled list_all_iff)
    with in_w show "held (map F ?rows1)" by (auto simp: assms(3) list_ex_iff pres(1))
  qed
  moreover have "held (db_submissions d) \<longleftrightarrow>
      find (\<lambda>r. mine (ch_id ch) s r \<and> awarded r) (db_submissions d) \<noteq> None"
    by (auto simp: assms(3) list_ex_iff find_None_iff)
  ultimately show ?thesis
    unfolding F by (auto simp: assms(2) regrade_def Let_def split: list.split)
qed

section \<open>Solve counts\<close>

lemma awarded_unique_filter: "awarded_unique rows \<Longrightarrow> awarded_unique (filter Q rows)"
proof -
  have "filter awarded (filter Q rows) = filter Q (filter awarded rows)"
    by (simp add: conj_commute)
  then show "awarded_unique rows \<Longrightarrow> awarded_unique (filter Q rows)"
    unfolding awarded_unique_def by (simp only: distinct_map_filter)
qed

text \<open>
  A challenge's solve count is the number of distinct subjects that solved it: under the
  awarded-row index the count the listing reads off the table equals the number of teams (or solo
  users) that hold an awarded row on the challenge.
\<close>

theorem solve_count_is_distinct_subjects:
  assumes "awarded_unique (db_submissions d)"
  shows "coalesce (solve_counts d cid as_of ch) 0 =
    int (card ((\<lambda>r. coalesce (su_team_id r) (su_user_id r)) `
      {r \<in> set (db_submissions d). su_challenge_id r = ch \<and> su_competition_id r = cid \<and> awarded r
         \<and> (case as_of of None \<Rightarrow> True | Some t \<Rightarrow> su_created_at r \<le> t)}))"
proof -
  let ?Q = "\<lambda>r. su_competition_id r = cid \<and> awarded r
      \<and> (case as_of of None \<Rightarrow> True | Some t \<Rightarrow> su_created_at r \<le> t)"
  let ?rows = "filter (\<lambda>r. su_challenge_id r = ch) (filter ?Q (db_submissions d))"
  let ?k = "\<lambda>r. coalesce (su_team_id r) (su_user_id r)"
  have "awarded_unique ?rows" using assms by (intro awarded_unique_filter)
  moreover have "filter awarded ?rows = ?rows" by (auto intro: filter_cong)
  ultimately have "distinct (map subject_key ?rows)"
    by (simp only: awarded_unique_def)
  then have "distinct (map ?k ?rows)"
    by (auto simp: distinct_map inj_on_def subject_key_def)
  then have "card (?k ` set ?rows) = length ?rows"
    using distinct_card [of "map ?k ?rows"] by (simp only: set_map length_map)
  moreover have "set ?rows = {r \<in> set (db_submissions d). su_challenge_id r = ch \<and> ?Q r}"
    by auto
  ultimately show ?thesis
    by (simp add: solve_counts_def group_count_coalesce count_where_def)
qed

section \<open>Concrete runs\<close>

definition dyn_challenge :: challenge where
  "dyn_challenge = (blank_challenge ''A'' ''q'')\<lparr>ch_points := 500, ch_scoring_type := Dynamic_Scoring,
     ch_min_points := Some 100, ch_decay := Some 10\<rparr>"

definition solo :: "ident \<Rightarrow> subject" where
  "solo u = \<lparr>sj_kind = User_Kind, sj_id = u, sj_team_id = None\<rparr>"

definition solve_call :: "ident \<Rightarrow> ident \<Rightarrow> time \<Rightarrow> grade_call" where
  "solve_call i u t = \<lparr>gc_competition = blank_competition ''A'', gc_challenge = dyn_challenge,
     gc_subject = solo u, gc_user_id = u, gc_value = ''flag'', gc_correct = True,
     gc_created_at = None, gc_row_id = i, gc_now = t\<rparr>"

definition two_solves_db :: db where
  "two_solves_db = foldl (\<lambda>d g. snd (record_grade d d g)) empty_db
     [solve_call ''s1'' ''a'' 1, solve_call ''s2'' ''b'' 2]"

lemmas concrete_defs = dyn_challenge_def solo_def solve_call_def two_solves_db_def empty_db_def
  blank_challenge_def blank_competition_def

lemma two_solves_rows:
  "map (\<lambda>r. (su_id r, su_challenge_id r, su_user_id r, su_team_id r, su_is_correct r,
       su_is_duplicate r, su_points_awarded r, su_mc_penalty r, su_created_at r))
     (db_submissions two_solves_db) =
   [(''s1'', ''q'', ''a'', None, True, False, 484, 0, 1), (''s2'', ''q'', ''b'', None, True, False, 484, 0, 2)]"
  by code_simp

text \<open>
  Two subjects that solve a dynamic challenge at the same time, each grading against the
  state before the other's commit, are both announced as first blood and both stay at the value
  of the first solve, although the challenge has two solves and is worth less: no subject lock
  serialises them, and the re-value sweep of the second commit uses the solve count it read
  before the first.
\<close>

theorem concurrent_solves_overvalued:
  "let (o1, d1) = record_grade empty_db empty_db (solve_call ''s1'' ''a'' 1);
       (o2, d2) = record_grade empty_db d1 (solve_call ''s2'' ''b'' 2)
   in go_is_first_blood o1 \<and> go_is_first_blood o2
      \<and> map su_points_awarded (db_submissions d2) = [496, 496]
      \<and> challenge_value dyn_challenge 2 = 484
      \<and> \<not> valued dyn_challenge (db_submissions d2)"
  by code_simp

definition same_subject_db :: db where
  "same_subject_db = foldl grade_step empty_db
     [(empty_db, solve_call ''s1'' ''a'' 1), (empty_db, solve_call ''s2'' ''a'' 2)]"

lemma same_subject_rows:
  "db_submissions same_subject_db =
     [grade_row (solve_call ''s1'' ''a'' 1) False 496 0, grade_row (solve_call ''s2'' ''a'' 2) True 0 0]"
  by code_simp

lemma one_award_per_subject_witness:
  "\<not> (awarded (db_submissions same_subject_db ! 0) \<and> awarded (db_submissions same_subject_db ! 1))"
  using one_award_per_subject [OF _ _ _ zero_neq_one same_subject_db_def [THEN arg_cong, of db_submissions]]
  by (simp add: same_subject_rows awarded_unique_def empty_db_def grade_row_def solve_call_def solo_def)

text \<open>A race left both rows over their value; the next solve brings them back.\<close>

definition overvalued_db :: db where
  "overvalued_db = empty_db\<lparr>db_submissions :=
     [grade_row (solve_call ''s1'' ''a'' 1) False 496 0, grade_row (solve_call ''s2'' ''b'' 2) False 496 0]\<rparr>"

lemma grading_keeps_rows_valued_witness:
  "\<not> valued dyn_challenge (db_submissions overvalued_db)
   \<and> valued dyn_challenge (db_submissions (snd (record_grade overvalued_db overvalued_db (solve_call ''s3'' ''c'' 3))))"
proof -
  let ?g = "solve_call ''s3'' ''c'' 3"
  obtain out d' where r: "record_grade overvalued_db overvalued_db ?g = (out, d')" by fastforce
  have "go_award (fst (record_grade overvalued_db overvalued_db ?g))" by code_simp
  then have award: "go_award out" by (simp add: r)
  have ch: "gc_challenge ?g = dyn_challenge" "ch_scoring_type dyn_challenge = Dynamic_Scoring"
    by (simp_all add: solve_call_def dyn_challenge_def)
  have wf: "wf_scoring (gc_challenge ?g)" unfolding ch by code_simp
  have "\<not> valued dyn_challenge (db_submissions overvalued_db)" by code_simp
  then show ?thesis using grading_keeps_rows_valued [OF r wf refl] award ch by (simp add: r)
qed

text \<open>The same two solves as stored rows.\<close>

definition solved_db :: db where
  "solved_db = empty_db\<lparr>db_submissions :=
     [grade_row (solve_call ''s1'' ''a'' 1) False 484 0, grade_row (solve_call ''s2'' ''b'' 2) False 484 0]\<rparr>"

lemma regrade_refines_settling_witness:
  "map su_points_awarded (db_submissions (snd (regrade dyn_challenge (solo ''a'') ''s1'' False solved_db)))
     = [0, 496]"
  by (subst regrade_refines_settling [OF _ refl refl]; code_simp)

lemma regrade_safe_witness:
  "valued dyn_challenge (db_submissions (snd (regrade dyn_challenge (solo ''a'') ''s1'' False solved_db)))"
proof -
  have 1: "distinct (map su_id (db_submissions solved_db))" by code_simp
  have 2: "own_rows (ch_id dyn_challenge) (solo ''a'') (db_submissions solved_db)" by code_simp
  have 3: "awarded_unique (db_submissions solved_db)" by code_simp
  show ?thesis using regrade_safe [OF 1 2 3, of "''s1''" False] by blast
qed

lemma regrade_award_is_earliest_witness:
  "su_is_correct (db_submissions (snd (regrade dyn_challenge (solo ''b'') ''s2'' True solved_db)) ! 1)"
proof -
  let ?rows = "db_submissions (snd (regrade dyn_challenge (solo ''b'') ''s2'' True solved_db))"
  have 1: "distinct (map su_id (db_submissions solved_db))" by code_simp
  have "1 < length ?rows" by code_simp
  then have 2: "?rows ! 1 \<in> set ?rows" by (rule nth_mem)
  have 3: "mine (ch_id dyn_challenge) (solo ''b'') (?rows ! 1)" by code_simp
  have "awarded (?rows ! 1)" by code_simp
  then show ?thesis using regrade_award_is_earliest [OF 1 refl 2 3] by blast
qed

lemma regrade_flags_true_witness:
  "rg_revoked (fst (regrade dyn_challenge (solo ''a'') ''s1'' False solved_db))"
  by (subst regrade_flags_true [OF _ refl refl, THEN conjunct2]; code_simp)

lemma solve_count_is_distinct_subjects_witness:
  "card ((\<lambda>r. coalesce (su_team_id r) (su_user_id r)) `
      {r \<in> set (db_submissions solved_db). su_challenge_id r = ''q'' \<and> su_competition_id r = ''A''
         \<and> awarded r \<and> (case None of None \<Rightarrow> True | Some t \<Rightarrow> su_created_at r \<le> t)}) = 2"
proof -
  have 1: "awarded_unique (db_submissions solved_db)" by code_simp
  have "coalesce (solve_counts solved_db ''A'' None ''q'') 0 = 2" by code_simp
  with solve_count_is_distinct_subjects [OF 1, of "''A''" None "''q''"] show ?thesis by simp
qed

end
