(* ===== verification/Scoreboard.thy ===== *)
theory Scoreboard
  imports Competition_Status Grading "HOL-Library.Multiset"
begin

text \<open>
  The scoreboard: standings computed live or as of a freeze (\<open>utils/scoreboard.py\<close>), the
  divisions they can be filtered by (\<open>utils/brackets.py\<close>), the short-lived cache in front of
  them, the routes that read, freeze and unfreeze them (\<open>routers/scoreboard.py\<close>,
  \<open>routers/public_scoreboard.py\<close>) and the rule that decides which events may move a frozen
  board (\<open>plugins/scoring\<close>). A dictionary keyed by a nullable column has keys
  \<open>ident option\<close>.
\<close>

section \<open>Brackets\<close>

definition set_bracket :: "competition \<Rightarrow> ident \<Rightarrow> string option \<Rightarrow> db \<Rightarrow> unit res \<times> db" where
  "set_bracket c sid bracket d =
     (let hit = (\<lambda>b. bm_competition_id b = co_id c \<and> bm_subject_id b = sid) in
      if coalesce bracket [] = []
      then (Inr (), d\<lparr>db_brackets := delete_where hit (db_brackets d)\<rparr>)
      else let b = coalesce bracket [] in
        if b \<notin> set (coalesce (co_brackets c) [])
        then (Inl (HTTPException 400 ''Unknown bracket for this competition''), d)
        else if \<not> exists_where hit (db_brackets d)
        then (Inr (), d\<lparr>db_brackets := db_brackets d
                @ [\<lparr>bm_competition_id = co_id c, bm_subject_id = sid, bm_bracket = b\<rparr>]\<rparr>)
        else (Inr (), d\<lparr>db_brackets := update_where hit (\<lambda>r. r\<lparr>bm_bracket := b\<rparr>) (db_brackets d)\<rparr>))"

definition brackets_by_subject :: "db \<Rightarrow> ident \<Rightarrow> ident \<Rightarrow> string option" where
  "brackets_by_subject d cid =
     map_of (map (\<lambda>b. (bm_subject_id b, bm_bracket b))
       (rev (filter (\<lambda>b. bm_competition_id b = cid) (db_brackets d))))"

section \<open>Point sources\<close>

text \<open>
  The grouping column and the scope filter every source uses: by credited team in team mode, by
  user over solo rows otherwise.
\<close>

definition group_col :: "bool \<Rightarrow> ident option \<Rightarrow> ident option \<Rightarrow> ident option" where
  "group_col team_mode team user = (if team_mode then team else user)"

definition in_scope :: "bool \<Rightarrow> ident option \<Rightarrow> bool" where
  "in_scope team_mode team = (if team_mode then team \<noteq> None else team = None)"

definition up_to :: "time option \<Rightarrow> time \<Rightarrow> bool" where
  "up_to as_of t = (case as_of of None \<Rightarrow> True | Some cutoff \<Rightarrow> t \<le> cutoff)"

text \<open>\<open>SELECT col, SUM(points) ... GROUP BY col\<close>, read with a default of 0.\<close>

definition group_sum :: "('r \<Rightarrow> ident option) \<Rightarrow> ('r \<Rightarrow> int) \<Rightarrow> 'r list \<Rightarrow> ident option \<Rightarrow> int" where
  "group_sum col val rows k = sum_list (map val (filter (\<lambda>r. col r = k) rows))"

definition hint_costs_by_subject :: "db \<Rightarrow> ident \<Rightarrow> bool \<Rightarrow> time option \<Rightarrow> ident option \<Rightarrow> int" where
  "hint_costs_by_subject d cid team_mode as_of =
     group_sum (\<lambda>r. group_col team_mode (hr_team_id r) (Some (hr_user_id r))) hr_cost_charged
       (filter (\<lambda>r. hr_competition_id r = cid \<and> in_scope team_mode (hr_team_id r)
                    \<and> up_to as_of (hr_created_at r)) (db_hint_reveals d))"

definition adjustments_by_subject :: "db \<Rightarrow> ident \<Rightarrow> bool \<Rightarrow> time option \<Rightarrow> ident option \<Rightarrow> int" where
  "adjustments_by_subject d cid team_mode as_of =
     group_sum (\<lambda>r. group_col team_mode (sa_team_id r) (sa_user_id r)) sa_points
       (filter (\<lambda>r. sa_competition_id r = cid \<and> in_scope team_mode (sa_team_id r)
                    \<and> up_to as_of (sa_created_at r)) (db_adjustments d))"

definition award_points_by_subject :: "db \<Rightarrow> ident \<Rightarrow> bool \<Rightarrow> time option \<Rightarrow> ident option \<Rightarrow> int" where
  "award_points_by_subject d cid team_mode as_of =
     group_sum (\<lambda>r. group_col team_mode (ac_team_id r) (ac_user_id r)) ac_points
       (filter (\<lambda>r. ac_competition_id r = cid \<and> in_scope team_mode (ac_team_id r)
                    \<and> up_to as_of (ac_created_at r)) (db_achievements d))"

section \<open>Freeze\<close>

definition freeze_cutoff :: "time \<Rightarrow> competition \<Rightarrow> time option" where
  "freeze_cutoff now c =
     (case co_scoreboard_frozen_at c of
        None \<Rightarrow> None
      | Some t \<Rightarrow> if t \<le> now then Some t else None)"

definition visible_solve_cutoff :: "time \<Rightarrow> db \<Rightarrow> competition \<Rightarrow> ident \<Rightarrow> time option" where
  "visible_solve_cutoff now d c u =
     (case freeze_cutoff now c of
        None \<Rightarrow> None
      | Some cutoff \<Rightarrow>
          if user_has_permission d u ''scoreboard_freeze'' (Some (co_id c)) then None else Some cutoff)"

section \<open>Points from solves\<close>

definition solve_col :: "bool \<Rightarrow> submission \<Rightarrow> ident option" where
  "solve_col team_mode r = group_col team_mode (su_team_id r) (Some (su_user_id r))"

definition base_rows :: "db \<Rightarrow> competition \<Rightarrow> bool \<Rightarrow> submission list" where
  "base_rows d c team_mode =
     filter (\<lambda>r. su_competition_id r = co_id c \<and> su_is_correct r \<and> \<not> su_is_duplicate r
                 \<and> in_scope team_mode (su_team_id r)) (db_submissions d)"

definition live_totals :: "db \<Rightarrow> competition \<Rightarrow> bool \<Rightarrow> ident option \<Rightarrow> (int \<times> time) option" where
  "live_totals d c team_mode k =
     (let rows = filter (\<lambda>r. solve_col team_mode r = k) (base_rows d c team_mode) in
      if rows = [] then None
      else Some (sum_list (map su_points_awarded rows), Max (set (map su_created_at rows))))"

definition count_solves :: "submission list \<Rightarrow> ident \<Rightarrow> int" where
  "count_solves rows = foldl (\<lambda>counts r. counts(su_challenge_id r := counts (su_challenge_id r) + 1))
     (\<lambda>_. 0) rows"

definition frozen_value :: "db \<Rightarrow> competition \<Rightarrow> (ident \<Rightarrow> int) \<Rightarrow> submission \<Rightarrow> int" where
  "frozen_value d c counts r =
     (let gross = (case find (\<lambda>ch. ch_id ch = su_challenge_id r)
                          (filter (\<lambda>ch. ch_competition_id ch = co_id c) (db_challenges d)) of
                     Some ch \<Rightarrow> challenge_value ch (counts (su_challenge_id r))
                   | None \<Rightarrow> 0)
      in max 0 (gross - su_mc_penalty r))"

definition frozen_totals :: "db \<Rightarrow> competition \<Rightarrow> bool \<Rightarrow> time \<Rightarrow> ident option \<Rightarrow> (int \<times> time) option" where
  "frozen_totals d c team_mode cutoff =
     (let rows = filter (\<lambda>r. su_created_at r \<le> cutoff) (base_rows d c team_mode);
          counts = count_solves rows
      in foldl (\<lambda>totals r.
           let subj = solve_col team_mode r; ts = su_created_at r;
               value = frozen_value d c counts r;
               (pts, last_at) = coalesce (totals subj) (0, ts)
           in totals(subj \<mapsto> (pts + value, if last_at < ts then ts else last_at)))
         (\<lambda>_. None) rows)"

definition awarded_by_subject ::
  "db \<Rightarrow> competition \<Rightarrow> bool \<Rightarrow> time option \<Rightarrow> ident option \<Rightarrow> (int \<times> time) option" where
  "awarded_by_subject d c team_mode as_of =
     (case as_of of None \<Rightarrow> live_totals d c team_mode | Some t \<Rightarrow> frozen_totals d c team_mode t)"

section \<open>The board\<close>

record board_entry =
  be_rank :: nat
  be_subject_id :: ident
  be_name :: string
  be_points :: int
  be_last_solve_at :: "time option"
  be_bracket :: "string option"

record board =
  bo_competition_id :: ident
  bo_mode :: participation
  bo_entries :: "board_entry list"
  bo_frozen :: bool
  bo_frozen_at :: "time option"
  bo_live :: bool
  bo_brackets :: "string list"

definition board_subjects :: "db \<Rightarrow> competition \<Rightarrow> (ident \<times> string) list" where
  "board_subjects d c =
     (if co_participation_mode c = Team_Mode
      then map (\<lambda>t. (te_id t, te_name t)) (filter (\<lambda>t. te_competition_id t = co_id c) (db_teams d))
      else remdups (concat (map (\<lambda>a. concat (map (\<lambda>u. map (\<lambda>r. (us_id u, us_display_name u))
               (filter (\<lambda>r. ro_id r = ra_role_id a \<and> ro_name r = ''Participant'') (db_roles d)))
             (filter (\<lambda>u. us_id u = ra_user_id a) (db_users d))))
           (filter (\<lambda>a. ra_competition_id a = Some (co_id c)) (db_assignments d)))))"

text \<open>
  The clamped total, and the sort key; a subject without a solve sorts after the scored ones at
  the same total, and its missing solve time is never compared with a real one.
\<close>

definition net_points :: "db \<Rightarrow> competition \<Rightarrow> bool \<Rightarrow> time option \<Rightarrow> ident \<Rightarrow> int" where
  "net_points d c team_mode as_of sid =
     max 0 (fst (coalesce (awarded_by_subject d c team_mode as_of (Some sid)) (0, 0))
        - hint_costs_by_subject d (co_id c) team_mode as_of (Some sid)
        + adjustments_by_subject d (co_id c) team_mode as_of (Some sid)
        + award_points_by_subject d (co_id c) team_mode as_of (Some sid))"

definition last_solve :: "db \<Rightarrow> competition \<Rightarrow> bool \<Rightarrow> time option \<Rightarrow> ident \<Rightarrow> time option" where
  "last_solve d c team_mode as_of sid =
     map_option snd (awarded_by_subject d c team_mode as_of (Some sid))"

definition board_key ::
  "db \<Rightarrow> competition \<Rightarrow> bool \<Rightarrow> time option \<Rightarrow> ident \<times> string \<Rightarrow> int \<times> int \<times> time \<times> string" where
  "board_key d c team_mode as_of row =
     (let last_at = last_solve d c team_mode as_of (fst row) in
      (- net_points d c team_mode as_of (fst row),
       if last_at = None then 1 else 0,
       coalesce last_at 0,
       lower (snd row)))"

definition compute_scoreboard :: "time \<Rightarrow> db \<Rightarrow> competition \<Rightarrow> bool \<Rightarrow> string option \<Rightarrow> board" where
  "compute_scoreboard now d c live bracket =
     (let team_mode = (co_participation_mode c = Team_Mode);
          cutoff = freeze_cutoff now c;
          as_of = (if live then None else cutoff);
          subject_brackets = brackets_by_subject d (co_id c);
          subjects = (case bracket of
              None \<Rightarrow> board_subjects d c
            | Some b \<Rightarrow> filter (\<lambda>s. subject_brackets (fst s) = Some b) (board_subjects d c));
          ranked = sort_key (board_key d c team_mode as_of) subjects;
          entries = map (\<lambda>(rank, sid, name).
              \<lparr>be_rank = rank, be_subject_id = sid, be_name = name,
               be_points = net_points d c team_mode as_of sid,
               be_last_solve_at = last_solve d c team_mode as_of sid,
               be_bracket = subject_brackets sid\<rparr>)
            (zip [1 ..< Suc (length ranked)] ranked)
      in \<lparr>bo_competition_id = co_id c, bo_mode = co_participation_mode c, bo_entries = entries,
          bo_frozen = (as_of \<noteq> None), bo_frozen_at = as_of,
          bo_live = (live \<and> cutoff \<noteq> None), bo_brackets = coalesce (co_brackets c) []\<rparr>)"

section \<open>The cached read model\<close>

type_synonym board_cache = "ident \<Rightarrow> bool \<times> string option \<Rightarrow> (time \<times> board) option"

definition invalidate_scoreboard :: "ident \<Rightarrow> board_cache \<Rightarrow> board_cache" where
  "invalidate_scoreboard cid cache = cache(cid := \<lambda>_. None)"

text \<open>
  \<open>clock\<close> is the monotonic clock and \<open>ttl\<close> the configured lifetime, in the same unit;
  \<open>compute\<close> is the board computed now.
\<close>

definition cached_scoreboard ::
  "time \<Rightarrow> time \<Rightarrow> time \<Rightarrow> db \<Rightarrow> competition \<Rightarrow> bool \<Rightarrow> string option \<Rightarrow> board_cache \<Rightarrow> board \<times> board_cache" where
  "cached_scoreboard ttl clock now d c live bracket cache =
     (case cache (co_id c) (live, bracket) of
        Some (expiry, board) \<Rightarrow>
          if clock < expiry then (board, cache)
          else (let fresh = compute_scoreboard now d c live bracket in
                (fresh, cache(co_id c := (cache (co_id c))((live, bracket) \<mapsto> (clock + ttl, fresh)))))
      | None \<Rightarrow>
          (let fresh = compute_scoreboard now d c live bracket in
           (fresh, cache(co_id c := (cache (co_id c))((live, bracket) \<mapsto> (clock + ttl, fresh))))))"

section \<open>Routes\<close>

text \<open>The route's permission dependency is \<open>require_permission\<close>; these are the bodies after it.\<close>

definition get_scoreboard ::
  "time \<Rightarrow> time \<Rightarrow> time \<Rightarrow> db \<Rightarrow> ident \<Rightarrow> ident \<Rightarrow> bool \<Rightarrow> string option \<Rightarrow> board_cache
   \<Rightarrow> board res \<times> board_cache" where
  "get_scoreboard ttl clock now d u cid live bracket cache =
     (case get_competition d cid of
        None \<Rightarrow> (Inl (HTTPException 404 ''Competition not found''), cache)
      | Some c \<Rightarrow>
          (case require_started d c u of
             Inl e \<Rightarrow> (Inl e, cache)
           | Inr _ \<Rightarrow>
               (let allow_live = live \<and> user_has_permission d u ''scoreboard_freeze'' (Some cid);
                    (b, cache') = cached_scoreboard ttl clock now d c allow_live
                       (if coalesce bracket [] = [] then None else bracket) cache
                in (Inr b, cache'))))"

definition freeze_scoreboard :: "time \<Rightarrow> time option \<Rightarrow> ident \<Rightarrow> ident \<Rightarrow> db \<Rightarrow> board outcome" where
  "freeze_scoreboard now frozen_at u cid d =
     (case get_competition d cid of
        None \<Rightarrow> raise d 404 ''Competition not found''
      | Some c \<Rightarrow>
          (let c1 = c\<lparr>co_scoreboard_frozen_at := Some (coalesce frozen_at now)\<rparr>;
               d1 = put_competition c1 d
           in (Inr (compute_scoreboard now d1 c1 True None), d1,
               [Event ''scoreboard.frozen''
                  [(''competition_id'', PStr cid), (''frozen_at'', PTime (coalesce frozen_at now)),
                   (''user_id'', PStr u)]])))"

definition unfreeze_scoreboard :: "time \<Rightarrow> ident \<Rightarrow> ident \<Rightarrow> db \<Rightarrow> board outcome" where
  "unfreeze_scoreboard now u cid d =
     (case get_competition d cid of
        None \<Rightarrow> raise d 404 ''Competition not found''
      | Some c \<Rightarrow>
          (let c1 = c\<lparr>co_scoreboard_frozen_at := None\<rparr>; d1 = put_competition c1 d
           in (Inr (compute_scoreboard now d1 c1 True None), d1,
               [Event ''scoreboard.unfrozen'' [(''competition_id'', PStr cid), (''user_id'', PStr u)]])))"

definition load_public_competition :: "db \<Rightarrow> ident \<Rightarrow> competition res" where
  "load_public_competition d cid =
     (case get_competition d cid of
        None \<Rightarrow> Inl (HTTPException 404 ''Scoreboard not found'')
      | Some c \<Rightarrow>
          if \<not> co_public_scoreboard c \<or> co_archived_at c \<noteq> None
          then Inl (HTTPException 404 ''Scoreboard not found'') else Inr c)"

definition public_scoreboard ::
  "time \<Rightarrow> time \<Rightarrow> time \<Rightarrow> db \<Rightarrow> ident \<Rightarrow> board_cache \<Rightarrow> board res \<times> board_cache" where
  "public_scoreboard ttl clock now d cid cache =
     (case load_public_competition d cid of
        Inl e \<Rightarrow> (Inl e, cache)
      | Inr c \<Rightarrow> (let (b, cache') = cached_scoreboard ttl clock now d c False None cache in (Inr b, cache')))"

definition ctftime_feed ::
  "time \<Rightarrow> time \<Rightarrow> time \<Rightarrow> db \<Rightarrow> ident \<Rightarrow> board_cache
   \<Rightarrow> (nat \<times> string \<times> int) list res \<times> board_cache" where
  "ctftime_feed ttl clock now d cid cache =
     (case get_competition d cid of
        None \<Rightarrow> (Inl (HTTPException 404 ''Feed not found''), cache)
      | Some c \<Rightarrow>
          if \<not> co_ctftime_enabled c \<or> co_archived_at c \<noteq> None
          then (Inl (HTTPException 404 ''Feed not found''), cache)
          else (let (b, cache') = cached_scoreboard ttl clock now d c False None cache in
                (Inr (map (\<lambda>e. (be_rank e, be_name e, be_points e)) (bo_entries b)), cache')))"

definition set_subject_bracket :: "ident \<Rightarrow> ident \<Rightarrow> string option \<Rightarrow> db \<Rightarrow> string option outcome" where
  "set_subject_bracket cid sid bracket d =
     (case get_competition d cid of
        None \<Rightarrow> raise d 404 ''Competition not found''
      | Some c \<Rightarrow>
          (case set_bracket c sid bracket d of
             (Inl e, _) \<Rightarrow> (Inl e, d, [])
           | (Inr _, d1) \<Rightarrow> (Inr (if coalesce bracket [] = [] then None else bracket), d1, [])))"

section \<open>The scoreboard rooms\<close>

definition authorize_room :: "db \<Rightarrow> ident \<Rightarrow> ident \<Rightarrow> bool" where
  "authorize_room d u cid =
     (case get_competition d cid of
        None \<Rightarrow> False
      | Some c \<Rightarrow>
          if \<not> user_has_permission d u ''challenge_view'' (Some cid) then False
          else if has_started c then True
          else user_has_permission d u ''challenge_edit'' (Some cid))"

definition authorize_live :: "db \<Rightarrow> ident \<Rightarrow> ident \<Rightarrow> bool" where
  "authorize_live d u cid =
     (if \<not> authorize_room d u cid then False
      else user_has_permission d u ''scoreboard_freeze'' (Some cid))"

text \<open>
  \<open>payload["solved_at"]\<close> parsed: a missing key or anything but a timestamp fails closed.
\<close>

definition moves_frozen_board :: "event \<Rightarrow> time \<Rightarrow> bool" where
  "moves_frozen_board ev cutoff =
     (if event_name ev = ''scoreboard.frozen'' \<or> event_name ev = ''scoreboard.unfrozen'' then True
      else if event_name ev = ''challenge.solved'' \<or> event_name ev = ''challenge.solve_revoked''
      then (case map_of (event_payload ev) ''solved_at'' of
              Some (PTime t) \<Rightarrow> t \<le> cutoff
            | _ \<Rightarrow> False)
      else False)"

datatype frame = Shared_Frame board | Staff_Frame board

text \<open>
  \<open>broadcast_scoreboard\<close> for an event of a competition: the frames sent, in order, and the
  digest of the last frozen board sent (\<open>held\<close>). The digest is SHA-256 over the board's JSON,
  a parameter.
\<close>

definition broadcast_scoreboard ::
  "(board \<Rightarrow> string) \<Rightarrow> time \<Rightarrow> db \<Rightarrow> bool \<Rightarrow> bool \<Rightarrow> event \<Rightarrow> (ident \<Rightarrow> string option)
   \<Rightarrow> frame list \<times> (ident \<Rightarrow> string option)" where
  "broadcast_scoreboard digest now d public_room staff_room ev held =
     (case map_of (event_payload ev) ''competition_id'' of
        Some (PStr cid) \<Rightarrow>
          if cid = [] \<or> (\<not> public_room \<and> \<not> staff_room) then ([], held)
          else (case get_competition d cid of
             None \<Rightarrow> ([], held)
           | Some c \<Rightarrow>
               (let cutoff = freeze_cutoff now c;
                    board = (if public_room \<and> (case cutoff of None \<Rightarrow> True | Some t \<Rightarrow> moves_frozen_board ev t)
                             then Some (compute_scoreboard now d c False None) else None);
                    live_board = (if staff_room
                       then Some (case board of
                            Some b \<Rightarrow> if \<not> bo_frozen b then b else compute_scoreboard now d c True None
                          | None \<Rightarrow> compute_scoreboard now d c True None)
                       else None);
                    staff = (case live_board of None \<Rightarrow> [] | Some b \<Rightarrow> [Staff_Frame b])
                in case board of
                     None \<Rightarrow> (staff, held)
                   | Some b \<Rightarrow>
                       if \<not> bo_frozen b then (staff @ [Shared_Frame b], held(cid := None))
                       else if held cid = Some (digest b) then (staff, held)
                       else (staff @ [Shared_Frame b], held(cid \<mapsto> digest b))))
      | _ \<Rightarrow> ([], held))"

section \<open>The frozen recompute\<close>

definition totals_step ::
  "(submission \<Rightarrow> int) \<Rightarrow> bool \<Rightarrow> (ident option \<Rightarrow> (int \<times> time) option) \<Rightarrow> submission
   \<Rightarrow> ident option \<Rightarrow> (int \<times> time) option" where
  "totals_step value team_mode totals r =
     (let (pts, last_at) = coalesce (totals (solve_col team_mode r)) (0, su_created_at r)
      in totals(solve_col team_mode r \<mapsto>
           (pts + value r, if last_at < su_created_at r then su_created_at r else last_at)))"

lemma frozen_totals_fold:
  "frozen_totals d c team_mode cutoff =
     (let rows = filter (\<lambda>r. su_created_at r \<le> cutoff) (base_rows d c team_mode)
      in foldl (totals_step (frozen_value d c (count_solves rows)) team_mode) (\<lambda>_. None) rows)"
  by (simp add: frozen_totals_def totals_step_def [abs_def] Let_def case_prod_beta' coalesce_def
      cong: option.case_cong)

lemma totals_step_at:
  "totals_step value tm totals r k =
     (if k = solve_col tm r
      then Some (fst (coalesce (totals k) (0, su_created_at r)) + value r,
                 max (snd (coalesce (totals k) (0, su_created_at r))) (su_created_at r))
      else totals k)"
  by (auto simp: totals_step_def Let_def case_prod_beta' max_def)

lemma totals_fold:
  "foldl (totals_step value tm) totals rows k =
     (case filter (\<lambda>r. solve_col tm r = k) rows of
        [] \<Rightarrow> totals k
      | r # rs \<Rightarrow> Some (fst (coalesce (totals k) (0, su_created_at r)) + sum_list (map value (r # rs)),
                     fold max (map su_created_at (r # rs)) (snd (coalesce (totals k) (0, su_created_at r)))))"
proof (induction rows arbitrary: totals)
  case Nil
  then show ?case by simp
next
  case (Cons x rows)
  then show ?case
    by (auto simp: totals_step_at max.commute split: list.split)
qed

text \<open>Per subject: the sum of the values, and the latest of the solve times.\<close>

definition totals_of ::
  "(submission \<Rightarrow> int) \<Rightarrow> bool \<Rightarrow> submission list \<Rightarrow> ident option \<Rightarrow> (int \<times> time) option" where
  "totals_of value tm rows k =
     (let rs = filter (\<lambda>r. solve_col tm r = k) rows in
      if rs = [] then None
      else Some (sum_list (map value rs), Max (set (map su_created_at rs))))"

lemma totals_fold_of: "foldl (totals_step value tm) (\<lambda>_. None) rows k = totals_of value tm rows k"
proof (cases "filter (\<lambda>r. solve_col tm r = k) rows")
  case Nil
  then show ?thesis by (simp add: totals_fold totals_of_def)
next
  case (Cons r rs)
  have "Max (set (map su_created_at (r # rs))) = fold max (map su_created_at rs) (su_created_at r)"
    using Max.set_eq_fold [of "su_created_at r" "map su_created_at rs"] by simp
  with Cons show ?thesis by (simp add: totals_fold totals_of_def)
qed

lemma frozen_totals_of:
  "frozen_totals d c tm cutoff =
     (let rows = filter (\<lambda>r. su_created_at r \<le> cutoff) (base_rows d c tm)
      in totals_of (frozen_value d c (count_solves rows)) tm rows)"
  by (rule ext) (simp add: frozen_totals_fold Let_def totals_fold_of)

lemma live_totals_of: "live_totals d c tm = totals_of su_points_awarded tm (base_rows d c tm)"
  by (rule ext) (simp add: live_totals_def totals_of_def Let_def)

lemma totals_of_cong:
  assumes "\<And>r. r \<in> set rows \<Longrightarrow> f r = g r"
  shows "totals_of f tm rows = totals_of g tm rows"
proof
  fix k
  have "map f (filter (\<lambda>r. solve_col tm r = k) rows) = map g (filter (\<lambda>r. solve_col tm r = k) rows)"
    using assms by simp
  then show "totals_of f tm rows k = totals_of g tm rows k"
    by (simp only: totals_of_def Let_def)
qed

lemma count_solves_eq: "count_solves rows ch = int (count_where (\<lambda>r. su_challenge_id r = ch) rows)"
proof -
  have "foldl (\<lambda>counts r. counts(su_challenge_id r := counts (su_challenge_id r) + 1)) m rows ch
      = m ch + int (count_where (\<lambda>r. su_challenge_id r = ch) rows)" for m
    by (induction rows arbitrary: m) auto
  then show ?thesis by (simp add: count_solves_def)
qed

text \<open>
  C9: On a settled board a freeze, the moment it takes effect, changes nobody's total: provided that
  every award of the competition is credited in its mode, belongs to one of its challenges and stands
  at that challenge's current value, the standings recomputed as of a cutoff that no solve is later
  than are the live standings, stored wrong-guess penalties included. On a board that is not settled
  the recompute is not the live one: after a team with a solve was deleted
  (\<open>orphan_changes_frozen_value\<close>), or after an edit of a solved challenge's points, which re-values no
  award (\<open>points_edit_changes_frozen_value\<close>).
\<close>

theorem frozen_recompute_agrees:
  assumes "distinct (map ch_id (db_challenges d))"
    and "\<forall>ch\<in>set (db_challenges d). ch_competition_id ch = co_id c \<longrightarrow> valued ch (db_submissions d)"
    and "\<forall>r\<in>set (db_submissions d). awarded r \<longrightarrow>
           (su_competition_id r = co_id c \<longleftrightarrow>
              (\<exists>ch\<in>set (db_challenges d). ch_id ch = su_challenge_id r \<and> ch_competition_id ch = co_id c))
           \<and> (su_competition_id r = co_id c \<longrightarrow>
                in_scope team_mode (su_team_id r) \<and> su_created_at r \<le> cutoff)"
  shows "awarded_by_subject d c team_mode (Some cutoff) = awarded_by_subject d c team_mode None"
proof -
  let ?rows = "base_rows d c team_mode"
  have base: "r \<in> set ?rows \<longleftrightarrow> r \<in> set (db_submissions d) \<and> awarded r \<and> su_competition_id r = co_id c" for r
    using assms(3) by (auto simp: base_rows_def awarded_def)
  have rows: "filter (\<lambda>r. su_created_at r \<le> cutoff) ?rows = ?rows"
    using assms(3) base by (simp add: filter_id_conv)
  have "frozen_value d c (count_solves ?rows) r = su_points_awarded r" if r: "r \<in> set ?rows" for r
  proof -
    from r assms(3) obtain ch where ch: "ch \<in> set (db_challenges d)" "ch_id ch = su_challenge_id r"
        "ch_competition_id ch = co_id c"
      unfolding base by blast
    let ?chs = "filter (\<lambda>ch. ch_competition_id ch = co_id c) (db_challenges d)"
    have "find (\<lambda>ch. ch_id ch = su_challenge_id r) ?chs = Some ch"
    proof (cases "find (\<lambda>ch. ch_id ch = su_challenge_id r) ?chs")
      case None
      with ch show ?thesis by (auto simp: find_None_iff)
    next
      case (Some ch')
      then have "ch' \<in> set (db_challenges d)" "ch_id ch' = ch_id ch"
        using ch by (auto dest!: find_Some_in)
      with ch assms(1) have "ch' = ch" by (metis (no_types) distinct_map inj_onD)
      with Some show ?thesis by simp
    qed
    moreover have "count_solves ?rows (su_challenge_id r)
        = int (count_where (awarded_on (ch_id ch)) (db_submissions d))"
    proof -
      have "count_where (\<lambda>q. su_challenge_id q = su_challenge_id r) ?rows
          = count_where (awarded_on (ch_id ch)) (db_submissions d)"
        unfolding base_rows_def count_where_filter
        using assms(3) ch by (intro count_where_cong) (auto simp: awarded_def)
      then show ?thesis by (simp add: count_solves_eq)
    qed
    moreover have "su_points_awarded r = max 0 (challenge_value ch
        (int (count_where (awarded_on (ch_id ch)) (db_submissions d))) - su_mc_penalty r)"
      using assms(2) ch r unfolding base by (auto simp: valued_def list_all_iff awarded_def)
    ultimately show ?thesis by (simp add: frozen_value_def)
  qed
  then show ?thesis
    by (simp add: awarded_by_subject_def frozen_totals_of live_totals_of rows Let_def
        cong: totals_of_cong)
qed

section \<open>What a freeze conceals\<close>

text \<open>A submission without its (re-valued) points.\<close>

definition pointless :: "submission \<Rightarrow> submission" where
  "pointless r = r\<lparr>su_points_awarded := 0\<rparr>"

lemma pointless_simps [simp]:
  "su_challenge_id (pointless r) = su_challenge_id r" "su_created_at (pointless r) = su_created_at r"
  "su_competition_id (pointless r) = su_competition_id r" "su_is_correct (pointless r) = su_is_correct r"
  "su_is_duplicate (pointless r) = su_is_duplicate r" "su_team_id (pointless r) = su_team_id r"
  "su_user_id (pointless r) = su_user_id r" "su_mc_penalty (pointless r) = su_mc_penalty r"
  by (simp_all add: pointless_def)

text \<open>What was on record at the cutoff, points aside.\<close>

definition seen_at :: "time \<Rightarrow> submission list \<Rightarrow> submission list" where
  "seen_at cutoff rows = map pointless (filter (\<lambda>r. su_created_at r \<le> cutoff) rows)"

lemma filter_seen_at:
  assumes "\<And>r. P (pointless r) = P r"
  shows "map pointless (filter (\<lambda>r. su_created_at r \<le> cutoff) (filter P rows)) = filter P (seen_at cutoff rows)"
  using assms by (induction rows) (auto simp: seen_at_def)

lemma totals_of_pointless:
  assumes "\<And>r. f (pointless r) = f r"
  shows "totals_of f tm (map pointless rows) = totals_of f tm rows"
proof
  fix k
  have "filter (\<lambda>r. solve_col tm r = k) (map pointless rows)
      = map pointless (filter (\<lambda>r. solve_col tm r = k) rows)"
    by (induction rows) (auto simp: solve_col_def)
  then show "totals_of f tm (map pointless rows) k = totals_of f tm rows k"
    using assms by (simp add: totals_of_def Let_def comp_def image_image)
qed

lemma count_solves_pointless: "count_solves (map pointless rows) = count_solves rows"
  by (rule ext, unfold count_solves_eq, induction rows) auto

lemma frozen_value_pointless: "frozen_value d c counts (pointless r) = frozen_value d c counts r"
  by (simp add: frozen_value_def cong: option.case_cong)

lemma frozen_totals_seen:
  "frozen_totals d c tm cutoff =
    (let rows = filter (\<lambda>r. su_competition_id r = co_id c \<and> su_is_correct r \<and> \<not> su_is_duplicate r
                 \<and> in_scope tm (su_team_id r)) (seen_at cutoff (db_submissions d))
     in totals_of (frozen_value d c (count_solves rows)) tm rows)"
proof -
  let ?rows = "filter (\<lambda>r. su_created_at r \<le> cutoff) (base_rows d c tm)"
  have "frozen_totals d c tm cutoff =
      totals_of (frozen_value d c (count_solves (map pointless ?rows))) tm (map pointless ?rows)"
    by (subst totals_of_pointless)
      (simp_all add: frozen_totals_of Let_def count_solves_pointless frozen_value_pointless)
  then show ?thesis
    unfolding base_rows_def by (subst (asm) (1 2) filter_seen_at) (simp_all add: Let_def)
qed

text \<open>A board is a function of its point sources, its subjects and its brackets.\<close>

lemma compute_scoreboard_cong:
  assumes "d' = d\<lparr>db_submissions := subs\<rparr>"
    and "\<And>tm. awarded_by_subject d' c tm (if live then None else freeze_cutoff now c)
               = awarded_by_subject d c tm (if live then None else freeze_cutoff now c)"
  shows "compute_scoreboard now d' c live bracket = compute_scoreboard now d c live bracket"
proof -
  let ?t = "if live then None else freeze_cutoff now c"
  have net: "net_points d' c tm ?t = net_points d c tm ?t" for tm
    by (rule ext, simp only: net_points_def assms(2))
      (simp add: assms(1) hint_costs_by_subject_def adjustments_by_subject_def award_points_by_subject_def)
  have last_at: "last_solve d' c tm ?t = last_solve d c tm ?t" for tm
    by (rule ext, simp only: last_solve_def assms(2))
  have key: "board_key d' c tm ?t = board_key d c tm ?t" for tm
    by (rule ext, simp only: board_key_def net last_at)
  have rest: "board_subjects d' c = board_subjects d c"
      "brackets_by_subject d' (co_id c) = brackets_by_subject d (co_id c)"
    by (simp_all add: assms(1) board_subjects_def brackets_by_subject_def)
  show ?thesis by (simp only: compute_scoreboard_def Let_def net last_at key rest)
qed

text \<open>
  A frozen board does not move on a grade after the cutoff: once the freeze is in effect,
  recording any submission later than the cutoff, right or wrong, with whatever re-valuation of
  earlier solves it triggers, leaves the board everyone but the live viewers reads exactly as it
  was, in every division.
\<close>

theorem frozen_board_ignores_later_grades:
  assumes "freeze_cutoff now c = Some cutoff"
    and "cutoff < (case gc_created_at g of Some t \<Rightarrow> t | None \<Rightarrow> gc_now g)"
  shows "compute_scoreboard now (snd (record_grade read d g)) c False bracket
    = compute_scoreboard now d c False bracket"
proof -
  let ?d' = "snd (record_grade read d g)"
  have late: "\<not> su_created_at (grade_row g dup pts pen) \<le> cutoff" for dup pts pen
    using assms(2) by (simp add: grade_row_def)
  have revalued: "seen_at cutoff (revalue ch b rows) = seen_at cutoff rows" for ch b rows
    by (induction rows) (auto simp: seen_at_def revalue_def Let_def pointless_def)
  have "seen_at cutoff (db_submissions ?d') = seen_at cutoff (db_submissions d)"
    using late
    by (auto simp: record_grade_def Let_def revalued split: prod.split) (auto simp: seen_at_def)
  moreover have "?d' = d\<lparr>db_submissions := db_submissions ?d'\<rparr>"
    by (simp add: record_grade_def Let_def split: prod.split)
  then obtain subs where d': "?d' = d\<lparr>db_submissions := subs\<rparr>" by blast
  ultimately have "awarded_by_subject ?d' c tm (Some cutoff) = awarded_by_subject d c tm (Some cutoff)" for tm
    by (simp add: awarded_by_subject_def frozen_totals_seen Let_def frozen_value_def [abs_def] d')
  then show ?thesis
    by (intro compute_scoreboard_cong [OF d']) (simp add: assms(1))
qed

section \<open>Ranking\<close>

text \<open>The order of two entries: more points first, then the earlier last solve, a solve before none.\<close>

definition outranks :: "board_entry \<Rightarrow> board_entry \<Rightarrow> bool" where
  "outranks e f =
     (be_points f < be_points e
      \<or> be_points e = be_points f
        \<and> (case (be_last_solve_at e, be_last_solve_at f) of
             (_, None) \<Rightarrow> True
           | (None, Some _) \<Rightarrow> False
           | (Some s, Some t) \<Rightarrow> s \<le> t))"

definition board_rows :: "db \<Rightarrow> competition \<Rightarrow> string option \<Rightarrow> (ident \<times> string) list" where
  "board_rows d c bracket =
     (case bracket of
        None \<Rightarrow> board_subjects d c
      | Some b \<Rightarrow> filter (\<lambda>s. brackets_by_subject d (co_id c) (fst s) = Some b) (board_subjects d c))"

lemma map_zip_ranks:
  "map f (zip [1 ..< Suc (length xs)] xs) = map (\<lambda>i. f (Suc i, xs ! i)) [0 ..< length xs]"
  by (rule nth_equalityI) (simp_all del: upt_Suc)

text \<open>
  C10: A board ranks: ranks are 1, 2, 3, and so on; every registered subject of the requested
  division appears exactly as often as it is registered, scored or not; nobody is below zero; and
  an entry stands above another only with more points, or equal points and an earlier last solve
  (a subject without a solve last).
\<close>

theorem board_ranked:
  assumes "b = compute_scoreboard now d c live bracket"
  shows "map be_rank (bo_entries b) = [1 ..< Suc (length (board_rows d c bracket))]
    \<and> mset (map (\<lambda>e. (be_subject_id e, be_name e)) (bo_entries b)) = mset (board_rows d c bracket)
    \<and> list_all (\<lambda>e. 0 \<le> be_points e) (bo_entries b)
    \<and> sorted_wrt outranks (bo_entries b)"
proof -
  let ?tm = "co_participation_mode c = Team_Mode" and ?t = "if live then None else freeze_cutoff now c"
  let ?ranked = "sort_key (board_key d c ?tm ?t) (board_rows d c bracket)"
  let ?e = "\<lambda>(rank, sid, name). \<lparr>be_rank = rank, be_subject_id = sid, be_name = name,
     be_points = net_points d c ?tm ?t sid, be_last_solve_at = last_solve d c ?tm ?t sid,
     be_bracket = brackets_by_subject d (co_id c) sid\<rparr>"
  have entries: "bo_entries b = map (\<lambda>i. ?e (Suc i, ?ranked ! i)) [0 ..< length ?ranked]"
    unfolding assms compute_scoreboard_def Let_def board_rows_def map_zip_ranks [symmetric] by simp
  have ids: "map (\<lambda>e. (be_subject_id e, be_name e)) (bo_entries b) = ?ranked"
    unfolding entries by (rule nth_equalityI) (simp_all add: case_prod_beta')
  have ranks: "map be_rank (bo_entries b) = [1 ..< Suc (length ?ranked)]"
    unfolding entries by (rule nth_equalityI) (simp_all add: case_prod_beta' del: upt_Suc)
  have key: "outranks (?e (i, x)) (?e (j, y))"
    if "board_key d c ?tm ?t x \<le> board_key d c ?tm ?t y" for i j x y
    using that
    by (cases x; cases y)
      (auto simp: outranks_def board_key_def Let_def less_eq_prod_def split: option.splits if_splits)
  have "sorted_wrt outranks (bo_entries b)"
    unfolding entries sorted_wrt_map
    by (rule sorted_wrt_mono_rel [of _ "(<)"])
      (use key sorted_nth_mono [of "map (board_key d c ?tm ?t) ?ranked"] in auto)
  then show ?thesis
    using ids ranks
    by (simp add: entries list_all_iff net_points_def case_prod_beta' del: upt_Suc)
qed

section \<open>The cache\<close>

datatype cache_op =
    Read_Board time time db competition bool "string option"
  | Invalidate ident

fun cache_step :: "time \<Rightarrow> board_cache \<Rightarrow> cache_op \<Rightarrow> board_cache" where
  "cache_step ttl cache (Read_Board clock now d c live bracket) =
     snd (cached_scoreboard ttl clock now d c live bracket cache)"
| "cache_step ttl cache (Invalidate cid) = invalidate_scoreboard cid cache"

text \<open>The entry of a key was computed by a read of the log and not invalidated since.\<close>

definition entry_justified :: "time \<Rightarrow> cache_op list \<Rightarrow> ident \<Rightarrow> bool \<times> string option \<Rightarrow> time \<times> board \<Rightarrow> bool" where
  "entry_justified ttl ops cid key entry =
     (\<exists>before clock now d c later. ops = before @ Read_Board clock now d c (fst key) (snd key) # later
        \<and> co_id c = cid \<and> entry = (clock + ttl, compute_scoreboard now d c (fst key) (snd key))
        \<and> Invalidate cid \<notin> set later)"

lemma entry_justified_snoc:
  "entry_justified ttl ops cid key entry \<Longrightarrow> op \<noteq> Invalidate cid \<Longrightarrow>
     entry_justified ttl (ops @ [op]) cid key entry"
  unfolding entry_justified_def by (metis append.assoc append_Cons rotate1.simps(2) set_rotate1 set_ConsD)

lemma entry_justified_now:
  "entry_justified ttl (ops @ [Read_Board clock now d c live bracket]) (co_id c) (live, bracket)
     (clock + ttl, compute_scoreboard now d c live bracket)"
  unfolding entry_justified_def by fastforce

lemma cache_justified:
  "foldl (cache_step ttl) (\<lambda>_ _. None) ops cid key = Some entry \<Longrightarrow> entry_justified ttl ops cid key entry"
proof (induction ops arbitrary: cid key entry rule: rev_induct)
  case Nil
  then show ?case by simp
next
  case (snoc op ops)
  let ?cache = "foldl (cache_step ttl) (\<lambda>_ _. None) ops"
  show ?case
  proof (cases op)
    case (Read_Board clock now d c live bracket)
    with snoc.prems consider "?cache cid key = Some entry"
      | "cid = co_id c" "key = (live, bracket)"
        "entry = (clock + ttl, compute_scoreboard now d c live bracket)"
      by (auto simp: cached_scoreboard_def Let_def split: option.splits if_splits prod.splits)
    then show ?thesis
    proof cases
      case 1
      then show ?thesis using snoc.IH [of cid key entry] Read_Board
        by (intro entry_justified_snoc) simp_all
    next
      case 2
      then show ?thesis using entry_justified_now by (simp add: Read_Board)
    qed
  next
    case (Invalidate x)
    with snoc.prems have "x \<noteq> cid" "?cache cid key = Some entry"
      by (auto simp: invalidate_scoreboard_def split: if_splits)
    then show ?thesis using snoc.IH Invalidate by (intro entry_justified_snoc) auto
  qed
qed

text \<open>
  What a cached read serves: in any interleaving of reads and invalidations, the board
  returned was computed by a read of that competition, view and division (this one or an earlier
  one), with no invalidation of the competition since, and less than one lifetime ago.
\<close>

theorem cached_board_provenance:
  assumes "board = fst (cached_scoreboard ttl clock now d c live bracket
      (foldl (cache_step ttl) (\<lambda>_ _. None) ops))" and "0 < ttl"
  shows "\<exists>before clock' now' d' c' later.
      ops @ [Read_Board clock now d c live bracket]
        = before @ Read_Board clock' now' d' c' live bracket # later
      \<and> co_id c' = co_id c \<and> board = compute_scoreboard now' d' c' live bracket
      \<and> clock < clock' + ttl \<and> Invalidate (co_id c) \<notin> set later"
proof -
  let ?entry = "foldl (cache_step ttl) (\<lambda>_ _. None) ops (co_id c) (live, bracket)"
  let ?read = "Read_Board clock now d c live bracket"
  consider expiry where "?entry = Some (expiry, board)" "clock < expiry"
    | "board = compute_scoreboard now d c live bracket"
  proof (cases ?entry)
    case None
    with assms(1) that(2) show ?thesis by (simp add: cached_scoreboard_def Let_def)
  next
    case (Some e)
    with assms(1) that show ?thesis
      by (cases e) (simp add: cached_scoreboard_def Let_def split: if_splits)
  qed
  then show ?thesis
  proof cases
    case 1
    then have "entry_justified ttl (ops @ [?read]) (co_id c) (live, bracket) (expiry, board)"
      by (intro entry_justified_snoc cache_justified) simp_all
    then obtain before clock' now' d' c' later where
        "ops @ [?read] = before @ Read_Board clock' now' d' c' live bracket # later"
        "co_id c' = co_id c" "expiry = clock' + ttl" "board = compute_scoreboard now' d' c' live bracket"
        "Invalidate (co_id c) \<notin> set later"
      unfolding entry_justified_def fst_conv snd_conv prod.inject by blast
    with 1 show ?thesis by blast
  next
    case 2
    with assms(2) show ?thesis
      by (intro exI [of _ ops] exI [of _ clock] exI [of _ now] exI [of _ d] exI [of _ c] exI [of _ "[]"])
        simp
  qed
qed

section \<open>Freeze containment on the wire\<close>

text \<open>
  While the board is frozen, the events of a grade dated after the cutoff send nothing to the
  room competitors and spectators watch: only the staff room, if anybody is in it, gets a frame,
  and the board last sent to the public room stays the one on record.
\<close>

theorem frozen_room_silent:
  assumes "get_competition d cid = Some c" and "freeze_cutoff now c = Some cutoff"
    and "cutoff < su_created_at (go_submission out)"
    and "ev \<in> set (emit_grade out cid chid u team)"
  shows "snd (broadcast_scoreboard digest now d public_room staff_room ev held) = held
    \<and> list_all (\<lambda>f. \<exists>b. f = Staff_Frame b)
        (fst (broadcast_scoreboard digest now d public_room staff_room ev held))"
proof -
  have cid: "map_of (event_payload ev) ''competition_id'' = Some (PStr cid)"
    using assms(4) by (auto simp: emit_grade_def split: if_splits)
  have "\<not> moves_frozen_board ev cutoff"
    using assms(3,4) by (auto simp: emit_grade_def moves_frozen_board_def split: if_splits)
  then show ?thesis
    using assms(1,2) cid by (simp add: broadcast_scoreboard_def Let_def split: option.split)
qed

section \<open>Concrete boards\<close>

text \<open>Two teams, one of them deleted after it solved: its row lost its team (ON DELETE SET NULL).\<close>

definition team_row :: "ident \<Rightarrow> ident \<Rightarrow> ident option \<Rightarrow> time \<Rightarrow> int \<Rightarrow> submission" where
  "team_row i u t tm pts = \<lparr>su_id = i, su_competition_id = ''A'', su_challenge_id = ''q'', su_user_id = u,
     su_team_id = t, su_value = ''f'', su_is_correct = True, su_is_duplicate = False,
     su_points_awarded = pts, su_mc_penalty = 0, su_created_at = tm\<rparr>"

definition red_team :: team where
  "red_team = \<lparr>te_id = ''T'', te_competition_id = ''A'', te_name = ''Red'', te_invite_code = ''x'',
     te_affiliation = None, te_country = None, te_website = None, te_approval_required = False,
     te_created_at = 0\<rparr>"

definition frozen_competition :: competition where
  "frozen_competition = (blank_competition ''A'')\<lparr>co_scoreboard_frozen_at := Some 5, co_status := Running\<rparr>"

definition orphan_db :: db where
  "orphan_db = empty_db\<lparr>db_competitions := [frozen_competition], db_challenges := [dyn_challenge],
     db_teams := [red_team],
     db_submissions := [team_row ''s1'' ''a'' None 1 484, team_row ''s2'' ''b'' (Some ''T'') 2 484]\<rparr>"

lemma orphan_changes_frozen_value:
  "net_points orphan_db frozen_competition True None ''T'' = 484
   \<and> net_points orphan_db frozen_competition True (freeze_cutoff 9 frozen_competition) ''T'' = 496"
  by code_simp

text \<open>One solve worth 496; the challenge is then edited from 500 points to 300.\<close>

lemma points_edit_changes_frozen_value:
  "let d = orphan_db\<lparr>db_challenges := [dyn_challenge\<lparr>ch_points := 300\<rparr>],
         db_submissions := [team_row ''s2'' ''b'' (Some ''T'') 2 496]\<rparr>
   in net_points d frozen_competition True None ''T'' = 496
      \<and> net_points d frozen_competition True (freeze_cutoff 9 frozen_competition) ''T'' = 298"
  by code_simp

text \<open>A cached live board outlives the instant a scheduled freeze takes effect.\<close>

lemma cached_board_misses_freeze:
  "let (b1, cache) = cached_scoreboard 10 100 4 orphan_db frozen_competition False None (\<lambda>_ _. None);
       (b2, cache') = cached_scoreboard 10 102 6 orphan_db frozen_competition False None cache
   in \<not> bo_frozen b2 \<and> bo_frozen (compute_scoreboard 6 orphan_db frozen_competition False None)"
  by (simp add: cached_scoreboard_def compute_scoreboard_def freeze_cutoff_def Let_def
      frozen_competition_def blank_competition_def)

definition settled_db :: db where
  "settled_db = orphan_db\<lparr>db_submissions := [team_row ''s2'' ''b'' (Some ''T'') 2 496]\<rparr>"

lemma frozen_recompute_agrees_witness:
  "awarded_by_subject settled_db frozen_competition True (Some 5) (Some ''T'') = Some (496, 2)"
proof -
  have 1: "distinct (map ch_id (db_challenges settled_db))" by code_simp
  have 2: "\<forall>ch\<in>set (db_challenges settled_db). ch_competition_id ch = co_id frozen_competition \<longrightarrow>
      valued ch (db_submissions settled_db)" by code_simp
  have 3: "\<forall>r\<in>set (db_submissions settled_db). awarded r \<longrightarrow>
      (su_competition_id r = co_id frozen_competition \<longleftrightarrow>
         (\<exists>ch\<in>set (db_challenges settled_db). ch_id ch = su_challenge_id r
            \<and> ch_competition_id ch = co_id frozen_competition))
      \<and> (su_competition_id r = co_id frozen_competition \<longrightarrow>
           in_scope True (su_team_id r) \<and> su_created_at r \<le> 5)" by code_simp
  have "awarded_by_subject settled_db frozen_competition True None (Some ''T'') = Some (496, 2)"
    by code_simp
  then show ?thesis by (simp only: frozen_recompute_agrees [OF 1 2 3])
qed

lemma frozen_board_ignores_later_grades_witness:
  "compute_scoreboard 9 (snd (record_grade orphan_db orphan_db (solve_call ''s3'' ''z'' 8)))
     frozen_competition False None
   = compute_scoreboard 9 orphan_db frozen_competition False None"
  by (rule frozen_board_ignores_later_grades [where cutoff = 5]) code_simp+

lemma board_ranked_witness:
  "map be_rank (bo_entries (compute_scoreboard 9 orphan_db frozen_competition False None)) = [1]"
  using board_ranked [OF refl, of 9 orphan_db frozen_competition False None]
  by (simp add: board_rows_def board_subjects_def orphan_db_def frozen_competition_def
      blank_competition_def red_team_def)

lemma cached_board_provenance_witness:
  "fst (cached_scoreboard 10 100 9 orphan_db frozen_competition False None (\<lambda>_ _. None))
   = compute_scoreboard 9 orphan_db frozen_competition False None"
  using cached_board_provenance [of _ 10 100 9 orphan_db frozen_competition False None "[]", OF refl]
  by (auto simp: append_eq_Cons_conv Cons_eq_append_conv)

lemma frozen_room_silent_witness:
  "snd (broadcast_scoreboard (\<lambda>_. ''h'') 9 orphan_db True True
     (hd (emit_grade (fst (record_grade orphan_db orphan_db (solve_call ''s3'' ''z'' 8))) ''A'' ''q'' ''z'' None))
     (\<lambda>_. None)) = (\<lambda>_. None)"
  by (rule frozen_room_silent [where cutoff = 5 and cid = "''A''" and c = frozen_competition
        and chid = "''q''" and u = "''z''" and team = None
        and out = "fst (record_grade orphan_db orphan_db (solve_call ''s3'' ''z'' 8))", THEN conjunct1])
    (code_simp, code_simp, code_simp, simp add: emit_grade_def)

end
