(* ===== verification/Rate_Limit.thy ===== *)
theory Rate_Limit
  imports Prelude
begin

text \<open>
  The sliding-window rate limiter (\<open>ratelimit/\<close>): the contract of \<open>base.py\<close> as a locale
  over an abstract history of admitted hits, the in-memory limiter of \<open>memory.py\<close>, which
  interprets it, and the Redis limiter of \<open>redis_limiter.py\<close> over a sorted-set store that is a
  parameter with the laws of the Redis commands it calls. Times are in microseconds; one limiter
  key is always hit with one limit and one window, as its callers do.
\<close>

section \<open>The contract\<close>

text \<open>One call: a hit of a key (with the unique member name the Redis limiter draws), or a reset.\<close>

datatype limiter_op = Hit ident time string | Reset ident time string

fun op_time :: "limiter_op \<Rightarrow> time" where
  "op_time (Hit k t m) = t"
| "op_time (Reset k t m) = t"

fun op_member :: "limiter_op \<Rightarrow> string" where
  "op_member (Hit k t m) = m"
| "op_member (Reset k t m) = m"

text \<open>
  The abstract limiter keeps every admitted hit since the last reset: a hit is admitted iff fewer
  than \<open>limit\<close> admitted ones lie in the trailing window, and a rejected one leaves no trace.
\<close>

type_synonym history = "ident \<Rightarrow> time list"

definition spec_allowed :: "int \<Rightarrow> time \<Rightarrow> history \<Rightarrow> ident \<Rightarrow> time \<Rightarrow> bool" where
  "spec_allowed limit window h k now = (int (count_where (\<lambda>t. now - window < t) (h k)) < limit)"

fun spec_step :: "int \<Rightarrow> time \<Rightarrow> history \<Rightarrow> limiter_op \<Rightarrow> bool \<times> history" where
  "spec_step limit window h (Hit k now m) =
     (if spec_allowed limit window h k now then (True, h(k := h k @ [now])) else (False, h))"
| "spec_step limit window h (Reset k now m) = (True, h(k := []))"

fun run_verdicts :: "('s \<Rightarrow> limiter_op \<Rightarrow> bool \<times> 's) \<Rightarrow> 's \<Rightarrow> limiter_op list \<Rightarrow> bool list" where
  "run_verdicts step s [] = []"
| "run_verdicts step s (x # xs) = fst (step s x) # run_verdicts step (snd (step s x)) xs"

definition run_state :: "('s \<Rightarrow> limiter_op \<Rightarrow> bool \<times> 's) \<Rightarrow> 's \<Rightarrow> limiter_op list \<Rightarrow> 's" where
  "run_state step s xs = foldl (\<lambda>s x. snd (step s x)) s xs"

text \<open>The clock does not go back, and every hit draws a new member name.\<close>

definition well_timed :: "time \<Rightarrow> limiter_op list \<Rightarrow> bool" where
  "well_timed t0 ops = (sorted (t0 # map op_time ops) \<and> distinct (map op_member ops))"

text \<open>
  An implementation: a step function, and the relation between the abstract history, the time of
  the last call, the member names used, and its state.
\<close>

locale limiter_impl =
  fixes limit :: int and window :: time
    and step :: "'s \<Rightarrow> limiter_op \<Rightarrow> bool \<times> 's"
    and init :: 's
    and rel :: "history \<Rightarrow> time \<Rightarrow> string set \<Rightarrow> 's \<Rightarrow> bool"
  assumes rel_init: "rel (\<lambda>_. []) 0 {} init"
    and rel_step: "rel h t used s \<Longrightarrow> t \<le> op_time x \<Longrightarrow> op_member x \<notin> used \<Longrightarrow>
      fst (step s x) = fst (spec_step limit window h x)
      \<and> rel (snd (spec_step limit window h x)) (op_time x) (insert (op_member x) used) (snd (step s x))"
begin

lemma run_refines:
  "rel h t used s \<Longrightarrow> well_timed t ops \<Longrightarrow> op_member ` set ops \<inter> used = {} \<Longrightarrow>
     run_verdicts step s ops = run_verdicts (spec_step limit window) h ops"
proof (induction ops arbitrary: h t used s)
  case Nil
  then show ?case by simp
next
  case (Cons x xs)
  then have "t \<le> op_time x" "op_member x \<notin> used" by (auto simp: well_timed_def)
  from rel_step [OF Cons.prems(1) this] show ?case
    using Cons.prems Cons.IH [of "snd (spec_step limit window h x)" "op_time x"
        "insert (op_member x) used" "snd (step s x)"]
    by (auto simp: well_timed_def)
qed

lemma verdicts_spec:
  "well_timed 0 ops \<Longrightarrow> run_verdicts step init ops = run_verdicts (spec_step limit window) (\<lambda>_. []) ops"
  by (rule run_refines [OF rel_init]) auto

end

section \<open>In memory\<close>

definition mem_hit :: "int \<Rightarrow> time \<Rightarrow> time \<Rightarrow> ident \<Rightarrow> history \<Rightarrow> bool \<times> history" where
  "mem_hit limit window now key hits =
     (let cutoff = now - window;
          bucket = dropWhile (\<lambda>t. t \<le> cutoff) (hits key)
      in if int (length bucket) \<ge> limit then (False, hits(key := bucket))
         else (True, hits(key := bucket @ [now])))"

definition mem_reset :: "ident \<Rightarrow> history \<Rightarrow> history" where
  "mem_reset key hits = hits(key := [])"

fun mem_step :: "int \<Rightarrow> time \<Rightarrow> history \<Rightarrow> limiter_op \<Rightarrow> bool \<times> history" where
  "mem_step limit window s (Hit k now m) = mem_hit limit window now k s"
| "mem_step limit window s (Reset k now m) = (True, mem_reset k s)"

text \<open>A bucket is a suffix of the history that still holds everything in the window.\<close>

definition mem_rel :: "time \<Rightarrow> history \<Rightarrow> time \<Rightarrow> string set \<Rightarrow> history \<Rightarrow> bool" where
  "mem_rel window h t used s =
     (\<forall>k. sorted (h k) \<and> (\<forall>x\<in>set (h k). x \<le> t)
        \<and> (\<exists>old. h k = old @ s k \<and> (\<forall>x\<in>set old. x \<le> t - window)))"

lemma sorted_dropWhile_le:
  "sorted xs \<Longrightarrow> dropWhile (\<lambda>t. t \<le> (c::int)) xs = filter (\<lambda>t. c < t) xs"
proof (induction xs)
  case (Cons x xs)
  show ?case
  proof (cases "x \<le> c")
    case True
    with Cons show ?thesis by simp
  next
    case False
    with Cons.prems have "\<forall>y\<in>set xs. c < y" by auto
    with False show ?thesis by (simp add: filter_id_conv [THEN iffD2])
  qed
qed simp

lemma mem_bucket:
  assumes "mem_rel window h t used s" "t \<le> now"
  shows "dropWhile (\<lambda>x. x \<le> now - window) (s k) = filter (\<lambda>x. now - window < x) (h k)"
proof -
  from assms(1) obtain old where "h k = old @ s k" "\<forall>x\<in>set old. x \<le> t - window" "sorted (h k)"
    unfolding mem_rel_def by blast
  moreover from this assms(2) have "filter (\<lambda>x. now - window < x) old = []"
    by (fastforce simp: filter_empty_conv)
  ultimately show ?thesis by (simp add: sorted_dropWhile_le sorted_append)
qed

lemma mem_rel_bucket:
  assumes "sorted (h :: time list)" "\<forall>x\<in>set h. x \<le> now"
  shows "\<exists>old. h = old @ dropWhile (\<lambda>x. x \<le> now - w) h \<and> (\<forall>x\<in>set old. x \<le> now - w)"
  by (rule exI [of _ "takeWhile (\<lambda>x. x \<le> now - w) h"]) (auto dest: set_takeWhileD)

lemma mem_rel_step:
  assumes "mem_rel window h t used s" "t \<le> op_time x"
  shows "fst (mem_step limit window s x) = fst (spec_step limit window h x)
    \<and> mem_rel window (snd (spec_step limit window h x)) (op_time x) used' (snd (mem_step limit window s x))"
proof -
  define now where "now = op_time x"
  have now: "t \<le> now" using assms(2) by (simp add: now_def)
  have hist: "sorted (h j)" "\<forall>y\<in>set (h j). y \<le> now"
      "\<exists>old. h j = old @ s j \<and> (\<forall>y\<in>set old. y \<le> now - window)" for j
    using assms(1) now unfolding mem_rel_def by (blast, force, force)
  have upd: "mem_rel window (h(k := hk)) now used' (s(k := sk))"
    if "sorted hk" "\<forall>y\<in>set hk. y \<le> now" "\<exists>old. hk = old @ sk \<and> (\<forall>y\<in>set old. y \<le> now - window)"
    for k hk sk
    using that hist by (simp add: mem_rel_def)
  show ?thesis
  proof (cases x)
    case (Reset k tm m)
    then show ?thesis using upd [of "[]" "[]" k] by (simp add: mem_reset_def now_def)
  next
    case (Hit k tm m)
    then have tm: "tm = now" by (simp add: now_def)
    note bucket = mem_bucket [OF assms(1) now, of k]
    let ?kept = "dropWhile (\<lambda>x. x \<le> now - window) (s k)"
    have len: "int (length ?kept) = int (count_where (\<lambda>t. now - window < t) (h k))"
      by (simp add: bucket count_where_def)
    obtain old where old: "h k = old @ ?kept" "\<forall>y\<in>set old. y \<le> now - window"
      using mem_rel_bucket [OF hist(1) hist(2), of k window] hist(1) [of k]
      unfolding bucket sorted_dropWhile_le [OF hist(1) [of k]] by blast
    have rej: "mem_rel window (h(k := h k)) now used' (s(k := ?kept))"
      using old hist(1,2) [of k] by (intro upd exI [of _ old]) auto
    have "h k @ [now] = old @ (?kept @ [now])" using old(1) by simp
    moreover have "sorted (h k @ [now])" "\<forall>y\<in>set (h k @ [now]). y \<le> now"
      using hist(1,2) [of k] by (auto simp: sorted_append)
    ultimately have acc: "mem_rel window (h(k := h k @ [now])) now used' (s(k := ?kept @ [now]))"
      using old(2) by (intro upd exI [of _ old]) auto
    show ?thesis
      using rej acc len by (simp add: Hit tm mem_hit_def Let_def spec_allowed_def)
  qed
qed

interpretation mem: limiter_impl limit window "mem_step limit window" "\<lambda>_. []" "mem_rel window"
  for limit window
  by unfold_locales (simp add: mem_rel_def, rule mem_rel_step)

section \<open>Redis\<close>

text \<open>The commands of a sorted set the limiter calls.\<close>

record 'z zset_ops =
  zo_empty :: 'z
  zo_remrangebyscore :: "'z \<Rightarrow> int \<Rightarrow> int \<Rightarrow> 'z"
  zo_add :: "'z \<Rightarrow> string \<Rightarrow> int \<Rightarrow> 'z"
  zo_card :: "'z \<Rightarrow> int"
  zo_rem :: "'z \<Rightarrow> string \<Rightarrow> 'z"

text \<open>
  What their documentation promises of the set of (member, score) pairs: \<open>ZREMRANGEBYSCORE\<close>
  removes the members whose score is in the closed range, \<open>ZADD\<close> of a new member adds it,
  \<open>ZCARD\<close> counts, \<open>ZREM\<close> removes one member.
\<close>

definition zset_laws :: "('z, 'm) zset_ops_scheme \<Rightarrow> ('z \<Rightarrow> (string \<times> int) set) \<Rightarrow> bool" where
  "zset_laws ops elems =
     (elems (zo_empty ops) = {}
      \<and> (\<forall>z. finite (elems z) \<longrightarrow> zo_card ops z = int (card (elems z)))
      \<and> (\<forall>z lo hi. elems (zo_remrangebyscore ops z lo hi) = {e \<in> elems z. \<not> (lo \<le> snd e \<and> snd e \<le> hi)})
      \<and> (\<forall>z m x. m \<notin> fst ` elems z \<longrightarrow> elems (zo_add ops z m x) = insert (m, x) (elems z))
      \<and> (\<forall>z m. elems (zo_rem ops z m) = {e \<in> elems z. fst e \<noteq> m}))"

definition redis_hit ::
  "('z, 'm) zset_ops_scheme \<Rightarrow> int \<Rightarrow> time \<Rightarrow> time \<Rightarrow> string \<Rightarrow> ident \<Rightarrow> (ident \<Rightarrow> 'z) \<Rightarrow> bool \<times> (ident \<Rightarrow> 'z)" where
  "redis_hit ops limit window now member key store =
     (let cutoff = now - window;
          z1 = zo_remrangebyscore ops (store key) 0 cutoff;
          z2 = zo_add ops z1 member now;
          count = zo_card ops z2
      in if count > limit then (False, store(key := zo_rem ops z2 member))
         else (True, store(key := z2)))"

definition redis_reset :: "('z, 'm) zset_ops_scheme \<Rightarrow> ident \<Rightarrow> (ident \<Rightarrow> 'z) \<Rightarrow> (ident \<Rightarrow> 'z)" where
  "redis_reset ops key store = store(key := zo_empty ops)"

fun redis_step ::
  "('z, 'm) zset_ops_scheme \<Rightarrow> int \<Rightarrow> time \<Rightarrow> (ident \<Rightarrow> 'z) \<Rightarrow> limiter_op \<Rightarrow> bool \<times> (ident \<Rightarrow> 'z)" where
  "redis_step ops limit window s (Hit k now m) = redis_hit ops limit window now m k s"
| "redis_step ops limit window s (Reset k now m) = (True, redis_reset ops k s)"

text \<open>
  The members of a key are hits of the history under distinct names; those the window still needs
  are all there.
\<close>

definition redis_rel ::
  "('z \<Rightarrow> (string \<times> int) set) \<Rightarrow> time \<Rightarrow> history \<Rightarrow> time \<Rightarrow> string set \<Rightarrow> (ident \<Rightarrow> 'z) \<Rightarrow> bool" where
  "redis_rel elems window h t used s =
     (0 \<le> t \<and> (\<forall>k. \<exists>ms. distinct (map fst ms) \<and> elems (s k) = set ms \<and> fst ` set ms \<subseteq> used
        \<and> (\<forall>m\<in>set ms. 0 \<le> snd m)
        \<and> filter (\<lambda>x. t - window < x) (map snd ms) = filter (\<lambda>x. t - window < x) (h k)))"

lemma filter_later:
  "t \<le> now \<Longrightarrow> filter (\<lambda>x. t - w < (x::int)) xs = filter (\<lambda>x. t - w < x) ys \<Longrightarrow>
     filter (\<lambda>x. now - w < x) xs = filter (\<lambda>x. now - w < x) ys"
proof -
  assume "t \<le> now" and eq: "filter (\<lambda>x. t - w < x) xs = filter (\<lambda>x. t - w < x) ys"
  then have "filter (\<lambda>x. now - w < x) zs = filter (\<lambda>x. now - w < x) (filter (\<lambda>x. t - w < x) zs)" for zs
    by (auto intro: filter_cong)
  with eq show ?thesis by metis
qed

lemma redis_rel_step:
  assumes laws: "zset_laws ops elems" and rel: "redis_rel elems window h t used s"
    and time: "t \<le> op_time x" and fresh: "op_member x \<notin> used" and w: "0 < window"
  shows "fst (redis_step ops limit window s x) = fst (spec_step limit window h x)
    \<and> redis_rel elems window (snd (spec_step limit window h x)) (op_time x) (insert (op_member x) used)
        (snd (redis_step ops limit window s x))"
proof -
  have key: "\<exists>ms. distinct (map fst ms) \<and> elems (s j) = set ms \<and> fst ` set ms \<subseteq> used
        \<and> (\<forall>m\<in>set ms. 0 \<le> snd m)
        \<and> filter (\<lambda>y. op_time x - window < y) (map snd ms) = filter (\<lambda>y. op_time x - window < y) (h j)" for j
    using rel filter_later [OF time] unfolding redis_rel_def by metis
  have pos: "0 \<le> op_time x" using rel time by (simp add: redis_rel_def)
  show ?thesis
  proof (cases x)
    case (Reset k now m)
    have "elems (zo_empty ops) = {}" using laws by (simp add: zset_laws_def)
    then show ?thesis
      using key pos unfolding redis_rel_def Reset
      by (auto simp: redis_reset_def intro: exI [of _ "[]"] dest: subset_insertI2)
        (metis subset_insertI2)
  next
    case (Hit k now m)
    obtain ms where ms: "distinct (map fst ms)" "elems (s k) = set ms" "fst ` set ms \<subseteq> used"
      "\<forall>e\<in>set ms. 0 \<le> snd e"
      "filter (\<lambda>y. now - window < y) (map snd ms) = filter (\<lambda>y. now - window < y) (h k)"
      using key [of k] Hit by auto
    define kept where "kept = filter (\<lambda>e. now - window < snd e) ms"
    let ?z1 = "zo_remrangebyscore ops (s k) 0 (now - window)"
    let ?z2 = "zo_add ops ?z1 m now"
    have z1: "elems ?z1 = set kept"
      using laws ms(2,4) by (auto simp: zset_laws_def kept_def)
    have dist: "distinct (map fst kept)" using ms(1) by (simp add: kept_def distinct_map_filter)
    have m: "m \<notin> fst ` set kept" using ms(3) fresh Hit by (auto simp: kept_def)
    then have z2: "elems ?z2 = set (kept @ [(m, now)])" using laws z1 by (simp add: zset_laws_def)
    have snds: "map snd kept = filter (\<lambda>y. now - window < y) (h k)"
      using ms(5) by (simp add: kept_def filter_map comp_def)
    have dist2: "distinct (map fst (kept @ [(m, now)]))" using dist m by simp
    then have "distinct (kept @ [(m, now)])" by (simp only: distinct_map)
    then have "card (set (kept @ [(m, now)])) = Suc (length kept)"
      by (subst distinct_card) simp_all
    then have card: "zo_card ops ?z2 = int (Suc (length kept))"
      using laws z2 by (simp add: zset_laws_def)
    have cnt: "length kept = count_where (\<lambda>y. now - window < y) (h k)"
      using arg_cong [OF snds, of length] by (simp add: count_where_def)
    have rem: "elems (zo_rem ops ?z2 m) = set kept"
      using laws z2 m by (auto simp: zset_laws_def image_iff)
    have sub: "fst ` set kept \<subseteq> used" "\<forall>e\<in>set kept. 0 \<le> snd e" using ms by (auto simp: kept_def)
    have now: "0 \<le> now" "now - window < now" using pos w Hit by auto
    have filt: "filter (\<lambda>y. now - window < y) (map snd kept) = filter (\<lambda>y. now - window < y) (h k)"
      by (simp add: snds)
    have rej: "\<exists>ms. distinct (map fst ms) \<and> elems (zo_rem ops ?z2 m) = set ms
        \<and> fst ` set ms \<subseteq> insert m used \<and> (\<forall>m\<in>set ms. 0 \<le> snd m)
        \<and> filter (\<lambda>y. now - window < y) (map snd ms) = filter (\<lambda>y. now - window < y) (h k)"
      using rem dist sub filt by (intro exI [of _ kept]) auto
    have acc: "\<exists>ms. distinct (map fst ms) \<and> elems ?z2 = set ms
        \<and> fst ` set ms \<subseteq> insert m used \<and> (\<forall>m\<in>set ms. 0 \<le> snd m)
        \<and> filter (\<lambda>y. now - window < y) (map snd ms) = filter (\<lambda>y. now - window < y) (h k @ [now])"
      using z2 sub filt now dist2 by (intro exI [of _ "kept @ [(m, now)]"]) auto
    have rest: "\<exists>ms. distinct (map fst ms) \<and> elems (s j) = set ms \<and> fst ` set ms \<subseteq> insert m used
        \<and> (\<forall>m\<in>set ms. 0 \<le> snd m)
        \<and> filter (\<lambda>y. now - window < y) (map snd ms) = filter (\<lambda>y. now - window < y) (h j)" for j
    proof -
      from key [of j] obtain ms where "distinct (map fst ms)" "elems (s j) = set ms" "fst ` set ms \<subseteq> used"
        "\<forall>m\<in>set ms. 0 \<le> snd m"
        "filter (\<lambda>y. now - window < y) (map snd ms) = filter (\<lambda>y. now - window < y) (h j)"
        using Hit by auto
      then show ?thesis by (intro exI [of _ ms]) auto
    qed
    show ?thesis
      using card cnt rej acc rest now
      by (simp add: Hit redis_hit_def Let_def spec_allowed_def redis_rel_def)
  qed
qed

lemma redis_impl:
  assumes "zset_laws ops elems" "0 < window"
  shows "limiter_impl limit window (redis_step ops limit window) (\<lambda>_. zo_empty ops) (redis_rel elems window)"
proof
  have "elems (zo_empty ops) = {}" using assms(1) by (simp add: zset_laws_def)
  then show "redis_rel elems window (\<lambda>_. []) 0 {} (\<lambda>_. zo_empty ops)"
    by (auto simp: redis_rel_def intro: exI [of _ "[]"])
qed (rule redis_rel_step [OF assms(1) _ _ _ assms(2)])

section \<open>Properties\<close>

text \<open>
  C21: The two limiters are interchangeable: on every sequence of hits and resets with a clock
  that does not go back, the Redis limiter and the in-memory double of the tests admit and reject
  exactly the same hits, as the sliding-window specification does.
\<close>

theorem limiters_agree:
  assumes "zset_laws ops elems" "0 < window" "well_timed 0 calls"
  shows "run_verdicts (redis_step ops limit window) (\<lambda>_. zo_empty ops) calls
      = run_verdicts (mem_step limit window) (\<lambda>_. []) calls
    \<and> run_verdicts (mem_step limit window) (\<lambda>_. []) calls
      = run_verdicts (spec_step limit window) (\<lambda>_. []) calls"
  using limiter_impl.verdicts_spec [OF redis_impl [OF assms(1,2)] assms(3)] mem.verdicts_spec [OF assms(3)]
  by simp

text \<open>The admitted times among the hits of a key, by the verdicts they got.\<close>

definition admitted :: "ident \<Rightarrow> limiter_op list \<Rightarrow> bool list \<Rightarrow> time list" where
  "admitted k calls verdicts =
     map (op_time \<circ> fst) (filter (\<lambda>(x, v). v \<and> (case x of Hit j _ _ \<Rightarrow> j = k | _ \<Rightarrow> False)) (zip calls verdicts))"

definition window_ok :: "int \<Rightarrow> time \<Rightarrow> time list \<Rightarrow> bool" where
  "window_ok limit window xs =
     (\<forall>t. int (count_where (\<lambda>x. t - window < x \<and> x \<le> t) xs) \<le> limit)"

lemma window_ok_snoc:
  assumes "window_ok limit window xs" "\<forall>x\<in>set xs. x \<le> now"
    and "int (count_where (\<lambda>t. now - window < t) xs) < limit"
  shows "window_ok limit window (xs @ [now])"
  unfolding window_ok_def
proof
  fix t
  show "int (count_where (\<lambda>x. t - window < x \<and> x \<le> t) (xs @ [now])) \<le> limit"
  proof (cases "now \<le> t")
    case True
    have "count_where (\<lambda>x. t - window < x \<and> x \<le> t) xs \<le> count_where (\<lambda>t. now - window < t) xs"
      using True by (intro count_where_mono) auto
    with assms(3) show ?thesis by simp
  next
    case False
    with assms(1) show ?thesis by (simp add: window_ok_def)
  qed
qed

lemma spec_run_window:
  assumes "\<forall>x\<in>set calls. \<exists>j t m. x = Hit j t m" "sorted (t # map op_time calls)"
    "window_ok limit window (h k)" "\<forall>x\<in>set (h k). x \<le> t"
  shows "window_ok limit window
    (h k @ admitted k calls (run_verdicts (spec_step limit window) h calls))"
  using assms
proof (induction calls arbitrary: h t)
  case Nil
  then show ?case by (simp add: admitted_def)
next
  case (Cons x xs)
  then obtain j now m where x: "x = Hit j now m" by auto
  let ?h = "snd (spec_step limit window h x)"
  have now: "\<forall>y\<in>set (h k). y \<le> now" using Cons.prems x by force
  have "window_ok limit window (?h k)" "\<forall>y\<in>set (?h k). y \<le> now"
    using Cons.prems(3) now window_ok_snoc [OF Cons.prems(3) now] by (auto simp: x spec_allowed_def)
  then have "window_ok limit window (?h k @ admitted k xs (run_verdicts (spec_step limit window) ?h xs))"
    using Cons.prems x by (intro Cons.IH) auto
  then show ?case by (auto simp: x admitted_def split: if_splits)
qed

text \<open>
  The limit holds in every window: whatever sequence of hits the limiter sees, in no
  trailing window of the configured length does a key get more than \<open>limit\<close> hits admitted.
\<close>

theorem limiter_window_bound:
  assumes "well_timed 0 calls" "0 \<le> limit" "\<forall>x\<in>set calls. \<exists>j t m. x = Hit j t m"
  shows "int (count_where (\<lambda>x. t - window < x \<and> x \<le> t)
      (admitted k calls (run_verdicts (mem_step limit window) (\<lambda>_. []) calls))) \<le> limit"
  using spec_run_window [OF assms(3), of 0 limit window "\<lambda>_. []" k] assms(1,2)
  by (simp add: mem.verdicts_spec [OF assms(1)] window_ok_def well_timed_def)

definition list_zset :: "(string \<times> int) list zset_ops" where
  "list_zset = \<lparr>zo_empty = [], zo_remrangebyscore = (\<lambda>z lo hi. filter (\<lambda>e. \<not> (lo \<le> snd e \<and> snd e \<le> hi)) z),
     zo_add = (\<lambda>z m x. List.insert (m, x) z), zo_card = (\<lambda>z. int (length (remdups z))),
     zo_rem = (\<lambda>z m. filter (\<lambda>e. fst e \<noteq> m) z)\<rparr>"

lemma list_zset_laws: "zset_laws list_zset set"
  by (auto simp: zset_laws_def list_zset_def length_remdups_card_conv)

definition burst :: "limiter_op list" where
  "burst = [Hit ''k'' 1 ''a'', Hit ''k'' 2 ''b'', Hit ''k'' 3 ''c'', Hit ''k'' 12 ''d'']"

lemma limiters_agree_witness:
  "run_verdicts (redis_step list_zset 2 10) (\<lambda>_. []) burst = [True, True, False, True]"
proof -
  have "well_timed 0 burst" by code_simp
  moreover have "run_verdicts (mem_step 2 10) (\<lambda>_. []) burst = [True, True, False, True]" by code_simp
  ultimately show ?thesis
    using limiters_agree [OF list_zset_laws, of 10 burst 2] by (simp add: list_zset_def)
qed

lemma limiter_window_bound_witness:
  "int (count_where (\<lambda>x. 11 - 10 < x \<and> x \<le> 11)
      (admitted ''k'' burst (run_verdicts (mem_step 2 10) (\<lambda>_. []) burst))) \<le> 2"
  by (rule limiter_window_bound) (code_simp, simp, simp add: burst_def)

end
