(* ===== verification/Module_Loader.thy ===== *)
theory Module_Loader
  imports Data_Model
begin

text \<open>
  The module loader (\<open>plugins/loader.py\<close>, \<open>plugins/manifest.py\<close>): the tier rules a
  manifest is validated against, the depth-first resolution of the load order, the wiring of the
  modules in that order and the per-competition toggle. Python's \<open>visiting\<close> set is restored
  on every return, so it is passed down the recursion; a raised \<open>ModuleError\<close> is the left
  result. Importing a module and the parsing of YAML are parameters.
\<close>

section \<open>Manifests\<close>

datatype module_kind = Pack_Kind | Module_Kind

datatype trust_tier = Declarative | Code_Tier | Sandboxed

datatype capability = Network_Egress | Storage_Objects | Events_Emit | Events_Subscribe
  | Background_Tasks | Permissions_Define | Migrations_Run | Settings_Store | Competition_Read
  | Competition_Write | Site_Settings_Read

definition CODE_ONLY_CAPABILITIES :: "capability list" where
  "CODE_ONLY_CAPABILITIES = [Network_Egress, Migrations_Run, Permissions_Define]"

text \<open>
  The fields of a validated \<open>plugin.yaml\<close> that the tier rules or the loader read;
  \<open>permissions\<close> by their keys, \<open>pack\<close> by its type.
\<close>

record manifest_model =
  mo_manifest_version :: int
  mo_id :: ident
  mo_name :: string
  mo_version :: string
  mo_description :: string
  mo_kind :: "module_kind option"
  mo_dependencies :: "ident list"
  mo_required_core :: bool
  mo_trust_tier :: "trust_tier option"
  mo_provides_routes :: bool
  mo_provides_event_listeners :: bool
  mo_provides_models :: bool
  mo_provides_migrations :: bool
  mo_capabilities :: "capability list"
  mo_permissions :: "string list"
  mo_pack :: "string option"

definition effective_kind :: "manifest_model \<Rightarrow> module_kind" where
  "effective_kind m = coalesce (mo_kind m) Module_Kind"

definition check_tier_rules :: "manifest_model \<Rightarrow> string + manifest_model" where
  "check_tier_rules m =
     (let strict = mo_manifest_version m = 2
      in if strict \<and> mo_kind m = None
         then Inl ''manifest_version 2 requires 'kind' (pack|module)''
         else if strict \<and> mo_kind m = Some Module_Kind \<and> mo_trust_tier m = None
         then Inl ''a module requires 'trust_tier' (declarative|code)''
         else if strict \<and> mo_kind m = Some Pack_Kind \<and> mo_pack m = None
         then Inl ''a pack requires a 'pack' body''
         else if mo_trust_tier m = Some Sandboxed
         then Inl ''trust_tier 'sandboxed' (Tier 3) is reserved and not yet supported''
         else if mo_trust_tier m = Some Declarative
           \<and> filter (\<lambda>c. c \<in> set (mo_capabilities m)) CODE_ONLY_CAPABILITIES \<noteq> []
         then Inl ''a declarative module may not request code-only capabilities''
         else if effective_kind m = Pack_Kind \<and> mo_dependencies m \<noteq> []
         then Inl ''a pack takes no dependencies''
         else if effective_kind m = Pack_Kind
           \<and> (mo_capabilities m \<noteq> [] \<or> mo_permissions m \<noteq> [] \<or> mo_provides_routes m
              \<or> mo_provides_event_listeners m \<or> mo_provides_migrations m \<or> mo_provides_models m)
         then Inl ''a pack declares no code (no provides/capabilities/permissions)''
         else if effective_kind m = Pack_Kind \<and> mo_pack m = None
         then Inl ''a pack requires a 'pack' body''
         else Inr m)"

text \<open>The loader's own record of a module.\<close>

record module_manifest =
  mm_id :: ident
  mm_name :: string
  mm_version :: string
  mm_description :: string
  mm_required_core :: bool
  mm_provides_routes :: bool
  mm_provides_event_listeners :: bool
  mm_dependencies :: "ident list"
  mm_kind :: module_kind
  mm_trust_tier :: "trust_tier option"
  mm_capabilities :: "capability list"

definition mm_enabled :: "module_manifest \<Rightarrow> bool" where
  "mm_enabled m = True"

datatype module_error =
    Invalid_Manifest string
  | Duplicate_Module ident
  | Missing_Dependency ident ident
  | Disabled_Dependency ident ident
  | Dependency_Cycle ident
  | No_Entry_Point ident
  | Unknown_Module ident

definition parse_manifest :: "manifest_model \<Rightarrow> module_error + module_manifest" where
  "parse_manifest data =
     (case check_tier_rules data of
        Inl msg \<Rightarrow> Inl (Invalid_Manifest msg)
      | Inr model \<Rightarrow> Inr \<lparr>mm_id = mo_id model, mm_name = mo_name model, mm_version = mo_version model,
          mm_description = mo_description model, mm_required_core = mo_required_core model,
          mm_provides_routes = mo_provides_routes model,
          mm_provides_event_listeners = mo_provides_event_listeners model,
          mm_dependencies = mo_dependencies model, mm_kind = effective_kind model,
          mm_trust_tier = mo_trust_tier model, mm_capabilities = mo_capabilities model\<rparr>)"

section \<open>Load order\<close>

definition by_id :: "module_manifest list \<Rightarrow> ident \<Rightarrow> module_manifest option" where
  "by_id ms i = find (\<lambda>m. mm_id m = i) ms"

fun check_duplicates :: "ident list \<Rightarrow> module_manifest list \<Rightarrow> module_error option" where
  "check_duplicates seen [] = None"
| "check_duplicates seen (m # ms) =
     (if mm_id m \<in> set seen then Some (Duplicate_Module (mm_id m))
      else check_duplicates (mm_id m # seen) ms)"

fun check_dependencies :: "module_manifest list \<Rightarrow> (ident \<times> ident) list \<Rightarrow> module_error option" where
  "check_dependencies ms [] = None"
| "check_dependencies ms ((i, dep) # rest) =
     (case by_id ms dep of
        None \<Rightarrow> Some (Missing_Dependency i dep)
      | Some d \<Rightarrow> if \<not> mm_enabled d then Some (Disabled_Dependency i dep)
                  else check_dependencies ms rest)"

definition dependency_pairs :: "module_manifest list \<Rightarrow> (ident \<times> ident) list" where
  "dependency_pairs ms = concat (map (\<lambda>m. map (Pair (mm_id m)) (mm_dependencies m)) ms)"

text \<open>Each nested visit marks one more of the finitely many ids, so the recursion of \<open>visit\<close> ends.\<close>

lemma by_id_in: "by_id ms i = Some m \<Longrightarrow> m \<in> set ms \<and> mm_id m = i"
  unfolding by_id_def by (drule find_Some_in) simp

lemma unvisited_decreases:
  assumes "by_id ms i = Some m" "i \<notin> set visiting"
  shows "card (mm_id ` set ms - insert i (set visiting)) < card (mm_id ` set ms - set visiting)"
proof (rule psubset_card_mono)
  have "i \<in> mm_id ` set ms" using by_id_in [OF assms(1)] by blast
  with assms(2) show "mm_id ` set ms - insert i (set visiting) \<subset> mm_id ` set ms - set visiting"
    by blast
qed simp

text \<open>
  \<open>visit\<close>, on the id of the module it is called with; the second function is its loop over
  the dependencies. The state is \<open>done\<close> and \<open>ordered\<close>.
\<close>

type_synonym visit_state = "ident list \<times> module_manifest list"

function
  visit :: "module_manifest list \<Rightarrow> ident list \<Rightarrow> visit_state \<Rightarrow> ident \<Rightarrow> module_error + visit_state" and
  visit_all :: "module_manifest list \<Rightarrow> ident list \<Rightarrow> visit_state \<Rightarrow> ident list \<Rightarrow> module_error + visit_state"
where
  "visit ms visiting st i =
     (case by_id ms i of
        None \<Rightarrow> Inl (Unknown_Module i)
      | Some m \<Rightarrow>
          if i \<in> set (fst st) then Inr st
          else if i \<in> set visiting then Inl (Dependency_Cycle i)
          else (case visit_all ms (i # visiting) st (mm_dependencies m) of
                  Inl e \<Rightarrow> Inl e
                | Inr (fin, ordered) \<Rightarrow> Inr (i # fin, ordered @ [m])))"
| "visit_all ms visiting st [] = Inr st"
| "visit_all ms visiting st (d # ds) =
     (case visit ms visiting st d of
        Inl e \<Rightarrow> Inl e
      | Inr st' \<Rightarrow> visit_all ms visiting st' ds)"
  by pat_completeness auto

termination
  by (relation "measures
    [\<lambda>x. case x of Inl (ms, visiting, _, _) \<Rightarrow> card (mm_id ` set ms - set visiting)
                 | Inr (ms, visiting, _, _) \<Rightarrow> card (mm_id ` set ms - set visiting),
     \<lambda>x. case x of Inl _ \<Rightarrow> 0 | Inr (_, _, _, ds) \<Rightarrow> Suc (length ds)]")
    (auto simp: unvisited_decreases)

declare visit.simps [simp del]

definition resolve_load_order :: "module_manifest list \<Rightarrow> module_error + module_manifest list" where
  "resolve_load_order ms =
     (case check_duplicates [] ms of
        Some e \<Rightarrow> Inl e
      | None \<Rightarrow>
          (case check_dependencies ms (dependency_pairs ms) of
             Some e \<Rightarrow> Inl e
           | None \<Rightarrow> map_sum id snd (visit_all ms [] ([], []) (map mm_id ms))))"

section \<open>Loading and the toggle\<close>

type_synonym loaded = "module_manifest list"

definition set_loaded :: "module_manifest \<Rightarrow> loaded \<Rightarrow> loaded" where
  "set_loaded m l = (if mm_id m \<in> mm_id ` set l
     then map (\<lambda>x. if mm_id x = mm_id m then m else x) l else l @ [m])"

text \<open>
  \<open>load_modules\<close> after the discovery: \<open>has_setup\<close> says whether the imported package has
  a callable \<open>setup\<close>. What was wired before an error stays wired.
\<close>

fun wire_modules :: "(ident \<Rightarrow> bool) \<Rightarrow> loaded \<Rightarrow> module_manifest list \<Rightarrow> module_error option \<times> loaded" where
  "wire_modules has_setup l [] = (None, l)"
| "wire_modules has_setup l (m # ms) =
     (if \<not> has_setup (mm_id m) then (Some (No_Entry_Point (mm_id m)), l)
      else wire_modules has_setup (set_loaded m l) ms)"

definition load_modules ::
  "(ident \<Rightarrow> bool) \<Rightarrow> loaded \<Rightarrow> module_manifest list \<Rightarrow> (module_error + module_manifest list) \<times> loaded" where
  "load_modules has_setup l discovered =
     (case resolve_load_order (filter mm_enabled discovered) of
        Inl e \<Rightarrow> (Inl e, l)
      | Inr order \<Rightarrow>
          (case wire_modules has_setup l order of
             (Some e, l') \<Rightarrow> (Inl e, l')
           | (None, l') \<Rightarrow> (Inr order, l')))"

definition loaded_manifest :: "loaded \<Rightarrow> ident \<Rightarrow> module_manifest option" where
  "loaded_manifest l i = by_id l i"

definition optional_modules :: "loaded \<Rightarrow> module_manifest list" where
  "optional_modules l = filter (\<lambda>m. \<not> mm_required_core m) l"

definition is_module_enabled :: "loaded \<Rightarrow> db \<Rightarrow> ident \<Rightarrow> ident option \<Rightarrow> bool" where
  "is_module_enabled l d i competition =
     (case loaded_manifest l i of
        None \<Rightarrow> False
      | Some m \<Rightarrow>
          if mm_required_core m then True
          else (case competition of
                  None \<Rightarrow> True
                | Some c \<Rightarrow>
                    (case find (\<lambda>r. cm_competition_id r = c \<and> cm_module_id r = i) (db_modules d) of
                       None \<Rightarrow> True
                     | Some r \<Rightarrow> cm_enabled r)))"

section \<open>The search is sound\<close>

fun load_ordered_from :: "ident list \<Rightarrow> module_manifest list \<Rightarrow> bool" where
  "load_ordered_from seen [] = True"
| "load_ordered_from seen (m # ms) =
     (set (mm_dependencies m) \<subseteq> set seen \<and> load_ordered_from (mm_id m # seen) ms)"

abbreviation load_ordered :: "module_manifest list \<Rightarrow> bool" where
  "load_ordered \<equiv> load_ordered_from []"

lemma load_ordered_from_snoc:
  "load_ordered_from seen (ms @ [m]) \<longleftrightarrow>
     load_ordered_from seen ms \<and> set (mm_dependencies m) \<subseteq> set seen \<union> mm_id ` set ms"
  by (induction ms arbitrary: seen) auto

definition good_state :: "module_manifest list \<Rightarrow> visit_state \<Rightarrow> bool" where
  "good_state ms st = (fst st = rev (map mm_id (snd st)) \<and> distinct (fst st)
     \<and> set (snd st) \<subseteq> set ms \<and> load_ordered (snd st))"

definition visited :: "ident list \<Rightarrow> visit_state \<Rightarrow> visit_state \<Rightarrow> ident set \<Rightarrow> bool" where
  "visited visiting st st' ids = (ids \<subseteq> set (fst st') \<and> set (fst st) \<subseteq> set (fst st')
     \<and> (set (fst st') - set (fst st)) \<inter> set visiting = {})"

lemma good_state_snoc:
  assumes "good_state ms (fin, ord)" "m \<in> set ms" "mm_id m \<notin> set fin"
    "set (mm_dependencies m) \<subseteq> set fin"
  shows "good_state ms (mm_id m # fin, ord @ [m])"
  using assms by (auto simp: good_state_def load_ordered_from_snoc)

lemma visit_sound:
  "visit ms visiting st i = Inr st' \<Longrightarrow> good_state ms st \<Longrightarrow> good_state ms st' \<and> visited visiting st st' {i}"
  "visit_all ms visiting st ds = Inr st' \<Longrightarrow> good_state ms st \<Longrightarrow>
     good_state ms st' \<and> visited visiting st st' (set ds)"
proof (induction ms visiting st i and ms visiting st ds arbitrary: st' and st' rule: visit_visit_all.induct)
  case (1 ms visiting st i)
  then obtain m where m: "by_id ms i = Some m"
    by (cases "by_id ms i") (auto simp: visit.simps)
  note mi = by_id_in [OF m]
  show ?case
  proof (cases "i \<in> set (fst st)")
    case True
    with 1 m show ?thesis by (simp add: visit.simps visited_def)
  next
    case False
    with "1.prems" m have new: "i \<notin> set visiting"
      by (auto simp: visit.simps split: if_splits)
    from "1.prems"(1) m False new obtain fin ord where
      rec: "visit_all ms (i # visiting) st (mm_dependencies m) = Inr (fin, ord)" and
      st': "st' = (i # fin, ord @ [m])"
      by (auto simp: visit.simps split: sum.splits)
    have IH: "good_state ms (fin, ord) \<and> visited (i # visiting) st (fin, ord) (set (mm_dependencies m))"
      using "1.IH" [OF m False new rec "1.prems"(2)] .
    then have "i \<notin> set fin" using False by (auto simp: visited_def)
    with IH mi have "good_state ms st'"
      unfolding st' using good_state_snoc [of ms fin ord m] by (auto simp: visited_def)
    moreover have "visited visiting st st' {i}"
      using IH new by (auto simp: st' visited_def)
    ultimately show ?thesis ..
  qed
next
  case (2 ms visiting st)
  then show ?case by (simp add: visited_def)
next
  case (3 ms visiting st d ds)
  then obtain st1 where st1: "visit ms visiting st d = Inr st1" "visit_all ms visiting st1 ds = Inr st'"
    by (auto split: sum.splits)
  have "good_state ms st1 \<and> visited visiting st st1 {d}" using "3.IH"(1) [OF st1(1) "3.prems"(2)] .
  moreover from this have "good_state ms st' \<and> visited visiting st1 st' (set ds)"
    using "3.IH"(2) [OF st1] by blast
  ultimately show ?case unfolding visited_def by auto
qed

text \<open>The dependency relation, and what an error of the search means.\<close>

abbreviation depends :: "module_manifest list \<Rightarrow> (ident \<times> ident) set" where
  "depends ms \<equiv> set (dependency_pairs ms)"

definition closed_deps :: "module_manifest list \<Rightarrow> bool" where
  "closed_deps ms = list_all (\<lambda>(i, d). d \<in> set (map mm_id ms)) (dependency_pairs ms)"

lemma depends_iff: "(i, d) \<in> depends ms \<longleftrightarrow> (\<exists>m\<in>set ms. mm_id m = i \<and> d \<in> set (mm_dependencies m))"
  by (auto simp: dependency_pairs_def)

lemma by_id_None_iff: "by_id ms i = None \<longleftrightarrow> i \<notin> mm_id ` set ms"
  by (auto simp: by_id_def find_None_iff)

lemma visit_error:
  "visit ms visiting st i = Inl e \<Longrightarrow> closed_deps ms \<Longrightarrow> i \<in> mm_id ` set ms \<Longrightarrow>
     \<forall>v\<in>set visiting. (v, i) \<in> (depends ms)\<^sup>+ \<Longrightarrow> \<exists>j. e = Dependency_Cycle j \<and> (j, j) \<in> (depends ms)\<^sup>+"
  "visit_all ms visiting st ds = Inl e \<Longrightarrow> closed_deps ms \<Longrightarrow> set ds \<subseteq> mm_id ` set ms \<Longrightarrow>
     \<forall>v\<in>set visiting. \<forall>d\<in>set ds. (v, d) \<in> (depends ms)\<^sup>+ \<Longrightarrow>
     \<exists>j. e = Dependency_Cycle j \<and> (j, j) \<in> (depends ms)\<^sup>+"
proof (induction ms visiting st i and ms visiting st ds rule: visit_visit_all.induct)
  case (1 ms visiting st i)
  then obtain m where m: "by_id ms i = Some m"
    using by_id_None_iff by fastforce
  note mi = by_id_in [OF m]
  show ?case
  proof (cases "i \<in> set visiting")
    case True
    with 1 m show ?thesis by (auto simp: visit.simps split: if_splits)
  next
    case False
    with "1.prems"(1) m have new: "i \<notin> set (fst st)" by (auto simp: visit.simps split: if_splits)
    with "1.prems"(1) m False have rec: "visit_all ms (i # visiting) st (mm_dependencies m) = Inl e"
      by (auto simp: visit.simps split: sum.splits)
    have edge: "(i, d) \<in> depends ms" if "d \<in> set (mm_dependencies m)" for d
      using mi that depends_iff by blast
    then have "set (mm_dependencies m) \<subseteq> mm_id ` set ms"
      using "1.prems"(2) by (fastforce simp: closed_deps_def list_all_iff)
    moreover have "\<forall>v\<in>set (i # visiting). \<forall>d\<in>set (mm_dependencies m). (v, d) \<in> (depends ms)\<^sup>+"
      using edge "1.prems"(4) by (auto intro: trancl_into_trancl)
    ultimately show ?thesis using "1.IH" [OF m new False rec "1.prems"(2)] by blast
  qed
next
  case (2 ms visiting st)
  then show ?case by simp
next
  case (3 ms visiting st d ds)
  show ?case
  proof (cases "visit ms visiting st d")
    case (Inl e')
    with 3 show ?thesis by auto
  next
    case (Inr st1)
    with 3 show ?thesis by auto
  qed
qed

lemma position_decreases:
  assumes "load_ordered_from seen ord" "m \<in> set ord" "d \<in> set (mm_dependencies m)" "d \<notin> set seen"
    "distinct (map mm_id ord)"
  shows "length (takeWhile (\<lambda>x. mm_id x \<noteq> d) ord) < length (takeWhile (\<lambda>x. mm_id x \<noteq> mm_id m) ord)"
  using assms
proof (induction ord arbitrary: seen)
  case (Cons x xs)
  show ?case
  proof (cases "m = x")
    case True
    with Cons.prems show ?thesis by auto
  next
    case False
    with Cons.prems have m: "m \<in> set xs" "mm_id x \<noteq> mm_id m" by auto
    show ?thesis
    proof (cases "mm_id x = d")
      case True
      with m show ?thesis by simp
    next
      case diff: False
      with Cons.prems m have "d \<notin> set (mm_id x # seen)" by simp
      with Cons.prems m diff Cons.IH [of "mm_id x # seen"] show ?thesis by simp
    qed
  qed
qed simp

lemma load_ordered_acyclic:
  assumes "load_ordered ord" "distinct (map mm_id ord)" "set ord = set ms"
  shows "acyclic (depends ms)"
proof -
  let ?pos = "\<lambda>i. length (takeWhile (\<lambda>x. mm_id x \<noteq> i) ord)"
  have "(depends ms)\<inverse> \<subseteq> measure ?pos"
  proof
    fix p assume "p \<in> (depends ms)\<inverse>"
    then obtain i d where p: "p = (d, i)" "(i, d) \<in> depends ms" by (cases p) auto
    then obtain m where "m \<in> set ord" "mm_id m = i" "d \<in> set (mm_dependencies m)"
      using assms(3) depends_iff by fastforce
    with position_decreases [OF assms(1)] assms(2) p show "p \<in> measure ?pos" by auto
  qed
  then have "acyclic ((depends ms)\<inverse>)" by (metis wf_acyclic wf_measure wf_subset)
  then show ?thesis by (simp add: acyclic_converse)
qed

lemma check_duplicates_None: "check_duplicates seen ms = None \<longleftrightarrow>
    distinct (map mm_id ms) \<and> set seen \<inter> mm_id ` set ms = {}"
  by (induction ms arbitrary: seen) auto

lemma check_dependencies_None:
  "check_dependencies ms ps = None \<longleftrightarrow> (\<forall>(i, d)\<in>set ps. d \<in> mm_id ` set ms)"
  by (induction ps) (force simp: by_id_None_iff mm_enabled_def split: option.splits
      dest: by_id_in)+


lemma check_duplicates_Some:
  "check_duplicates seen ms = Some e \<Longrightarrow> \<exists>i. e = Duplicate_Module i
     \<and> (i \<in> set seen \<and> 0 < count_where (\<lambda>m. mm_id m = i) ms \<or> 2 \<le> count_where (\<lambda>m. mm_id m = i) ms)"
proof (induction ms arbitrary: seen)
  case (Cons m ms)
  show ?case
  proof (cases "mm_id m \<in> set seen")
    case True
    with Cons.prems show ?thesis by auto
  next
    case False
    with Cons.prems have "check_duplicates (mm_id m # seen) ms = Some e" by simp
    from Cons.IH [OF this] obtain i where i: "e = Duplicate_Module i"
      "i \<in> set (mm_id m # seen) \<and> 0 < count_where (\<lambda>m. mm_id m = i) ms
         \<or> 2 \<le> count_where (\<lambda>m. mm_id m = i) ms"
      by blast
    then show ?thesis by (cases "i = mm_id m") auto
  qed
qed simp

lemma check_dependencies_Some:
  "check_dependencies ms ps = Some e \<Longrightarrow>
     \<exists>i d. e = Missing_Dependency i d \<and> (i, d) \<in> set ps \<and> d \<notin> mm_id ` set ms"
  by (induction ps) (auto simp: by_id_None_iff mm_enabled_def split: option.splits if_splits)

lemma closed_deps_iff: "closed_deps ms \<longleftrightarrow> (\<forall>(i, d)\<in>depends ms. d \<in> mm_id ` set ms)"
  by (simp add: closed_deps_def list_all_iff)

lemma resolve_cases:
  assumes "distinct (map mm_id ms)" "closed_deps ms"
  shows "resolve_load_order ms = map_sum id snd (visit_all ms [] ([], []) (map mm_id ms))"
proof -
  have "check_duplicates [] ms = None" "check_dependencies ms (dependency_pairs ms) = None"
    using assms by (simp_all add: check_duplicates_None check_dependencies_None closed_deps_iff)
  then show ?thesis by (simp add: resolve_load_order_def)
qed

lemma resolve_ok:
  assumes "resolve_load_order ms = Inr ord"
  shows "distinct (map mm_id ms)" "closed_deps ms" "set ord = set ms" "distinct (map mm_id ord)"
    "load_ordered ord"
proof -
  have "check_duplicates [] ms = None" "check_dependencies ms (dependency_pairs ms) = None"
    using assms by (auto simp: resolve_load_order_def split: option.splits)
  then show dist: "distinct (map mm_id ms)" and closed: "closed_deps ms"
    by (simp_all add: check_duplicates_None check_dependencies_None closed_deps_iff)
  obtain fin where run: "visit_all ms [] ([], []) (map mm_id ms) = Inr (fin, ord)"
    using assms by (auto simp: resolve_cases [OF dist closed] map_sum_def split: sum.splits)
  have "good_state ms ([], [])" by (simp add: good_state_def)
  from visit_sound(2) [OF run this]
  have "good_state ms (fin, ord) \<and> visited [] ([], []) (fin, ord) (set (map mm_id ms))" .
  then have fin: "fin = rev (map mm_id ord)" "distinct fin" "set ord \<subseteq> set ms" "load_ordered ord"
    and all: "mm_id ` set ms \<subseteq> set fin"
    unfolding good_state_def visited_def fst_conv snd_conv set_map by blast+
  show "load_ordered ord" by (rule fin(4))
  show "distinct (map mm_id ord)" using fin(2) unfolding fin(1) by (simp only: distinct_rev)
  have fin5: "mm_id ` set ms \<subseteq> mm_id ` set ord" using all unfolding fin(1) by simp
  have "set ms \<subseteq> set ord"
  proof
    fix m assume "m \<in> set ms"
    then obtain m' where "m' \<in> set ord" "mm_id m = mm_id m'" using fin5 by (metis imageE image_eqI subsetD)
    moreover from this fin(3) \<open>m \<in> set ms\<close> dist have "m' = m"
      by (auto simp: distinct_map dest: inj_onD)
    ultimately show "m \<in> set ord" by simp
  qed
  with fin(3) show "set ord = set ms" by blast
qed

section \<open>Properties\<close>

text \<open>
  C14: A successful resolution is a load order: it lists exactly the discovered modules, each
  once, and every module comes after all of its dependencies.
\<close>

theorem load_order_sound:
  assumes "resolve_load_order ms = Inr order"
  shows "set order = set ms \<and> length order = length ms \<and> distinct (map mm_id order) \<and> load_ordered order"
proof -
  note ok = resolve_ok [OF assms]
  have "length order = card (set order)" "length ms = card (set ms)"
    using ok(1,4) by (simp_all add: distinct_map distinct_card)
  with ok show ?thesis by simp
qed

text \<open>
  C15: The loader refuses exactly the unsatisfiable sets of modules: the search always ends, and
  it succeeds if and only if the ids are distinct, every dependency is present and the dependency
  relation has no cycle.
\<close>

theorem load_order_exists_iff:
  "is_ok (resolve_load_order ms) \<longleftrightarrow>
     distinct (map mm_id ms) \<and> closed_deps ms \<and> acyclic (depends ms)"
proof
  assume "is_ok (resolve_load_order ms)"
  then obtain ord where ord: "resolve_load_order ms = Inr ord"
    by (auto simp: is_ok_def split: sum.splits)
  from resolve_ok [OF this] show "distinct (map mm_id ms) \<and> closed_deps ms \<and> acyclic (depends ms)"
    using load_ordered_acyclic by blast
next
  assume ok: "distinct (map mm_id ms) \<and> closed_deps ms \<and> acyclic (depends ms)"
  then have "resolve_load_order ms = map_sum id snd (visit_all ms [] ([], []) (map mm_id ms))"
    using resolve_cases by blast
  moreover have "\<exists>j. (j, j) \<in> (depends ms)\<^sup>+" if "visit_all ms [] ([], []) (map mm_id ms) = Inl e" for e
    using visit_error(2) [OF that] ok by auto
  ultimately show "is_ok (resolve_load_order ms)"
    using ok by (cases "visit_all ms [] ([], []) (map mm_id ms)") (auto simp: acyclic_def)
qed

text \<open>What an error claims about the modules.\<close>

definition truthful :: "module_manifest list \<Rightarrow> module_error \<Rightarrow> bool" where
  "truthful ms e = (case e of
      Duplicate_Module i \<Rightarrow> 2 \<le> count_where (\<lambda>m. mm_id m = i) ms
    | Missing_Dependency i d \<Rightarrow> (i, d) \<in> depends ms \<and> d \<notin> mm_id ` set ms
    | Dependency_Cycle i \<Rightarrow> (i, i) \<in> (depends ms)\<^sup>+
    | _ \<Rightarrow> False)"

text \<open>
  A refusal names its reason truthfully: a duplicate id occurs at least twice, a missing
  dependency is declared and absent, and a module reported in a cycle does depend on itself.
\<close>

theorem load_error_truthful:
  assumes "resolve_load_order ms = Inl e"
  shows "truthful ms e"
proof (cases "check_duplicates [] ms")
  case (Some e')
  then have "e' = e" using assms by (simp add: resolve_load_order_def)
  with check_duplicates_Some [OF Some] show ?thesis by (auto simp: truthful_def)
next
  case None
  note dup = this
  show ?thesis
  proof (cases "check_dependencies ms (dependency_pairs ms)")
    case (Some e')
    then have "e' = e" using assms dup by (simp add: resolve_load_order_def)
    with check_dependencies_Some [OF Some] show ?thesis by (auto simp: truthful_def)
  next
    case None
    with dup have "closed_deps ms" by (simp add: check_dependencies_None closed_deps_iff)
    moreover have "visit_all ms [] ([], []) (map mm_id ms) = Inl e"
      using assms dup None by (auto simp: resolve_load_order_def map_sum_def split: sum.splits)
    ultimately show ?thesis using visit_error(2) by (fastforce simp: truthful_def)
  qed
qed

text \<open>The loaded set is closed under dependencies at every moment.\<close>

definition loaded_closed :: "loaded \<Rightarrow> bool" where
  "loaded_closed l = list_all (\<lambda>m. set (mm_dependencies m) \<subseteq> set (map mm_id l)) l"

lemma ids_set_loaded: "mm_id ` set (set_loaded m l) = insert (mm_id m) (mm_id ` set l)"
  by (auto simp: set_loaded_def image_iff)

lemma set_set_loaded: "set (set_loaded m l) \<subseteq> insert m (set l)"
  by (auto simp: set_loaded_def)

lemma loaded_closed_step:
  assumes "loaded_closed l" "set (mm_dependencies m) \<subseteq> mm_id ` set l"
  shows "loaded_closed (set_loaded m l)"
  unfolding loaded_closed_def list_all_iff
proof
  fix x assume "x \<in> set (set_loaded m l)"
  then have "x = m \<or> x \<in> set l" using set_set_loaded by fast
  with assms show "set (mm_dependencies x) \<subseteq> set (map mm_id (set_loaded m l))"
    by (auto simp: ids_set_loaded loaded_closed_def list_all_iff)
qed

lemma wire_modules_closed:
  "load_ordered_from seen ms \<Longrightarrow> set seen \<subseteq> mm_id ` set l \<Longrightarrow> loaded_closed l \<Longrightarrow>
     loaded_closed (snd (wire_modules has_setup l ms))"
proof (induction ms arbitrary: seen l)
  case (Cons m ms)
  then have "set (mm_dependencies m) \<subseteq> mm_id ` set l" by auto
  with Cons.prems have "loaded_closed (set_loaded m l)" by (simp add: loaded_closed_step)
  with Cons.prems Cons.IH [of "mm_id m # seen" "set_loaded m l"] show ?case
    by (auto simp: ids_set_loaded)
qed simp

text \<open>
  No half-configured platform: whether loading succeeds, is refused, or stops midway at a
  module with no entry point, every module that is active has all its dependencies active.
\<close>

theorem load_modules_closed:
  assumes "loaded_closed l"
  shows "loaded_closed (snd (load_modules has_setup l discovered))"
proof (cases "resolve_load_order (filter mm_enabled discovered)")
  case (Inl e)
  with assms show ?thesis by (simp add: load_modules_def)
next
  case (Inr order)
  from wire_modules_closed [of "[]" order l has_setup] resolve_ok(5) [OF Inr] assms
  have "loaded_closed (snd (wire_modules has_setup l order))" by simp
  then show ?thesis by (auto simp: load_modules_def Inr split: option.splits prod.splits)
qed

section \<open>Concrete modules\<close>

definition plain_module :: "ident \<Rightarrow> ident list \<Rightarrow> module_manifest" where
  "plain_module i deps = \<lparr>mm_id = i, mm_name = i, mm_version = ''1.0.0'', mm_description = [],
     mm_required_core = False, mm_provides_routes = True, mm_provides_event_listeners = False,
     mm_dependencies = deps, mm_kind = Module_Kind, mm_trust_tier = None, mm_capabilities = []\<rparr>"

definition shipped :: "module_manifest list" where
  "shipped = [plain_module ''scoring'' [''challenges''], plain_module ''challenges'' [''teams''],
     plain_module ''teams'' []]"

definition looped :: "module_manifest list" where
  "looped = [plain_module ''a'' [''b''], plain_module ''b'' [''c''], plain_module ''c'' [''b'']]"

lemma by_id_shipped:
  "by_id shipped ''scoring'' = Some (plain_module ''scoring'' [''challenges''])"
  "by_id shipped ''challenges'' = Some (plain_module ''challenges'' [''teams''])"
  "by_id shipped ''teams'' = Some (plain_module ''teams'' [])"
  by code_simp+

lemma shipped_order:
  "resolve_load_order shipped
     = Inr [plain_module ''teams'' [], plain_module ''challenges'' [''teams''],
            plain_module ''scoring'' [''challenges'']]"
  by code_simp

lemma load_order_sound_witness:
  "set [plain_module ''teams'' [], plain_module ''challenges'' [''teams''],
        plain_module ''scoring'' [''challenges'']] = set shipped
   \<and> load_ordered [plain_module ''teams'' [], plain_module ''challenges'' [''teams''],
        plain_module ''scoring'' [''challenges'']]"
  using load_order_sound [OF shipped_order] by blast

lemma looped_error: "resolve_load_order looped = Inl (Dependency_Cycle ''b'')"
  by code_simp

lemma load_error_truthful_witness: "(''b'', ''b'') \<in> (depends looped)\<^sup>+"
  using load_error_truthful [OF looped_error] by (simp add: truthful_def)

lemma load_modules_closed_witness:
  "snd (load_modules (\<lambda>i. i \<noteq> ''scoring'') [] shipped)
     = [plain_module ''teams'' [], plain_module ''challenges'' [''teams'']]
   \<and> loaded_closed (snd (load_modules (\<lambda>i. i \<noteq> ''scoring'') [] shipped))"
  by (rule conjI, code_simp, rule load_modules_closed) code_simp

end
