(* ===== verification/Flags.thy ===== *)
theory Flags
  imports Data_Model
begin

text \<open>
  Flag storage and verification (\<open>utils/flags.py\<close>). The hash function and the regular
  expression engine are library code and parameters: \<open>sha\<close> is \<open>hexdigest\<close> of SHA-256 on
  the encoded text, \<open>rx\<close> the engine's \<open>fullmatch\<close> under its timeout.
\<close>

datatype rx_result = Rx_Match | Rx_No_Match | Rx_Error | Rx_Timeout

type_synonym hasher = "string \<Rightarrow> string"

type_synonym regex_engine = "string \<Rightarrow> string \<Rightarrow> bool \<Rightarrow> rx_result"

definition normalize :: "string \<Rightarrow> bool \<Rightarrow> string" where
  "normalize raw case_insensitive =
     (let value = strip raw in if case_insensitive then lower value else value)"

definition hash_static_flag :: "hasher \<Rightarrow> string \<Rightarrow> string \<Rightarrow> bool \<Rightarrow> string" where
  "hash_static_flag sha raw salt case_insensitive =
     sha (salt @ '':'' @ normalize raw case_insensitive)"

definition verify_static_flag :: "hasher \<Rightarrow> string \<Rightarrow> string \<Rightarrow> bool \<Rightarrow> string \<Rightarrow> bool" where
  "verify_static_flag sha submitted salt case_insensitive expected_hash =
     (hash_static_flag sha submitted salt case_insensitive = expected_hash)"

text \<open>A timeout and a malformed pattern both count as no match.\<close>

definition verify_regex_flag :: "regex_engine \<Rightarrow> string \<Rightarrow> string \<Rightarrow> bool \<Rightarrow> bool" where
  "verify_regex_flag rx submitted pattern case_insensitive =
     (case rx pattern (strip submitted) case_insensitive of Rx_Match \<Rightarrow> True | _ \<Rightarrow> False)"

section \<open>Normalisation\<close>

lemma lower_char_idem [simp]: "lower_char (lower_char c) = lower_char c"
proof -
  have "of_char (char_of (n + 32) :: char) = n + 32" if "65 \<le> n" "n \<le> 90" for n :: nat
    using that by (simp add: of_char_of)
  then show ?thesis by (auto simp: lower_char_def Let_def)
qed

lemma lower_idem [simp]: "lower (lower s) = lower s"
  by (simp add: lower_def comp_def)

lemma is_space_lower_char [simp]: "is_space (lower_char c) = is_space c"
proof -
  have "of_char (char_of (n + 32) :: char) = n + 32" if "65 \<le> n" "n \<le> 90" for n :: nat
    using that by (simp add: of_char_of)
  then show ?thesis by (auto simp: lower_char_def is_space_def Let_def)
qed

lemma dropWhile_lower: "dropWhile is_space (lower s) = lower (dropWhile is_space s)"
  by (induction s) (simp_all add: lower_def)

lemma strip_lower: "strip (lower s) = lower (strip s)"
  by (simp add: strip_def dropWhile_lower lower_def rev_map flip: lower_def)
     (metis dropWhile_lower lower_def rev_map)

lemma dropWhile_dropWhile: "dropWhile P (dropWhile P xs) = dropWhile P xs"
  by (induction xs) auto

lemma strip_idem [simp]: "strip (strip s) = strip s"
proof (cases "strip s = []")
  case True
  show ?thesis unfolding True by (simp add: strip_def)
next
  case False
  let ?t = "dropWhile is_space s"
  let ?r = "dropWhile is_space (rev ?t)"
  have r: "?r \<noteq> []" using False by (simp add: strip_def)
  then have "hd (rev ?r) = hd ?t"
  proof -
    obtain ws where "rev ?t = ws @ ?r" by (metis takeWhile_dropWhile_id)
    then have "?t = rev ?r @ rev ws" by (metis rev_append rev_rev_ident)
    with r show ?thesis by (metis hd_append2 rev_is_Nil_conv)
  qed
  moreover have "?t \<noteq> []" using r by (metis dropWhile.simps(1) rev.simps(1))
  ultimately have "\<not> is_space (hd (rev ?r))" using hd_dropWhile by metis
  then have "dropWhile is_space (rev ?r) = rev ?r"
    using r by (cases "rev ?r") auto
  then show ?thesis by (simp add: strip_def dropWhile_dropWhile)
qed

lemma normalize_idem [simp]: "normalize (normalize raw ci) ci = normalize raw ci"
  by (simp add: normalize_def Let_def strip_lower)

section \<open>A stored flag verifies\<close>

lemma verify_hashed:
  "normalize submitted ci = normalize raw ci \<Longrightarrow>
     verify_static_flag sha submitted salt ci (hash_static_flag sha raw salt ci)"
  by (simp add: verify_static_flag_def hash_static_flag_def)

lemma verify_hashed_iff:
  "inj sha \<Longrightarrow> verify_static_flag sha submitted salt ci (hash_static_flag sha raw salt ci)
     \<longleftrightarrow> normalize submitted ci = normalize raw ci"
  by (simp add: verify_static_flag_def hash_static_flag_def inj_eq)

text \<open>A hasher without collisions, for the concrete inputs of the witnesses.\<close>

definition demo_sha :: hasher where
  "demo_sha s = ''#'' @ s"

lemma inj_demo_sha: "inj demo_sha"
  by (simp add: inj_def demo_sha_def)

end
