(* ===== verification/Instances.thy ===== *)
theory Instances
  imports Flags
begin

text \<open>
  Challenge instances: the status table of \<open>models/challenge_instancing.py\<close>, the lifecycle
  service (\<open>utils/instance_service.py\<close>) and the reaper (\<open>utils/instance_reaper.py\<close>).
  Every \<open>async with db_factory()\<close> session of a handler is one function here, so the handlers
  interleave between the sessions. \<open>launch\<close> alone reads one state and inserts into another: its
  session serialises against others only through the lock of \<open>lock_admission\<close>. \<open>create\<close>, \<open>endpoints\<close>, \<open>destroy\<close> and \<open>list\<close> of the
  container backend are the environment's; random tokens, salts, fresh ids and the clock are
  arguments. Row ids are never empty, so \<open>team_id or user_id\<close> is \<open>coalesce\<close>.
\<close>

section \<open>The status table\<close>

fun INSTANCE_TRANSITIONS :: "instance_status \<Rightarrow> instance_status list" where
  "INSTANCE_TRANSITIONS Inst_Requested = [Inst_Provisioning, Inst_Failed, Inst_Destroyed]"
| "INSTANCE_TRANSITIONS Inst_Provisioning = [Inst_Running, Inst_Failed, Inst_Expiring]"
| "INSTANCE_TRANSITIONS Inst_Running = [Inst_Expiring, Inst_Failed]"
| "INSTANCE_TRANSITIONS Inst_Expiring = [Inst_Destroyed, Inst_Failed]"
| "INSTANCE_TRANSITIONS Inst_Destroyed = []"
| "INSTANCE_TRANSITIONS Inst_Failed = []"

definition INSTANCE_ACTIVE_STATUSES :: "instance_status list" where
  "INSTANCE_ACTIVE_STATUSES = [Inst_Requested, Inst_Provisioning, Inst_Running, Inst_Expiring]"

definition instance_can_transition :: "instance_status \<Rightarrow> instance_status \<Rightarrow> bool" where
  "instance_can_transition current target =
     (if current = target then True else target \<in> set (INSTANCE_TRANSITIONS current))"

definition instance_terminal :: "instance_status \<Rightarrow> bool" where
  "instance_terminal s = (s = Inst_Destroyed \<or> s = Inst_Failed)"

fun instance_rank :: "instance_status \<Rightarrow> nat" where
  "instance_rank Inst_Requested = 0"
| "instance_rank Inst_Provisioning = 1"
| "instance_rank Inst_Running = 2"
| "instance_rank Inst_Expiring = 3"
| "instance_rank Inst_Destroyed = 4"
| "instance_rank Inst_Failed = 4"

interpretation inst: ranked_lifecycle INSTANCE_TRANSITIONS instance_terminal instance_rank
proof
  show "INSTANCE_TRANSITIONS s = []" if "instance_terminal s" for s
    using that by (auto simp: instance_terminal_def)
  show "instance_rank s < instance_rank t" if "t \<in> set (INSTANCE_TRANSITIONS s)" for s t
    using that by (cases s) auto
qed

lemma instance_can_transition_can_move:
  "instance_can_transition s t = can_move INSTANCE_TRANSITIONS s t"
  by (simp add: instance_can_transition_def can_move_def)

definition inst_active :: "challenge_instance \<Rightarrow> bool" where
  "inst_active i = (ci_status i \<in> set INSTANCE_ACTIVE_STATUSES)"

lemma inst_active_iff: "inst_active i \<longleftrightarrow> \<not> instance_terminal (ci_status i)"
  by (cases "ci_status i") (simp_all add: inst_active_def INSTANCE_ACTIVE_STATUSES_def instance_terminal_def)

section \<open>Helpers of the service\<close>

definition SITE_BACKENDS :: "deployment_backend list" where
  "SITE_BACKENDS = [Docker, Kubernetes]"

definition DEFAULT_MAX_CONCURRENT :: int where
  "DEFAULT_MAX_CONCURRENT = 100"

definition DEFAULT_LIFETIME_S :: int where
  "DEFAULT_LIFETIME_S = 3600"

definition MAX_EXTENDS :: int where
  "MAX_EXTENDS = 5"

definition seconds :: "int \<Rightarrow> time" where
  "seconds s = s * 1000000"

datatype instance_error = Cap_Reached | Spawn_Throttled | Backend_Not_Ready | Ports_Exhausted | Not_Extendable

definition instance_subject :: "challenge_instance \<Rightarrow> ident" where
  "instance_subject i = coalesce (ci_team_id i) (ci_user_id i)"

text \<open>\<open>str.replace\<close>: leftmost, non-overlapping.\<close>

function replace_all :: "string \<Rightarrow> string \<Rightarrow> string \<Rightarrow> string" where
  "replace_all pat rep s =
     (if s = [] \<or> pat = [] then s
      else if take (length pat) s = pat then rep @ replace_all pat rep (drop (length pat) s)
      else hd s # replace_all pat rep (tl s))"
  by pat_completeness auto

termination
  by (relation "measure (\<lambda>(pat, rep, s). length s)") (auto simp: Suc_le_eq intro: diff_less)

declare replace_all.simps [simp del]

definition FLAG_TEMPLATE_TOKEN :: string where
  "FLAG_TEMPLATE_TOKEN = ''<random>''"

definition render_flag_template :: "string \<Rightarrow> string \<Rightarrow> string" where
  "render_flag_template token template = replace_all FLAG_TEMPLATE_TOKEN token template"

definition inst_transition :: "challenge_instance \<Rightarrow> instance_status \<Rightarrow> bool \<times> challenge_instance" where
  "inst_transition i target =
     (if \<not> instance_can_transition (ci_status i) target then (False, i)
      else (True, i\<lparr>ci_status := target\<rparr>))"

definition lifetime_for :: "challenge_deployment \<Rightarrow> competition \<Rightarrow> int" where
  "lifetime_for dep c =
     (if coalesce (cd_lifetime_s dep) 0 \<noteq> 0 then coalesce (cd_lifetime_s dep) 0
      else if coalesce (co_instance_lifetime_s c) 0 \<noteq> 0 then coalesce (co_instance_lifetime_s c) 0
      else DEFAULT_LIFETIME_S)"

definition event_payload_of :: "challenge_instance \<Rightarrow> payload" where
  "event_payload_of i =
     [(''competition_id'', PStr (ci_competition_id i)), (''challenge_id'', PStr (ci_challenge_id i)),
      (''instance_id'', PStr (ci_id i)), (''user_id'', PStr (ci_user_id i)),
      (''team_id'', pstr (ci_team_id i))]"

definition effective_backend :: "instance_settings option \<Rightarrow> challenge_deployment \<Rightarrow> deployment_backend" where
  "effective_backend settings dep =
     (if cd_backend dep = Shared_Static then Shared_Static
      else case settings of
             Some st \<Rightarrow> if is_backend st \<in> set SITE_BACKENDS then is_backend st else cd_backend dep
           | None \<Rightarrow> cd_backend dep)"

definition get_instance :: "db \<Rightarrow> ident \<Rightarrow> challenge_instance option" where
  "get_instance d i = find (\<lambda>r. ci_id r = i) (db_instances d)"

definition get_deployment :: "db \<Rightarrow> ident \<Rightarrow> challenge_deployment option" where
  "get_deployment d i = find (\<lambda>r. cd_id r = i) (db_deployments d)"

definition modify_instance :: "ident \<Rightarrow> (challenge_instance \<Rightarrow> challenge_instance) \<Rightarrow> db \<Rightarrow> db" where
  "modify_instance i f d = d\<lparr>db_instances := update_where (\<lambda>r. ci_id r = i) f (db_instances d)\<rparr>"

section \<open>Ports and subdomains\<close>

definition endpoint_ports :: "challenge_instance \<Rightarrow> int list" where
  "endpoint_ports i = List.map_filter ep_port (ci_endpoints i)"

definition used_host_ports :: "db \<Rightarrow> int list" where
  "used_host_ports d = concat (map endpoint_ports (filter inst_active (db_instances d)))"

function scan_ports :: "int list \<Rightarrow> nat \<Rightarrow> int \<Rightarrow> int list \<Rightarrow> int \<Rightarrow> int list" where
  "scan_ports used count hi chosen port =
     (if length chosen < count \<and> port \<le> hi
      then scan_ports used count hi (if port \<in> set used then chosen else chosen @ [port]) (port + 1)
      else chosen)"
  by pat_completeness auto

termination
  by (relation "measure (\<lambda>(used, count, hi, chosen, port). nat (hi + 1 - port))") auto

declare scan_ports.simps [simp del]

definition allocate_host_ports :: "db \<Rightarrow> instance_settings \<Rightarrow> nat \<Rightarrow> instance_error + int list" where
  "allocate_host_ports d st count =
     (if count = 0 then Inr []
      else
        let chosen = scan_ports (used_host_ports d) count (is_tcp_port_max st) [] (is_tcp_port_min st)
        in if length chosen < count then Inl Ports_Exhausted else Inr chosen)"

text \<open>The ten random tokens of the retry loop are an argument.\<close>

definition allocate_subdomain :: "db \<Rightarrow> string list \<Rightarrow> instance_error + string" where
  "allocate_subdomain d tokens =
     (case find (\<lambda>tok. \<not> exists_where (\<lambda>i. ci_subdomain i = Some tok) (db_instances d)) (take 10 tokens) of
        Some tok \<Rightarrow> Inr tok
      | None \<Rightarrow> Inl Backend_Not_Ready)"

definition tcp_endpoint :: "string option \<Rightarrow> int \<Rightarrow> endpoint" where
  "tcp_endpoint host port = \<lparr>ep_kind = ''tcp'', ep_host = host, ep_port = Some port, ep_url = None\<rparr>"

definition http_endpoint :: "string \<Rightarrow> string \<Rightarrow> endpoint" where
  "http_endpoint token base = \<lparr>ep_kind = ''http'', ep_host = None, ep_port = None,
     ep_url = Some (''https://'' @ token @ ''.'' @ base)\<rparr>"

definition plan_endpoints ::
  "db \<Rightarrow> instance_settings option \<Rightarrow> challenge_deployment \<Rightarrow> string list
     \<Rightarrow> instance_error + (endpoint list \<times> string option)" where
  "plan_endpoints d settings dep tokens =
     (let kind = effective_backend settings dep in
      if kind \<in> set SITE_BACKENDS \<and> cd_exposure dep = Tcp_Exposure then
        (case settings of
           None \<Rightarrow> Inl Backend_Not_Ready
         | Some st \<Rightarrow>
             res_bind (allocate_host_ports d st (length (cd_ports dep)))
               (\<lambda>ports. Inr (map (tcp_endpoint (is_public_host st)) ports, None)))
      else if kind \<in> set SITE_BACKENDS \<and> cd_exposure dep = Http_Exposure then
        (case settings of
           None \<Rightarrow> Inl Backend_Not_Ready
         | Some st \<Rightarrow>
             if coalesce (is_chal_base_domain st) [] = [] then Inl Backend_Not_Ready
             else res_bind (allocate_subdomain d tokens)
               (\<lambda>token. Inr ([http_endpoint token (coalesce (is_chal_base_domain st) [])], Some token)))
      else Inr ([], None))"

section \<open>Launch\<close>

text \<open>The optional filters of \<open>_count_active\<close>.\<close>

definition count_active :: "db \<Rightarrow> ident option \<Rightarrow> ident option \<Rightarrow> ident option \<Rightarrow> int" where
  "count_active d competition challenge subject =
     int (count_where (\<lambda>i. inst_active i
        \<and> (case competition of None \<Rightarrow> True | Some c \<Rightarrow> ci_competition_id i = c)
        \<and> (case challenge of None \<Rightarrow> True | Some ch \<Rightarrow> ci_challenge_id i = ch)
        \<and> (case subject of None \<Rightarrow> True | Some s \<Rightarrow> instance_subject i = s)) (db_instances d))"

definition count_recent_launches :: "db \<Rightarrow> ident \<Rightarrow> ident \<Rightarrow> time \<Rightarrow> int" where
  "count_recent_launches d competition subject since =
     int (count_where (\<lambda>i. ci_competition_id i = competition \<and> instance_subject i = subject
        \<and> since \<le> ci_created_at i) (db_instances d))"

text \<open>
  \<open>_lock_admission\<close>: the settings, and whether the settings row was there to be locked
  (\<open>FOR UPDATE\<close>, held to the commit). Where instancing was never configured there is no row and no
  lock.
\<close>

definition lock_admission :: "db \<Rightarrow> instance_settings option \<times> bool" where
  "lock_admission d = (db_instance_settings d, db_instance_settings d \<noteq> None)"

text \<open>What one launch is called with: the route's arguments, the tokens, the fresh id, the clock.\<close>

record launch_call =
  lc_competition :: competition
  lc_deployment :: challenge_deployment
  lc_user_id :: ident
  lc_team_id :: "ident option"
  lc_tokens :: "string list"
  lc_row_id :: ident
  lc_now :: time

definition requested_row :: "launch_call \<Rightarrow> endpoint list \<Rightarrow> string option \<Rightarrow> challenge_instance" where
  "requested_row l endpoints subdomain =
     \<lparr>ci_id = lc_row_id l, ci_competition_id = co_id (lc_competition l),
      ci_challenge_id = cd_challenge_id (lc_deployment l), ci_deployment_id = cd_id (lc_deployment l),
      ci_user_id = lc_user_id l, ci_team_id = lc_team_id l, ci_status = Inst_Requested,
      ci_backend_handle = None, ci_subdomain = subdomain, ci_endpoints = endpoints,
      ci_flag_hash = None, ci_flag_salt = None,
      ci_expires_at = Some (lc_now l + seconds (lifetime_for (lc_deployment l) (lc_competition l))),
      ci_started_at = None, ci_destroyed_at = None, ci_last_seen_at = None, ci_extend_count = 0,
      ci_failure_reason = None, ci_created_at = lc_now l\<rparr>"

definition instance_ceiling :: "db \<Rightarrow> int" where
  "instance_ceiling d = (case db_instance_settings d of
     Some st \<Rightarrow> is_max_concurrent st | None \<Rightarrow> DEFAULT_MAX_CONCURRENT)"

definition throttled :: "db \<Rightarrow> launch_call \<Rightarrow> ident \<Rightarrow> bool" where
  "throttled d l subject = (case db_instance_settings d of
     None \<Rightarrow> False
   | Some st \<Rightarrow> 0 < is_spawn_rate_limit st
       \<and> is_spawn_rate_limit st
           \<le> count_recent_launches d (co_id (lc_competition l)) subject
               (lc_now l - seconds (is_spawn_rate_window_seconds st)))"

text \<open>
  The checks read one state and the row is inserted into another: what commits in between is up to
  the lock.
\<close>

definition launch ::
  "db \<Rightarrow> db \<Rightarrow> launch_call \<Rightarrow> (instance_error + challenge_instance) \<times> db \<times> event list" where
  "launch read d l =
     (let settings = fst (lock_admission read); dep = lc_deployment l; c = lc_competition l;
          subject = coalesce (lc_team_id l) (lc_user_id l)
      in if cd_backend dep \<in> set SITE_BACKENDS
              \<and> \<not> (case settings of Some st \<Rightarrow> is_enabled st | None \<Rightarrow> False)
         then (Inl Backend_Not_Ready, d, [])
         else if cd_per_subject_cap dep \<le> count_active read (Some (co_id c)) (Some (cd_challenge_id dep)) (Some subject)
         then (Inl Cap_Reached, d, [])
         else if (case co_instance_max_alive c of
                    None \<Rightarrow> False
                  | Some m \<Rightarrow> m \<le> count_active read (Some (co_id c)) None (Some subject))
         then (Inl Cap_Reached, d, [])
         else if instance_ceiling read \<le> count_active read None None None
         then (Inl Cap_Reached, d, [])
         else if throttled read l subject
         then (Inl Spawn_Throttled, d,
               [Event ''challenge.instance_launch_throttled''
                 [(''competition_id'', PStr (co_id c)), (''challenge_id'', PStr (cd_challenge_id dep)),
                  (''user_id'', PStr (lc_user_id l)), (''team_id'', pstr (lc_team_id l))]])
         else (case plan_endpoints read settings dep (lc_tokens l) of
                 Inl e \<Rightarrow> (Inl e, d, [])
               | Inr (endpoints, subdomain) \<Rightarrow>
                   (let i = requested_row l endpoints subdomain in
                    (Inr i, d\<lparr>db_instances := db_instances d @ [i]\<rparr>,
                     [Event ''challenge.instance_requested'' (event_payload_of i)]))))"

section \<open>Provisioning\<close>

record provision_spec =
  ps_instance_id :: ident
  ps_deployment_id :: ident
  ps_challenge_id :: ident
  ps_competition_id :: ident
  ps_image_ref :: "string option"
  ps_exposure :: exposure
  ps_ports :: "int list"
  ps_lifetime_s :: int
  ps_subject_key :: ident
  ps_host_ports :: "int \<rightharpoonup> int"
  ps_subdomain :: "string option"
  ps_flag_plaintext :: "string option"

text \<open>The dictionary comprehension over the zipped ports: a repeated key keeps its last value.\<close>

definition host_port_map :: "int list \<Rightarrow> endpoint list \<Rightarrow> int \<rightharpoonup> int" where
  "host_port_map ports endpoints =
     map_of (rev (List.map_filter (\<lambda>(cp, ep). map_option (Pair cp) (ep_port ep)) (zip ports endpoints)))"

definition spec_for ::
  "challenge_instance \<Rightarrow> challenge_deployment \<Rightarrow> int \<Rightarrow> string option \<Rightarrow> provision_spec" where
  "spec_for i dep lifetime flag =
     \<lparr>ps_instance_id = ci_id i, ps_deployment_id = cd_id dep, ps_challenge_id = ci_challenge_id i,
      ps_competition_id = ci_competition_id i, ps_image_ref = cd_image_ref dep,
      ps_exposure = cd_exposure dep, ps_ports = cd_ports dep, ps_lifetime_s = lifetime,
      ps_subject_key = instance_subject i, ps_host_ports = host_port_map (cd_ports dep) (ci_endpoints i),
      ps_subdomain = ci_subdomain i, ps_flag_plaintext = flag\<rparr>"

text \<open>
  The first session of \<open>provision\<close>: claim a requested row. What is claimed is the row, its
  deployment and its competition as read.
\<close>

definition provision_claim ::
  "db \<Rightarrow> ident \<Rightarrow> (challenge_instance \<times> challenge_deployment \<times> competition) option \<times> db \<times> event list" where
  "provision_claim d iid =
     (case get_instance d iid of
        None \<Rightarrow> (None, d, [])
      | Some i \<Rightarrow>
          if ci_status i \<noteq> Inst_Requested then (None, d, [])
          else (case (get_deployment d (ci_deployment_id i), get_competition d (ci_competition_id i)) of
                  (Some dep, Some c) \<Rightarrow>
                    (let i' = snd (inst_transition i Inst_Provisioning)
                     in (Some (i', dep, c), modify_instance iid (\<lambda>_. i') d, []))
                | _ \<Rightarrow>
                    (let i' = (snd (inst_transition i Inst_Failed))
                           \<lparr>ci_failure_reason := Some ''deployment or competition went away''\<rparr>
                     in (None, modify_instance iid (\<lambda>_. i') d,
                         [Event ''challenge.instance_provision_failed'' (event_payload_of i')]))))"

text \<open>Between the sessions: the flag, its hash, and the specification handed to the backend.\<close>

definition provision_prepare ::
  "hasher \<Rightarrow> string \<Rightarrow> string \<Rightarrow> challenge_instance \<Rightarrow> challenge_deployment \<Rightarrow> competition
     \<Rightarrow> provision_spec \<times> (string \<times> string) option" where
  "provision_prepare sha token salt i dep c =
     (let lifetime = lifetime_for dep c;
          flag = (if cd_flag_mode dep = Unique_Per_Instance \<and> coalesce (cd_flag_template dep) [] \<noteq> []
                  then Some (render_flag_template token (coalesce (cd_flag_template dep) [])) else None)
      in (spec_for i dep lifetime flag,
          map_option (\<lambda>f. (hash_static_flag sha f salt False, salt)) flag))"

text \<open>
  The last session: the row goes live, or the container is handed to cleanup because a
  concurrent teardown moved the row on (\<open>False\<close>).
\<close>

definition provision_finish ::
  "db \<Rightarrow> ident \<Rightarrow> string \<Rightarrow> endpoint list \<Rightarrow> (string \<times> string) option \<Rightarrow> time \<Rightarrow> bool \<times> db \<times> event list" where
  "provision_finish d iid handle resolved flag now =
     (case get_instance d iid of
        None \<Rightarrow> (False, d, [])
      | Some i \<Rightarrow>
          if ci_status i \<noteq> Inst_Provisioning then (False, d, [])
          else
            let i1 = (snd (inst_transition i Inst_Running))
                  \<lparr>ci_backend_handle := Some handle, ci_started_at := Some now, ci_last_seen_at := Some now\<rparr>;
                i2 = (if resolved \<noteq> [] then i1\<lparr>ci_endpoints := resolved\<rparr> else i1);
                i3 = (case flag of None \<Rightarrow> i2
                      | Some (h, salt) \<Rightarrow> i2\<lparr>ci_flag_hash := Some h, ci_flag_salt := Some salt\<rparr>)
            in (True, modify_instance iid (\<lambda>_. i3) d,
                [Event ''challenge.instance_started'' (event_payload_of i3)]))"

definition fail_provision :: "db \<Rightarrow> ident \<Rightarrow> string \<Rightarrow> db \<times> event list" where
  "fail_provision d iid reason =
     (case get_instance d iid of
        None \<Rightarrow> (d, [])
      | Some i \<Rightarrow>
          if ci_status i = Inst_Destroyed \<or> ci_status i = Inst_Failed then (d, [])
          else
            let i' = (snd (inst_transition i Inst_Failed))\<lparr>ci_failure_reason := Some (take 500 reason)\<rparr>
            in (modify_instance iid (\<lambda>_. i') d,
                [Event ''challenge.instance_provision_failed'' (event_payload_of i')]))"

section \<open>Teardown and extension\<close>

text \<open>
  The first session of \<open>teardown\<close>: \<open>None\<close> when it returns, otherwise the handle it will
  destroy, if there is one to destroy.
\<close>

definition teardown_begin :: "db \<Rightarrow> ident \<Rightarrow> string option option \<times> db" where
  "teardown_begin d iid =
     (case get_instance d iid of
        None \<Rightarrow> (None, d)
      | Some i \<Rightarrow>
          if ci_status i = Inst_Destroyed \<or> ci_status i = Inst_Failed then (None, d)
          else
            let dep = get_deployment d (ci_deployment_id i);
                d' = (if ci_status i = Inst_Running \<or> ci_status i = Inst_Provisioning
                      then modify_instance iid (\<lambda>_. snd (inst_transition i Inst_Expiring)) d else d)
            in (Some (if dep = None then None else ci_backend_handle i), d'))"

definition teardown_finish :: "db \<Rightarrow> ident \<Rightarrow> string \<Rightarrow> time \<Rightarrow> db \<times> event list" where
  "teardown_finish d iid name now =
     (case get_instance d iid of
        None \<Rightarrow> (d, [])
      | Some i \<Rightarrow>
          if ci_status i = Inst_Destroyed then (d, [])
          else
            let i' = (snd (inst_transition i Inst_Destroyed))\<lparr>ci_destroyed_at := Some now\<rparr>
            in (modify_instance iid (\<lambda>_. i') d, [Event name (event_payload_of i')]))"

definition inst_extend ::
  "db \<Rightarrow> challenge_instance \<Rightarrow> competition \<Rightarrow> challenge_deployment \<Rightarrow> time
     \<Rightarrow> (instance_error + challenge_instance) \<times> db \<times> event list" where
  "inst_extend d i c dep now =
     (if ci_status i \<noteq> Inst_Running then (Inl Not_Extendable, d, [])
      else if MAX_EXTENDS \<le> ci_extend_count i then (Inl Not_Extendable, d, [])
      else
        let i' = i\<lparr>ci_expires_at := Some (now + seconds (lifetime_for dep c)),
                   ci_extend_count := ci_extend_count i + 1\<rparr>
        in (Inr i', modify_instance (ci_id i) (\<lambda>_. i') d,
            [Event ''challenge.instance_extended'' (event_payload_of i')]))"

section \<open>The reaper\<close>

definition REQUESTED_STUCK_MINUTES :: int where
  "REQUESTED_STUCK_MINUTES = 5"

definition PROVISIONING_STUCK_SECONDS :: int where
  "PROVISIONING_STUCK_SECONDS = 600 + 180"

definition REAP_BATCH :: nat where
  "REAP_BATCH = 25"

definition reap_due :: "db \<Rightarrow> time \<Rightarrow> ident list" where
  "reap_due d now =
     take REAP_BATCH (map ci_id (filter (\<lambda>i. ci_status i = Inst_Running
       \<and> (case ci_expires_at i of None \<Rightarrow> False | Some t \<Rightarrow> t \<le> now)) (db_instances d)))"

definition is_stuck :: "time \<Rightarrow> challenge_instance \<Rightarrow> bool" where
  "is_stuck now i =
     (if ci_status i = Inst_Requested
      then ci_created_at i \<le> now - seconds (60 * REQUESTED_STUCK_MINUTES)
      else ci_status i = Inst_Provisioning
        \<and> ci_created_at i \<le> now - seconds PROVISIONING_STUCK_SECONDS)"

definition fail_stuck :: "challenge_instance \<Rightarrow> challenge_instance" where
  "fail_stuck i = (snd (inst_transition i Inst_Failed))\<lparr>ci_failure_reason := Some ''provisioning timed out''\<rparr>"

definition reap_stuck :: "db \<Rightarrow> time \<Rightarrow> db \<times> event list" where
  "reap_stuck d now =
     (let stuck = take REAP_BATCH (filter (is_stuck now) (db_instances d))
      in (d\<lparr>db_instances := update_where (\<lambda>i. ci_id i \<in> set (map ci_id stuck)) fail_stuck (db_instances d)\<rparr>,
          map (\<lambda>i. Event ''challenge.instance_provision_failed'' (event_payload_of i)) stuck))"

text \<open>The retries of unfinished teardowns, each with the event it will emit.\<close>

definition reap_expiring :: "db \<Rightarrow> time \<Rightarrow> (ident \<times> string) list" where
  "reap_expiring d now =
     map (\<lambda>i. (ci_id i,
         if (case ci_expires_at i of None \<Rightarrow> False | Some t \<Rightarrow> t \<le> now)
         then ''challenge.instance_expired'' else ''challenge.instance_destroyed''))
       (take REAP_BATCH (filter (\<lambda>i. ci_status i = Inst_Expiring) (db_instances d)))"

definition live_handles :: "db \<Rightarrow> string list" where
  "live_handles d = List.map_filter ci_backend_handle (filter inst_active (db_instances d))"

text \<open>
  One sweep: \<open>None\<close> where it returns without one (instancing off; the listing failed leaves
  \<open>seen\<close> alone). The result is the handles it destroys and the new \<open>_orphan_seen\<close>; the
  iteration order of the set is the order of \<open>listed\<close>. The sweep of orphan networks has the
  same shape and is not modelled.
\<close>

definition reap_orphans ::
  "instance_settings option \<Rightarrow> string list \<Rightarrow> string list option \<Rightarrow> string list \<Rightarrow> string list \<times> string list" where
  "reap_orphans settings live listed seen =
     (case settings of
        None \<Rightarrow> ([], [])
      | Some st \<Rightarrow>
          if \<not> is_enabled st \<or> is_backend st \<notin> set SITE_BACKENDS then ([], [])
          else (case listed of
                  None \<Rightarrow> ([], seen)
                | Some handles \<Rightarrow>
                    (let orphans = filter (\<lambda>h. h \<notin> set live) (remdups handles);
                         confirmed = filter (\<lambda>h. h \<in> set seen) orphans
                     in (take REAP_BATCH confirmed, orphans))))"

end
