(* ===== verification/Instance_World.thy ===== *)
theory Instance_World
  imports Instances "HOL-Library.Multiset"
begin

text \<open>
  The instance service as a system: any number of handlers of \<open>Instances\<close> in flight at once, each
  between two of its sessions, the container backend, and the reaper. One step is one session of
  one handler or one answer of the backend, in any order, including repeated deliveries of the
  same event, failing calls and a process restart. A launch is two steps, its reads and its commit;
  the edits and deletions of settings, deployments, competitions, users and teams that the rest of
  the platform may make in between are steps too.
\<close>

section \<open>The system\<close>

datatype job =
    Job_Launch db launch_call
  | Job_Create ident challenge_deployment "(string \<times> string) option" "string option"
  | Job_Settle ident string "endpoint list" "(string \<times> string) option"
  | Job_Fail ident "string option" string
  | Job_Drop string
  | Job_Destroy ident "string option" string
  | Job_Close ident string
  | Job_Gc "string list"

text \<open>
  \<open>launch\<close> is at \<open>Job_Launch\<close> between its reads (the state it read) and its insert;
  \<open>provision\<close> is at \<open>Job_Create\<close> (waiting for the backend, with the container that exists by
  now), \<open>Job_Settle\<close> (the handle is back, the last session to come) or \<open>Job_Fail\<close>;
  \<open>_safe_destroy\<close> is at \<open>Job_Drop\<close>; \<open>teardown\<close> at \<open>Job_Destroy\<close> or \<open>Job_Close\<close>; the orphan
  sweep between its two reads at \<open>Job_Gc\<close>. \<open>w_lost\<close> is a ghost: the handles whose cleanup call
  failed, or whose record or handler vanished; \<open>w_ids\<close> the row ids ever drawn; \<open>w_credit\<close> the
  team each row was launched for; \<open>w_gone\<close> the teams deleted so far.
\<close>

record world =
  w_db :: db
  w_containers :: "string set"
  w_jobs :: "job multiset"
  w_seen :: "string list"
  w_lost :: "string set"
  w_ids :: "ident set"
  w_credit :: "ident \<Rightarrow> ident option"
  w_gone :: "ident set"

fun job_handles :: "job \<Rightarrow> string set" where
  "job_handles (Job_Launch read l) = {}"
| "job_handles (Job_Create i dep flag h) = set_option h"
| "job_handles (Job_Settle i h eps flag) = {h}"
| "job_handles (Job_Fail i h reason) = set_option h"
| "job_handles (Job_Drop h) = {h}"
| "job_handles (Job_Destroy i h name) = set_option h"
| "job_handles (Job_Close i name) = {}"
| "job_handles (Job_Gc live) = {}"

text \<open>The handles in the hands of a handler, or known to be lost.\<close>

definition held :: "job multiset \<Rightarrow> string set" where
  "held J = (\<Union>j\<in>set_mset J. job_handles j)"

definition accounted :: "world \<Rightarrow> string set" where
  "accounted w = held (w_jobs w) \<union> w_lost w"

fun prov_job :: "ident \<Rightarrow> job \<Rightarrow> bool" where
  "prov_job i (Job_Create j dep flag h) = (i = j)"
| "prov_job i (Job_Settle j h eps flag) = (i = j)"
| "prov_job i (Job_Fail j h reason) = (i = j)"
| "prov_job i _ = False"

definition drop_deployment :: "ident \<Rightarrow> db \<Rightarrow> db" where
  "drop_deployment dep d = d\<lparr>db_deployments := delete_where (\<lambda>r. cd_id r = dep) (db_deployments d),
     db_instances := delete_where (\<lambda>i. ci_deployment_id i = dep) (db_instances d)\<rparr>"

definition drop_user :: "ident \<Rightarrow> db \<Rightarrow> db" where
  "drop_user u d = d\<lparr>db_instances := delete_where (\<lambda>i. ci_user_id i = u) (db_instances d)\<rparr>"

text \<open>A deleted team's instances stay, credited to nobody (\<open>ON DELETE SET NULL\<close>).\<close>

definition forget_team :: "ident \<Rightarrow> challenge_instance \<Rightarrow> challenge_instance" where
  "forget_team t i = i\<lparr>ci_team_id := (if ci_team_id i = Some t then None else ci_team_id i)\<rparr>"

definition row_handles :: "challenge_instance list \<Rightarrow> string set" where
  "row_handles rows = (\<Union>i\<in>set rows. set_option (ci_backend_handle i))"

text \<open>
  The row lock on the settings is held by a launch in flight whose reads found the row. On a
  database without row locks (the SQLite of the tests) there is no such lock; the model is of
  PostgreSQL.
\<close>

fun is_launch :: "job \<Rightarrow> bool" where
  "is_launch (Job_Launch read l) = True"
| "is_launch _ = False"

definition lock_held :: "job multiset \<Rightarrow> bool" where
  "lock_held J = (\<exists>read l. Job_Launch read l \<in># J \<and> snd (lock_admission read))"

text \<open>
  A launch takes the lock before its reads when there is a row to lock, so at most one such launch
  is in flight, and an edit of the settings waits for it. Its insert needs the deployment and the
  team to exist still (foreign keys). Deployments, competitions and settings may be edited at any
  time, in any column but the id; the route's copy of the deployment and the competition may be
  older than the reads.
\<close>

inductive world_step :: "hasher \<Rightarrow> world \<Rightarrow> world \<Rightarrow> bool" for sha where
  launch_admitted: "snd (lock_admission (w_db w)) \<longrightarrow> \<not> lock_held (w_jobs w) \<Longrightarrow>
    world_step sha w (w\<lparr>w_jobs := add_mset (Job_Launch (w_db w) l) (w_jobs w)\<rparr>)"
| launch_committed: "w_jobs w = add_mset (Job_Launch read l) J \<Longrightarrow>
    launch read (w_db w) l = (Inr i, d, evs) \<Longrightarrow> lc_row_id l \<notin> w_ids w \<Longrightarrow>
    cd_id (lc_deployment l) \<in> cd_id ` set (db_deployments (w_db w)) \<Longrightarrow>
    lc_team_id l \<notin> Some ` w_gone w \<Longrightarrow>
    world_step sha w (w\<lparr>w_db := d, w_jobs := J, w_ids := insert (lc_row_id l) (w_ids w),
      w_credit := (w_credit w)(lc_row_id l := lc_team_id l)\<rparr>)"
| launch_ended: "w_jobs w = add_mset (Job_Launch read l) J \<Longrightarrow> world_step sha w (w\<lparr>w_jobs := J\<rparr>)"
| settings_edited: "\<not> lock_held (w_jobs w) \<Longrightarrow>
    world_step sha w (w\<lparr>w_db := (w_db w)\<lparr>db_instance_settings := Some st\<rparr>\<rparr>)"
| deployments_edited: "cd_id ` set (db_deployments (w_db w)) \<subseteq> cd_id ` set deps \<Longrightarrow>
    world_step sha w (w\<lparr>w_db := (w_db w)\<lparr>db_deployments := deps\<rparr>\<rparr>)"
| competitions_edited: "world_step sha w (w\<lparr>w_db := (w_db w)\<lparr>db_competitions := cs\<rparr>\<rparr>)"
| claim: "provision_claim (w_db w) iid = (Some (i, dep, c), d, evs) \<Longrightarrow>
    flag = snd (provision_prepare sha token salt i dep c) \<Longrightarrow>
    world_step sha w (w\<lparr>w_db := d, w_jobs := add_mset (Job_Create iid dep flag None) (w_jobs w)\<rparr>)"
| claim_none: "provision_claim (w_db w) iid = (None, d, evs) \<Longrightarrow> world_step sha w (w\<lparr>w_db := d\<rparr>)"
| container_up: "w_jobs w = add_mset (Job_Create iid dep flag None) J \<Longrightarrow> h \<notin> w_containers w \<Longrightarrow>
    effective_backend (db_instance_settings (w_db w)) dep \<noteq> Shared_Static \<Longrightarrow>
    world_step sha w (w\<lparr>w_jobs := add_mset (Job_Create iid dep flag (Some h)) J,
      w_containers := insert h (w_containers w)\<rparr>)"
| shared_static: "w_jobs w = add_mset (Job_Create iid dep flag None) J \<Longrightarrow>
    effective_backend (db_instance_settings (w_db w)) dep = Shared_Static \<Longrightarrow>
    world_step sha w (w\<lparr>w_jobs := add_mset (Job_Settle iid ''shared-static'' eps flag) J\<rparr>)"
| created: "w_jobs w = add_mset (Job_Create iid dep flag (Some h)) J \<Longrightarrow>
    (\<forall>i\<in>set (db_instances (w_db w)). ci_id i = iid \<longrightarrow>
       set (List.map_filter ep_port eps) \<subseteq> set (endpoint_ports i)) \<Longrightarrow>
    world_step sha w (w\<lparr>w_jobs := add_mset (Job_Settle iid h eps flag) J\<rparr>)"
| create_failed: "w_jobs w = add_mset (Job_Create iid dep flag h) J \<Longrightarrow>
    world_step sha w (w\<lparr>w_jobs := add_mset (Job_Fail iid None reason) J,
      w_containers := w_containers w - set_option h\<rparr>)"
| create_leaked: "w_jobs w = add_mset (Job_Create iid dep flag (Some h)) J \<Longrightarrow>
    world_step sha w (w\<lparr>w_jobs := add_mset (Job_Fail iid None reason) J,
      w_lost := insert h (w_lost w)\<rparr>)"
| endpoints_failed: "w_jobs w = add_mset (Job_Create iid dep flag (Some h)) J \<Longrightarrow>
    world_step sha w (w\<lparr>w_jobs := add_mset (Job_Fail iid (Some h) reason) J\<rparr>)"
| fail: "w_jobs w = add_mset (Job_Fail iid h reason) J \<Longrightarrow>
    fail_provision (w_db w) iid reason = (d, evs) \<Longrightarrow>
    world_step sha w (w\<lparr>w_db := d,
      w_jobs := (case h of None \<Rightarrow> J | Some x \<Rightarrow> add_mset (Job_Drop x) J)\<rparr>)"
| settle: "w_jobs w = add_mset (Job_Settle iid h eps flag) J \<Longrightarrow>
    provision_finish (w_db w) iid h eps flag now = (live, d, evs) \<Longrightarrow>
    world_step sha w (w\<lparr>w_db := d, w_jobs := (if live then J else add_mset (Job_Drop h) J)\<rparr>)"
| dropped: "w_jobs w = add_mset (Job_Drop h) J \<Longrightarrow>
    world_step sha w (w\<lparr>w_jobs := J, w_containers := w_containers w - {h}\<rparr>)"
| drop_failed: "w_jobs w = add_mset (Job_Drop h) J \<Longrightarrow>
    world_step sha w (w\<lparr>w_jobs := J, w_lost := insert h (w_lost w)\<rparr>)"
| teardown: "teardown_begin (w_db w) iid = (Some h, d) \<Longrightarrow>
    world_step sha w (w\<lparr>w_db := d, w_jobs := add_mset (Job_Destroy iid h name) (w_jobs w)\<rparr>)"
| destroyed: "w_jobs w = add_mset (Job_Destroy iid h name) J \<Longrightarrow>
    world_step sha w (w\<lparr>w_jobs := add_mset (Job_Close iid name) J,
      w_containers := w_containers w - set_option h\<rparr>)"
| destroy_failed: "w_jobs w = add_mset (Job_Destroy iid (Some h) name) J \<Longrightarrow>
    world_step sha w (w\<lparr>w_jobs := J, w_lost := insert h (w_lost w)\<rparr>)"
| close: "w_jobs w = add_mset (Job_Close iid name) J \<Longrightarrow>
    teardown_finish (w_db w) iid name now = (d, evs) \<Longrightarrow>
    world_step sha w (w\<lparr>w_db := d, w_jobs := J\<rparr>)"
| extended: "get_instance (w_db w) iid = Some i \<Longrightarrow> inst_extend (w_db w) i c dep now = (Inr i', d, evs) \<Longrightarrow>
    world_step sha w (w\<lparr>w_db := d\<rparr>)"
| stuck: "reap_stuck (w_db w) now = (d, evs) \<Longrightarrow> world_step sha w (w\<lparr>w_db := d\<rparr>)"
| gc_read: "world_step sha w (w\<lparr>w_jobs := add_mset (Job_Gc (live_handles (w_db w))) (w_jobs w)\<rparr>)"
| gc_sweep: "w_jobs w = add_mset (Job_Gc live) J \<Longrightarrow> set listed = w_containers w \<Longrightarrow>
    reap_orphans (db_instance_settings (w_db w)) live (Some listed) (w_seen w) = (kill, seen) \<Longrightarrow>
    gone \<subseteq> set kill \<Longrightarrow>
    world_step sha w (w\<lparr>w_jobs := J, w_containers := w_containers w - gone, w_seen := seen\<rparr>)"
| deployment_deleted:
    "world_step sha w (w\<lparr>w_db := drop_deployment dep (w_db w),
      w_lost := w_lost w \<union> row_handles (filter (\<lambda>i. ci_deployment_id i = dep) (db_instances (w_db w)))\<rparr>)"
| user_deleted:
    "world_step sha w (w\<lparr>w_db := drop_user u (w_db w),
      w_lost := w_lost w \<union> row_handles (filter (\<lambda>i. ci_user_id i = u) (db_instances (w_db w)))\<rparr>)"
| restart: "world_step sha w (w\<lparr>w_jobs := {#}, w_lost := accounted w, w_seen := []\<rparr>)"

text \<open>
  A deleted team is the one write that changes whom a row is credited to, so it is kept apart from
  the rest. Team ids are never used again.
\<close>

inductive platform_step :: "hasher \<Rightarrow> world \<Rightarrow> world \<Rightarrow> bool" for sha where
  ordinary: "world_step sha w w' \<Longrightarrow> platform_step sha w w'"
| team_deleted: "platform_step sha w (w\<lparr>w_db := (w_db w)\<lparr>db_instances := map (forget_team t) (db_instances (w_db w))\<rparr>,
    w_gone := insert t (w_gone w)\<rparr>)"

text \<open>A platform with settings and deployments and no instance yet.\<close>

definition fresh_world :: "db \<Rightarrow> world" where
  "fresh_world d = \<lparr>w_db = d\<lparr>db_instances := []\<rparr>, w_containers = {}, w_jobs = {#}, w_seen = [],
     w_lost = {}, w_ids = {}, w_credit = (\<lambda>_. None), w_gone = {}\<rparr>"

abbreviation instance_reachable :: "hasher \<Rightarrow> db \<Rightarrow> world \<Rightarrow> bool" where
  "instance_reachable sha d \<equiv> (platform_step sha)\<^sup>*\<^sup>* (fresh_world d)"

section \<open>How a step changes the rows\<close>

text \<open>Everything about a row but its status, its handle, its flag and its clock fields.\<close>

definition same_instance :: "challenge_instance \<Rightarrow> challenge_instance \<Rightarrow> bool" where
  "same_instance i j = (ci_id i = ci_id j \<and> ci_competition_id i = ci_competition_id j
     \<and> ci_challenge_id i = ci_challenge_id j \<and> ci_deployment_id i = ci_deployment_id j
     \<and> ci_user_id i = ci_user_id j \<and> ci_team_id i = ci_team_id j)"

definition evolves :: "challenge_instance \<Rightarrow> challenge_instance \<Rightarrow> bool" where
  "evolves i j = (same_instance i j \<and> can_move INSTANCE_TRANSITIONS (ci_status i) (ci_status j))"

lemma evolves_refl [simp]: "evolves i i"
  by (simp add: evolves_def same_instance_def can_move_def)

lemma evolves_transition:
  "evolves i ((snd (inst_transition i s))\<lparr>ci_failure_reason := r\<rparr>)"
  "evolves i ((snd (inst_transition i s))\<lparr>ci_destroyed_at := t\<rparr>)"
  "evolves i (snd (inst_transition i s))"
  by (auto simp: evolves_def same_instance_def inst_transition_def instance_can_transition_can_move
      can_move_def)

lemma evolves_active: "evolves i j \<Longrightarrow> inst_active j \<Longrightarrow> inst_active i"
  by (auto simp: evolves_def inst_active_iff inst.terminal_move)

text \<open>A step other than a launch updates rows in place and drops some.\<close>

definition rows_evolve :: "challenge_instance list \<Rightarrow> challenge_instance list \<Rightarrow> bool" where
  "rows_evolve xs ys = (\<exists>keep f. ys = map f (filter keep xs) \<and> (\<forall>i\<in>set xs. evolves i (f i)))"

lemma rows_evolve_refl: "rows_evolve xs xs"
  unfolding rows_evolve_def
  by (rule exI [of _ "\<lambda>_. True"], rule exI [of _ "\<lambda>i. i"]) simp

lemma rows_evolve_update:
  assumes "\<And>i. i \<in> set xs \<Longrightarrow> P i \<Longrightarrow> evolves i (f i)"
  shows "rows_evolve xs (update_where P f xs)"
  unfolding rows_evolve_def update_where_def
  by (rule exI [of _ "\<lambda>_. True"], rule exI [of _ "\<lambda>i. if P i then f i else i"]) (simp add: assms)

lemma rows_evolve_delete: "rows_evolve xs (delete_where P xs)"
  unfolding rows_evolve_def delete_where_def
  by (rule exI [of _ "\<lambda>i. \<not> P i"], rule exI [of _ "\<lambda>i. i"]) simp

lemma get_instance_in: "get_instance d iid = Some i \<Longrightarrow> i \<in> set (db_instances d) \<and> ci_id i = iid"
  unfolding get_instance_def by (drule find_Some_in) simp

lemma get_instance_unique:
  "distinct (map ci_id (db_instances d)) \<Longrightarrow> get_instance d iid = Some i \<Longrightarrow>
     j \<in> set (db_instances d) \<Longrightarrow> ci_id j = iid \<Longrightarrow> j = i"
  using get_instance_in by (fastforce simp: distinct_map dest: inj_onD)

lemma modify_evolves:
  assumes "distinct (map ci_id (db_instances d))" "get_instance d iid = Some i" "evolves i i'"
  shows "rows_evolve (db_instances d) (db_instances (modify_instance iid (\<lambda>_. i') d))"
  unfolding modify_instance_def
  using get_instance_unique [OF assms(1,2)] assms(3) by (auto intro: rows_evolve_update)

lemma modify_instance_keeps [simp]:
  "db_instance_settings (modify_instance iid f d) = db_instance_settings d"
  "db_deployments (modify_instance iid f d) = db_deployments d"
  "db_competitions (modify_instance iid f d) = db_competitions d"
  by (simp_all add: modify_instance_def)

text \<open>
  Most sessions are quiet: they neither make an instance run nor stop one, and leave its handle
  and endpoints alone.
\<close>

definition quiet :: "challenge_instance \<Rightarrow> challenge_instance \<Rightarrow> bool" where
  "quiet i j = (evolves i j \<and> ci_backend_handle j = ci_backend_handle i \<and> ci_endpoints j = ci_endpoints i
     \<and> (ci_status j = Inst_Running \<longleftrightarrow> ci_status i = Inst_Running)
     \<and> (ci_status j = Inst_Requested \<longrightarrow> ci_status i = Inst_Requested))"

lemma quiet_refl [simp]: "quiet i i"
  by (simp add: quiet_def)

lemma quiet_evolves: "quiet i j \<Longrightarrow> evolves i j"
  by (simp add: quiet_def)

lemmas row_defs = evolves_def same_instance_def inst_transition_def instance_can_transition_can_move can_move_def

text \<open>A session on one row leaves the database alone or rewrites that row, related by \<open>R\<close>.\<close>

definition touches ::
  "(challenge_instance \<Rightarrow> challenge_instance \<Rightarrow> bool) \<Rightarrow> db \<Rightarrow> ident \<Rightarrow> db \<Rightarrow> bool" where
  "touches R d iid d' = (d' = d
     \<or> (\<exists>i i'. get_instance d iid = Some i \<and> R i i' \<and> d' = modify_instance iid (\<lambda>_. i') d))"

lemma touchesI: "get_instance d iid = Some i \<Longrightarrow> R i i' \<Longrightarrow> touches R d iid (modify_instance iid (\<lambda>_. i') d)"
  by (auto simp: touches_def)

lemma touches_refl [simp]: "touches R d iid d"
  by (simp add: touches_def)

lemma claim_effect:
  assumes "provision_claim d iid = (Some (i', dep, c), d', evs)"
  shows "\<exists>i. get_instance d iid = Some i \<and> ci_status i = Inst_Requested \<and> ci_status i' = Inst_Provisioning
     \<and> get_deployment d (ci_deployment_id i) = Some dep \<and> quiet i i'
     \<and> d' = modify_instance iid (\<lambda>_. i') d"
  using assms unfolding provision_claim_def
  by (auto simp: Let_def quiet_def row_defs split: option.splits if_splits)

lemma claim_none_effect:
  assumes "provision_claim d iid = (None, d', evs)"
  shows "touches quiet d iid d'"
proof -
  have "quiet i ((snd (inst_transition i Inst_Failed))\<lparr>ci_failure_reason := r\<rparr>)"
    if "ci_status i = Inst_Requested" for i r
    using that by (simp add: quiet_def row_defs)
  with assms show ?thesis
    unfolding provision_claim_def by (auto simp: Let_def split: option.splits if_splits intro!: touchesI)
qed

lemma fail_effect:
  assumes "fail_provision d iid reason = (d', evs)"
  shows "touches (\<lambda>i j. evolves i j \<and> (ci_status i \<noteq> Inst_Running \<longrightarrow> quiet i j)) d iid d'"
proof -
  have "evolves i j \<and> (ci_status i \<noteq> Inst_Running \<longrightarrow> quiet i j)"
    if "j = (snd (inst_transition i Inst_Failed))\<lparr>ci_failure_reason := r\<rparr>" for i j r
    using that by (cases "ci_status i") (simp_all add: quiet_def row_defs)
  with assms show ?thesis
    unfolding fail_provision_def by (auto simp: Let_def split: option.splits if_splits intro!: touchesI)
qed

lemma finish_effect:
  assumes "teardown_finish d iid name now = (d', evs)"
  shows "touches quiet d iid d'"
proof -
  have "quiet i ((snd (inst_transition i Inst_Destroyed))\<lparr>ci_destroyed_at := t\<rparr>)" for i t
    by (cases "ci_status i") (simp_all add: quiet_def row_defs)
  with assms show ?thesis
    unfolding teardown_finish_def by (auto simp: Let_def split: option.splits if_splits intro!: touchesI)
qed

lemma extend_effect:
  assumes "inst_extend d i c dep now = (Inr i', d', evs)" "get_instance d iid = Some i"
  shows "touches quiet d iid d'"
proof -
  have "d' = modify_instance iid (\<lambda>_. i') d" "quiet i i'"
    using assms get_instance_in [OF assms(2)]
    by (auto simp: inst_extend_def Let_def quiet_def row_defs split: if_splits)
  with assms(2) show ?thesis by (auto intro: touchesI)
qed

lemma settle_effect:
  assumes "provision_finish d iid h eps flag now = (live, d', evs)"
  shows "if live then
      (\<exists>i i'. get_instance d iid = Some i \<and> d' = modify_instance iid (\<lambda>_. i') d
         \<and> ci_status i = Inst_Provisioning \<and> ci_status i' = Inst_Running \<and> evolves i i'
         \<and> ci_backend_handle i' = Some h \<and> (ci_endpoints i' = eps \<or> ci_endpoints i' = ci_endpoints i))
    else d' = d"
  using assms unfolding provision_finish_def
  by (auto simp: Let_def row_defs split: option.splits if_splits prod.splits)

lemma teardown_effect:
  assumes "teardown_begin d iid = (Some h, d')"
  shows "\<exists>i. get_instance d iid = Some i
     \<and> h = (if get_deployment d (ci_deployment_id i) = None then None else ci_backend_handle i)
     \<and> (\<exists>i'. evolves i i' \<and> ci_backend_handle i' = ci_backend_handle i \<and> ci_endpoints i' = ci_endpoints i
          \<and> ci_status i' \<noteq> Inst_Running \<and> (ci_status i' = Inst_Requested \<longrightarrow> ci_status i = Inst_Requested)
          \<and> (d' = d \<and> i' = i \<or> d' = modify_instance iid (\<lambda>_. i') d))"
proof -
  obtain i where i: "get_instance d iid = Some i" "\<not> (ci_status i = Inst_Destroyed \<or> ci_status i = Inst_Failed)"
    using assms by (auto simp: teardown_begin_def split: option.splits if_splits)
  show ?thesis
  proof (cases "ci_status i = Inst_Running \<or> ci_status i = Inst_Provisioning")
    case True
    then show ?thesis
      using assms i by (intro exI [of _ i] conjI exI [of _ "snd (inst_transition i Inst_Expiring)"])
        (auto simp: teardown_begin_def Let_def row_defs)
  next
    case False
    then show ?thesis
      using assms i by (intro exI [of _ i] conjI) (auto simp: teardown_begin_def Let_def)
  qed
qed

lemma stuck_quiet: "is_stuck now i \<Longrightarrow> quiet i (fail_stuck i)"
  by (cases "ci_status i") (simp_all add: is_stuck_def fail_stuck_def quiet_def row_defs)

lemma launch_effect:
  assumes "launch read d l = (Inr i, d', evs)"
  shows "d' = d\<lparr>db_instances := db_instances d @ [i]\<rparr>
    \<and> (\<exists>eps sub. plan_endpoints read (db_instance_settings read) (lc_deployment l) (lc_tokens l) = Inr (eps, sub)
         \<and> i = requested_row l eps sub)
    \<and> count_active read (Some (co_id (lc_competition l))) (Some (cd_challenge_id (lc_deployment l)))
        (Some (coalesce (lc_team_id l) (lc_user_id l))) < cd_per_subject_cap (lc_deployment l)
    \<and> (case co_instance_max_alive (lc_competition l) of None \<Rightarrow> True
       | Some m \<Rightarrow> count_active read (Some (co_id (lc_competition l))) None
           (Some (coalesce (lc_team_id l) (lc_user_id l))) < m)
    \<and> count_active read None None None < instance_ceiling read"
  using assms unfolding launch_def Let_def lock_admission_def
  by (auto split: if_splits sum.splits prod.splits option.splits)

section \<open>The invariant\<close>

text \<open>
  \<open>free\<close> stands for the containers that are neither held by a handler nor lost: each is the
  handle of a running row. A row whose provisioning is in flight neither waits to be claimed nor
  runs already.
\<close>

definition rows_inv ::
  "ident set \<Rightarrow> challenge_deployment list \<Rightarrow> job multiset \<Rightarrow> string set \<Rightarrow> challenge_instance list \<Rightarrow> bool" where
  "rows_inv ids deps J free rows =
     (distinct (map ci_id rows)
      \<and> (\<forall>i\<in>set rows. ci_id i \<in> ids \<and> ci_deployment_id i \<in> cd_id ` set deps
           \<and> (ci_status i = Inst_Running \<longrightarrow> ci_backend_handle i \<noteq> None)
           \<and> (\<forall>j\<in>#J. prov_job (ci_id i) j \<longrightarrow> ci_status i \<noteq> Inst_Requested \<and> ci_status i \<noteq> Inst_Running))
      \<and> (\<forall>h\<in>free. \<exists>i\<in>set rows. ci_status i = Inst_Running \<and> ci_backend_handle i = Some h))"

definition prov_count :: "ident \<Rightarrow> job multiset \<Rightarrow> nat" where
  "prov_count i J = size (filter_mset (prov_job i) J)"

lemma prov_count_simps [simp]:
  "prov_count i {#} = 0"
  "prov_count i (add_mset j J) = (if prov_job i j then Suc (prov_count i J) else prov_count i J)"
  by (simp_all add: prov_count_def)

lemma prov_count_pos: "k \<in># J \<Longrightarrow> prov_job i k \<Longrightarrow> 0 < prov_count i J"
  by (induction J) (auto split: if_splits)

definition jobs_inv :: "ident set \<Rightarrow> job multiset \<Rightarrow> bool" where
  "jobs_inv ids J = ((\<forall>i. prov_count i J \<le> 1) \<and> (\<forall>j\<in>#J. \<forall>i. prov_job i j \<longrightarrow> i \<in> ids))"

definition free_containers :: "world \<Rightarrow> string set" where
  "free_containers w = w_containers w - accounted w"

definition world_inv :: "world \<Rightarrow> bool" where
  "world_inv w = (rows_inv (w_ids w) (db_deployments (w_db w)) (w_jobs w) (free_containers w)
       (db_instances (w_db w))
     \<and> jobs_inv (w_ids w) (w_jobs w))"

lemma held_simps [simp]: "held {#} = {}" "held (add_mset j J) = job_handles j \<union> held J"
  by (simp_all add: held_def)

text \<open>The columns the invariant reads.\<close>

definition same_columns :: "challenge_instance \<Rightarrow> challenge_instance \<Rightarrow> bool" where
  "same_columns i j = (ci_id j = ci_id i \<and> ci_deployment_id j = ci_deployment_id i
     \<and> ci_backend_handle j = ci_backend_handle i \<and> (ci_status j = Inst_Running \<longleftrightarrow> ci_status i = Inst_Running)
     \<and> (ci_status j = Inst_Requested \<longrightarrow> ci_status i = Inst_Requested))"

lemma quiet_columns: "quiet i j \<Longrightarrow> same_columns i j"
  by (auto simp: quiet_def evolves_def same_instance_def same_columns_def)

lemma rows_inv_map:
  assumes "rows_inv ids deps J free rows" "\<And>i. i \<in> set rows \<Longrightarrow> same_columns i (f i)"
  shows "rows_inv ids deps J free (map f rows)"
proof -
  have f: "ci_id (f i) = ci_id i" "ci_deployment_id (f i) = ci_deployment_id i"
    "ci_backend_handle (f i) = ci_backend_handle i" "ci_status (f i) = Inst_Running \<longleftrightarrow> ci_status i = Inst_Running"
    "ci_status (f i) = Inst_Requested \<Longrightarrow> ci_status i = Inst_Requested" if "i \<in> set rows" for i
    using assms(2) [OF that] by (auto simp: same_columns_def)
  from f(1) have ids: "map ci_id (map f rows) = map ci_id rows" by simp
  show ?thesis
    unfolding rows_inv_def ids
  proof (intro conjI ballI)
    show "distinct (map ci_id rows)" using assms(1) by (simp add: rows_inv_def)
    show "\<exists>i\<in>set (map f rows). ci_status i = Inst_Running \<and> ci_backend_handle i = Some h" if "h \<in> free" for h
    proof -
      from assms(1) that obtain i where "i \<in> set rows" "ci_status i = Inst_Running" "ci_backend_handle i = Some h"
        unfolding rows_inv_def by blast
      with f(3,4) show ?thesis by (intro bexI [of _ "f i"]) auto
    qed
  qed (use assms(1) f in \<open>fastforce simp: rows_inv_def\<close>)+
qed

lemma rows_inv_mono:
  assumes "rows_inv ids deps J free rows" "free' \<subseteq> free" "ids \<subseteq> ids'"
    and "\<And>j i. j \<in># J' \<Longrightarrow> prov_job i j \<Longrightarrow> \<exists>j'. j' \<in># J \<and> prov_job i j'"
  shows "rows_inv ids' deps J' free' rows"
  using assms unfolding rows_inv_def by blast

lemma rows_inv_filter:
  assumes "rows_inv ids deps J free rows"
    and "\<And>i h. i \<in> set rows \<Longrightarrow> \<not> keep i \<Longrightarrow> ci_backend_handle i = Some h \<Longrightarrow> h \<notin> free'" "free' \<subseteq> free"
  shows "rows_inv ids deps J free' (filter keep rows)"
proof -
  have "\<exists>i\<in>set (filter keep rows). ci_status i = Inst_Running \<and> ci_backend_handle i = Some h" if "h \<in> free'" for h
  proof -
    from assms(1,3) that obtain i where "i \<in> set rows" "ci_status i = Inst_Running" "ci_backend_handle i = Some h"
      unfolding rows_inv_def by blast
    with assms(2) that show ?thesis by (auto intro!: bexI [of _ i])
  qed
  then show ?thesis using assms(1) unfolding rows_inv_def by (auto simp: distinct_map_filter)
qed

lemma rows_inv_touches:
  assumes "rows_inv ids (db_deployments d) J free (db_instances d)" "touches quiet d iid d'"
  shows "rows_inv ids (db_deployments d') J free (db_instances d')"
  using assms(2) unfolding touches_def
proof
  assume "\<exists>i i'. get_instance d iid = Some i \<and> quiet i i' \<and> d' = modify_instance iid (\<lambda>_. i') d"
  then obtain i i' where d': "get_instance d iid = Some i" "quiet i i'" "d' = modify_instance iid (\<lambda>_. i') d"
    by blast
  have "distinct (map ci_id (db_instances d))" using assms(1) by (simp add: rows_inv_def)
  from get_instance_unique [OF this d'(1)] d'(2)
  have "rows_inv ids (db_deployments d) J free (map (\<lambda>r. if ci_id r = iid then i' else r) (db_instances d))"
    by (intro rows_inv_map [OF assms(1)] quiet_columns) auto
  then show ?thesis by (simp add: d'(3)) (simp add: modify_instance_def update_where_def)
qed (use assms(1) in simp)

lemma jobs_inv_drop: "jobs_inv ids (add_mset j J) \<Longrightarrow> jobs_inv ids J"
  unfolding jobs_inv_def by (force split: if_splits)

lemma jobs_inv_replace:
  "jobs_inv ids (add_mset j J) \<Longrightarrow> (\<And>i. prov_job i j' \<Longrightarrow> prov_job i j) \<Longrightarrow> jobs_inv ids (add_mset j' J)"
  unfolding jobs_inv_def by (force split: if_splits)

lemma jobs_inv_add_other:
  "jobs_inv ids J \<Longrightarrow> (\<And>i. \<not> prov_job i j) \<Longrightarrow> jobs_inv ids (add_mset j J)"
  by (simp add: jobs_inv_def)

lemma jobs_inv_single:
  assumes "jobs_inv ids (add_mset j J)" "prov_job i j" "k \<in># J"
  shows "\<not> prov_job i k"
proof
  assume "prov_job i k"
  then have "0 < prov_count i J" using assms(3) by (rule prov_count_pos [rotated])
  moreover have "prov_count i (add_mset j J) \<le> 1" using assms(1) by (simp only: jobs_inv_def)
  ultimately show False using assms(2) by simp
qed

lemma world_inv_same_db:
  assumes "world_inv w" "w_db w' = w_db w" "w_ids w' = w_ids w" "free_containers w' \<subseteq> free_containers w"
    and "w_jobs w = add_mset j J" "w_jobs w' = J \<or> (\<exists>j'. w_jobs w' = add_mset j' J \<and> (\<forall>i. prov_job i j' \<longrightarrow> prov_job i j))"
  shows "world_inv w'"
proof -
  have inv: "rows_inv (w_ids w) (db_deployments (w_db w)) (w_jobs w) (free_containers w) (db_instances (w_db w))"
    "jobs_inv (w_ids w) (add_mset j J)" using assms(1,5) by (simp_all add: world_inv_def)
  have "\<exists>k'. k' \<in># w_jobs w \<and> prov_job i k'" if "k \<in># w_jobs w'" "prov_job i k" for i k
    using assms(5,6) that by fastforce
  from rows_inv_mono [OF inv(1) assms(4) order_refl this]
  have "rows_inv (w_ids w) (db_deployments (w_db w)) (w_jobs w') (free_containers w') (db_instances (w_db w))" .
  moreover have "jobs_inv (w_ids w) (w_jobs w')"
    using assms(6) jobs_inv_drop [OF inv(2)] jobs_inv_replace [OF inv(2)] by auto
  ultimately show ?thesis by (simp add: world_inv_def assms(2,3))
qed

lemma world_inv_quiet:
  assumes "world_inv w" "touches quiet (w_db w) iid d"
    and "w' = w\<lparr>w_db := d\<rparr>"
  shows "world_inv w'"
  using assms rows_inv_touches [OF _ assms(2)]
  by (simp add: world_inv_def free_containers_def accounted_def)

lemma world_inv_launch:
  assumes inv: "world_inv w" and J: "w_jobs w = add_mset (Job_Launch read l) J"
    and run: "launch read (w_db w) l = (Inr i, d, evs)" and fresh: "lc_row_id l \<notin> w_ids w"
    and dep: "cd_id (lc_deployment l) \<in> cd_id ` set (db_deployments (w_db w))"
  shows "world_inv (w\<lparr>w_db := d, w_jobs := J, w_ids := insert (lc_row_id l) (w_ids w), w_credit := cr\<rparr>)"
proof -
  from launch_effect [OF run] obtain eps sub where
    d: "d = (w_db w)\<lparr>db_instances := db_instances (w_db w) @ [i]\<rparr>" and i: "i = requested_row l eps sub" by blast
  have row: "ci_id i = lc_row_id l" "ci_status i = Inst_Requested" "ci_deployment_id i = cd_id (lc_deployment l)"
    by (simp_all add: i requested_row_def)
  have "\<not> prov_job (lc_row_id l) j" if "j \<in># J" for j
    using inv that fresh by (auto simp: world_inv_def jobs_inv_def J)
  moreover have "lc_row_id l \<notin> ci_id ` set (db_instances (w_db w))"
    using inv fresh by (auto simp: world_inv_def rows_inv_def)
  ultimately have "rows_inv (insert (lc_row_id l) (w_ids w)) (db_deployments (w_db w)) J
      (free_containers w) (db_instances (w_db w) @ [i])"
    using inv row dep unfolding world_inv_def rows_inv_def J by auto
  moreover have "jobs_inv (insert (lc_row_id l) (w_ids w)) J"
    using inv by (auto simp: world_inv_def jobs_inv_def J)
  ultimately show ?thesis
    by (simp add: world_inv_def d free_containers_def accounted_def J)
qed

lemma world_inv_claim:
  assumes inv: "world_inv w" and run: "provision_claim (w_db w) iid = (Some (i', dep, c), d, evs)"
  shows "world_inv (w\<lparr>w_db := d, w_jobs := add_mset (Job_Create iid dep flag None) (w_jobs w)\<rparr>)"
proof -
  from claim_effect [OF run] obtain i where i: "get_instance (w_db w) iid = Some i"
    "ci_status i = Inst_Requested" "ci_status i' = Inst_Provisioning" "quiet i i'"
    "d = modify_instance iid (\<lambda>_. i') (w_db w)" by blast
  have dist: "distinct (map ci_id (db_instances (w_db w)))" using inv by (simp add: world_inv_def rows_inv_def)
  from i have "touches quiet (w_db w) iid d" by (auto intro: touchesI)
  then have rows: "rows_inv (w_ids w) (db_deployments d) (w_jobs w) (free_containers w) (db_instances d)"
    using inv unfolding world_inv_def by (blast intro: rows_inv_touches)
  have "ci_status k = Inst_Provisioning" if "k \<in> set (db_instances d)" "ci_id k = iid" for k
    using that i(3,5) get_instance_in [OF i(1)] i(4)
    by (auto simp: modify_instance_def set_update_where split: if_splits)
  with rows have "rows_inv (w_ids w) (db_deployments d) (add_mset (Job_Create iid dep flag None) (w_jobs w))
      (free_containers w) (db_instances d)"
    by (auto simp: rows_inv_def)
  moreover have "prov_count iid (w_jobs w) = 0" "iid \<in> w_ids w"
    using inv i(2) get_instance_in [OF i(1)]
    by (auto simp: world_inv_def rows_inv_def prov_count_def filter_mset_eq_conv)
  then have "jobs_inv (w_ids w) (add_mset (Job_Create iid dep flag None) (w_jobs w))"
    using inv by (auto simp: world_inv_def jobs_inv_def)
  ultimately show ?thesis
    by (simp add: world_inv_def free_containers_def accounted_def)
qed

lemma world_inv_settle:
  assumes inv: "world_inv w" and J: "w_jobs w = add_mset (Job_Settle iid h eps flag) J"
    and run: "provision_finish (w_db w) iid h eps flag now = (True, d, evs)"
  shows "world_inv (w\<lparr>w_db := d, w_jobs := J\<rparr>)"
proof -
  from settle_effect [OF run] obtain i i' where i: "get_instance (w_db w) iid = Some i"
    "d = modify_instance iid (\<lambda>_. i') (w_db w)" "ci_status i = Inst_Provisioning"
    "ci_status i' = Inst_Running" "evolves i i'" "ci_backend_handle i' = Some h" by auto
  let ?rows = "db_instances (w_db w)"
  have rows: "rows_inv (w_ids w) (db_deployments (w_db w)) (w_jobs w) (free_containers w) ?rows"
    and jobs: "jobs_inv (w_ids w) (w_jobs w)" using inv by (simp_all add: world_inv_def)
  then have dist: "distinct (map ci_id ?rows)" by (simp add: rows_inv_def)
  note i_in = get_instance_in [OF i(1)]
  have i'_id: "ci_id i' = iid" "ci_deployment_id i' = ci_deployment_id i"
    using i(5) i_in by (auto simp: evolves_def same_instance_def)
  have set_d: "set (db_instances d) = insert i' {r \<in> set ?rows. ci_id r \<noteq> iid}"
    using i_in by (auto simp: i(2) modify_instance_def set_update_where image_iff)
  have "map ci_id (db_instances d) = map ci_id ?rows"
    by (simp add: i(2) modify_instance_def map_update_where i'_id)
  then have "distinct (map ci_id (db_instances d))" using dist by simp
  moreover have "\<not> prov_job iid j" if "j \<in># J" for j
    using jobs_inv_single [OF jobs [unfolded J] _ that] by simp
  moreover have "\<exists>r\<in>set (db_instances d). ci_status r = Inst_Running \<and> ci_backend_handle r = Some x"
    if "x \<in> w_containers w - (held J \<union> w_lost w)" for x
  proof (cases "x = h")
    case True
    then show ?thesis using set_d i(4,6) by blast
  next
    case False
    with that have "x \<in> free_containers w" by (auto simp: free_containers_def accounted_def J)
    with rows obtain r where r: "r \<in> set ?rows" "ci_status r = Inst_Running" "ci_backend_handle r = Some x"
      unfolding rows_inv_def by blast
    then have "ci_id r \<noteq> iid" using get_instance_unique [OF dist i(1), of r] i(3) by auto
    with r set_d show ?thesis by blast
  qed
  ultimately have "rows_inv (w_ids w) (db_deployments d) J (w_containers w - (held J \<union> w_lost w)) (db_instances d)"
    using rows i'_id i_in i(6) unfolding rows_inv_def set_d J by (auto simp: i(2))
  then show ?thesis
    using jobs unfolding J by (simp add: world_inv_def free_containers_def accounted_def jobs_inv_drop)
qed

lemma world_inv_teardown:
  assumes inv: "world_inv w" and run: "teardown_begin (w_db w) iid = (Some h, d)"
  shows "world_inv (w\<lparr>w_db := d, w_jobs := add_mset (Job_Destroy iid h name) (w_jobs w)\<rparr>)"
proof -
  let ?rows = "db_instances (w_db w)"
  have rows: "rows_inv (w_ids w) (db_deployments (w_db w)) (w_jobs w) (free_containers w) ?rows"
    and jobs: "jobs_inv (w_ids w) (w_jobs w)" using inv by (simp_all add: world_inv_def)
  then have dist: "distinct (map ci_id ?rows)" by (simp add: rows_inv_def)
  from teardown_effect [OF run] obtain i i' where i: "get_instance (w_db w) iid = Some i"
    "h = (if get_deployment (w_db w) (ci_deployment_id i) = None then None else ci_backend_handle i)"
    "evolves i i'" "ci_backend_handle i' = ci_backend_handle i" "ci_status i' \<noteq> Inst_Running"
    "ci_status i' = Inst_Requested \<longrightarrow> ci_status i = Inst_Requested"
    "d = w_db w \<and> i' = i \<or> d = modify_instance iid (\<lambda>_. i') (w_db w)" by blast
  note i_in = get_instance_in [OF i(1)]
  have "get_deployment (w_db w) (ci_deployment_id i) \<noteq> None"
    using rows i_in unfolding rows_inv_def get_deployment_def find_None_iff by fastforce
  with i(2) have h: "h = ci_backend_handle i" by simp
  have i'_id: "ci_id i' = iid" "ci_deployment_id i' = ci_deployment_id i"
    using i(3) i_in by (auto simp: evolves_def same_instance_def)
  have set_d: "set (db_instances d) = insert i' {r \<in> set ?rows. ci_id r \<noteq> iid}"
    using i(7) i_in get_instance_unique [OF dist i(1)]
    by (auto simp: modify_instance_def set_update_where image_iff)
  have keep: "map ci_id (db_instances d) = map ci_id ?rows" "db_deployments d = db_deployments (w_db w)"
    using i(7) by (auto simp: modify_instance_def map_update_where i'_id)
  let ?free = "free_containers w - set_option h"
  have "\<exists>r\<in>set (db_instances d). ci_status r = Inst_Running \<and> ci_backend_handle r = Some x"
    if "x \<in> ?free" for x
  proof -
    from rows that obtain r where r: "r \<in> set ?rows" "ci_status r = Inst_Running" "ci_backend_handle r = Some x"
      unfolding rows_inv_def by blast
    with that h have "ci_id r \<noteq> iid" using get_instance_unique [OF dist i(1), of r] by auto
    with r set_d show ?thesis by blast
  qed
  then have "rows_inv (w_ids w) (db_deployments d) (w_jobs w) ?free (db_instances d)"
    using rows i'_id i_in i(5,6) dist unfolding rows_inv_def set_d keep by auto
  then have "rows_inv (w_ids w) (db_deployments d) (add_mset (Job_Destroy iid h name) (w_jobs w)) ?free (db_instances d)"
    by (auto simp: rows_inv_def)
  moreover have "w_containers w - (set_option h \<union> held (w_jobs w) \<union> w_lost w) = ?free"
    by (auto simp: free_containers_def accounted_def)
  ultimately show ?thesis
    using jobs by (simp add: world_inv_def free_containers_def accounted_def jobs_inv_add_other)
qed

lemma world_inv_fail:
  assumes inv: "world_inv w" and J: "w_jobs w = add_mset (Job_Fail iid h reason) J"
    and run: "fail_provision (w_db w) iid reason = (d, evs)"
  shows "world_inv (w\<lparr>w_db := d, w_jobs := (case h of None \<Rightarrow> J | Some x \<Rightarrow> add_mset (Job_Drop x) J)\<rparr>)"
proof -
  have "ci_status i \<noteq> Inst_Running" if "get_instance (w_db w) iid = Some i" for i
    using inv get_instance_in [OF that] by (auto simp: world_inv_def rows_inv_def J)
  then have "touches quiet (w_db w) iid d"
    using fail_effect [OF run] unfolding touches_def by blast
  from world_inv_quiet [OF inv this refl]
  have "world_inv (w\<lparr>w_db := d\<rparr>)" .
  then show ?thesis
    by (rule world_inv_same_db [where j = "Job_Fail iid h reason" and J = J])
      (auto simp: J free_containers_def accounted_def split: option.splits)
qed

lemma world_inv_stuck:
  assumes inv: "world_inv w" and run: "reap_stuck (w_db w) now = (d, evs)"
  shows "world_inv (w\<lparr>w_db := d\<rparr>)"
proof -
  let ?stuck = "take REAP_BATCH (filter (is_stuck now) (db_instances (w_db w)))"
  have d: "d = (w_db w)\<lparr>db_instances := map (\<lambda>i. if ci_id i \<in> set (map ci_id ?stuck) then fail_stuck i else i)
      (db_instances (w_db w))\<rparr>"
    using run by (auto simp: reap_stuck_def Let_def update_where_def)
  have dist: "distinct (map ci_id (db_instances (w_db w)))" using inv by (simp add: world_inv_def rows_inv_def)
  have "quiet i (if ci_id i \<in> set (map ci_id ?stuck) then fail_stuck i else i)"
    if "i \<in> set (db_instances (w_db w))" for i
  proof (cases "ci_id i \<in> set (map ci_id ?stuck)")
    case True
    then obtain k where k: "k \<in> set ?stuck" "ci_id k = ci_id i" by auto
    from in_set_takeD [OF k(1)] have "k \<in> set (db_instances (w_db w))" "is_stuck now k" by auto
    moreover from this dist that k(2) have "k = i" by (auto simp: distinct_map dest: inj_onD)
    ultimately show ?thesis using True by (simp add: stuck_quiet)
  qed simp
  from rows_inv_map [OF _ quiet_columns [OF this]] inv show ?thesis
    by (simp add: world_inv_def d free_containers_def accounted_def)
qed

lemma world_inv_delete:
  assumes inv: "world_inv w"
  shows "world_inv (w\<lparr>w_db := drop_deployment dep (w_db w),
    w_lost := w_lost w \<union> row_handles (filter (\<lambda>i. ci_deployment_id i = dep) (db_instances (w_db w)))\<rparr>)"
proof -
  let ?rows = "db_instances (w_db w)"
  let ?kept = "delete_where (\<lambda>i. ci_deployment_id i = dep) ?rows"
  let ?lost = "row_handles (filter (\<lambda>i. ci_deployment_id i = dep) ?rows)"
  have rows: "rows_inv (w_ids w) (db_deployments (w_db w)) (w_jobs w) (free_containers w) ?rows"
    using inv by (simp add: world_inv_def)
  have "\<exists>i\<in>set ?kept. ci_status i = Inst_Running \<and> ci_backend_handle i = Some h"
    if "h \<in> free_containers w - ?lost" for h
  proof -
    from rows that obtain i where "i \<in> set ?rows" "ci_status i = Inst_Running" "ci_backend_handle i = Some h"
      unfolding rows_inv_def by blast
    with that show ?thesis by (auto simp: row_handles_def delete_where_def intro!: bexI [of _ i])
  qed
  moreover have "distinct (map ci_id ?kept)"
    using rows unfolding rows_inv_def delete_where_def by (simp add: distinct_map_filter)
  ultimately have "rows_inv (w_ids w) (delete_where (\<lambda>r. cd_id r = dep) (db_deployments (w_db w))) (w_jobs w)
      (free_containers w - ?lost) ?kept"
    using rows unfolding rows_inv_def by (auto simp: delete_where_def)
  moreover have "w_containers w - (held (w_jobs w) \<union> (w_lost w \<union> ?lost)) = free_containers w - ?lost"
    by (auto simp: free_containers_def accounted_def)
  ultimately show ?thesis
    using inv by (simp add: world_inv_def drop_deployment_def free_containers_def accounted_def)
qed

lemma world_inv_delete_user:
  assumes inv: "world_inv w"
  shows "world_inv (w\<lparr>w_db := drop_user u (w_db w),
    w_lost := w_lost w \<union> row_handles (filter (\<lambda>i. ci_user_id i = u) (db_instances (w_db w)))\<rparr>)"
proof -
  let ?rows = "db_instances (w_db w)"
  let ?lost = "row_handles (filter (\<lambda>i. ci_user_id i = u) ?rows)"
  have rows: "rows_inv (w_ids w) (db_deployments (w_db w)) (w_jobs w) (free_containers w) ?rows"
    using inv by (simp add: world_inv_def)
  have "rows_inv (w_ids w) (db_deployments (w_db w)) (w_jobs w)
      (free_containers w - ?lost) (filter (\<lambda>i. ci_user_id i \<noteq> u) ?rows)"
    by (rule rows_inv_filter [OF rows]) (auto simp: row_handles_def)
  moreover have "w_containers w - (held (w_jobs w) \<union> (w_lost w \<union> ?lost)) = free_containers w - ?lost"
    by (auto simp: free_containers_def accounted_def)
  ultimately show ?thesis
    using inv by (simp add: world_inv_def drop_user_def delete_where_def free_containers_def accounted_def)
qed

lemma world_inv_team:
  assumes "world_inv w"
  shows "world_inv (w\<lparr>w_db := (w_db w)\<lparr>db_instances := map (forget_team t) (db_instances (w_db w))\<rparr>, w_gone := g\<rparr>)"
proof -
  have "rows_inv (w_ids w) (db_deployments (w_db w)) (w_jobs w) (free_containers w)
      (map (forget_team t) (db_instances (w_db w)))"
    using assms by (intro rows_inv_map) (simp_all add: world_inv_def same_columns_def forget_team_def)
  then show ?thesis
    using assms by (simp add: world_inv_def free_containers_def accounted_def)
qed

lemma world_inv_restart:
  "world_inv w \<Longrightarrow> world_inv (w\<lparr>w_jobs := {#}, w_lost := accounted w, w_seen := []\<rparr>)"
  by (auto simp: world_inv_def rows_inv_def jobs_inv_def free_containers_def accounted_def)

lemma world_inv_gc_read:
  "world_inv w \<Longrightarrow> world_inv (w\<lparr>w_jobs := add_mset (Job_Gc live) (w_jobs w)\<rparr>)"
  by (auto simp: world_inv_def rows_inv_def jobs_inv_def free_containers_def accounted_def)

lemma world_inv_step: "world_step sha w w' \<Longrightarrow> world_inv w \<Longrightarrow> world_inv w'"
proof (induction rule: world_step.induct)
  case (launch_committed w read l J i d evs)
  then show ?case by (blast intro: world_inv_launch)
next
  case (launch_admitted w l)
  then show ?case by (simp add: world_inv_def rows_inv_def jobs_inv_def free_containers_def accounted_def)
next
  case (launch_ended w read l J)
  show ?case
    by (rule world_inv_same_db [OF launch_ended(2) _ _ _ launch_ended(1)])
      (auto simp: launch_ended(1) free_containers_def accounted_def)
next
  case (settings_edited w st)
  then show ?case by (simp add: world_inv_def free_containers_def accounted_def)
next
  case (deployments_edited w deps)
  then show ?case by (auto simp: world_inv_def rows_inv_def free_containers_def accounted_def)
next
  case (competitions_edited w cs)
  then show ?case by (simp add: world_inv_def free_containers_def accounted_def)
next
  case (user_deleted w u)
  then show ?case by (rule world_inv_delete_user)
next
  case (claim w iid i dep c d evs flag token salt)
  then show ?case by (blast intro: world_inv_claim)
next
  case (claim_none w iid d evs)
  then show ?case by (blast intro: world_inv_quiet claim_none_effect)
next
  case (fail w iid h reason J d evs)
  then show ?case by (blast intro: world_inv_fail)
next
  case (settle w iid h eps flag J now live d evs)
  show ?case
  proof (cases live)
    case True
    with settle show ?thesis by (auto intro: world_inv_settle)
  next
    case False
    with settle settle_effect [OF settle(2)] have "d = w_db w" by simp
    with settle False show ?thesis
      by (auto simp: free_containers_def accounted_def
          intro!: world_inv_same_db [where w = w and j = "Job_Settle iid h eps flag" and J = J])
  qed
next
  case (teardown w iid h d name)
  then show ?case by (blast intro: world_inv_teardown)
next
  case (close w iid name J now d evs)
  have "world_inv (w\<lparr>w_db := d\<rparr>)"
    using close by (blast intro: world_inv_quiet finish_effect)
  then show ?case
    by (rule world_inv_same_db [where j = "Job_Close iid name" and J = J])
      (auto simp: close free_containers_def accounted_def)
next
  case (extended w iid i c dep now i' d evs)
  then show ?case by (blast intro: world_inv_quiet extend_effect)
next
  case (stuck w now d evs)
  then show ?case by (blast intro: world_inv_stuck)
next
  case (gc_read w)
  then show ?case by (rule world_inv_gc_read)
next
  case (deployment_deleted w dep)
  then show ?case by (rule world_inv_delete)
next
  case (restart w)
  then show ?case by (rule world_inv_restart)
next
  case (container_up w iid dep flag J h)
  show ?case
    by (rule world_inv_same_db [OF container_up(4) _ _ _ container_up(1)])
      (auto simp: container_up(1) free_containers_def accounted_def)
next
  case (create_failed w iid dep flag h J reason)
  show ?case
    by (rule world_inv_same_db [OF create_failed(2) _ _ _ create_failed(1)])
      (auto simp: create_failed(1) free_containers_def accounted_def)
next
  case (destroyed w iid h name J)
  show ?case
    by (rule world_inv_same_db [OF destroyed(2) _ _ _ destroyed(1)])
      (auto simp: destroyed(1) free_containers_def accounted_def)
next
  case (shared_static w iid dep flag J eps)
  show ?case
    by (rule world_inv_same_db [OF shared_static(3) _ _ _ shared_static(1)])
      (auto simp: shared_static(1) free_containers_def accounted_def)
next
  case (created w iid dep flag h J eps)
  show ?case
    by (rule world_inv_same_db [OF created(3) _ _ _ created(1)])
      (auto simp: created(1) free_containers_def accounted_def)
next
  case (create_leaked w iid dep flag h J reason)
  show ?case
    by (rule world_inv_same_db [OF create_leaked(2) _ _ _ create_leaked(1)])
      (auto simp: create_leaked(1) free_containers_def accounted_def)
next
  case (endpoints_failed w iid dep flag h J reason)
  show ?case
    by (rule world_inv_same_db [OF endpoints_failed(2) _ _ _ endpoints_failed(1)])
      (auto simp: endpoints_failed(1) free_containers_def accounted_def)
next
  case (dropped w h J)
  show ?case
    by (rule world_inv_same_db [OF dropped(2) _ _ _ dropped(1)])
      (auto simp: dropped(1) free_containers_def accounted_def)
next
  case (drop_failed w h J)
  show ?case
    by (rule world_inv_same_db [OF drop_failed(2) _ _ _ drop_failed(1)])
      (auto simp: drop_failed(1) free_containers_def accounted_def)
next
  case (destroy_failed w iid h name J)
  show ?case
    by (rule world_inv_same_db [OF destroy_failed(2) _ _ _ destroy_failed(1)])
      (auto simp: destroy_failed(1) free_containers_def accounted_def)
next
  case (gc_sweep w live J listed kill seen gone)
  show ?case
    by (rule world_inv_same_db [OF gc_sweep(5) _ _ _ gc_sweep(1)])
      (auto simp: gc_sweep(1) free_containers_def accounted_def)
qed

lemma world_inv_fresh: "world_inv (fresh_world d)"
  by (simp add: world_inv_def fresh_world_def rows_inv_def jobs_inv_def free_containers_def)

lemma world_inv_platform: "platform_step sha w w' \<Longrightarrow> world_inv w \<Longrightarrow> world_inv w'"
  by (induction rule: platform_step.induct) (auto intro: world_inv_step world_inv_team)

lemma world_inv_run: "(platform_step sha)\<^sup>*\<^sup>* w w' \<Longrightarrow> world_inv w \<Longrightarrow> world_inv w'"
  by (induction rule: rtranclp_induct) (auto dest: world_inv_platform)

lemma world_run_platform: "(world_step sha)\<^sup>*\<^sup>* w w' \<Longrightarrow> (platform_step sha)\<^sup>*\<^sup>* w w'"
  by (induction rule: rtranclp_induct) (auto intro: rtranclp.rtrancl_into_rtrancl platform_step.ordinary)

lemmas reachable_inv = world_inv_run [OF _ world_inv_fresh]

section \<open>Launches and everything else\<close>

lemma touches_rows:
  assumes "touches R d iid d'" "\<And>i j. get_instance d iid = Some i \<Longrightarrow> R i j \<Longrightarrow> evolves i j"
    "distinct (map ci_id (db_instances d))"
  shows "rows_evolve (db_instances d) (db_instances d') \<and> db_instance_settings d' = db_instance_settings d
    \<and> db_deployments d' = db_deployments d"
  using assms unfolding touches_def by (auto intro: rows_evolve_refl modify_evolves)

text \<open>
  A step either commits a launch, appending one requested row under an unused id, or lets the
  existing rows evolve.
\<close>

definition launched :: "world \<Rightarrow> world \<Rightarrow> bool" where
  "launched w w' = (\<exists>read l J i d evs. w_jobs w = add_mset (Job_Launch read l) J
     \<and> launch read (w_db w) l = (Inr i, d, evs) \<and> lc_row_id l \<notin> w_ids w \<and> lc_team_id l \<notin> Some ` w_gone w
     \<and> w' = w\<lparr>w_db := d, w_jobs := J, w_ids := insert (lc_row_id l) (w_ids w),
         w_credit := (w_credit w)(lc_row_id l := lc_team_id l)\<rparr>)"

definition continued :: "world \<Rightarrow> world \<Rightarrow> bool" where
  "continued w w' = (rows_evolve (db_instances (w_db w)) (db_instances (w_db w')) \<and> w_ids w' = w_ids w
     \<and> w_credit w' = w_credit w \<and> w_gone w' = w_gone w)"

lemma continued_touches:
  assumes "touches R (w_db w) iid d" "\<And>i j. get_instance (w_db w) iid = Some i \<Longrightarrow> R i j \<Longrightarrow> evolves i j"
    "world_inv w" "w_db w' = d" "w_ids w' = w_ids w" "w_credit w' = w_credit w" "w_gone w' = w_gone w"
  shows "continued w w'"
proof -
  have "distinct (map ci_id (db_instances (w_db w)))" using assms(3) by (simp add: world_inv_def rows_inv_def)
  from touches_rows [OF assms(1,2) this] assms(4-7) show ?thesis by (simp add: continued_def)
qed

lemma continued_same_rows:
  "db_instances (w_db w') = db_instances (w_db w) \<Longrightarrow> w_ids w' = w_ids w \<Longrightarrow> w_credit w' = w_credit w \<Longrightarrow>
     w_gone w' = w_gone w \<Longrightarrow> continued w w'"
  by (simp add: continued_def rows_evolve_refl)

lemma step_kind: "world_step sha w w' \<Longrightarrow> world_inv w \<Longrightarrow> launched w w' \<or> continued w w'"
proof (induction rule: world_step.induct)
  case (launch_committed w read l J i d evs)
  then show ?case unfolding launched_def by blast
next
  case (claim w iid i dep c d evs flag token salt)
  from claim_effect [OF claim(1)] have "touches quiet (w_db w) iid d" by (auto intro: touchesI)
  from continued_touches [OF this quiet_evolves claim(3)] show ?case by simp
next
  case (claim_none w iid d evs)
  from continued_touches [OF claim_none_effect [OF claim_none(1)] quiet_evolves claim_none(2)] show ?case by simp
next
  case (fail w iid h reason J d evs)
  from continued_touches [OF fail_effect [OF fail(2)] _ fail(3)] show ?case by simp
next
  case (settle w iid h eps flag J now live d evs)
  have "touches evolves (w_db w) iid d"
    using settle_effect [OF settle(2)] by (auto simp: touches_def split: if_splits)
  from continued_touches [OF this _ settle(3)] show ?case by simp
next
  case (teardown w iid h d name)
  have "touches evolves (w_db w) iid d"
    using teardown_effect [OF teardown(1)] by (auto simp: touches_def)
  from continued_touches [OF this _ teardown(2)] show ?case by simp
next
  case (close w iid name J now d evs)
  from continued_touches [OF finish_effect [OF close(2)] quiet_evolves close(3)] show ?case by simp
next
  case (extended w iid i c dep now i' d evs)
  from continued_touches [OF extend_effect [OF extended(2,1)] quiet_evolves extended(3)] show ?case by simp
next
  case (stuck w now d evs)
  have dist: "distinct (map ci_id (db_instances (w_db w)))" using stuck by (simp add: world_inv_def rows_inv_def)
  let ?stuck = "take REAP_BATCH (filter (is_stuck now) (db_instances (w_db w)))"
  have "evolves i (fail_stuck i)" for i
    unfolding fail_stuck_def by (rule evolves_transition)
  then have "rows_evolve (db_instances (w_db w))
      (update_where (\<lambda>i. ci_id i \<in> set (map ci_id ?stuck)) fail_stuck (db_instances (w_db w)))"
    by (intro rows_evolve_update) simp
  with stuck(1) show ?case by (auto simp: continued_def reap_stuck_def Let_def)
qed (simp_all add: continued_def rows_evolve_refl rows_evolve_delete drop_deployment_def drop_user_def)

text \<open>
  What a step that commits no launch does to the launches in flight: it admits one, or leaves them
  or drops some, and then the settings they read stay as long as one of them holds the lock.
\<close>

definition admits_launch :: "world \<Rightarrow> world \<Rightarrow> bool" where
  "admits_launch w w' = (\<exists>l. w' = w\<lparr>w_jobs := add_mset (Job_Launch (w_db w) l) (w_jobs w)\<rparr>
     \<and> (snd (lock_admission (w_db w)) \<longrightarrow> \<not> lock_held (w_jobs w)))"

abbreviation launches :: "job multiset \<Rightarrow> job multiset" where
  "launches J \<equiv> filter_mset is_launch J"

definition launches_kept :: "world \<Rightarrow> world \<Rightarrow> bool" where
  "launches_kept w w' = (launches (w_jobs w') \<subseteq># launches (w_jobs w)
     \<and> (db_instance_settings (w_db w') = db_instance_settings (w_db w)
        \<or> \<not> lock_held (w_jobs w) \<and> db_instance_settings (w_db w') \<noteq> None))"

lemma touches_settings: "touches R d iid d' \<Longrightarrow> db_instance_settings d' = db_instance_settings d"
  by (auto simp: touches_def)

lemma step_launches: "world_step sha w w' \<Longrightarrow> launched w w' \<or> admits_launch w w' \<or> launches_kept w w'"
proof (induction rule: world_step.induct)
  case (launch_committed w read l J i d evs)
  then show ?case unfolding launched_def by blast
next
  case (launch_admitted w l)
  then show ?case unfolding admits_launch_def by blast
next
  case (claim w iid i dep c d evs flag token salt)
  from claim_effect [OF claim(1)] have "touches quiet (w_db w) iid d" by (auto intro: touchesI)
  from touches_settings [OF this] show ?case by (simp add: launches_kept_def)
next
  case (claim_none w iid d evs)
  from touches_settings [OF claim_none_effect [OF claim_none(1)]] show ?case by (simp add: launches_kept_def)
next
  case (fail w iid h reason J d evs)
  from touches_settings [OF fail_effect [OF fail(2)]] fail(1) show ?case
    by (auto simp: launches_kept_def split: option.split)
next
  case (settle w iid h eps flag J now live d evs)
  have "touches evolves (w_db w) iid d"
    using settle_effect [OF settle(2)] by (auto simp: touches_def split: if_splits)
  from touches_settings [OF this] settle(1) show ?case by (auto simp: launches_kept_def)
next
  case (teardown w iid h d name)
  have "touches evolves (w_db w) iid d"
    using teardown_effect [OF teardown(1)] by (auto simp: touches_def)
  from touches_settings [OF this] show ?case by (simp add: launches_kept_def)
next
  case (close w iid name J now d evs)
  from touches_settings [OF finish_effect [OF close(2)]] close(1) show ?case by (simp add: launches_kept_def)
next
  case (extended w iid i c dep now i' d evs)
  from touches_settings [OF extend_effect [OF extended(2,1)]] show ?case by (simp add: launches_kept_def)
next
  case (stuck w now d evs)
  then show ?case by (auto simp: launches_kept_def reap_stuck_def Let_def)
qed (auto simp: launches_kept_def drop_deployment_def drop_user_def)

section \<open>The life of one instance\<close>

definition status_path :: "instance_status \<Rightarrow> instance_status \<Rightarrow> bool" where
  "status_path s t = (\<exists>ts. legal_path INSTANCE_TRANSITIONS s ts \<and> last (s # ts) = t)"

lemma legal_path_append:
  "legal_path T s (ts @ us) \<longleftrightarrow> legal_path T s ts \<and> legal_path T (last (s # ts)) us"
  by (induction ts arbitrary: s) auto

lemma status_path_move: "status_path s t \<Longrightarrow> can_move INSTANCE_TRANSITIONS t u \<Longrightarrow> status_path s u"
proof -
  assume "status_path s t" and u: "can_move INSTANCE_TRANSITIONS t u"
  then obtain ts where "legal_path INSTANCE_TRANSITIONS s ts" "last (s # ts) = t"
    unfolding status_path_def by blast
  with u show "status_path s u"
    unfolding status_path_def by (intro exI [of _ "ts @ [u]"]) (simp add: legal_path_append)
qed

lemma same_instance_trans: "same_instance i j \<Longrightarrow> same_instance j k \<Longrightarrow> same_instance i k"
  by (simp add: same_instance_def)

lemma step_row_origin:
  assumes "world_step sha w w'" "world_inv w" "i' \<in> set (db_instances (w_db w'))" "ci_id i' \<in> w_ids w"
  shows "\<exists>i\<in>set (db_instances (w_db w)). evolves i i'"
  using step_kind [OF assms(1,2)]
proof
  assume "launched w w'"
  then obtain read l J i d evs where l: "launch read (w_db w) l = (Inr i, d, evs)" "lc_row_id l \<notin> w_ids w"
    "w' = w\<lparr>w_db := d, w_jobs := J, w_ids := insert (lc_row_id l) (w_ids w),
       w_credit := (w_credit w)(lc_row_id l := lc_team_id l)\<rparr>" unfolding launched_def by blast
  from launch_effect [OF l(1)] have "db_instances d = db_instances (w_db w) @ [i]" "ci_id i = lc_row_id l"
    by (auto simp: requested_row_def)
  with assms(3,4) l(2,3) have "i' \<in> set (db_instances (w_db w))" by auto
  then show ?thesis by (intro bexI [of _ i']) simp_all
next
  assume "continued w w'"
  then obtain keep f where "db_instances (w_db w') = map f (filter keep (db_instances (w_db w)))"
    "\<forall>i\<in>set (db_instances (w_db w)). evolves i (f i)"
    unfolding continued_def rows_evolve_def by blast
  with assms(3) show ?thesis by auto
qed

lemma step_ids_grow: "world_step sha w w' \<Longrightarrow> world_inv w \<Longrightarrow> w_ids w \<subseteq> w_ids w'"
  using step_kind by (fastforce simp: launched_def continued_def)

lemma run_row_origin:
  assumes "(world_step sha)\<^sup>*\<^sup>* w w'" "world_inv w"
    "i \<in> set (db_instances (w_db w))"
  shows "w_ids w \<subseteq> w_ids w' \<and> (\<forall>i'\<in>set (db_instances (w_db w')). ci_id i' = ci_id i \<longrightarrow>
    same_instance i i' \<and> status_path (ci_status i) (ci_status i'))"
  using assms(1)
proof (induction rule: rtranclp_induct)
  case base
  have "i' = i" if "i' \<in> set (db_instances (w_db w))" "ci_id i' = ci_id i" for i'
    using assms(2,3) that by (auto simp: world_inv_def rows_inv_def distinct_map dest: inj_onD)
  moreover have "status_path (ci_status i) (ci_status i)"
    unfolding status_path_def by (rule exI [of _ "[]"]) simp
  ultimately show ?case by (auto simp: same_instance_def)
next
  case (step v u)
  have inv: "world_inv v" using world_run_platform [OF step(1)] assms(2) by (rule world_inv_run)
  have "ci_id i \<in> w_ids v" using step(3) assms(2,3) by (auto simp: world_inv_def rows_inv_def)
  then have "same_instance i i' \<and> status_path (ci_status i) (ci_status i')"
    if "i' \<in> set (db_instances (w_db u))" "ci_id i' = ci_id i" for i'
    using step_row_origin [OF step(2) inv that(1)] that(2) step(3)
    by (fastforce simp: evolves_def same_instance_def intro: status_path_move)
  moreover have "w_ids w \<subseteq> w_ids u" using step(3) step_ids_grow [OF step(2) inv] by blast
  ultimately show ?case by blast
qed

end
