(* ===== verification/Instance_Claims.thy ===== *)
theory Instance_Claims
  imports Instance_World
begin

text \<open>
  What holds of the instance system in every interleaving: where its containers can be, how a
  row's status moves, the concurrency ceilings under the admission lock, the port allocator against
  its specification, and the orphan sweep; and the interleavings in which it goes wrong: a sweep
  during a slow start, a sweep beside a provision that settles, a teardown beside a provision, and
  two launches without a settings row to lock.
\<close>

section \<open>Containers\<close>

text \<open>
  C16: No container is forgotten: in every reachable state, each container the backend holds is
  the handle of a running instance, or is in the hands of a handler in flight, or is one whose
  cleanup call failed or whose record or handler vanished (the ones the orphan sweep is for).
\<close>

theorem containers_accounted:
  assumes "instance_reachable sha d w" "h \<in> w_containers w"
  shows "(\<exists>i\<in>set (db_instances (w_db w)). ci_status i = Inst_Running \<and> ci_backend_handle i = Some h)
    \<or> (\<exists>j\<in>#w_jobs w. h \<in> job_handles j) \<or> h \<in> w_lost w"
  using reachable_inv [OF assms(1)] assms(2)
  by (auto simp: world_inv_def rows_inv_def free_containers_def accounted_def held_def)

section \<open>Status\<close>

text \<open>
  C17: Over any stretch of any run, an instance keeps its identity, its status follows a path of
  the transition table of at most four changes, and a terminal status is final.
\<close>

theorem instance_lifecycle:
  assumes "instance_reachable sha d v" "(world_step sha)\<^sup>*\<^sup>* v w"
    and "i \<in> set (db_instances (w_db v))" "i' \<in> set (db_instances (w_db w))" "ci_id i' = ci_id i"
  shows "same_instance i i' \<and> (instance_terminal (ci_status i) \<longrightarrow> ci_status i' = ci_status i)
    \<and> (\<exists>ts. legal_path INSTANCE_TRANSITIONS (ci_status i) ts \<and> last (ci_status i # ts) = ci_status i'
           \<and> real_moves (ci_status i) ts \<le> 4)"
proof -
  from run_row_origin [OF assms(2) reachable_inv [OF assms(1)] assms(3)] assms(4,5)
  obtain ts where same: "same_instance i i'"
    and ts: "legal_path INSTANCE_TRANSITIONS (ci_status i) ts" "last (ci_status i # ts) = ci_status i'"
    unfolding status_path_def by blast
  have "instance_rank s \<le> 4" for s by (cases s) simp_all
  then have "real_moves (ci_status i) ts \<le> 4"
    using inst.path_rank [OF ts(1)] by (meson add_leD2 le_trans)
  moreover have "ci_status i' = ci_status i" if "instance_terminal (ci_status i)"
    using inst.terminal_path [OF that ts(1), of "ci_status i'"] ts(2) last_in_set [of ts]
    by (cases "ts = []") auto
  ultimately show ?thesis using same ts by blast
qed

section \<open>Ceilings\<close>

lemma count_active_evolves:
  assumes "rows_evolve xs ys" "\<And>i j. same_instance i j \<Longrightarrow> P j \<Longrightarrow> P i"
  shows "count_where (\<lambda>i. inst_active i \<and> P i) ys \<le> count_where (\<lambda>i. inst_active i \<and> P i) xs"
proof -
  from assms(1) obtain keep f where ys: "ys = map f (filter keep xs)" and f: "\<And>i. i \<in> set xs \<Longrightarrow> evolves i (f i)"
    unfolding rows_evolve_def by blast
  have "inst_active i \<and> P i" if "i \<in> set xs" "inst_active (f i) \<and> P (f i)" for i
    using that f [OF that(1)] assms(2) [of i "f i"] evolves_active [of i "f i"] by (simp add: evolves_def)
  then show ?thesis unfolding ys by (rule count_where_map_filter)
qed

lemma count_active_where:
  "count_active d c ch s = int (count_where (\<lambda>i. inst_active i
     \<and> ((case c of None \<Rightarrow> True | Some x \<Rightarrow> ci_competition_id i = x)
        \<and> (case ch of None \<Rightarrow> True | Some x \<Rightarrow> ci_challenge_id i = x)
        \<and> (case s of None \<Rightarrow> True | Some x \<Rightarrow> instance_subject i = x))) (db_instances d))"
  by (simp add: count_active_def)

lemma count_active_continued:
  assumes "continued w w'"
  shows "count_active (w_db w') c ch s \<le> count_active (w_db w) c ch s"
  unfolding count_active_where of_nat_le_iff
  using assms unfolding continued_def
  by (intro count_active_evolves) (auto simp: same_instance_def instance_subject_def split: option.splits)

text \<open>
  Whom an instance was launched for: the team, or the user where there was none. Unlike the
  subject the code reads off the row (\<open>instance_subject\<close>) this survives the team.
\<close>

definition launch_key :: "launch_call \<Rightarrow> ident + ident" where
  "launch_key l = (case lc_team_id l of Some t \<Rightarrow> Inl t | None \<Rightarrow> Inr (lc_user_id l))"

definition credit_key :: "world \<Rightarrow> challenge_instance \<Rightarrow> ident + ident" where
  "credit_key w i = (case w_credit w (ci_id i) of Some t \<Rightarrow> Inl t | None \<Rightarrow> Inr (ci_user_id i))"

definition launched_for :: "world \<Rightarrow> ident option \<Rightarrow> ident option \<Rightarrow> ident + ident \<Rightarrow> int" where
  "launched_for w competition challenge k =
     int (count_where (\<lambda>i. inst_active i
        \<and> ((case competition of None \<Rightarrow> True | Some c \<Rightarrow> ci_competition_id i = c)
           \<and> (case challenge of None \<Rightarrow> True | Some ch \<Rightarrow> ci_challenge_id i = ch)
           \<and> credit_key w i = k)) (db_instances (w_db w)))"

lemma launched_for_continued:
  assumes "continued w w'"
  shows "launched_for w' c ch k \<le> launched_for w c ch k"
  unfolding launched_for_def of_nat_le_iff
  using assms unfolding continued_def
  by (simp add: credit_key_def) (intro count_active_evolves; auto simp: same_instance_def split: option.splits)

lemma count_where_map_same: "(\<And>x. P (f x) = P x) \<Longrightarrow> count_where P (map f xs) = count_where P xs"
  by (induction xs) simp_all

lemma forget_team_simps [simp]:
  "ci_id (forget_team t i) = ci_id i" "ci_user_id (forget_team t i) = ci_user_id i"
  "ci_competition_id (forget_team t i) = ci_competition_id i" "ci_challenge_id (forget_team t i) = ci_challenge_id i"
  "inst_active (forget_team t i) = inst_active i"
  "ci_team_id (forget_team t i) = (if ci_team_id i = Some t then None else ci_team_id i)"
  by (simp_all add: forget_team_def inst_active_def)

lemma team_deleted_counts:
  assumes "w' = w\<lparr>w_db := (w_db w)\<lparr>db_instances := map (forget_team t) (db_instances (w_db w))\<rparr>, w_gone := g\<rparr>"
  shows "launched_for w' c ch k = launched_for w c ch k"
    and "count_active (w_db w') None None None = count_active (w_db w) None None None"
  unfolding launched_for_def count_active_def assms
  by (simp_all add: credit_key_def) (auto intro!: count_where_map_same split: option.splits)

text \<open>Each row is credited as it was launched, or to nobody after its team is gone.\<close>

definition credit_inv :: "world \<Rightarrow> bool" where
  "credit_inv w = (\<forall>i\<in>set (db_instances (w_db w)). case w_credit w (ci_id i) of
       None \<Rightarrow> ci_team_id i = None
     | Some t \<Rightarrow> ci_team_id i = Some t \<or> ci_team_id i = None \<and> t \<in> w_gone w)"

text \<open>What the check counts of an existing subject is at least what was launched for it.\<close>

lemma launched_for_counted:
  assumes "credit_inv w" "lc_team_id l \<notin> Some ` w_gone w"
  shows "launched_for w c ch (launch_key l)
    \<le> count_active (w_db w) c ch (Some (coalesce (lc_team_id l) (lc_user_id l)))"
proof -
  have "instance_subject i = coalesce (lc_team_id l) (lc_user_id l)"
    if "i \<in> set (db_instances (w_db w))" "credit_key w i = launch_key l" for i
    using assms that unfolding credit_inv_def
    by (force simp: credit_key_def launch_key_def instance_subject_def split: option.splits)
  then show ?thesis
    unfolding launched_for_def count_active_where of_nat_le_iff by (intro count_where_mono) auto
qed

text \<open>
  Once the settings row exists there is at most one launch in flight, it read the settings still
  committed, and no count it checked has grown since.
\<close>

definition admission_inv :: "world \<Rightarrow> bool" where
  "admission_inv w = (db_instance_settings (w_db w) \<noteq> None \<and> size (launches (w_jobs w)) \<le> 1
     \<and> (\<forall>read l. Job_Launch read l \<in># w_jobs w \<longrightarrow>
          db_instance_settings read = db_instance_settings (w_db w)
          \<and> count_active (w_db w) None None None \<le> count_active read None None None
          \<and> (lc_team_id l \<notin> Some ` w_gone w \<longrightarrow> (\<forall>c ch. launched_for w c ch (launch_key l)
               \<le> count_active read c ch (Some (coalesce (lc_team_id l) (lc_user_id l)))))))"

lemma admission_invD:
  assumes "admission_inv w" "Job_Launch read l \<in># w_jobs w"
  shows "db_instance_settings read = db_instance_settings (w_db w)"
    "count_active (w_db w) None None None \<le> count_active read None None None"
    "lc_team_id l \<notin> Some ` w_gone w \<Longrightarrow> launched_for w c ch (launch_key l)
       \<le> count_active read c ch (Some (coalesce (lc_team_id l) (lc_user_id l)))"
  using assms unfolding admission_inv_def by blast+

lemma launch_in_flight: "j \<in># launches J \<Longrightarrow> \<exists>read l. j = Job_Launch read l \<and> Job_Launch read l \<in># J"
  by (cases j) auto

lemma no_launch_in_flight:
  assumes "admission_inv w" "\<not> lock_held (w_jobs w)"
  shows "launches (w_jobs w) = {#}"
proof (rule ccontr)
  assume "launches (w_jobs w) \<noteq> {#}"
  then obtain read l where "Job_Launch read l \<in># w_jobs w" using launch_in_flight by (metis multiset_nonemptyE)
  with assms show False
    using admission_invD(1) [OF assms(1)] by (auto simp: lock_held_def lock_admission_def admission_inv_def)
qed

lemma credit_continued:
  assumes "continued w w'" "credit_inv w"
  shows "credit_inv w'"
proof -
  from assms(1) obtain keep f where f: "db_instances (w_db w') = map f (filter keep (db_instances (w_db w)))"
      "\<forall>i\<in>set (db_instances (w_db w)). evolves i (f i)" "w_credit w' = w_credit w" "w_gone w' = w_gone w"
    unfolding continued_def rows_evolve_def by blast
  have same: "ci_id (f i) = ci_id i \<and> ci_team_id (f i) = ci_team_id i" if "i \<in> set (db_instances (w_db w))" for i
    using f(2) that by (simp add: evolves_def same_instance_def)
  then show ?thesis using assms(2) unfolding credit_inv_def f(1,3,4) by (auto split: option.splits)
qed

lemma admission_kept:
  assumes inv: "admission_inv w" and step: "continued w w'" "launches_kept w w'"
  shows "admission_inv w'"
proof -
  have sub: "launches (w_jobs w') \<subseteq># launches (w_jobs w)" using step(2) by (simp add: launches_kept_def)
  have old: "Job_Launch read l \<in># w_jobs w" if "Job_Launch read l \<in># w_jobs w'" for read l
    using mset_subset_eqD [OF sub, of "Job_Launch read l"] that by simp
  have set: "db_instance_settings (w_db w') = db_instance_settings (w_db w)" if "Job_Launch read l \<in># w_jobs w'" for read l
    using step(2) no_launch_in_flight [OF inv] old [OF that]
    by (force simp: launches_kept_def filter_mset_eq_conv)
  have gone: "w_gone w' = w_gone w" using step(1) by (simp add: continued_def)
  show ?thesis
    unfolding admission_inv_def
  proof (intro conjI allI impI)
    show "db_instance_settings (w_db w') \<noteq> None"
      using inv step(2) by (auto simp: launches_kept_def admission_inv_def)
    show "size (launches (w_jobs w')) \<le> 1"
      using inv size_mset_mono [OF sub] by (simp add: admission_inv_def)
  next
    fix read l assume J: "Job_Launch read l \<in># w_jobs w'"
    note D = admission_invD [OF inv old [OF J]]
    show "db_instance_settings read = db_instance_settings (w_db w')" using D(1) set [OF J] by simp
    show "count_active (w_db w') None None None \<le> count_active read None None None"
      using D(2) count_active_continued [OF step(1), of None None None] by linarith
    show "launched_for w' c ch (launch_key l) \<le> count_active read c ch (Some (coalesce (lc_team_id l) (lc_user_id l)))"
      if "lc_team_id l \<notin> Some ` w_gone w'" for c ch
      using D(3) [of c ch] that launched_for_continued [OF step(1), of c ch "launch_key l"] by (simp add: gone)
  qed
qed

lemma admission_admitted:
  assumes inv: "admission_inv w" "credit_inv w" and step: "admits_launch w w'"
  shows "admission_inv w'"
proof -
  obtain l where w': "w' = w\<lparr>w_jobs := add_mset (Job_Launch (w_db w) l) (w_jobs w)\<rparr>"
    and free: "\<not> lock_held (w_jobs w)"
    using step inv(1) by (auto simp: admits_launch_def admission_inv_def lock_admission_def)
  have none: "launches (w_jobs w) = {#}" by (rule no_launch_in_flight [OF inv(1) free])
  have only: "read = w_db w \<and> k = l" if "Job_Launch read k \<in># w_jobs w'" for read k
    using that none by (auto simp: w' filter_mset_eq_conv)
  have same: "launched_for w' c ch k = launched_for w c ch k" for c ch k
    by (simp add: w' launched_for_def credit_key_def)
  show ?thesis
    unfolding admission_inv_def
  proof (intro conjI allI impI)
    show "db_instance_settings (w_db w') \<noteq> None" using inv(1) by (simp add: w' admission_inv_def)
    show "size (launches (w_jobs w')) \<le> 1" by (simp add: w' none)
  next
    fix read k assume "Job_Launch read k \<in># w_jobs w'"
    then have k: "read = w_db w" "k = l" using only by simp_all
    show "db_instance_settings read = db_instance_settings (w_db w')" by (simp add: w' k)
    show "count_active (w_db w') None None None \<le> count_active read None None None" by (simp add: w' k)
    show "launched_for w' c ch (launch_key k) \<le> count_active read c ch (Some (coalesce (lc_team_id k) (lc_user_id k)))"
      if "lc_team_id k \<notin> Some ` w_gone w'" for c ch
      unfolding same k by (rule launched_for_counted [OF inv(2)]) (use that in \<open>simp add: w' k\<close>)
  qed
qed

lemma launched_counts:
  assumes run: "launch read (w_db w) l = (Inr i, d, evs)" and fresh: "lc_row_id l \<notin> w_ids w" and inv: "world_inv w"
    and w': "w' = w\<lparr>w_db := d, w_jobs := J, w_ids := ids, w_credit := (w_credit w)(lc_row_id l := lc_team_id l)\<rparr>"
  shows "launched_for w' c ch k = launched_for w c ch k
      + (if (case c of None \<Rightarrow> True | Some x \<Rightarrow> x = co_id (lc_competition l))
          \<and> (case ch of None \<Rightarrow> True | Some x \<Rightarrow> x = cd_challenge_id (lc_deployment l)) \<and> k = launch_key l then 1 else 0)"
    and "count_active (w_db w') None None None = count_active (w_db w) None None None + 1"
    and "credit_inv w \<Longrightarrow> credit_inv w'"
proof -
  from launch_effect [OF run] obtain eps sub where d: "d = (w_db w)\<lparr>db_instances := db_instances (w_db w) @ [i]\<rparr>"
    and i: "i = requested_row l eps sub" by blast
  have row: "ci_id i = lc_row_id l" "inst_active i" "ci_competition_id i = co_id (lc_competition l)"
      "ci_challenge_id i = cd_challenge_id (lc_deployment l)" "ci_user_id i = lc_user_id l" "ci_team_id i = lc_team_id l"
    by (simp_all add: i requested_row_def inst_active_def INSTANCE_ACTIVE_STATUSES_def)
  have old: "ci_id r \<noteq> lc_row_id l" if "r \<in> set (db_instances (w_db w))" for r
    using that fresh inv by (auto simp: world_inv_def rows_inv_def)
  then have key: "credit_key w' r = credit_key w r" if "r \<in> set (db_instances (w_db w))" for r
    using that by (simp add: credit_key_def w')
  have new: "credit_key w' i = launch_key l" by (simp add: credit_key_def w' launch_key_def row split: option.split)
  have "count_where (\<lambda>i. inst_active i \<and> (P i \<and> Q i \<and> credit_key w' i = k)) (db_instances (w_db w))
      = count_where (\<lambda>i. inst_active i \<and> (P i \<and> Q i \<and> credit_key w i = k)) (db_instances (w_db w))" for P Q
    by (intro count_where_cong) (simp add: key)
  moreover have "db_instances (w_db w') = db_instances (w_db w) @ [i]" by (simp add: w' d)
  ultimately show "launched_for w' c ch k = launched_for w c ch k
      + (if (case c of None \<Rightarrow> True | Some x \<Rightarrow> x = co_id (lc_competition l))
          \<and> (case ch of None \<Rightarrow> True | Some x \<Rightarrow> x = cd_challenge_id (lc_deployment l)) \<and> k = launch_key l then 1 else 0)"
    using new by (auto simp: launched_for_def row split: option.splits)
  show "count_active (w_db w') None None None = count_active (w_db w) None None None + 1"
    by (simp add: count_active_def w' d row)
  show "credit_inv w'" if "credit_inv w"
    using that old unfolding credit_inv_def w' d by (auto simp: row split: option.split)
qed

lemma admission_committed:
  assumes inv: "admission_inv w" and step: "launched w w'"
  shows "admission_inv w'"
proof -
  obtain read l J i d evs where l: "w_jobs w = add_mset (Job_Launch read l) J"
      "launch read (w_db w) l = (Inr i, d, evs)" "w_jobs w' = J" "w_db w' = d"
    using step unfolding launched_def by force
  then have "launches J = {#}" using inv by (simp add: admission_inv_def)
  then have "Job_Launch read l \<notin># w_jobs w'" for read l by (auto simp: l(3) filter_mset_eq_conv)
  moreover have "db_instance_settings d = db_instance_settings (w_db w)" using launch_effect [OF l(2)] by auto
  moreover have "size (launches (w_jobs w')) \<le> 1" by (simp only: l(3) \<open>launches J = {#}\<close> size_empty)
  moreover have "db_instance_settings (w_db w) \<noteq> None" using inv by (simp add: admission_inv_def)
  ultimately show ?thesis unfolding admission_inv_def l(4) by simp
qed

lemma admission_run:
  assumes "instance_reachable sha d w" "db_instance_settings d \<noteq> None"
  shows "credit_inv w \<and> admission_inv w"
  using assms(1)
proof (induction rule: rtranclp_induct)
  case base
  then show ?case using assms(2) by (simp add: credit_inv_def admission_inv_def fresh_world_def)
next
  case (step v w)
  note inv = reachable_inv [OF step(1)]
  from step(2) show ?case
  proof cases
    case ordinary
    show ?thesis
    proof (cases "launched v w")
      case l: True
      from l obtain read l J i d evs where "launch read (w_db v) l = (Inr i, d, evs)" "lc_row_id l \<notin> w_ids v"
        "w = v\<lparr>w_db := d, w_jobs := J, w_ids := insert (lc_row_id l) (w_ids v),
           w_credit := (w_credit v)(lc_row_id l := lc_team_id l)\<rparr>" unfolding launched_def by blast
      from launched_counts(3) [OF this(1,2) inv this(3)] admission_committed [OF _ l] step(3) show ?thesis by blast
    next
      case False
      then have c: "continued v w" and "admits_launch v w \<or> launches_kept v w"
        using step_kind [OF ordinary inv] step_launches [OF ordinary] by blast+
      then have "admission_inv w" using step(3) admission_admitted admission_kept by blast
      then show ?thesis using credit_continued [OF c] step(3) by blast
    qed
  next
    case (team_deleted t)
    have "credit_inv w" using step(3) unfolding credit_inv_def team_deleted
      by (auto split: option.splits)
    moreover have "admission_inv w"
      unfolding admission_inv_def team_deleted_counts [OF team_deleted]
      using step(3) by (auto simp: team_deleted admission_inv_def)
    ultimately show ?thesis ..
  qed
qed

text \<open>
  C18: The ceilings hold once the settings row exists, which makes launches wait for one another.
  From any reachable state, whatever is in flight and whatever was edited or deleted before: no step
  takes the number of unfinished instances above the platform's ceiling, and the only step that adds to
  what was launched for a team or a user is the commit of a launch for it, after which that team or user has
  no more unfinished instances of the challenge than the launch's deployment allows and no more in the
  competition than its limit. (Deleting a team credits its instances to the users who launched them,
  so what is counted is whom each was launched for; without the settings row the caps can be passed,
  see \<open>unlocked_launches_exceed_cap\<close>.)
\<close>

theorem instance_ceilings_hold:
  assumes "instance_reachable sha d w" and "db_instance_settings d \<noteq> None" and "platform_step sha w w'"
  shows "count_active (w_db w') None None None \<le> max (count_active (w_db w) None None None) (instance_ceiling (w_db w))
    \<and> (launched_for w c ch k < launched_for w' c ch k \<longrightarrow>
        (\<exists>read l. Job_Launch read l \<in># w_jobs w \<and> launch_key l = k
           \<and> launched_for w' (Some (co_id (lc_competition l))) (Some (cd_challenge_id (lc_deployment l))) k
               \<le> cd_per_subject_cap (lc_deployment l)
           \<and> (case co_instance_max_alive (lc_competition l) of None \<Rightarrow> True
              | Some m \<Rightarrow> launched_for w' (Some (co_id (lc_competition l))) None k \<le> m)))"
proof -
  note inv = reachable_inv [OF assms(1)] and adm = admission_run [OF assms(1,2), THEN conjunct2]
  from assms(3) show ?thesis
  proof cases
    case (team_deleted t)
    show ?thesis by (simp add: team_deleted_counts [OF team_deleted])
  next
    case ordinary
    from step_kind [OF ordinary inv] show ?thesis
    proof
      assume "continued w w'"
      with count_active_continued [OF this, of None None None] launched_for_continued [OF this, of c ch k]
      show ?thesis by simp
    next
      assume "launched w w'"
      then obtain read l J i d evs where J: "w_jobs w = add_mset (Job_Launch read l) J"
        and run: "launch read (w_db w) l = (Inr i, d, evs)" and fresh: "lc_row_id l \<notin> w_ids w"
        and team: "lc_team_id l \<notin> Some ` w_gone w"
        and w': "w' = w\<lparr>w_db := d, w_jobs := J, w_ids := insert (lc_row_id l) (w_ids w),
           w_credit := (w_credit w)(lc_row_id l := lc_team_id l)\<rparr>" unfolding launched_def by blast
      have in_flight: "Job_Launch read l \<in># w_jobs w" by (simp add: J)
      note counts = launched_counts(1,2) [OF run fresh inv w'] and D = admission_invD [OF adm in_flight]
      note eff = launch_effect [OF run, THEN conjunct2, THEN conjunct2]
      have ceiling: "instance_ceiling read = instance_ceiling (w_db w)" using D(1) by (simp add: instance_ceiling_def)
      have room: "launched_for w c ch (launch_key l) + 1 \<le> m"
        if "count_active read c ch (Some (coalesce (lc_team_id l) (lc_user_id l))) < m" for c ch m
        using D(3) [OF team, of c ch] that by linarith
      have "count_active (w_db w') None None None \<le> instance_ceiling (w_db w)"
        using D(2) eff ceiling by (simp add: counts(2))
      moreover have "launched_for w' (Some (co_id (lc_competition l))) (Some (cd_challenge_id (lc_deployment l))) (launch_key l)
          \<le> cd_per_subject_cap (lc_deployment l)"
        using eff room by (simp add: counts(1))
      moreover have "case co_instance_max_alive (lc_competition l) of None \<Rightarrow> True
          | Some m \<Rightarrow> launched_for w' (Some (co_id (lc_competition l))) None (launch_key l) \<le> m"
        using eff room by (simp add: counts(1) split: option.splits)
      moreover have "k = launch_key l" if "launched_for w c ch k < launched_for w' c ch k"
        using that by (simp add: counts(1) split: if_splits)
      ultimately show ?thesis using in_flight by auto
    qed
  qed
qed

section \<open>Ports\<close>

text \<open>The specification of the allocator: the first \<open>n\<close> free ports of the range.\<close>

definition free_ports :: "int list \<Rightarrow> int \<Rightarrow> int \<Rightarrow> int list" where
  "free_ports used lo hi = filter (\<lambda>p. p \<notin> set used) [lo..hi]"

lemma scan_ports_spec:
  "length chosen \<le> n \<Longrightarrow>
     scan_ports used n hi chosen port = take n (chosen @ free_ports used port hi)"
proof (induction used n hi chosen port rule: scan_ports.induct)
  case (1 used n hi chosen port)
  show ?case
  proof (cases "length chosen < n \<and> port \<le> hi")
    case True
    then have "[port..hi] = port # [port + 1..hi]" by (simp add: upto_rec1)
    then have "(if port \<in> set used then chosen else chosen @ [port]) @ free_ports used (port + 1) hi
        = chosen @ free_ports used port hi"
      by (simp add: free_ports_def)
    moreover from True have "length (if port \<in> set used then chosen else chosen @ [port]) \<le> n" by simp
    ultimately show ?thesis
      using "1.IH" [OF True] True by (subst scan_ports.simps) simp
  next
    case False
    with "1.prems" have "take n (chosen @ free_ports used port hi) = chosen"
      by (auto simp: free_ports_def)
    moreover have "scan_ports used n hi chosen port = chosen"
      by (subst scan_ports.simps) (use False in \<open>simp only: if_False\<close>)
    ultimately show ?thesis by simp
  qed
qed

lemma allocate_host_ports_eq:
  "allocate_host_ports d st n =
     (if length (free_ports (used_host_ports d) (is_tcp_port_min st) (is_tcp_port_max st)) < n
      then Inl Ports_Exhausted
      else Inr (take n (free_ports (used_host_ports d) (is_tcp_port_min st) (is_tcp_port_max st))))"
  by (auto simp: allocate_host_ports_def Let_def scan_ports_spec)

text \<open>
  Allocation takes the lowest ports of the configured range that no unfinished instance has,
  each once, and is refused exactly when the range has fewer of them than declared.
\<close>

theorem allocate_host_ports_spec:
  "allocate_host_ports d st n =
     (if length (free_ports (used_host_ports d) (is_tcp_port_min st) (is_tcp_port_max st)) < n
      then Inl Ports_Exhausted
      else Inr (take n (free_ports (used_host_ports d) (is_tcp_port_min st) (is_tcp_port_max st))))"
  by (rule allocate_host_ports_eq)

lemma launch_ports:
  assumes "launch read d l = (Inr i, d', evs)" "p \<in> set (endpoint_ports i)"
  shows "p \<notin> set (used_host_ports read)
    \<and> (\<exists>st. db_instance_settings read = Some st \<and> is_tcp_port_min st \<le> p \<and> p \<le> is_tcp_port_max st)"
proof -
  from launch_effect [OF assms(1)] obtain eps sub where
    plan: "plan_endpoints read (db_instance_settings read) (lc_deployment l) (lc_tokens l) = Inr (eps, sub)"
    and i: "i = requested_row l eps sub" by blast
  from assms(2) obtain e where e: "e \<in> set eps" "ep_port e = Some p"
    by (auto simp: i requested_row_def endpoint_ports_def map_filter_def)
  then obtain st ports where "db_instance_settings read = Some st" "p \<in> set ports"
    "allocate_host_ports read st (length (cd_ports (lc_deployment l))) = Inr ports"
    using plan by (auto simp: plan_endpoints_def Let_def res_bind_Inr_iff tcp_endpoint_def http_endpoint_def
        split: if_splits option.splits)
  then show ?thesis
    by (auto simp: allocate_host_ports_eq free_ports_def split: if_splits dest: in_set_takeD)
qed

section \<open>The orphan sweep\<close>

definition sweeping :: "instance_settings option \<Rightarrow> bool" where
  "sweeping settings = (case settings of None \<Rightarrow> False
     | Some st \<Rightarrow> is_enabled st \<and> is_backend st \<in> set SITE_BACKENDS)"

text \<open>
  Sweeps with nothing else in between, each listing the backend in an order of its own and every
  \<open>destroy\<close> of theirs succeeding.
\<close>

inductive quiet_sweeps :: "nat \<Rightarrow> world \<Rightarrow> world \<Rightarrow> bool" where
  none: "quiet_sweeps 0 w w"
| sweep: "quiet_sweeps n w v \<Longrightarrow> set listed = w_containers v \<Longrightarrow>
    reap_orphans (db_instance_settings (w_db v)) (live_handles (w_db v)) (Some listed) (w_seen v) = (kill, seen) \<Longrightarrow>
    quiet_sweeps (Suc n) w (v\<lparr>w_containers := w_containers v - set kill, w_seen := seen\<rparr>)"

inductive_simps quiet_sweeps_simps: "quiet_sweeps 0 w v" "quiet_sweeps (Suc n) w v"

lemma quiet_sweeps_steps: "quiet_sweeps n w v \<Longrightarrow> (world_step sha)\<^sup>*\<^sup>* w v"
proof (induction rule: quiet_sweeps.induct)
  case (sweep n w v listed kill seen)
  let ?r = "v\<lparr>w_jobs := add_mset (Job_Gc (live_handles (w_db v))) (w_jobs v)\<rparr>"
  have "world_step sha v ?r" by (rule world_step.gc_read)
  moreover have "world_step sha ?r (v\<lparr>w_containers := w_containers v - set kill, w_seen := seen\<rparr>)"
    using world_step.gc_sweep [where sha = sha and w = ?r and gone = "set kill" and listed = listed
        and kill = kill and seen = seen and live = "live_handles (w_db v)" and J = "w_jobs v"] sweep.hyps(2,3) by simp
  ultimately show ?case using sweep.IH by (meson rtranclp.rtrancl_into_rtrancl)
qed simp

lemma quiet_sweeps_frame:
  "quiet_sweeps n w v \<Longrightarrow> w_db v = w_db w \<and> w_jobs v = w_jobs w \<and> w_containers v \<subseteq> w_containers w"
  by (induction rule: quiet_sweeps.induct) auto

lemma quiet_sweeps_exist:
  "finite (w_containers w) \<Longrightarrow> \<exists>v. quiet_sweeps n w v"
proof (induction n)
  case (Suc n)
  from Suc.IH [OF Suc.prems] obtain v where v: "quiet_sweeps n w v" ..
  have "finite (w_containers v)"
    using Suc.prems quiet_sweeps_frame [OF v] finite_subset by blast
  then obtain listed where "set listed = w_containers v" using finite_list by auto
  moreover obtain kill seen where
    "reap_orphans (db_instance_settings (w_db v)) (live_handles (w_db v)) (Some listed) (w_seen v) = (kill, seen)"
    by fastforce
  ultimately show ?case by (intro exI, rule quiet_sweeps.sweep [OF v])
qed (rule exI, rule quiet_sweeps.none)

text \<open>The containers no unfinished instance records.\<close>

definition orphans :: "world \<Rightarrow> string set" where
  "orphans w = w_containers w - set (live_handles (w_db w))"

lemma reap_orphans_sweeping:
  "sweeping settings \<Longrightarrow> reap_orphans settings live (Some listed) seen =
     (let found = filter (\<lambda>h. h \<notin> set live) (remdups listed)
      in (take REAP_BATCH (filter (\<lambda>h. h \<in> set seen) found), found))"
  by (auto simp: sweeping_def reap_orphans_def split: option.splits)

lemma one_quiet_sweep:
  assumes on: "sweeping settings" and listed: "set listed = containers"
    and run: "reap_orphans settings live (Some listed) seen = (kill, seen')"
  shows "set seen' = containers - set live" and "set kill \<subseteq> containers - set live"
    and "containers - set live \<subseteq> set seen \<Longrightarrow>
      card (containers - set kill - set live) = card (containers - set live) - REAP_BATCH"
proof -
  let ?found = "filter (\<lambda>h. h \<notin> set live) (remdups listed)"
  have kill: "kill = take REAP_BATCH (filter (\<lambda>h. h \<in> set seen) ?found)" and seen': "seen' = ?found"
    using run unfolding reap_orphans_sweeping [OF on] Let_def by blast+
  have found: "set ?found = containers - set live" "distinct ?found" using listed by auto
  show "set seen' = containers - set live" using found(1) by (simp only: seen')
  have "set kill \<subseteq> set ?found" unfolding kill by (rule subset_trans [OF set_take_subset]) auto
  then show sub: "set kill \<subseteq> containers - set live" by (simp only: found(1))
  assume "containers - set live \<subseteq> set seen"
  then have "filter (\<lambda>h. h \<in> set seen) ?found = ?found"
    unfolding filter_id_conv found(1) [symmetric] by blast
  then have k: "kill = take REAP_BATCH ?found" by (simp only: kill)
  have "card (set kill) = min REAP_BATCH (card (containers - set live))"
    using distinct_card [of kill] distinct_card [OF found(2)]
    unfolding found(1) k by (simp add: min.commute)
  moreover have "containers - set kill - set live = (containers - set live) - set kill" by blast
  ultimately show "card (containers - set kill - set live) = card (containers - set live) - REAP_BATCH"
    using sub by (simp add: card_Diff_subset)
qed

lemma quiet_sweeps_progress:
  assumes "quiet_sweeps (Suc n) w v" "sweeping (db_instance_settings (w_db w))" "finite (w_containers w)"
  shows "orphans v \<subseteq> set (w_seen v) \<and> card (orphans v) \<le> card (orphans w) - n * REAP_BATCH
    \<and> w_containers w \<inter> set (live_handles (w_db w)) \<subseteq> w_containers v"
  using assms(1)
proof (induction n arbitrary: v)
  case 0
  then obtain listed kill seen where "set listed = w_containers w"
      "reap_orphans (db_instance_settings (w_db w)) (live_handles (w_db w)) (Some listed) (w_seen w) = (kill, seen)"
      "v = w\<lparr>w_containers := w_containers w - set kill, w_seen := seen\<rparr>"
    unfolding quiet_sweeps_simps by (elim exE conjE) (rule that; simp)
  note sweep = this and pass = one_quiet_sweep(1,2) [OF assms(2) this(1,2)]
  have "card (orphans v) \<le> card (orphans w)"
    using assms(3) by (intro card_mono) (auto simp: orphans_def sweep(3))
  then show ?case using pass by (auto simp: orphans_def sweep(3))
next
  case (Suc n)
  then obtain u listed kill seen where u: "quiet_sweeps (Suc n) w u" "set listed = w_containers u"
      "reap_orphans (db_instance_settings (w_db u)) (live_handles (w_db u)) (Some listed) (w_seen u) = (kill, seen)"
      "v = u\<lparr>w_containers := w_containers u - set kill, w_seen := seen\<rparr>"
    unfolding quiet_sweeps_simps(2) [of "Suc n"] by (elim exE conjE) (rule that; assumption)
  have on: "sweeping (db_instance_settings (w_db u))" using quiet_sweeps_frame [OF u(1)] assms(2) by simp
  note IH = Suc.IH [OF u(1)] and pass = one_quiet_sweep [OF on u(2,3)] and same = quiet_sweeps_frame [OF u(1)]
  have "card (orphans v) = card (orphans u) - REAP_BATCH"
    using pass(3) IH by (simp add: orphans_def u(4))
  moreover have "orphans v \<subseteq> set (w_seen v)" using pass(1) by (auto simp: orphans_def u(4))
  moreover have "w_containers w \<inter> set (live_handles (w_db w)) \<subseteq> w_containers v"
    using IH pass(2) same by (auto simp: u(4))
  moreover have "card (orphans u) - REAP_BATCH \<le> card (orphans w) - n * REAP_BATCH - REAP_BATCH"
    using IH by (intro diff_le_mono) blast
  moreover have "card (orphans w) - n * REAP_BATCH - REAP_BATCH = card (orphans w) - Suc n * REAP_BATCH"
    by (simp only: diff_diff_left mult_Suc add.commute)
  ultimately show ?case by simp
qed

text \<open>
  C19: Left alone, the sweep gets there: from any state of the system, when no handler, route or other
  backend call runs in between and the backend carries out every destroy, sweeps are always possible
  and enough of them (one to confirm, then one for each batch of 25 orphans), in whatever order each
  lists the containers, leave exactly the containers recorded on unfinished instances. (What a sweep
  does that runs beside other handlers is in \<open>slow_start_reaped\<close> and \<open>sweep_kills_running\<close>.)
\<close>

theorem orphans_collected:
  assumes "sweeping (db_instance_settings (w_db w))" "finite (w_containers w)"
    and "card (w_containers w - set (live_handles (w_db w))) \<le> k * REAP_BATCH"
  shows "(\<exists>v. quiet_sweeps (Suc k) w v)
    \<and> (\<forall>v. quiet_sweeps (Suc k) w v \<longrightarrow> (world_step sha)\<^sup>*\<^sup>* w v
         \<and> w_containers v = w_containers w \<inter> set (live_handles (w_db w)))"
proof (intro conjI allI impI)
  show "\<exists>v. quiet_sweeps (Suc k) w v" using assms(2) by (rule quiet_sweeps_exist)
  fix v assume v: "quiet_sweeps (Suc k) w v"
  then show "(world_step sha)\<^sup>*\<^sup>* w v" by (rule quiet_sweeps_steps)
  note same = quiet_sweeps_frame [OF v] and progress = quiet_sweeps_progress [OF v assms(1,2)]
  have "card (orphans v) = 0" using progress assms(3) by (simp add: orphans_def)
  moreover have "finite (orphans v)" using same assms(2) by (auto simp: orphans_def intro: finite_subset)
  ultimately have "orphans v = {}" by simp
  then show "w_containers v = w_containers w \<inter> set (live_handles (w_db w))"
    using same progress by (auto simp: orphans_def)
qed

section \<open>A concrete platform\<close>

definition demo_settings :: instance_settings where
  "demo_settings = \<lparr>is_enabled = True, is_backend = Kubernetes, is_public_host = Some ''host'',
     is_tcp_port_min = 30000, is_tcp_port_max = 30003, is_max_concurrent = 2,
     is_chal_base_domain = None, is_spawn_rate_limit = 0, is_spawn_rate_window_seconds = 60\<rparr>"

definition demo_deployment :: challenge_deployment where
  "demo_deployment = \<lparr>cd_id = ''dep'', cd_competition_id = ''c'', cd_challenge_id = ''web'',
     cd_backend = Kubernetes, cd_image_ref = Some ''img'', cd_exposure = Tcp_Exposure, cd_ports = [80],
     cd_lifetime_s = None, cd_per_subject_cap = 1, cd_flag_mode = Static_Mode, cd_flag_template = None\<rparr>"

definition demo_db :: db where
  "demo_db = empty_db\<lparr>db_competitions := [blank_competition ''c''],
     db_instance_settings := Some demo_settings, db_deployments := [demo_deployment]\<rparr>"

definition demo_call :: launch_call where
  "demo_call = \<lparr>lc_competition = blank_competition ''c'', lc_deployment = demo_deployment,
     lc_user_id = ''u'', lc_team_id = None, lc_tokens = [], lc_row_id = ''i'', lc_now = 0\<rparr>"

definition demo_row :: "instance_status \<Rightarrow> challenge_instance" where
  "demo_row s = (requested_row demo_call [tcp_endpoint (Some ''host'') 30000] None)\<lparr>ci_status := s\<rparr>"

definition demo_running :: challenge_instance where
  "demo_running = (demo_row Inst_Running)\<lparr>ci_backend_handle := Some ''pod'',
     ci_started_at := Some 5, ci_last_seen_at := Some 5\<rparr>"

definition demo_world :: "challenge_instance \<Rightarrow> string set \<Rightarrow> job multiset \<Rightarrow> string list \<Rightarrow> world" where
  "demo_world i C J seen = \<lparr>w_db = demo_db\<lparr>db_instances := [i]\<rparr>, w_containers = C, w_jobs = J,
     w_seen = seen, w_lost = {}, w_ids = {''i''}, w_credit = (\<lambda>_. None), w_gone = {}\<rparr>"

lemma w_db_demo_world [simp]: "w_db (demo_world i C J seen) = demo_db\<lparr>db_instances := [i]\<rparr>"
  by (simp add: demo_world_def)

lemma w_jobs_demo_world [simp]: "w_jobs (demo_world i C J seen) = J"
  by (simp add: demo_world_def)

lemma w_db_fresh_demo [simp]: "w_db (fresh_world demo_db) = demo_db"
  by (simp add: fresh_world_def demo_db_def empty_db_def)

text \<open>The launch after its reads.\<close>

definition demo_launching :: world where
  "demo_launching = (fresh_world demo_db)\<lparr>w_jobs := {#Job_Launch demo_db demo_call#}\<rparr>"

lemma w_db_demo_launching: "w_db demo_launching = demo_db"
  by (simp add: demo_launching_def)

lemma demo_admit: "world_step sha (fresh_world demo_db) demo_launching"
  using world_step.launch_admitted [of "fresh_world demo_db" sha demo_call]
  by (simp add: demo_launching_def fresh_world_def [of demo_db] lock_held_def)
    (simp add: demo_db_def empty_db_def)

lemma demo_commit:
  "world_step sha demo_launching (demo_world (demo_row Inst_Requested) {} {#} [])"
proof -
  have jobs: "w_jobs demo_launching = add_mset (Job_Launch demo_db demo_call) {#}" and db: "w_db demo_launching = demo_db"
    by (simp_all add: demo_launching_def)
  have run: "launch demo_db (w_db demo_launching) demo_call
      = (Inr (demo_row Inst_Requested), demo_db\<lparr>db_instances := [demo_row Inst_Requested]\<rparr>,
         [Event ''challenge.instance_requested'' (event_payload_of (demo_row Inst_Requested))])"
    unfolding db by code_simp
  have dep: "cd_id (lc_deployment demo_call) \<in> cd_id ` set (db_deployments (w_db demo_launching))"
    unfolding db by code_simp
  have fresh: "lc_row_id demo_call \<notin> w_ids demo_launching" "lc_team_id demo_call \<notin> Some ` w_gone demo_launching"
    by (simp_all add: demo_launching_def fresh_world_def)
  from world_step.launch_committed [where sha = sha, OF jobs run fresh(1) dep fresh(2)] show ?thesis
    by (simp add: demo_launching_def fresh_world_def demo_world_def demo_call_def fun_upd_def)
qed

lemma reach_step: "instance_reachable sha d v \<Longrightarrow> world_step sha v w \<Longrightarrow> instance_reachable sha d w"
  by (auto intro: rtranclp.rtrancl_into_rtrancl platform_step.ordinary)

lemma reach_steps: "instance_reachable sha d v \<Longrightarrow> (world_step sha)\<^sup>*\<^sup>* v w \<Longrightarrow> instance_reachable sha d w"
  using world_run_platform by (blast intro: rtranclp_trans)

lemma demo_launch:
  "instance_reachable sha demo_db (demo_world (demo_row Inst_Requested) {} {#} [])"
  by (rule reach_step [OF reach_step [OF rtranclp.rtrancl_refl demo_admit] demo_commit])

text \<open>Claiming, the container coming up, and the last session, whatever else is in flight.\<close>

lemma demo_claim:
  "world_step sha (demo_world (demo_row Inst_Requested) C J seen)
     (demo_world (demo_row Inst_Provisioning) C (add_mset (Job_Create ''i'' demo_deployment None None) J) seen)"
proof -
  have run: "provision_claim (w_db (demo_world (demo_row Inst_Requested) C J seen)) ''i''
      = (Some (demo_row Inst_Provisioning, demo_deployment, blank_competition ''c''),
         demo_db\<lparr>db_instances := [demo_row Inst_Provisioning]\<rparr>, [])"
    unfolding w_db_demo_world by code_simp
  have flag: "None = snd (provision_prepare sha [] [] (demo_row Inst_Provisioning) demo_deployment (blank_competition ''c''))"
    by (simp add: provision_prepare_def demo_deployment_def Let_def)
  from world_step.claim [OF run flag] show ?thesis by (simp add: demo_world_def)
qed

lemma demo_up:
  assumes "''pod'' \<notin> C"
  shows "world_step sha (demo_world i C (add_mset (Job_Create ''i'' demo_deployment None None) J) seen)
     (demo_world i (insert ''pod'' C) (add_mset (Job_Create ''i'' demo_deployment None (Some ''pod'')) J) seen)"
proof -
  let ?w = "demo_world i C (add_mset (Job_Create ''i'' demo_deployment None None) J) seen"
  have eff: "effective_backend (db_instance_settings (w_db ?w)) demo_deployment \<noteq> Shared_Static"
    by (simp add: demo_db_def effective_backend_def demo_deployment_def demo_settings_def SITE_BACKENDS_def)
  have "''pod'' \<notin> w_containers ?w" using assms by (simp add: demo_world_def)
  from world_step.container_up [where sha = sha, OF w_jobs_demo_world this eff] show ?thesis
    by (simp add: demo_world_def)
qed

lemma demo_settled:
  "(world_step sha)\<^sup>*\<^sup>* (demo_world (demo_row Inst_Provisioning) C (add_mset (Job_Create ''i'' demo_deployment None (Some ''pod'')) J) seen)
     (demo_world demo_running C J seen)"
proof -
  let ?w = "demo_world (demo_row Inst_Provisioning) C"
  have "world_step sha (?w (add_mset (Job_Create ''i'' demo_deployment None (Some ''pod'')) J) seen)
      (?w (add_mset (Job_Settle ''i'' ''pod'' [] None) J) seen)"
    using world_step.created [where sha = sha and eps = "[]",
        OF w_jobs_demo_world [of "demo_row Inst_Provisioning" C
          "add_mset (Job_Create ''i'' demo_deployment None (Some ''pod'')) J" seen]]
    by (simp add: demo_world_def map_filter_def)
  moreover have run: "provision_finish (w_db (?w (add_mset (Job_Settle ''i'' ''pod'' [] None) J) seen)) ''i'' ''pod'' [] None 5
      = (True, demo_db\<lparr>db_instances := [demo_running]\<rparr>,
         [Event ''challenge.instance_started'' (event_payload_of demo_running)])"
    unfolding w_db_demo_world by code_simp
  have "world_step sha (?w (add_mset (Job_Settle ''i'' ''pod'' [] None) J) seen) (demo_world demo_running C J seen)"
    using world_step.settle [where sha = sha, OF w_jobs_demo_world run] by (simp add: demo_world_def)
  ultimately show ?thesis by (rule converse_rtranclp_into_rtranclp [OF _ r_into_rtranclp])
qed

lemma three_steps: "R a b \<Longrightarrow> R b c \<Longrightarrow> R c d \<Longrightarrow> R\<^sup>*\<^sup>* a d"
  by (meson converse_rtranclp_into_rtranclp r_into_rtranclp)

lemma demo_provisioning_reachable:
  "instance_reachable sha demo_db (demo_world (demo_row Inst_Provisioning) {''pod''}
     {#Job_Create ''i'' demo_deployment None (Some ''pod'')#} [])"
  by (rule reach_step [OF reach_step [OF demo_launch demo_claim] demo_up]) simp

lemma demo_running_reachable:
  "instance_reachable sha demo_db (demo_world demo_running {''pod''} {#} [])"
  by (rule reach_steps [OF demo_provisioning_reachable demo_settled])

lemma demo_sweep:
  assumes "reap_orphans (Some demo_settings) [] (Some [''pod'']) seen = (kill, [''pod''])"
  shows "(world_step sha)\<^sup>*\<^sup>* (demo_world (demo_row Inst_Provisioning) {''pod''} J seen)
     (demo_world (demo_row Inst_Provisioning) {''pod''} (add_mset (Job_Gc []) J) seen)
   \<and> world_step sha (demo_world (demo_row Inst_Provisioning) {''pod''} (add_mset (Job_Gc []) J) seen)
     (demo_world (demo_row Inst_Provisioning) ({''pod''} - set kill) J [''pod''])"
proof
  let ?w = "\<lambda>J. demo_world (demo_row Inst_Provisioning) {''pod''} J seen"
  have "live_handles (w_db (?w J)) = []" unfolding w_db_demo_world by code_simp
  with world_step.gc_read [of sha "?w J"] have "world_step sha (?w J) (?w (add_mset (Job_Gc []) J))"
    by (simp add: demo_world_def)
  then show "(world_step sha)\<^sup>*\<^sup>* (?w J) (?w (add_mset (Job_Gc []) J))" by (rule r_into_rtranclp)
  have "set [''pod''] = w_containers (?w (add_mset (Job_Gc []) J))" by (simp add: demo_world_def)
  moreover have "reap_orphans (db_instance_settings (w_db (?w (add_mset (Job_Gc []) J)))) [] (Some [''pod''])
      (w_seen (?w (add_mset (Job_Gc []) J))) = (kill, [''pod''])"
    using assms by (simp add: demo_db_def demo_world_def)
  ultimately show "world_step sha (?w (add_mset (Job_Gc []) J))
      (demo_world (demo_row Inst_Provisioning) ({''pod''} - set kill) J [''pod''])"
    using world_step.gc_sweep [where sha = sha and gone = "set kill", OF w_jobs_demo_world, of "[''pod'']"]
    by (simp add: demo_world_def)
qed

section \<open>Interleavings that go wrong\<close>

text \<open>
  The two-tick rule does not protect a slow start: two sweeps that both fall between the
  container coming up and \<open>create\<close> returning its handle destroy the container of a
  provision still in flight. (On Kubernetes \<open>create\<close> waits up to 120 seconds for readiness
  while its Deployment is already listed; the sweeps are 60 seconds apart.)
\<close>

theorem slow_start_reaped:
  "\<exists>w w'. instance_reachable sha demo_db w \<and> world_step sha w w'
     \<and> ci_status (demo_row Inst_Provisioning) = Inst_Provisioning
     \<and> db_instances (w_db w') = [demo_row Inst_Provisioning]
     \<and> Job_Create ''i'' demo_deployment None (Some ''pod'') \<in># w_jobs w'
     \<and> ''pod'' \<in> w_containers w \<and> ''pod'' \<notin> w_containers w'"
proof -
  let ?J = "{#Job_Create ''i'' demo_deployment None (Some ''pod'')#}"
  let ?w = "demo_world (demo_row Inst_Provisioning)"
  have s1: "reap_orphans (Some demo_settings) [] (Some [''pod'']) [] = ([], [''pod''])" by code_simp
  have s2: "reap_orphans (Some demo_settings) [] (Some [''pod'']) [''pod''] = ([''pod''], [''pod''])" by code_simp
  have "instance_reachable sha demo_db (?w {''pod''} (add_mset (Job_Gc []) ?J) [''pod''])"
    using reach_step [OF reach_steps [OF demo_provisioning_reachable demo_sweep [OF s1, THEN conjunct1]]
        demo_sweep [OF s1, THEN conjunct2]]
    by (intro reach_steps [OF _ demo_sweep [OF s2, THEN conjunct1]]) simp
  moreover have "world_step sha (?w {''pod''} (add_mset (Job_Gc []) ?J) [''pod'']) (?w {} ?J [''pod''])"
    using demo_sweep [OF s2, of sha ?J] by simp
  ultimately show ?thesis
    by (intro exI [of _ "?w {''pod''} (add_mset (Job_Gc []) ?J) [''pod'']"] exI [of _ "?w {} ?J [''pod'']"])
      (simp add: demo_world_def demo_row_def)
qed

text \<open>
  Nor does it protect a provision that settles between the sweep's two reads: a container orphaned in
  the sweep before is read as unrecorded, its instance goes live, and the same sweep destroys it. The
  row is left running on a container that is gone.
\<close>

theorem sweep_kills_running:
  "\<exists>w. instance_reachable sha demo_db w \<and> db_instances (w_db w) = [demo_running]
     \<and> ci_status demo_running = Inst_Running \<and> ci_backend_handle demo_running = Some ''pod''
     \<and> ''pod'' \<notin> w_containers w"
proof -
  let ?J = "{#Job_Create ''i'' demo_deployment None (Some ''pod'')#}"
  let ?w = "demo_world (demo_row Inst_Provisioning)"
  have s1: "reap_orphans (Some demo_settings) [] (Some [''pod'']) [] = ([], [''pod''])" by code_simp
  have s2: "reap_orphans (Some demo_settings) [] (Some [''pod'']) [''pod''] = ([''pod''], [''pod''])" by code_simp
  have "instance_reachable sha demo_db (?w {''pod''} ?J [''pod''])"
    using reach_step [OF reach_steps [OF demo_provisioning_reachable demo_sweep [OF s1, THEN conjunct1]]
        demo_sweep [OF s1, THEN conjunct2]] by simp
  then have "instance_reachable sha demo_db (?w {''pod''} (add_mset (Job_Gc []) ?J) [''pod''])"
    by (rule reach_steps [OF _ demo_sweep [OF s2, THEN conjunct1]])
  then have "instance_reachable sha demo_db (demo_world demo_running {''pod''} {#Job_Gc []#} [''pod''])"
    using reach_steps [OF _ demo_settled [of sha "{''pod''}" "{#Job_Gc []#}" "[''pod'']"]]
    by (simp add: add_mset_commute)
  moreover have "world_step sha (demo_world demo_running {''pod''} {#Job_Gc []#} [''pod''])
      (demo_world demo_running {} {#} [''pod''])"
    using world_step.gc_sweep [where sha = sha and gone = "{''pod''}" and listed = "[''pod'']" and kill = "[''pod'']"
        and seen = "[''pod'']", OF w_jobs_demo_world] s2
    by (simp add: demo_world_def demo_db_def)
  ultimately have "instance_reachable sha demo_db (demo_world demo_running {} {#} [''pod''])"
    by (rule reach_step)
  then show ?thesis
    by (intro exI [of _ "demo_world demo_running {} {#} [''pod'']"]) (simp add: demo_world_def demo_running_def demo_row_def)
qed

text \<open>
  Where instancing was never configured there is no settings row to lock: two launches of a
  shared-static deployment whose reads both run before either insert both pass the check of its cap
  of one.
\<close>

definition shared_db :: db where
  "shared_db = demo_db\<lparr>db_instance_settings := None,
     db_deployments := [demo_deployment\<lparr>cd_backend := Shared_Static\<rparr>]\<rparr>"

definition shared_call :: "ident \<Rightarrow> launch_call" where
  "shared_call i = demo_call\<lparr>lc_deployment := demo_deployment\<lparr>cd_backend := Shared_Static\<rparr>, lc_row_id := i\<rparr>"

definition shared_world :: "challenge_instance list \<Rightarrow> job multiset \<Rightarrow> world" where
  "shared_world rows J = (fresh_world shared_db)\<lparr>w_db := shared_db\<lparr>db_instances := rows\<rparr>, w_jobs := J,
     w_ids := set (map ci_id rows)\<rparr>"

definition shared_row :: "ident \<Rightarrow> challenge_instance" where
  "shared_row i = requested_row (shared_call i) [] None"

lemma shared_commit:
  assumes "launch shared_db (shared_db\<lparr>db_instances := rows\<rparr>) (shared_call i)
      = (Inr (shared_row i), shared_db\<lparr>db_instances := rows @ [shared_row i]\<rparr>, evs)" "i \<notin> set (map ci_id rows)"
  shows "world_step sha (shared_world rows (add_mset (Job_Launch shared_db (shared_call i)) J))
    (shared_world (rows @ [shared_row i]) J)"
proof -
  let ?w = "shared_world rows (add_mset (Job_Launch shared_db (shared_call i)) J)"
  have jobs: "w_jobs ?w = add_mset (Job_Launch shared_db (shared_call i)) J"
    and db: "w_db ?w = shared_db\<lparr>db_instances := rows\<rparr>" by (simp_all add: shared_world_def)
  have fresh: "lc_row_id (shared_call i) \<notin> w_ids ?w" "lc_team_id (shared_call i) \<notin> Some ` w_gone ?w"
    and dep: "cd_id (lc_deployment (shared_call i)) \<in> cd_id ` set (db_deployments (w_db ?w))"
    using assms(2) by (simp_all add: shared_call_def demo_call_def shared_world_def fresh_world_def shared_db_def)
  from world_step.launch_committed [where sha = sha, OF jobs assms(1) [folded db] fresh(1) dep fresh(2)]
  show ?thesis
    by (simp add: shared_world_def fresh_world_def shared_row_def requested_row_def shared_call_def demo_call_def fun_upd_def)
qed

theorem unlocked_launches_exceed_cap:
  "\<exists>w. instance_reachable sha shared_db w
     \<and> count_active (w_db w) (Some ''c'') (Some ''web'') (Some ''u'') = 2
     \<and> map cd_per_subject_cap (db_deployments (w_db w)) = [1]"
proof -
  let ?j = "\<lambda>i. Job_Launch shared_db (shared_call i)"
  have start: "shared_world [] {#} = fresh_world shared_db"
    by (simp add: shared_world_def fresh_world_def shared_db_def demo_db_def empty_db_def)
  have none: "\<not> snd (lock_admission shared_db)" by (simp add: lock_admission_def shared_db_def)
  have upd: "(shared_world [] J)\<lparr>w_jobs := K\<rparr> = shared_world [] K" for J K by (simp add: shared_world_def)
  have db: "w_db (shared_world [] J) = shared_db" for J
    by (simp add: shared_world_def shared_db_def demo_db_def empty_db_def)
  have admit: "world_step sha (shared_world [] J) (shared_world [] (add_mset (?j i) J))" for J i
    using world_step.launch_admitted [of "shared_world [] J" sha "shared_call i"]
    unfolding db upd using none by (simp add: shared_world_def)
  have both: "instance_reachable sha shared_db (shared_world [] {#?j ''i'', ?j ''k''#})"
    by (rule reach_step [OF reach_step [OF _ admit] admit]) (simp add: start)
  have 1: "launch shared_db (shared_db\<lparr>db_instances := []\<rparr>) (shared_call ''i'')
      = (Inr (shared_row ''i''), shared_db\<lparr>db_instances := [] @ [shared_row ''i'']\<rparr>,
         [Event ''challenge.instance_requested'' (event_payload_of (shared_row ''i''))])" by code_simp
  have 2: "launch shared_db (shared_db\<lparr>db_instances := [shared_row ''i'']\<rparr>) (shared_call ''k'')
      = (Inr (shared_row ''k''), shared_db\<lparr>db_instances := [shared_row ''i''] @ [shared_row ''k'']\<rparr>,
         [Event ''challenge.instance_requested'' (event_payload_of (shared_row ''k''))])" by code_simp
  have "instance_reachable sha shared_db (shared_world ([shared_row ''i''] @ [shared_row ''k'']) {#})"
    by (rule reach_step [OF reach_step [OF both shared_commit [OF 1, unfolded append_Nil]] shared_commit [OF 2]])
      (simp_all add: shared_row_def requested_row_def shared_call_def)
  moreover have "count_active (shared_db\<lparr>db_instances := [shared_row ''i''] @ [shared_row ''k'']\<rparr>)
      (Some ''c'') (Some ''web'') (Some ''u'') = 2"
    and "map cd_per_subject_cap (db_deployments shared_db) = [1]" by code_simp+
  ultimately show ?thesis
    by (intro exI [of _ "shared_world ([shared_row ''i''] @ [shared_row ''k'']) {#}"]) (simp add: shared_world_def)
qed

text \<open>
  A teardown of an instance that is still waiting to be provisioned can report it destroyed
  while it goes live: the teardown's first session leaves the requested row alone, provisioning
  then runs to completion, and the last session stamps \<open>destroyed_at\<close> and emits the destroyed
  event although the move to \<open>destroyed\<close> was refused. The instance keeps running.
\<close>

theorem teardown_reports_running_destroyed:
  "\<exists>w. instance_reachable sha demo_db w \<and> w_jobs w = {#} \<and> ''pod'' \<in> w_containers w
     \<and> db_instances (w_db w) = [demo_running\<lparr>ci_destroyed_at := Some 9\<rparr>]
     \<and> ci_status demo_running = Inst_Running
     \<and> teardown_finish (demo_db\<lparr>db_instances := [demo_running]\<rparr>) ''i'' ''challenge.instance_destroyed'' 9
         = (w_db w, [Event ''challenge.instance_destroyed'' (event_payload_of demo_running)])"
proof -
  let ?name = "''challenge.instance_destroyed''"
  let ?J = "{#Job_Destroy ''i'' None ?name#}"
  let ?last = "demo_world (demo_running\<lparr>ci_destroyed_at := Some 9\<rparr>) {''pod''} {#} []"
  have start: "teardown_begin (w_db (demo_world (demo_row Inst_Requested) {} {#} [])) ''i''
      = (Some None, demo_db\<lparr>db_instances := [demo_row Inst_Requested]\<rparr>)"
    unfolding w_db_demo_world by code_simp
  have fin: "teardown_finish (demo_db\<lparr>db_instances := [demo_running]\<rparr>) ''i'' ?name 9
      = (w_db ?last, [Event ?name (event_payload_of demo_running)])"
    unfolding w_db_demo_world by code_simp
  have "world_step sha (demo_world (demo_row Inst_Requested) {} {#} []) (demo_world (demo_row Inst_Requested) {} ?J [])"
    using world_step.teardown [where sha = sha and name = ?name, OF start] by (simp add: demo_world_def)
  with demo_claim [of sha "{}" ?J "[]"] demo_up [of "{}" sha "demo_row Inst_Provisioning" ?J "[]"]
  have up: "(world_step sha)\<^sup>*\<^sup>* (demo_world (demo_row Inst_Requested) {} {#} [])
      (demo_world (demo_row Inst_Provisioning) {''pod''} (add_mset (Job_Create ''i'' demo_deployment None (Some ''pod'')) ?J) [])"
    by (intro three_steps) simp_all
  note live = demo_settled [of sha "{''pod''}" ?J "[]"]
  have "world_step sha (demo_world demo_running {''pod''} ?J [])
      (demo_world demo_running {''pod''} {#Job_Close ''i'' ?name#} [])"
    using world_step.destroyed [where sha = sha, OF w_jobs_demo_world [of demo_running "{''pod''}" ?J "[]"]]
    by (simp add: demo_world_def)
  moreover have "world_step sha (demo_world demo_running {''pod''} {#Job_Close ''i'' ?name#} []) ?last"
    using world_step.close [where sha = sha,
        OF w_jobs_demo_world [of demo_running "{''pod''}" "{#Job_Close ''i'' ?name#}" "[]"], of 9] fin
    by (simp add: demo_world_def)
  ultimately have "instance_reachable sha demo_db ?last"
    using reach_step [OF reach_step [OF reach_steps [OF reach_steps [OF demo_launch up] live]]] by blast
  with fin show ?thesis
    by (intro exI [of _ ?last]) (simp add: demo_world_def demo_running_def demo_row_def)
qed

section \<open>Witnesses\<close>

lemma containers_accounted_witness:
  "\<exists>i\<in>set (db_instances (w_db (demo_world demo_running {''pod''} {#} []))).
     ci_status i = Inst_Running \<and> ci_backend_handle i = Some ''pod''"
  using containers_accounted [OF demo_running_reachable [of "\<lambda>s. s"], of "''pod''"]
  by (simp add: demo_world_def)

lemma instance_lifecycle_witness:
  "same_instance (demo_row Inst_Provisioning) demo_running
     \<and> (\<exists>ts. legal_path INSTANCE_TRANSITIONS (ci_status (demo_row Inst_Provisioning)) ts
          \<and> last (ci_status (demo_row Inst_Provisioning) # ts) = ci_status demo_running
          \<and> real_moves (ci_status (demo_row Inst_Provisioning)) ts \<le> 4)"
proof -
  have "demo_row Inst_Provisioning \<in> set (db_instances (w_db (demo_world (demo_row Inst_Provisioning) {''pod''}
      {#Job_Create ''i'' demo_deployment None (Some ''pod'')#} [])))"
    and "demo_running \<in> set (db_instances (w_db (demo_world demo_running {''pod''} {#} [])))"
    and "ci_id demo_running = ci_id (demo_row Inst_Provisioning)"
    by (simp_all add: demo_running_def demo_row_def)
  from instance_lifecycle [OF demo_provisioning_reachable demo_settled [of "\<lambda>s. s" "{''pod''}" "{#}" "[]"] this]
  show ?thesis by (elim conjE, intro conjI)
qed

lemma instance_ceilings_hold_witness:
  "count_active (demo_db\<lparr>db_instances := [demo_row Inst_Requested]\<rparr>) None None None \<le> 2
   \<and> launched_for (demo_world (demo_row Inst_Requested) {} {#} []) (Some ''c'') (Some ''web'') (Inr ''u'') \<le> 1"
proof -
  let ?w' = "demo_world (demo_row Inst_Requested) {} {#} []"
  have reach: "instance_reachable (\<lambda>s. s) demo_db demo_launching"
    by (rule reach_step [OF rtranclp.rtrancl_refl demo_admit])
  have set: "db_instance_settings demo_db \<noteq> None" by (simp add: demo_db_def)
  note ceilings = instance_ceilings_hold [OF reach set platform_step.ordinary [OF demo_commit], of "Some ''c''" "Some ''web''" "Inr ''u''"]
  have before: "launched_for demo_launching (Some ''c'') (Some ''web'') (Inr ''u'') = 0"
    unfolding launched_for_def demo_launching_def fresh_world_def by (simp add: count_where_def)
  have after: "launched_for ?w' (Some ''c'') (Some ''web'') (Inr ''u'') = 1"
    by (simp add: launched_for_def demo_world_def credit_key_def demo_row_def requested_row_def demo_call_def
        demo_deployment_def blank_competition_def inst_active_def INSTANCE_ACTIVE_STATUSES_def)
  have only: "l = demo_call" if "Job_Launch read l \<in># w_jobs demo_launching" for read l
    using that by (simp add: demo_launching_def)
  have call: "Some (co_id (lc_competition demo_call)) = Some ''c''" "Some (cd_challenge_id (lc_deployment demo_call)) = Some ''web''"
      "cd_per_subject_cap (lc_deployment demo_call) = 1"
    by (simp_all add: demo_call_def blank_competition_def demo_deployment_def)
  have "launched_for ?w' (Some ''c'') (Some ''web'') (Inr ''u'') \<le> 1"
    using ceilings [THEN conjunct2] only call unfolding before after by force
  moreover have "max (count_active (w_db demo_launching) None None None) (instance_ceiling (w_db demo_launching)) = 2"
    unfolding w_db_demo_launching by code_simp
  ultimately show ?thesis using ceilings [THEN conjunct1] by simp
qed

text \<open>Three orphans and a recorded container, swept twice.\<close>

definition littered_world :: world where
  "littered_world = demo_world demo_running {''pod'', ''a'', ''b'', ''c''} {#} []"

lemma orphans_collected_witness:
  "\<exists>v. (world_step (\<lambda>s. s))\<^sup>*\<^sup>* littered_world v \<and> w_containers v = {''pod''}"
proof -
  have db: "w_db littered_world = demo_db\<lparr>db_instances := [demo_running]\<rparr>" by (simp add: littered_world_def)
  have 1: "sweeping (db_instance_settings (w_db littered_world))" unfolding db by code_simp
  have 2: "finite (w_containers littered_world)" by (simp add: littered_world_def demo_world_def)
  have live: "set (live_handles (w_db littered_world)) = {''pod''}" unfolding db by code_simp
  have "w_containers littered_world - set (live_handles (w_db littered_world)) = {''a'', ''b'', ''c''}"
    unfolding live by (auto simp: littered_world_def demo_world_def)
  then have 3: "card (w_containers littered_world - set (live_handles (w_db littered_world))) \<le> 1 * REAP_BATCH"
    by (simp add: REAP_BATCH_def)
  have "w_containers littered_world \<inter> set (live_handles (w_db littered_world)) = {''pod''}"
    unfolding live by (auto simp: littered_world_def demo_world_def)
  then show ?thesis using orphans_collected [OF 1 2 3, of "\<lambda>s. s"] by metis
qed

end
