(* ===== verification/Instance_Routes.thy ===== *)
theory Instance_Routes
  imports Instances Scoring Competition_Status Module_Loader
begin

text \<open>
  The routes of the instances module (\<open>routers/instances.py\<close>) and the grading of
  unique-per-instance flags (\<open>utils/instance_grading.py\<close>). The permission a route depends on is
  checked before its body runs and is a premise of its caller. A teardown started by a route runs
  in its own sessions; the route's result here is the id it is started for.
\<close>

section \<open>Grading against instances\<close>

record shared_flag_match =
  sm_instance_id :: ident
  sm_user_id :: ident
  sm_team_id :: "ident option"

record unique_grade =
  ug_correct :: bool
  ug_shared_with :: "shared_flag_match option"

definition deployment_flag_mode :: "db \<Rightarrow> ident \<Rightarrow> ident \<Rightarrow> flag_mode option" where
  "deployment_flag_mode d c ch =
     map_option cd_flag_mode
       (find (\<lambda>r. cd_competition_id r = c \<and> cd_challenge_id r = ch) (db_deployments d))"

definition gradeable_instances :: "db \<Rightarrow> ident \<Rightarrow> ident \<Rightarrow> challenge_instance list" where
  "gradeable_instances d c ch =
     filter (\<lambda>i. ci_competition_id i = c \<and> ci_challenge_id i = ch \<and> inst_active i \<and> ci_flag_hash i \<noteq> None)
       (db_instances d)"

definition instance_flag_matches :: "hasher \<Rightarrow> string \<Rightarrow> challenge_instance \<Rightarrow> bool" where
  "instance_flag_matches sha submitted i =
     verify_static_flag sha submitted (coalesce (ci_flag_salt i) []) False (coalesce (ci_flag_hash i) [])"

definition grade_unique :: "hasher \<Rightarrow> db \<Rightarrow> ident \<Rightarrow> ident \<Rightarrow> subject \<Rightarrow> string \<Rightarrow> ident \<Rightarrow> unique_grade" where
  "grade_unique sha d c ch s submitted u =
     (let instances = gradeable_instances d c ch in
      if list_ex (\<lambda>i. instance_subject i = sj_id s \<and> instance_flag_matches sha submitted i) instances
      then \<lparr>ug_correct = True, ug_shared_with = None\<rparr>
      else (case find (\<lambda>i. \<not> (instance_subject i = sj_id s \<or> ci_user_id i = u)
                           \<and> instance_flag_matches sha submitted i) instances of
              None \<Rightarrow> \<lparr>ug_correct = False, ug_shared_with = None\<rparr>
            | Some i \<Rightarrow> \<lparr>ug_correct = False,
                ug_shared_with = Some \<lparr>sm_instance_id = ci_id i, sm_user_id = ci_user_id i, sm_team_id = ci_team_id i\<rparr>\<rparr>))"

section \<open>Routes\<close>

definition guard :: "loaded \<Rightarrow> db \<Rightarrow> ident \<Rightarrow> competition res" where
  "guard mods d cid =
     (case get_competition d cid of
        None \<Rightarrow> Inl (HTTPException 404 ''Competition not found'')
      | Some c \<Rightarrow>
          if \<not> is_module_enabled mods d ''instances'' (Some cid)
          then Inl (HTTPException 404 ''The instances module is disabled for this competition'')
          else Inr c)"

definition deployment_for :: "db \<Rightarrow> ident \<Rightarrow> ident \<Rightarrow> challenge_deployment option" where
  "deployment_for d cid chid =
     find (\<lambda>r. cd_competition_id r = cid \<and> cd_challenge_id r = chid) (db_deployments d)"

text \<open>The newest active instance (\<open>ORDER BY created_at DESC LIMIT 1\<close>).\<close>

definition newest :: "challenge_instance list \<Rightarrow> challenge_instance option" where
  "newest xs = find (\<lambda>i. \<forall>j\<in>set xs. ci_created_at j \<le> ci_created_at i) xs"

definition active_for_subject :: "db \<Rightarrow> ident \<Rightarrow> ident \<Rightarrow> ident \<Rightarrow> challenge_instance option" where
  "active_for_subject d cid chid s =
     newest (filter (\<lambda>i. ci_competition_id i = cid \<and> ci_challenge_id i = chid \<and> inst_active i
       \<and> instance_subject i = s) (db_instances d))"

text \<open>The subject-facing view: the row, its endpoints hidden until it runs.\<close>

definition instance_out :: "challenge_instance \<Rightarrow> challenge_instance" where
  "instance_out i = (if ci_status i \<noteq> Inst_Running then i\<lparr>ci_endpoints := []\<rparr> else i)"

definition raise_for :: "instance_error \<Rightarrow> http_error" where
  "raise_for e = (if e = Spawn_Throttled then HTTPException 429 ''Spawn throttled''
     else HTTPException 409 ''Instance error'')"

definition launch_result ::
  "(instance_error + challenge_instance) \<times> db \<times> event list \<Rightarrow> challenge_instance outcome" where
  "launch_result r =
     (case r of (Inl e, d, evs) \<Rightarrow> (Inl (raise_for e), d, evs) | (Inr i, d, evs) \<Rightarrow> (Inr (instance_out i), d, evs))"

text \<open>The route reads one state; its launch writes another (see \<open>launch\<close>).\<close>

definition launch_instance ::
  "loaded \<Rightarrow> bool \<Rightarrow> string list \<Rightarrow> ident \<Rightarrow> time \<Rightarrow> ident \<Rightarrow> ident \<Rightarrow> ident \<Rightarrow> db \<Rightarrow> db \<Rightarrow> challenge_instance outcome" where
  "launch_instance mods demo_mode tokens row_id now u cid chid read d =
     (case guard mods read cid of
        Inl e \<Rightarrow> (Inl e, d, [])
      | Inr c \<Rightarrow>
          if demo_mode then raise d 403 ''Launching instances is disabled on the demo.''
          else (case deployment_for read cid chid of
                  None \<Rightarrow> raise d 404 ''This challenge has no instance to launch.''
                | Some dep \<Rightarrow>
                    let is_staff = user_has_permission read u ''instance_manage'' (Some cid) in
                    if \<not> is_playable c \<and> \<not> is_staff then raise d 403 (gate_message (co_status c))
                    else (case resolve_subject read c u of
                            None \<Rightarrow>
                              if \<not> is_staff then raise d 400 ''Join a team before launching an instance.''
                              else launch_result (launch read d \<lparr>lc_competition = c, lc_deployment = dep, lc_user_id = u,
                                lc_team_id = None, lc_tokens = tokens, lc_row_id = row_id, lc_now = now\<rparr>)
                          | Some s \<Rightarrow>
                              launch_result (launch read d \<lparr>lc_competition = c, lc_deployment = dep, lc_user_id = u,
                                lc_team_id = sj_team_id s, lc_tokens = tokens, lc_row_id = row_id, lc_now = now\<rparr>))))"

text \<open>The key the other competitor routes look the instance up by.\<close>

definition requester_key :: "db \<Rightarrow> competition \<Rightarrow> ident \<Rightarrow> ident" where
  "requester_key d c u =
     (case resolve_subject d c u of None \<Rightarrow> u | Some s \<Rightarrow> coalesce (sj_team_id s) u)"

definition own_instance :: "loaded \<Rightarrow> ident \<Rightarrow> ident \<Rightarrow> ident \<Rightarrow> db \<Rightarrow> (competition \<times> challenge_instance) res" where
  "own_instance mods u cid chid d =
     res_bind (guard mods d cid)
       (\<lambda>c. case active_for_subject d cid chid (requester_key d c u) of
              None \<Rightarrow> Inl (HTTPException 404 ''You have no running instance for this challenge.'')
            | Some i \<Rightarrow> Inr (c, i))"

definition get_instance_route :: "loaded \<Rightarrow> ident \<Rightarrow> ident \<Rightarrow> ident \<Rightarrow> db \<Rightarrow> challenge_instance outcome" where
  "get_instance_route mods u cid chid d =
     (case own_instance mods u cid chid d of
        Inl e \<Rightarrow> (Inl e, d, []) | Inr (c, i) \<Rightarrow> (Inr (instance_out i), d, []))"

definition extend_instance :: "loaded \<Rightarrow> time \<Rightarrow> ident \<Rightarrow> ident \<Rightarrow> ident \<Rightarrow> db \<Rightarrow> challenge_instance outcome" where
  "extend_instance mods now u cid chid d =
     (case own_instance mods u cid chid d of
        Inl e \<Rightarrow> (Inl e, d, [])
      | Inr (c, i) \<Rightarrow>
          (case get_deployment d (ci_deployment_id i) of
             None \<Rightarrow> raise d 500 ''Internal Server Error''
           | Some dep \<Rightarrow>
               (case inst_extend d i c dep now of
                  (Inl e, d', evs) \<Rightarrow> raise d' 409 ''Instance error''
                | (Inr i', d', evs) \<Rightarrow> (Inr (instance_out i'), d', evs))))"

text \<open>Both destroy routes answer with the id the teardown is started for.\<close>

definition destroy_instance :: "loaded \<Rightarrow> ident \<Rightarrow> ident \<Rightarrow> ident \<Rightarrow> db \<Rightarrow> ident res" where
  "destroy_instance mods u cid chid d = map_sum id (ci_id \<circ> snd) (own_instance mods u cid chid d)"

definition kill_instance :: "loaded \<Rightarrow> ident \<Rightarrow> ident \<Rightarrow> db \<Rightarrow> ident res" where
  "kill_instance mods cid iid d =
     res_bind (guard mods d cid)
       (\<lambda>c. case get_instance d iid of
              None \<Rightarrow> Inl (HTTPException 404 ''Instance not found'')
            | Some i \<Rightarrow> if ci_competition_id i \<noteq> cid then Inl (HTTPException 404 ''Instance not found'')
                        else Inr (ci_id i))"

definition MAX_PORTS :: nat where
  "MAX_PORTS = 16"

text \<open>
  \<open>DeploymentUpdate.validate_shape\<close>; the check of the resource limits is its result, an
  argument. The string enumerations of the body are already the datatypes.
\<close>

definition validate_shape :: "string option \<Rightarrow> challenge_deployment \<Rightarrow> string option" where
  "validate_shape limits_error b =
     (if cd_backend b \<in> {Docker, Kubernetes} \<and> coalesce (cd_image_ref b) [] = []
      then Some ''an image reference is required for the docker/kubernetes backends''
      else if cd_exposure b = Tcp_Exposure \<and> cd_ports b = []
      then Some ''tcp exposure needs at least one container port''
      else if list_ex (\<lambda>p. \<not> (0 < p \<and> p < 65536)) (cd_ports b) then Some ''ports must be in 1..65535''
      else if MAX_PORTS < length (cd_ports b) then Some ''at most 16 ports may be exposed''
      else if limits_error \<noteq> None then limits_error
      else if cd_flag_mode b = Unique_Per_Instance \<and> coalesce (cd_flag_template b) [] = []
      then Some ''unique_per_instance flag mode needs a flag_template''
      else if cd_flag_mode b = Unique_Per_Instance
        \<and> \<not> sublist FLAG_TEMPLATE_TOKEN (coalesce (cd_flag_template b) [])
      then Some ''a unique flag_template must contain <random> so each instance gets a distinct flag''
      else if cd_flag_mode b = Unique_Per_Instance \<and> cd_backend b = Shared_Static
      then Some ''unique_per_instance flags require a per-instance backend, not shared-static''
      else None)"

text \<open>The body carries every column but the ids, which come from the existing row or are fresh.\<close>

definition upsert_deployment ::
  "loaded \<Rightarrow> string option \<Rightarrow> ident \<Rightarrow> challenge_deployment \<Rightarrow> ident \<Rightarrow> ident \<Rightarrow> db \<Rightarrow> challenge_deployment outcome" where
  "upsert_deployment mods limits_error fresh_id body cid chid d =
     (case guard mods d cid of
        Inl e \<Rightarrow> (Inl e, d, [])
      | Inr c \<Rightarrow>
          (case get_challenge d chid of
             None \<Rightarrow> raise d 404 ''Challenge not found''
           | Some ch \<Rightarrow>
               if ch_competition_id ch \<noteq> cid then raise d 404 ''Challenge not found''
               else (case validate_shape limits_error body of
                  Some e \<Rightarrow> raise d 400 e
                | None \<Rightarrow>
                    if cd_flag_mode body = Unique_Per_Instance \<and> has_flag ch
                    then raise d 400 ''This challenge already has its own flag.''
                    else
                      let evs = [Event ''challenge.updated'' [(''competition_id'', PStr cid), (''challenge_id'', PStr chid)]] in
                      (case deployment_for d cid chid of
                         None \<Rightarrow>
                           (let dep = body\<lparr>cd_id := fresh_id, cd_competition_id := cid, cd_challenge_id := chid\<rparr>
                            in (Inr dep, d\<lparr>db_deployments := db_deployments d @ [dep]\<rparr>, evs))
                       | Some old \<Rightarrow>
                           (let dep = body\<lparr>cd_id := cd_id old, cd_competition_id := cid, cd_challenge_id := chid\<rparr>
                            in (Inr dep, d\<lparr>db_deployments := update_where (\<lambda>r. cd_id r = cd_id old) (\<lambda>_. dep) (db_deployments d)\<rparr>,
                                evs))))))"

text \<open>Deleting a deployment cascades to its instance rows.\<close>

definition delete_deployment :: "loaded \<Rightarrow> ident \<Rightarrow> ident \<Rightarrow> db \<Rightarrow> unit outcome" where
  "delete_deployment mods cid chid d =
     (case guard mods d cid of
        Inl e \<Rightarrow> (Inl e, d, [])
      | Inr c \<Rightarrow>
          (case deployment_for d cid chid of
             None \<Rightarrow> raise d 404 ''This challenge has no deployment spec.''
           | Some dep \<Rightarrow>
               (Inr (), d\<lparr>db_deployments := delete_where (\<lambda>r. cd_id r = cd_id dep) (db_deployments d),
                  db_instances := delete_where (\<lambda>i. ci_deployment_id i = cd_id dep) (db_instances d)\<rparr>,
                [Event ''challenge.updated'' [(''competition_id'', PStr cid), (''challenge_id'', PStr chid)]])))"

section \<open>Properties\<close>

lemma own_instance_in:
  assumes "active_for_subject d cid chid s = Some i"
  shows "i \<in> set (db_instances d) \<and> inst_active i \<and> instance_subject i = s
    \<and> ci_competition_id i = cid \<and> ci_challenge_id i = chid"
  using assms unfolding active_for_subject_def newest_def by (auto dest!: find_Some_in)

lemma modify_instance_in:
  "get_instance d iid = Some j \<Longrightarrow> j' \<in> set (db_instances (modify_instance iid (\<lambda>_. j') d))"
  unfolding get_instance_def
  by (drule find_Some_in) (force simp: modify_instance_def set_update_where image_iff)

lemma settled_row:
  assumes "provision_finish d iid h eps (Some (hash, salt)) now = (True, d', evs)"
  shows "\<exists>j i'. get_instance d iid = Some j \<and> i' \<in> set (db_instances d')
    \<and> ci_competition_id i' = ci_competition_id j \<and> ci_challenge_id i' = ci_challenge_id j
    \<and> instance_subject i' = instance_subject j \<and> ci_status i' = Inst_Running
    \<and> ci_flag_hash i' = Some hash \<and> ci_flag_salt i' = Some salt"
proof -
  obtain j where j: "get_instance d iid = Some j" "ci_status j = Inst_Provisioning"
    using assms by (auto simp: provision_finish_def split: option.splits if_splits)
  let ?live = "j\<lparr>ci_status := Inst_Running, ci_backend_handle := Some h, ci_started_at := Some now,
     ci_last_seen_at := Some now, ci_endpoints := (if eps \<noteq> [] then eps else ci_endpoints j),
     ci_flag_hash := Some hash, ci_flag_salt := Some salt\<rparr>"
  have "d' = modify_instance iid (\<lambda>_. ?live) d"
    using assms j by (auto simp: provision_finish_def Let_def inst_transition_def instance_can_transition_def)
  with modify_instance_in [OF j(1), of ?live] have "?live \<in> set (db_instances d')" by simp
  with j(1) show ?thesis by (intro exI [of _ j] exI [of _ ?live]) (simp add: instance_subject_def)
qed

text \<open>
  C20: A unique flag round-trips: the plaintext that provisioning hands to the container of an
  instance, typed back with any surrounding white space by the subject the instance is credited
  to, grades as correct once the instance is live, and no sharing is reported.
\<close>

theorem unique_flag_roundtrip:
  assumes "provision_prepare sha token salt i dep c = (spec, flag)"
    and "ps_flag_plaintext spec = Some plain" "strip submitted = strip plain"
    and "get_instance d iid = Some j" "instance_subject j = instance_subject i"
    and "provision_finish d iid h eps flag now = (True, d', evs)"
    and "sj_id s = instance_subject i"
  shows "grade_unique sha d' (ci_competition_id j) (ci_challenge_id j) s submitted u
    = \<lparr>ug_correct = True, ug_shared_with = None\<rparr>"
proof -
  have flag: "flag = Some (hash_static_flag sha plain salt False, salt)"
    using assms(1,2) by (auto simp: provision_prepare_def Let_def spec_for_def split: if_splits)
  from settled_row [OF assms(6) [unfolded flag]] assms(4) obtain i' where
    i': "i' \<in> set (db_instances d')" "ci_competition_id i' = ci_competition_id j"
      "ci_challenge_id i' = ci_challenge_id j" "instance_subject i' = instance_subject j"
      "ci_status i' = Inst_Running" "ci_flag_hash i' = Some (hash_static_flag sha plain salt False)"
      "ci_flag_salt i' = Some salt" by auto
  have "instance_flag_matches sha submitted i'"
    using assms(3) by (simp add: instance_flag_matches_def i'(6,7) verify_hashed normalize_def)
  moreover have "i' \<in> set (gradeable_instances d' (ci_competition_id j) (ci_challenge_id j))"
    using i' by (simp add: gradeable_instances_def inst_active_def INSTANCE_ACTIVE_STATUSES_def)
  ultimately show ?thesis
    using i'(4) assms(5,7) by (auto simp: grade_unique_def Let_def list_ex_iff)
qed

text \<open>
  An accusation of flag sharing is sound: when hashes do not collide, it is only made on a
  wrong submission, and names an unfinished instance of the same challenge, credited to another
  subject and launched by another user, whose flag the submission is.
\<close>

theorem sharing_report_sound:
  assumes "inj sha" "ug_shared_with (grade_unique sha d c ch s submitted u) = Some m"
    and "\<And>i. i \<in> set (db_instances d) \<Longrightarrow> ci_flag_hash i \<noteq> None \<Longrightarrow>
      \<exists>plain salt. ci_flag_salt i = Some salt \<and> ci_flag_hash i = Some (hash_static_flag sha plain salt False)
        \<and> issued (ci_id i) = Some plain"
  shows "\<not> ug_correct (grade_unique sha d c ch s submitted u)
    \<and> (\<exists>i\<in>set (db_instances d). ci_id i = sm_instance_id m \<and> inst_active i
         \<and> ci_competition_id i = c \<and> ci_challenge_id i = ch
         \<and> instance_subject i \<noteq> sj_id s \<and> ci_user_id i \<noteq> u
         \<and> map_option strip (issued (ci_id i)) = Some (strip submitted))"
proof -
  let ?own = "list_ex (\<lambda>i. instance_subject i = sj_id s \<and> instance_flag_matches sha submitted i)
    (gradeable_instances d c ch)"
  have no: "\<not> ?own" using assms(2) by (auto simp: grade_unique_def Let_def split: if_splits)
  with assms(2) obtain i where i: "find (\<lambda>i. \<not> (instance_subject i = sj_id s \<or> ci_user_id i = u)
      \<and> instance_flag_matches sha submitted i) (gradeable_instances d c ch) = Some i" "sm_instance_id m = ci_id i"
    by (auto simp: grade_unique_def Let_def split: option.splits)
  from find_Some_in [OF i(1)] have props: "i \<in> set (db_instances d)" "inst_active i" "ci_competition_id i = c"
      "ci_challenge_id i = ch" "ci_flag_hash i \<noteq> None" "instance_subject i \<noteq> sj_id s" "ci_user_id i \<noteq> u"
      "instance_flag_matches sha submitted i"
    by (auto simp: gradeable_instances_def)
  from assms(3) [OF props(1,5)] obtain plain salt where "ci_flag_salt i = Some salt"
    "ci_flag_hash i = Some (hash_static_flag sha plain salt False)" "issued (ci_id i) = Some plain" by blast
  with props(8) have "map_option strip (issued (ci_id i)) = Some (strip submitted)"
    by (auto simp: instance_flag_matches_def verify_hashed_iff [OF assms(1)] normalize_def)
  moreover have "\<not> ug_correct (grade_unique sha d c ch s submitted u)"
    using no by (auto simp: grade_unique_def Let_def split: option.splits)
  ultimately show ?thesis using props i(2) by metis
qed

section \<open>Witnesses\<close>

definition flag_deployment :: challenge_deployment where
  "flag_deployment = \<lparr>cd_id = ''dep'', cd_competition_id = ''c'', cd_challenge_id = ''web'',
     cd_backend = Docker, cd_image_ref = Some ''img'', cd_exposure = No_Exposure, cd_ports = [],
     cd_lifetime_s = None, cd_per_subject_cap = 1, cd_flag_mode = Unique_Per_Instance,
     cd_flag_template = Some ''f{<random>}''\<rparr>"

definition flag_row :: "ident \<Rightarrow> ident \<Rightarrow> challenge_instance" where
  "flag_row i u = \<lparr>ci_id = i, ci_competition_id = ''c'', ci_challenge_id = ''web'',
     ci_deployment_id = ''dep'', ci_user_id = u, ci_team_id = None, ci_status = Inst_Provisioning,
     ci_backend_handle = None, ci_subdomain = None, ci_endpoints = [], ci_flag_hash = None,
     ci_flag_salt = None, ci_expires_at = None, ci_started_at = None, ci_destroyed_at = None,
     ci_last_seen_at = None, ci_extend_count = 0, ci_failure_reason = None, ci_created_at = 0\<rparr>"

definition user_subject :: "ident \<Rightarrow> subject" where
  "user_subject u = \<lparr>sj_kind = User_Kind, sj_id = u, sj_team_id = None\<rparr>"

definition flag_db :: db where
  "flag_db = empty_db\<lparr>db_deployments := [flag_deployment], db_instances := [flag_row ''i'' ''u'']\<rparr>"

definition flag_live :: "bool \<times> db \<times> event list" where
  "flag_live = provision_finish flag_db ''i'' ''box'' []
     (Some (hash_static_flag demo_sha ''f{ab}'' ''s'' False, ''s'')) 7"

definition live_flag_db :: db where
  "live_flag_db = fst (snd flag_live)"

lemma flag_live_eq: "flag_live = (True, live_flag_db, snd (snd flag_live))"
  by code_simp

lemma flag_prepare:
  "provision_prepare demo_sha ''ab'' ''s'' (flag_row ''i'' ''u'') flag_deployment (blank_competition ''c'')
     = (fst (provision_prepare demo_sha ''ab'' ''s'' (flag_row ''i'' ''u'') flag_deployment (blank_competition ''c'')),
        Some (hash_static_flag demo_sha ''f{ab}'' ''s'' False, ''s''))
   \<and> ps_flag_plaintext (fst (provision_prepare demo_sha ''ab'' ''s'' (flag_row ''i'' ''u'') flag_deployment
        (blank_competition ''c''))) = Some ''f{ab}''"
proof
  have "snd (provision_prepare demo_sha ''ab'' ''s'' (flag_row ''i'' ''u'') flag_deployment (blank_competition ''c''))
      = Some (hash_static_flag demo_sha ''f{ab}'' ''s'' False, ''s'')" by code_simp
  then show "provision_prepare demo_sha ''ab'' ''s'' (flag_row ''i'' ''u'') flag_deployment (blank_competition ''c'')
     = (fst (provision_prepare demo_sha ''ab'' ''s'' (flag_row ''i'' ''u'') flag_deployment (blank_competition ''c'')),
        Some (hash_static_flag demo_sha ''f{ab}'' ''s'' False, ''s''))"
    by (metis prod.collapse)
  show "ps_flag_plaintext (fst (provision_prepare demo_sha ''ab'' ''s'' (flag_row ''i'' ''u'') flag_deployment
        (blank_competition ''c''))) = Some ''f{ab}''"
    by (simp add: provision_prepare_def Let_def spec_for_def) code_simp
qed

lemma unique_flag_roundtrip_witness:
  "grade_unique demo_sha live_flag_db ''c'' ''web'' (user_subject ''u'') '' f{ab} '' ''u''
     = \<lparr>ug_correct = True, ug_shared_with = None\<rparr>"
proof -
  have "strip '' f{ab} '' = strip ''f{ab}''" by code_simp
  moreover have "get_instance flag_db ''i'' = Some (flag_row ''i'' ''u'')" by code_simp
  moreover have "sj_id (user_subject ''u'') = instance_subject (flag_row ''i'' ''u'')" by code_simp
  ultimately show ?thesis
    using unique_flag_roundtrip [OF conjunct1 [OF flag_prepare] conjunct2 [OF flag_prepare] _ _ refl
        flag_live_eq [unfolded flag_live_def], where submitted = "'' f{ab} ''"
        and s = "user_subject ''u''" and u = "''u''"]
    by (simp add: flag_row_def)
qed

lemma sharing_report_sound_witness:
  "\<not> ug_correct (grade_unique demo_sha live_flag_db ''c'' ''web'' (user_subject ''v'') ''f{ab}'' ''v'')
   \<and> (\<exists>i\<in>set (db_instances live_flag_db). ci_id i = ''i'' \<and> inst_active i \<and> ci_competition_id i = ''c''
        \<and> ci_challenge_id i = ''web'' \<and> instance_subject i \<noteq> ''v'' \<and> ci_user_id i \<noteq> ''v''
        \<and> map_option strip ([''i'' \<mapsto> ''f{ab}''] (ci_id i)) = Some (strip ''f{ab}''))"
proof -
  have rep: "ug_shared_with (grade_unique demo_sha live_flag_db ''c'' ''web'' (user_subject ''v'') ''f{ab}'' ''v'')
      = Some \<lparr>sm_instance_id = ''i'', sm_user_id = ''u'', sm_team_id = None\<rparr>" by code_simp
  have "list_all (\<lambda>i. ci_flag_salt i = Some ''s'' \<and> ci_id i = ''i''
      \<and> ci_flag_hash i = Some (hash_static_flag demo_sha ''f{ab}'' ''s'' False)) (db_instances live_flag_db)"
    by code_simp
  then have "\<exists>plain salt. ci_flag_salt i = Some salt \<and> ci_flag_hash i = Some (hash_static_flag demo_sha plain salt False)
      \<and> [''i'' \<mapsto> ''f{ab}''] (ci_id i) = Some plain" if "i \<in> set (db_instances live_flag_db)" for i
    using that by (auto simp: list_all_iff)
  from sharing_report_sound [OF inj_demo_sha rep this] show ?thesis by (simp add: user_subject_def cong: rev_conj_cong)
qed

end
