(* ===== verification/Judge.thy ===== *)
theory Judge
  imports Grading Module_Loader
begin

text \<open>
  The code judge (\<open>utils/judge_worker.py\<close>, the state side of \<open>models/judging.py\<close>, the writing
  routes of \<open>routers/judge_jury.py\<close>). A judging row is the queue. Every database session of the
  worker is one operation here; a session whose reads another process may overtake takes the
  state it read and the state it writes to as two arguments. Running the code, the object store
  and the realtime pushes are outside: the executor's outcome and the store's test data are
  arguments.
\<close>

section \<open>Lifecycle and constants\<close>

fun JUDGING_TRANSITIONS :: "judging_status \<Rightarrow> judging_status list" where
  "JUDGING_TRANSITIONS Judging_Queued = [Judging_Running]"
| "JUDGING_TRANSITIONS Judging_Running = [Judging_Done, Judging_Failed, Judging_Queued]"
| "JUDGING_TRANSITIONS Judging_Done = []"
| "JUDGING_TRANSITIONS Judging_Failed = []"

definition judging_can_transition :: "judging_status \<Rightarrow> judging_status \<Rightarrow> bool" where
  "judging_can_transition = can_move JUDGING_TRANSITIONS"

definition ACTIVE_JUDGING_STATUSES :: "judging_status list" where
  "ACTIVE_JUDGING_STATUSES = [Judging_Queued, Judging_Running]"

definition MAX_ATTEMPTS :: int where "MAX_ATTEMPTS = 3"

definition CLAIM_GRACE :: time where "CLAIM_GRACE = 5 * 60 * 1000000"

definition DEADLINE_SLACK :: time where "DEADLINE_SLACK = 10 * 60 * 1000000"

definition JUDGE_REAP_BATCH :: nat where "JUDGE_REAP_BATCH = 50"

text \<open>\<open>db.get\<close> on the judge's tables.\<close>

definition get_judging :: "db \<Rightarrow> ident \<Rightarrow> judging option" where
  "get_judging d i = find (\<lambda>r. ju_id r = i) (db_judgings d)"

definition get_code :: "db \<Rightarrow> ident \<Rightarrow> code_submission option" where
  "get_code d i = find (\<lambda>r. cs_id r = i) (db_code_submissions d)"

definition get_submission :: "db \<Rightarrow> ident \<Rightarrow> submission option" where
  "get_submission d i = find (\<lambda>r. su_id r = i) (db_submissions d)"

definition get_problem :: "db \<Rightarrow> ident \<Rightarrow> ident \<Rightarrow> judge_problem option" where
  "get_problem d c ch = find (\<lambda>p. jp_challenge_id p = ch \<and> jp_competition_id p = c) (db_judge_problems d)"

section \<open>Claiming\<close>

record claim =
  cl_judging_id :: ident
  cl_attempt :: int

text \<open>\<open>_fenced\<close>: the row is still running at the claim's attempt.\<close>

definition fenced :: "claim \<Rightarrow> judging \<Rightarrow> bool" where
  "fenced cl j = (ju_id j = cl_judging_id cl \<and> ju_status j = Judging_Running
     \<and> ju_attempts j = cl_attempt cl)"

text \<open>A conditional \<open>UPDATE\<close> on the judgings: its row count and the state after it.\<close>

definition update_judgings :: "(judging \<Rightarrow> bool) \<Rightarrow> (judging \<Rightarrow> judging) \<Rightarrow> db \<Rightarrow> nat \<times> db" where
  "update_judgings P f d =
     (count_where P (db_judgings d), d\<lparr>db_judgings := update_where P f (db_judgings d)\<rparr>)"

definition queue_order :: "judging \<Rightarrow> time \<times> ident" where
  "queue_order j = (ju_created_at j, ju_id j)"

definition claim_candidates :: "db \<Rightarrow> ident list" where
  "claim_candidates d =
     map ju_id (take 5 (sort_key queue_order (filter (\<lambda>j. ju_status j = Judging_Queued) (db_judgings d))))"

definition claimed_values :: "time \<Rightarrow> judging \<Rightarrow> judging" where
  "claimed_values now j = j\<lparr>ju_status := Judging_Running, ju_claimed_at := Some now,
     ju_deadline_at := Some (now + CLAIM_GRACE), ju_attempts := ju_attempts j + 1\<rparr>"

fun claim_first :: "time \<Rightarrow> ident list \<Rightarrow> db \<Rightarrow> claim option \<times> db" where
  "claim_first now [] d = (None, d)"
| "claim_first now (i # is) d =
     (let (n, d') = update_judgings (\<lambda>j. ju_id j = i \<and> ju_status j = Judging_Queued)
                      (claimed_values now) d
      in if n = 1
         then (map_option (\<lambda>j. \<lparr>cl_judging_id = i, cl_attempt = ju_attempts j\<rparr>) (get_judging d' i), d')
         else claim_first now is d')"

definition claim_next :: "db \<Rightarrow> time \<Rightarrow> db \<Rightarrow> claim option \<times> db" where
  "claim_next read now d = claim_first now (claim_candidates read) d"

text \<open>\<open>_settings\<close> and \<open>fill_slots\<close>: claim up to the free capacity.\<close>

definition judge_on :: "db \<Rightarrow> judge_settings option" where
  "judge_on d = (case db_judge_settings d of
     Some s \<Rightarrow> if js_enabled s then Some s else None | None \<Rightarrow> None)"

fun claim_up_to :: "nat \<Rightarrow> time \<Rightarrow> db \<Rightarrow> claim list \<times> db" where
  "claim_up_to 0 now d = ([], d)"
| "claim_up_to (Suc n) now d =
     (case claim_next d now d of
        (None, d') \<Rightarrow> ([], d')
      | (Some cl, d') \<Rightarrow> (let (cls, d'') = claim_up_to n now d' in (cl # cls, d'')))"

definition fill_slots :: "nat \<Rightarrow> time \<Rightarrow> db \<Rightarrow> claim list \<times> db" where
  "fill_slots running now d =
     (case judge_on d of
        None \<Rightarrow> ([], d)
      | Some s \<Rightarrow> claim_up_to (nat (max 1 (js_max_concurrent_judgings s) - int running)) now d)"

section \<open>Preparing the job\<close>

text \<open>
  \<open>_prepare\<close>: the claim is lost, the judging can never run, preparing raised (the code row is
  gone), or the job is ready with that many tests and the deadline is pushed out. \<open>budget\<close> is
  the executor's time budget, \<open>version\<close> the fingerprint of the problem.
\<close>

datatype preparation = Claim_Lost | Cannot_Run string | Prepare_Error string | Job_Ready nat

definition prepare :: "claim \<Rightarrow> time \<Rightarrow> string \<Rightarrow> time \<Rightarrow> db \<Rightarrow> preparation \<times> db" where
  "prepare cl budget version now d =
     (case get_judging d (cl_judging_id cl) of
        None \<Rightarrow> (Claim_Lost, d)
      | Some j \<Rightarrow>
          if ju_status j \<noteq> Judging_Running \<or> ju_attempts j \<noteq> cl_attempt cl then (Claim_Lost, d)
          else (case judge_on d of
            None \<Rightarrow> (Cannot_Run ''the code judge has been turned off'', d)
          | Some _ \<Rightarrow>
            (case get_code d (ju_code_submission_id j) of
               None \<Rightarrow> (Prepare_Error ''no code submission'', d)
             | Some code \<Rightarrow>
               (let problem = get_problem d (ju_competition_id j) (ju_challenge_id j);
                    cases = (case problem of None \<Rightarrow> [] | Some p \<Rightarrow> jp_testcases p);
                    to_run = (if ju_kind j = Run_Kind then filter id cases else cases)
                in if cases = [] then (Cannot_Run ''the problem has no test cases'', d)
                   else if \<not> list_ex (\<lambda>l. jl_key l = cs_language_key code \<and> jl_enabled l) (db_judge_languages d)
                   then (Cannot_Run ''the language is no longer available'', d)
                   else if to_run = [] then (Cannot_Run ''the problem has no tests to run'', d)
                   else (let (n, d') = update_judgings (fenced cl)
                           (\<lambda>j. j\<lparr>ju_deadline_at := Some (now + budget + DEADLINE_SLACK),
                                  ju_problem_version := Some version\<rparr>) d
                         in if n \<noteq> 1 then (Claim_Lost, d) else (Job_Ready (length to_run), d'))))))"

section \<open>Recording a verdict\<close>

definition is_latest_finished :: "db \<Rightarrow> judging \<Rightarrow> bool" where
  "is_latest_finished d j =
     (count_where (\<lambda>x. ju_code_submission_id x = ju_code_submission_id j \<and> ju_status x = Judging_Done
        \<and> ju_id x \<noteq> ju_id j
        \<and> (ju_created_at j < ju_created_at x
           \<or> ju_created_at x = ju_created_at j \<and> ju_id j < ju_id x)) (db_judgings d) = 0)"

datatype recorded = Graded grade_outcome "regrade_outcome option" | Regraded regrade_outcome

definition team_credit :: "ident \<Rightarrow> subject" where
  "team_credit t = \<lparr>sj_kind = Team_Kind, sj_id = t, sj_team_id = Some t\<rparr>"

definition user_credit :: "ident \<Rightarrow> subject" where
  "user_credit u = \<lparr>sj_kind = User_Kind, sj_id = u, sj_team_id = None\<rparr>"

definition judging_credit :: "competition \<Rightarrow> judging \<Rightarrow> subject option" where
  "judging_credit c j =
     (if co_participation_mode c = Team_Mode then map_option team_credit (ju_team_id j)
      else Some (user_credit (ju_user_id j)))"

definition row_credit :: "submission \<Rightarrow> subject" where
  "row_credit r = (case su_team_id r of Some t \<Rightarrow> team_credit t | None \<Rightarrow> user_credit (su_user_id r))"

definition link_judging :: "ident \<Rightarrow> ident \<Rightarrow> db \<Rightarrow> db" where
  "link_judging jid sid d =
     d\<lparr>db_judgings := update_where (\<lambda>x. ju_id x = jid) (\<lambda>x. x\<lparr>ju_submission_id := Some sid\<rparr>) (db_judgings d)\<rparr>"

definition link_code :: "ident \<Rightarrow> ident \<Rightarrow> db \<Rightarrow> db" where
  "link_code cid sid d =
     d\<lparr>db_code_submissions :=
        update_where (\<lambda>x. cs_id x = cid) (\<lambda>x. x\<lparr>cs_submission_id := Some sid\<rparr>) (db_code_submissions d)\<rparr>"

text \<open>
  \<open>record_verdict\<close>, under its lock on the challenge row: \<open>rid\<close> is the id of a new submission
  row, \<open>now\<close> the clock.
\<close>

definition code_grade_call ::
  "competition \<Rightarrow> challenge \<Rightarrow> subject \<Rightarrow> judging \<Rightarrow> code_submission \<Rightarrow> bool \<Rightarrow> ident \<Rightarrow> time \<Rightarrow> grade_call" where
  "code_grade_call c ch s j code correct rid now =
     \<lparr>gc_competition = c, gc_challenge = ch, gc_subject = s, gc_user_id = ju_user_id j,
      gc_value = ''code:'' @ cs_id code, gc_correct = correct,
      gc_created_at = Some (cs_created_at code), gc_row_id = rid, gc_now = now\<rparr>"

definition record_first_verdict ::
  "competition \<Rightarrow> challenge \<Rightarrow> subject \<Rightarrow> judging \<Rightarrow> code_submission \<Rightarrow> bool \<Rightarrow> ident \<Rightarrow> time \<Rightarrow> db
     \<Rightarrow> recorded option \<times> db" where
  "record_first_verdict c ch s j code correct rid now d =
     (let (g, d1) = record_grade d d (code_grade_call c ch s j code correct rid now);
          sid = su_id (go_submission g);
          d2 = link_judging (ju_id j) sid (link_code (cs_id code) sid d1)
      in if su_is_correct (go_submission g) \<and> su_is_duplicate (go_submission g)
         then (let (m, d3) = regrade ch s sid True d2 in (Some (Graded g (Some m)), d3))
         else (Some (Graded g None), d2))"

definition record_verdict :: "judging \<Rightarrow> verdict \<Rightarrow> ident \<Rightarrow> time \<Rightarrow> db \<Rightarrow> recorded option \<times> db" where
  "record_verdict j v rid now d =
     (if \<not> is_latest_finished d j then (None, d)
      else (case (get_competition d (ju_competition_id j), get_challenge d (ju_challenge_id j),
                  get_code d (ju_code_submission_id j)) of
              (Some c, Some ch, Some code) \<Rightarrow>
                (let correct = (v = Accepted) in
                 (case Option.bind (cs_submission_id code) (get_submission d) of
                    None \<Rightarrow>
                      (case judging_credit c j of
                         None \<Rightarrow> (None, d)
                       | Some s \<Rightarrow> record_first_verdict c ch s j code correct rid now d)
                  | Some row \<Rightarrow>
                      (let (m, d1) = regrade ch (row_credit row) (su_id row) correct d
                       in (Some (Regraded m), link_judging (ju_id j) (su_id row) d1))))
            | _ \<Rightarrow> (None, d)))"

text \<open>\<open>emit_recorded\<close>: whether the cached boards are dropped, and the events.\<close>

definition emit_recorded :: "recorded option \<Rightarrow> judging \<Rightarrow> bool \<times> event list" where
  "emit_recorded rec j =
     (let regrade_events = (\<lambda>m. emit_regrade m (ju_competition_id j) (ju_challenge_id j) (ju_user_id j) (ju_team_id j))
      in case rec of
           None \<Rightarrow> (False, [])
         | Some (Graded g m) \<Rightarrow>
             (let graded = emit_grade g (ju_competition_id j) (ju_challenge_id j) (ju_user_id j) (ju_team_id j)
              in case m of
                   None \<Rightarrow> (False, graded)
                 | Some moved \<Rightarrow> (fst (regrade_events moved), graded @ snd (regrade_events moved)))
         | Some (Regraded m) \<Rightarrow> regrade_events m)"

definition kind_name :: "code_kind \<Rightarrow> string" where
  "kind_name k = (case k of Submit_Kind \<Rightarrow> ''submit'' | Run_Kind \<Rightarrow> ''run'' | Reference_Kind \<Rightarrow> ''reference'')"

definition verdict_name :: "verdict \<Rightarrow> string" where
  "verdict_name v = (case v of Accepted \<Rightarrow> ''accepted'' | Wrong_Answer \<Rightarrow> ''wrong_answer''
     | Time_Limit \<Rightarrow> ''time_limit'' | Memory_Limit \<Rightarrow> ''memory_limit'' | Output_Limit \<Rightarrow> ''output_limit''
     | Runtime_Error \<Rightarrow> ''runtime_error'' | Compile_Error \<Rightarrow> ''compile_error''
     | Internal_Error \<Rightarrow> ''internal_error'')"

definition emit_completed :: "judging \<Rightarrow> verdict \<Rightarrow> event" where
  "emit_completed j v = Event ''judging.completed''
     [(''competition_id'', PStr (ju_competition_id j)), (''challenge_id'', PStr (ju_challenge_id j)),
      (''judging_id'', PStr (ju_id j)), (''user_id'', PStr (ju_user_id j)),
      (''team_id'', pstr (ju_team_id j)), (''kind'', PStr (kind_name (ju_kind j))),
      (''verdict'', PStr (verdict_name v))]"

section \<open>The end of a judging\<close>

record judge_test_result =
  tr_index :: int
  tr_sample :: bool
  tr_verdict :: verdict
  tr_time_ms :: int
  tr_wall_ms :: int
  tr_memory_kb :: int
  tr_exit_code :: "int option"
  tr_signal :: "int option"
  tr_output :: "string option"

record judge_result =
  re_verdict :: verdict
  re_compile_output :: string
  re_tests :: "judge_test_result list"
  re_error :: "string option"

definition run_row :: "ident \<Rightarrow> judge_test_result \<Rightarrow> judging_run" where
  "run_row jid t = \<lparr>jr_judging_id = jid, jr_test_index = tr_index t, jr_sample = tr_sample t,
     jr_verdict = tr_verdict t, jr_time_ms = tr_time_ms t, jr_wall_ms = tr_wall_ms t,
     jr_memory_kb = tr_memory_kb t, jr_exit_code = tr_exit_code t, jr_signal = tr_signal t,
     jr_output = tr_output t\<rparr>"

definition done_values :: "judge_result \<Rightarrow> int \<Rightarrow> time \<Rightarrow> judging \<Rightarrow> judging" where
  "done_values result tests_total now j = j\<lparr>ju_status := Judging_Done,
     ju_verdict := Some (re_verdict result), ju_finished_at := Some now,
     ju_compile_output := (if re_compile_output result = [] then None else Some (re_compile_output result)),
     ju_max_time_ms := Some (coalesce (max_opt (map tr_time_ms (re_tests result))) 0),
     ju_max_memory_kb := Some (coalesce (max_opt (map tr_memory_kb (re_tests result))) 0),
     ju_tests_passed := Some (int (count_where (\<lambda>t. tr_verdict t = Accepted) (re_tests result))),
     ju_tests_total := Some tests_total, ju_error := None\<rparr>"

text \<open>\<open>_finish\<close>: the state after it, whether cached boards are dropped, the events.\<close>

definition finish_judging ::
  "claim \<Rightarrow> judge_result \<Rightarrow> int \<Rightarrow> time \<Rightarrow> ident \<Rightarrow> db \<Rightarrow> db \<times> bool \<times> event list" where
  "finish_judging cl result tests_total now rid d =
     (case get_judging d (cl_judging_id cl) of
        None \<Rightarrow> (d, False, [])
      | Some j \<Rightarrow>
          (let (n, d1) = update_judgings (fenced cl) (done_values result tests_total now) d
           in if n \<noteq> 1 then (d, False, [])
              else (let d2 = d1\<lparr>db_judging_runs :=
                             db_judging_runs d1 @ map (run_row (ju_id j)) (re_tests result)\<rparr>;
                        (rec, d3) = (if ju_kind j = Submit_Kind
                                     then record_verdict j (re_verdict result) rid now d2 else (None, d2));
                        (drop_boards, events) = emit_recorded rec j
                    in (d3, drop_boards, emit_completed j (re_verdict result) # events))))"

definition failed_values :: "string \<Rightarrow> time \<Rightarrow> judging \<Rightarrow> judging" where
  "failed_values err now j = j\<lparr>ju_status := Judging_Failed, ju_verdict := Some Internal_Error,
     ju_finished_at := Some now, ju_error := Some err\<rparr>"

definition give_up_or_retry :: "claim \<Rightarrow> string \<Rightarrow> bool \<Rightarrow> time \<Rightarrow> db \<Rightarrow> db \<times> event list" where
  "give_up_or_retry cl err retry now d =
     (case get_judging d (cl_judging_id cl) of
        None \<Rightarrow> (d, [])
      | Some j \<Rightarrow>
          (let again = retry \<and> cl_attempt cl < MAX_ATTEMPTS;
               values = (if again
                 then (\<lambda>x. x\<lparr>ju_status := Judging_Queued, ju_claimed_at := None,
                            ju_deadline_at := None, ju_error := Some (take 2000 err)\<rparr>)
                 else failed_values (take 2000 err) now);
               (n, d1) = update_judgings (fenced cl) values d
           in if n \<noteq> 1 then (d, [])
              else (d1, if again then [] else [emit_completed j Internal_Error])))"

text \<open>The end of \<open>run_judging\<close>, once the executor has returned or raised.\<close>

datatype executor_outcome = Executor_Raised string | Executor_Returned judge_result

definition conclude_run ::
  "claim \<Rightarrow> executor_outcome \<Rightarrow> int \<Rightarrow> time \<Rightarrow> ident \<Rightarrow> db \<Rightarrow> db \<times> bool \<times> event list" where
  "conclude_run cl out tests_total now rid d =
     (case out of
        Executor_Raised err \<Rightarrow> (let (d', evs) = give_up_or_retry cl err True now d in (d', False, evs))
      | Executor_Returned result \<Rightarrow>
          if re_verdict result = Internal_Error
          then (let (d', evs) = give_up_or_retry cl
                      (coalesce (re_error result) ''the judge reported an internal error'') True now d
                in (d', False, evs))
          else finish_judging cl result tests_total now rid d)"

text \<open>\<open>_discard_run_source\<close>: the object key it deletes, if any.\<close>

definition discard_run_source :: "claim \<Rightarrow> db \<Rightarrow> string option" where
  "discard_run_source cl d =
     (case get_judging d (cl_judging_id cl) of
        None \<Rightarrow> None
      | Some j \<Rightarrow>
          if ju_kind j \<noteq> Run_Kind \<or> ju_status j \<notin> {Judging_Done, Judging_Failed}
             \<or> ju_attempts j \<noteq> cl_attempt cl then None
          else map_option cs_source_object_key (get_code d (ju_code_submission_id j)))"

section \<open>Recovery\<close>

definition overdue :: "time \<Rightarrow> judging \<Rightarrow> bool" where
  "overdue now j = (ju_status j = Judging_Running
     \<and> (case ju_deadline_at j of None \<Rightarrow> False | Some t \<Rightarrow> t < now))"

definition reclaim_values :: "bool \<Rightarrow> time \<Rightarrow> judging \<Rightarrow> judging" where
  "reclaim_values give_up now =
     (if give_up then failed_values ''the judge stopped responding while judging this'' now
      else (\<lambda>x. x\<lparr>ju_status := Judging_Queued, ju_claimed_at := None, ju_deadline_at := None\<rparr>))"

text \<open>The loop over one batch of stuck rows, as read: how many it changed, and which it failed.\<close>

fun reclaim_each :: "time \<Rightarrow> judging list \<Rightarrow> db \<Rightarrow> nat \<times> judging list \<times> db" where
  "reclaim_each now [] d = (0, [], d)"
| "reclaim_each now (j # js) d =
     (let give_up = ju_attempts j \<ge> MAX_ATTEMPTS;
          (n, d1) = update_judgings (fenced \<lparr>cl_judging_id = ju_id j, cl_attempt = ju_attempts j\<rparr>)
                      (reclaim_values give_up now) d;
          (k, failed, d2) = reclaim_each now js d1
      in (if n = 1 then (k + 1, if give_up then j # failed else failed, d2) else (k, failed, d2)))"

definition reclaim_pass :: "db \<Rightarrow> time \<Rightarrow> db \<Rightarrow> nat \<times> judging list \<times> db" where
  "reclaim_pass read now d =
     reclaim_each now (take JUDGE_REAP_BATCH (filter (overdue now) (db_judgings read))) d"

text \<open>\<open>_sweep_containers\<close>: the judgings whose containers are kept; nothing while the judge is off.\<close>

definition sweep_keep :: "time \<Rightarrow> db \<Rightarrow> ident list option" where
  "sweep_keep now d =
     (case judge_on d of
        None \<Rightarrow> None
      | Some _ \<Rightarrow> Some (map ju_id (filter (\<lambda>j. ju_status j = Judging_Running
          \<and> (case ju_deadline_at j of None \<Rightarrow> False | Some t \<Rightarrow> now \<le> t)) (db_judgings d))))"

section \<open>Queueing, rejudging and overriding\<close>

definition new_judging ::
  "ident \<Rightarrow> code_submission \<Rightarrow> code_kind \<Rightarrow> judging_origin \<Rightarrow> ident option \<Rightarrow> time \<Rightarrow> judging" where
  "new_judging i code kind origin by now =
     \<lparr>ju_id = i, ju_competition_id = cs_competition_id code, ju_code_submission_id = cs_id code,
      ju_challenge_id = cs_challenge_id code, ju_user_id = cs_user_id code,
      ju_team_id = cs_team_id code, ju_kind = kind, ju_origin = origin,
      ju_requested_by_user_id = by, ju_note = None, ju_status = Judging_Queued, ju_verdict = None,
      ju_claimed_at = None, ju_deadline_at = None, ju_finished_at = None, ju_attempts = 0,
      ju_compile_output = None, ju_max_time_ms = None, ju_max_memory_kb = None,
      ju_tests_passed = None, ju_tests_total = None, ju_error = None, ju_problem_version = None,
      ju_submission_id = None, ju_created_at = now\<rparr>"

text \<open>\<open>queue_code\<close> after the source is stored: the code submission and its first judging.\<close>

definition queue_code :: "code_submission \<Rightarrow> ident \<Rightarrow> time \<Rightarrow> db \<Rightarrow> judging \<times> db \<times> event list" where
  "queue_code code jid now d =
     (let j = new_judging jid code (cs_kind code) Origin_Submission None now in
      (j, d\<lparr>db_code_submissions := db_code_submissions d @ [code], db_judgings := db_judgings d @ [j]\<rparr>,
       [Event ''judging.queued''
         [(''competition_id'', PStr (cs_competition_id code)), (''challenge_id'', PStr (cs_challenge_id code)),
          (''judging_id'', PStr jid), (''user_id'', PStr (cs_user_id code)),
          (''team_id'', pstr (cs_team_id code)), (''kind'', PStr (kind_name (cs_kind code)))]]))"

definition competition_with_judge :: "loaded \<Rightarrow> db \<Rightarrow> ident \<Rightarrow> competition res" where
  "competition_with_judge mods d cid =
     (case get_competition d cid of
        None \<Rightarrow> Inl (HTTPException 404 ''Competition not found'')
      | Some c \<Rightarrow>
          if \<not> is_module_enabled mods d ''judge'' (Some cid)
          then Inl (HTTPException 404 ''The code judge module is turned off for this competition'')
          else Inr c)"

definition scoped_judging :: "db \<Rightarrow> ident \<Rightarrow> ident \<Rightarrow> judging res" where
  "scoped_judging d cid jid =
     (case find (\<lambda>j. ju_id j = jid \<and> ju_competition_id j = cid) (db_judgings d) of
        None \<Rightarrow> Inl (HTTPException 404 ''Judging not found'')
      | Some j \<Rightarrow> Inr j)"

definition active_judging :: "db \<Rightarrow> ident \<Rightarrow> bool" where
  "active_judging d code = (count_where (\<lambda>j. ju_code_submission_id j = code
     \<and> ju_status j \<in> set ACTIVE_JUDGING_STATUSES) (db_judgings d) \<noteq> 0)"

text \<open>The new row of a rejudge or an override copies the judging it is for.\<close>

definition judging_like :: "judging \<Rightarrow> ident \<Rightarrow> judging_origin \<Rightarrow> ident \<Rightarrow> time \<Rightarrow> judging" where
  "judging_like j i origin actor now = j\<lparr>ju_id := i, ju_origin := origin,
     ju_requested_by_user_id := Some actor, ju_note := None, ju_status := Judging_Queued,
     ju_verdict := None, ju_claimed_at := None, ju_deadline_at := None, ju_finished_at := None,
     ju_attempts := 0, ju_compile_output := None, ju_max_time_ms := None, ju_max_memory_kb := None,
     ju_tests_passed := None, ju_tests_total := None, ju_error := None, ju_problem_version := None,
     ju_submission_id := None, ju_created_at := now\<rparr>"

definition rejudge_event :: "ident \<Rightarrow> ident \<Rightarrow> ident option \<Rightarrow> ident \<Rightarrow> int \<Rightarrow> event" where
  "rejudge_event cid chid jid actor n = Event ''judging.rejudge_requested''
     [(''competition_id'', PStr cid), (''challenge_id'', PStr chid), (''judging_id'', pstr jid),
      (''user_id'', PStr actor), (''count'', PInt n)]"

definition rejudge_one :: "loaded \<Rightarrow> ident \<Rightarrow> ident \<Rightarrow> ident \<Rightarrow> ident \<Rightarrow> time \<Rightarrow> db \<Rightarrow> judging outcome" where
  "rejudge_one mods cid jid actor fresh now d =
     (case res_bind (competition_with_judge mods d cid) (\<lambda>_. scoped_judging d cid jid) of
        Inl e \<Rightarrow> (Inl e, d, [])
      | Inr j \<Rightarrow>
          if ju_kind j \<noteq> Submit_Kind
          then raise d 400 ''Only scored submissions are rejudged, not example runs''
          else if active_judging d (ju_code_submission_id j)
          then raise d 409 ''This submission is already waiting to be judged''
          else (let new = judging_like j fresh Origin_Rejudge actor now in
                (Inr new, d\<lparr>db_judgings := db_judgings d @ [new]\<rparr>,
                 [rejudge_event cid (ju_challenge_id j) (Some fresh) actor 1])))"

text \<open>\<open>rejudge_problem\<close>: each scored submission with its newest finished judging decides.\<close>

datatype rejudge_only = Only_All | Only_Accepted | Only_Not_Accepted

datatype rejudge_decision = Filtered_Out | Left_Overridden | Still_Waiting | Requeue

definition newest_done :: "db \<Rightarrow> ident \<Rightarrow> ident \<Rightarrow> ident \<Rightarrow> judging option" where
  "newest_done d cid chid code =
     (case rev (sort_key queue_order (filter (\<lambda>j. ju_competition_id j = cid \<and> ju_challenge_id j = chid
          \<and> ju_status j = Judging_Done \<and> ju_code_submission_id j = code) (db_judgings d))) of
        [] \<Rightarrow> None | j # _ \<Rightarrow> Some j)"

definition rejudge_decide :: "db \<Rightarrow> ident \<Rightarrow> ident \<Rightarrow> rejudge_only \<Rightarrow> code_submission \<Rightarrow> rejudge_decision" where
  "rejudge_decide d cid chid only code =
     (let newest = newest_done d cid chid (cs_id code);
          accepted = (Option.bind newest ju_verdict = Some Accepted);
          waiting = list_ex (\<lambda>j. ju_competition_id j = cid \<and> ju_challenge_id j = chid
            \<and> ju_status j = Judging_Queued \<and> ju_code_submission_id j = cs_id code) (db_judgings d)
      in if only = Only_Accepted \<and> \<not> accepted then Filtered_Out
         else if only = Only_Not_Accepted \<and> accepted then Filtered_Out
         else if map_option ju_origin newest = Some Origin_Override then Left_Overridden
         else if waiting then Still_Waiting
         else Requeue)"

definition rejudge_problem ::
  "loaded \<Rightarrow> ident \<Rightarrow> ident \<Rightarrow> rejudge_only \<Rightarrow> ident \<Rightarrow> (nat \<Rightarrow> ident) \<Rightarrow> time \<Rightarrow> db
     \<Rightarrow> (nat \<times> nat \<times> nat) outcome" where
  "rejudge_problem mods cid chid only actor fresh now d =
     (case competition_with_judge mods d cid of
        Inl e \<Rightarrow> (Inl e, d, [])
      | Inr _ \<Rightarrow>
          if \<not> list_ex (\<lambda>c. ch_id c = chid \<and> ch_competition_id c = cid) (db_challenges d)
          then raise d 404 ''Challenge not found''
          else (let codes = sort_key (\<lambda>c. (cs_created_at c, cs_id c))
                  (filter (\<lambda>c. cs_competition_id c = cid \<and> cs_challenge_id c = chid \<and> cs_kind c = Submit_Kind)
                     (db_code_submissions d));
                    chosen = filter (\<lambda>c. rejudge_decide d cid chid only c = Requeue) codes;
                    new = map (\<lambda>(n, c). new_judging (fresh n) c Submit_Kind Origin_Rejudge (Some actor) now)
                            (enumerate 0 chosen);
                    tally = (\<lambda>x. count_where (\<lambda>c. rejudge_decide d cid chid only c = x) codes)
                in (Inr (length chosen, tally Still_Waiting, tally Left_Overridden),
                    d\<lparr>db_judgings := db_judgings d @ new\<rparr>,
                    if chosen = [] then [] else [rejudge_event cid chid None actor (int (length chosen))])))"

definition override_row :: "judging \<Rightarrow> ident \<Rightarrow> ident \<Rightarrow> verdict \<Rightarrow> string \<Rightarrow> time \<Rightarrow> judging" where
  "override_row j i actor v reason now =
     (judging_like j i Origin_Override actor now)
       \<lparr>ju_note := Some reason, ju_status := Judging_Done, ju_verdict := Some v, ju_finished_at := Some now\<rparr>"

definition override_verdict ::
  "loaded \<Rightarrow> ident \<Rightarrow> ident \<Rightarrow> ident \<Rightarrow> verdict \<Rightarrow> string \<Rightarrow> ident \<Rightarrow> ident \<Rightarrow> time \<Rightarrow> db
     \<Rightarrow> (judging \<times> bool) outcome" where
  "override_verdict mods cid jid actor v reason fresh rid now d =
     (case res_bind (competition_with_judge mods d cid) (\<lambda>_. scoped_judging d cid jid) of
        Inl e \<Rightarrow> (Inl e, d, [])
      | Inr j \<Rightarrow>
          if ju_kind j \<noteq> Submit_Kind
          then raise d 400 ''Only scored submissions can be overridden, not example runs''
          else (let new = override_row j fresh actor v reason now;
                    (rec, d2) = record_verdict new v rid now (d\<lparr>db_judgings := db_judgings d @ [new]\<rparr>);
                    (drop_boards, events) = emit_recorded rec new
                in (Inr (new, drop_boards), d2,
                    Event ''judging.overridden''
                      [(''competition_id'', PStr cid), (''challenge_id'', PStr (ju_challenge_id new)),
                       (''judging_id'', PStr fresh), (''user_id'', PStr actor),
                       (''submitter_user_id'', PStr (ju_user_id new)), (''team_id'', pstr (ju_team_id new)),
                       (''verdict'', PStr (verdict_name v)), (''reason'', PStr reason)] # events)))"

text \<open>The judge's module, for the concrete inputs of witnesses.\<close>

definition judge_module :: module_manifest where
  "judge_module = \<lparr>mm_id = ''judge'', mm_name = ''Code judge'', mm_version = ''1'', mm_description = [],
     mm_required_core = False, mm_provides_routes = True, mm_provides_event_listeners = False,
     mm_dependencies = [], mm_kind = Module_Kind, mm_trust_tier = None, mm_capabilities = []\<rparr>"

section \<open>Status table\<close>

interpretation judging_table: lifecycle JUDGING_TRANSITIONS "\<lambda>s. s = Judging_Done \<or> s = Judging_Failed"
  by unfold_locales auto

section \<open>The reclaim loop ends\<close>

lemma update_judgings_simps [simp]:
  "fst (update_judgings P f d) = count_where P (db_judgings d)"
  "snd (update_judgings P f d) = d\<lparr>db_judgings := update_where P f (db_judgings d)\<rparr>"
  by (simp_all add: update_judgings_def)

lemma not_overdue_reclaimed [simp]: "\<not> overdue now (reclaim_values g t j)"
  by (simp add: overdue_def reclaim_values_def failed_values_def)

lemma overdue_update_le:
  "count_where (overdue now) (update_where P (reclaim_values g t) js) \<le> count_where (overdue now) js"
  by (induction js) auto

lemma overdue_update_less:
  "j \<in> set js \<Longrightarrow> P j \<Longrightarrow> overdue now j \<Longrightarrow>
     count_where (overdue now) (update_where P (reclaim_values g t) js) < count_where (overdue now) js"
  by (induction js) (auto intro: le_imp_less_Suc overdue_update_le)

lemma reclaim_each_state:
  "snd (snd (reclaim_each t (j # js) d)) =
     snd (snd (reclaim_each t js (snd (update_judgings
       (fenced \<lparr>cl_judging_id = ju_id j, cl_attempt = ju_attempts j\<rparr>)
       (reclaim_values (ju_attempts j \<ge> MAX_ATTEMPTS) t) d))))"
  by (simp add: Let_def update_judgings_def split: prod.split)

lemma reclaim_each_le:
  "count_where (overdue now) (db_judgings (snd (snd (reclaim_each t js d))))
     \<le> count_where (overdue now) (db_judgings d)"
proof (induction js arbitrary: d)
  case (Cons j js)
  show ?case
    unfolding reclaim_each_state
    by (rule order_trans [OF Cons.IH]) (simp add: overdue_update_le)
qed simp

lemma reclaim_pass_less:
  assumes "filter (overdue now) (db_judgings d) \<noteq> []"
  shows "count_where (overdue now) (db_judgings (snd (snd (reclaim_pass d now d))))
    < count_where (overdue now) (db_judgings d)"
proof -
  obtain j js where js: "take JUDGE_REAP_BATCH (filter (overdue now) (db_judgings d)) = j # js"
    using assms by (cases "filter (overdue now) (db_judgings d)") (auto simp: JUDGE_REAP_BATCH_def)
  then have j: "j \<in> set (db_judgings d)" "overdue now j"
    using in_set_takeD [of j JUDGE_REAP_BATCH "filter (overdue now) (db_judgings d)"] by simp_all
  let ?P = "fenced \<lparr>cl_judging_id = ju_id j, cl_attempt = ju_attempts j\<rparr>"
  let ?u = "update_judgings ?P (reclaim_values (ju_attempts j \<ge> MAX_ATTEMPTS) now) d"
  have "?P j" using j by (simp add: fenced_def overdue_def)
  then have "count_where (overdue now) (db_judgings (snd ?u)) < count_where (overdue now) (db_judgings d)"
    using j by (simp add: overdue_update_less)
  moreover have "count_where (overdue now) (db_judgings (snd (snd (reclaim_each now js (snd ?u)))))
      \<le> count_where (overdue now) (db_judgings (snd ?u))"
    by (rule reclaim_each_le)
  ultimately show ?thesis by (simp only: reclaim_pass_def js reclaim_each_state)
qed

function reclaim :: "time \<Rightarrow> db \<Rightarrow> nat \<times> judging list \<times> db" where
  "reclaim now d =
     (let (k, failed, d') = reclaim_pass d now d
      in if length (take JUDGE_REAP_BATCH (filter (overdue now) (db_judgings d))) < JUDGE_REAP_BATCH
         then (k, failed, d')
         else (let (k', failed', d'') = reclaim now d' in (k + k', failed @ failed', d'')))"
  by pat_completeness auto

termination
proof (relation "measure (\<lambda>(now, d). count_where (overdue now) (db_judgings d))")
  fix now d x k y failed d'
  assume "x = reclaim_pass d now d" "(k, y) = x" "(failed, d') = y"
    and full: "\<not> length (take JUDGE_REAP_BATCH (filter (overdue now) (db_judgings d))) < JUDGE_REAP_BATCH"
  then have d': "d' = snd (snd (reclaim_pass d now d))" by (metis snd_conv)
  have "filter (overdue now) (db_judgings d) \<noteq> []" using full by (auto simp: JUDGE_REAP_BATCH_def)
  then show "((now, d'), now, d) \<in> measure (\<lambda>(now, d). count_where (overdue now) (db_judgings d))"
    by (simp add: d' reclaim_pass_less)
qed simp

declare reclaim.simps [simp del]

text \<open>\<open>reap_judgings\<close>: the reclaimed count, the containers kept, the state and the events.\<close>

definition reap_judgings :: "time \<Rightarrow> db \<Rightarrow> (nat \<times> ident list option) \<times> db \<times> event list" where
  "reap_judgings now d =
     (let (k, failed, d') = reclaim now d
      in ((k, sweep_keep now d'), d', map (\<lambda>j. emit_completed j Internal_Error) failed))"

end
