(* ===== verification/Judge_World.thy ===== *)
theory Judge_World
  imports Judge
begin

text \<open>
  The judge as a system: any number of workers between two of their sessions, the reaper, the
  jury's routes, competitors queueing code and submitting flags to other challenges. One step is
  one database session, in any order and from whatever stale read; a claim may be used any number
  of times, by any process, at any later moment. The invariant ties every score to the newest
  finished judging of its code and every award to the earliest correct submission.
\<close>

section \<open>What a grade and a regrade do to the rows\<close>

lemma credit_simps [simp]:
  "sj_kind (team_credit t) = Team_Kind" "sj_id (team_credit t) = t" "sj_team_id (team_credit t) = Some t"
  "sj_kind (user_credit u) = User_Kind" "sj_id (user_credit u) = u" "sj_team_id (user_credit u) = None"
  "wf_subject (team_credit t)" "wf_subject (user_credit u)"
  by (simp_all add: team_credit_def user_credit_def wf_subject_def)

lemma row_credit_updates [simp]:
  "row_credit (r\<lparr>su_points_awarded := p\<rparr>) = row_credit r"
  "row_credit (r\<lparr>su_is_duplicate := dup\<rparr>) = row_credit r"
  "row_credit (r\<lparr>su_is_correct := c\<rparr>) = row_credit r"
  by (simp_all add: row_credit_def split: option.split)

lemma row_credit_settled [simp]: "row_credit (settled_row ch s rows r) = row_credit r"
  by (simp add: settled_row_def)

lemma wf_row_credit [simp]: "wf_subject (row_credit r)"
  by (simp add: row_credit_def split: option.split)

lemma wf_judging_credit: "judging_credit c j = Some s \<Longrightarrow> wf_subject s"
  by (auto simp: judging_credit_def split: if_splits)

text \<open>The rows a well-formed subject owns are the rows credited to it.\<close>

lemma mine_credit: "wf_subject s \<Longrightarrow> mine ch s r \<longleftrightarrow> su_challenge_id r = ch \<and> row_credit r = s"
  by (cases s)
     (auto simp: mine_def subject_solve_filter_def row_credit_def wf_subject_def team_credit_def
       user_credit_def split: option.splits if_splits subject_kind.splits intro: subject_kind.exhaust)

lemma subject_key_credit: "subject_key r = (su_challenge_id r, sj_id (row_credit r))"
  by (simp add: subject_key_def row_credit_def coalesce_def split: option.split)

text \<open>What scoring knows of a row, its points and flags of duplication aside.\<close>

definition row_view :: "submission \<Rightarrow> ident \<times> ident \<times> subject \<times> (time \<times> ident) \<times> bool" where
  "row_view r = (su_id r, su_challenge_id r, row_credit r, solve_order r, su_is_correct r)"

lemma row_view_eqD:
  assumes "map row_view xs = map row_view ys"
  shows "map su_id xs = map su_id ys" "length xs = length ys"
proof -
  have "map fst (map row_view xs) = map fst (map row_view ys)" using assms by simp
  then show "map su_id xs = map su_id ys" by (simp add: comp_def row_view_def)
  show "length xs = length ys" using assms by (rule map_eq_imp_length_eq)
qed

lemma row_view_revalue [simp]: "map row_view (revalue ch b rows) = map row_view rows"
  unfolding revalue_def
  by (rule map_update_where) (simp add: row_view_def solve_order_def Let_def)

lemma row_view_settled [simp]: "row_view (settled_row ch s rows r) = row_view r"
  by (simp add: row_view_def solve_order_def)

lemma row_view_changed:
  "map row_view (flush_changed rid c rows) =
     map (\<lambda>r. (su_id r, su_challenge_id r, row_credit r, solve_order r,
       if su_id r = rid then c else su_is_correct r)) rows"
  by (auto simp: flush_changed_def update_where_def row_view_def solve_order_def)

lemma regrade_map:
  assumes "distinct (map su_id (db_submissions d))"
  shows "\<exists>H. db_submissions (snd (regrade ch s rid c d)) = map H (db_submissions d)
    \<and> (\<forall>r. row_view (H r) = (su_id r, su_challenge_id r, row_credit r, solve_order r,
           if su_id r = rid then c else su_is_correct r))
    \<and> (\<forall>r. \<not> mine (ch_id ch) s r \<and> su_id r \<noteq> rid \<longrightarrow> awarded (H r) = awarded r)"
proof -
  let ?change = "\<lambda>r. if su_id r = rid
      then r\<lparr>su_is_correct := c, su_is_duplicate := c, su_points_awarded := 0\<rparr> else r"
  let ?rows1 = "flush_changed rid c (db_submissions d)"
  let ?pay = "\<lambda>b q. if awarded_on (ch_id ch) q
      then (let net = b - su_mc_penalty q in q\<lparr>su_points_awarded := if net < 0 then 0 else net\<rparr>) else q"
  obtain b where b: "db_submissions (snd (regrade ch s rid c d))
      = revalue (ch_id ch) b (map (settled_row (ch_id ch) s ?rows1) ?rows1)"
    using regrade_submissions [OF assms refl refl] by blast
  let ?H = "\<lambda>r. ?pay b (settled_row (ch_id ch) s ?rows1 (?change r))"
  have "db_submissions (snd (regrade ch s rid c d)) = map ?H (db_submissions d)"
    unfolding b by (simp add: revalue_def flush_changed_def update_where_def comp_def)
  moreover have "\<forall>r. row_view (?H r) = (su_id r, su_challenge_id r, row_credit r, solve_order r,
      if su_id r = rid then c else su_is_correct r)"
    by (simp add: row_view_def solve_order_def Let_def)
  moreover have "\<forall>r. \<not> mine (ch_id ch) s r \<and> su_id r \<noteq> rid \<longrightarrow> awarded (?H r) = awarded r"
    by (simp add: Let_def awarded_def settled_other)
  ultimately show ?thesis by blast
qed

text \<open>With the award: what \<open>awards_settled\<close> below depends on.\<close>

definition full_view :: "submission \<Rightarrow> (ident \<times> ident \<times> subject \<times> (time \<times> ident) \<times> bool) \<times> bool" where
  "full_view r = (row_view r, awarded r)"

lemma full_view_row_view: "map full_view xs = map full_view ys \<Longrightarrow> map row_view xs = map row_view ys"
proof -
  assume "map full_view xs = map full_view ys"
  then have "map fst (map full_view xs) = map fst (map full_view ys)" by simp
  then show ?thesis by (simp add: comp_def full_view_def)
qed

lemma full_view_revalue [simp]: "map full_view (revalue ch b rows) = map full_view rows"
  unfolding revalue_def
  by (rule map_update_where) (simp add: full_view_def row_view_def solve_order_def awarded_def Let_def)

lemma subject_key_grade_row [simp]:
  "subject_key (grade_row g a b c) =
     (ch_id (gc_challenge g), coalesce (sj_team_id (gc_subject g)) (gc_user_id g))"
  by (simp add: subject_key_def grade_row_def)

lemma grade_row_simps [simp]:
  "su_id (grade_row g a b c) = gc_row_id g" "su_challenge_id (grade_row g a b c) = ch_id (gc_challenge g)"
  "su_is_correct (grade_row g a b c) = gc_correct g" "su_is_duplicate (grade_row g a b c) = a"
  "su_user_id (grade_row g a b c) = gc_user_id g"
  "su_team_id (grade_row g a b c) = sj_team_id (gc_subject g)"
  by (simp_all add: grade_row_def)

lemma record_grade_rows:
  obtains row where "go_submission (fst (record_grade read d g)) = row"
    and "map full_view (db_submissions (snd (record_grade read d g))) =
           map full_view (db_submissions d @ [row])"
    and "su_id row = gc_row_id g" and "su_challenge_id row = ch_id (gc_challenge g)"
    and "su_is_correct row = gc_correct g"
    and "su_user_id row = gc_user_id g" and "su_team_id row = sj_team_id (gc_subject g)"
    and "su_is_duplicate row \<longleftrightarrow> gc_correct g \<and>
      (subject_has_solved read (ch_id (gc_challenge g)) (gc_subject g)
       \<or> exists_where (\<lambda>r. awarded r \<and> subject_key r =
            (ch_id (gc_challenge g), coalesce (sj_team_id (gc_subject g)) (gc_user_id g))) (db_submissions d))"
proof -
  obtain fb base points penalty where fig: "grade_figures read g = (fb, base, points, penalty)"
    by (cases "grade_figures read g") auto
  have conflict: "index_conflict (db_submissions d) (grade_row g False points penalty) \<longleftrightarrow>
      gc_correct g \<and> exists_where (\<lambda>r. awarded r \<and> subject_key r =
        (ch_id (gc_challenge g), coalesce (sj_team_id (gc_subject g)) (gc_user_id g))) (db_submissions d)"
    unfolding index_conflict_def subject_key_grade_row awarded_grade_row by simp
  show ?thesis
  proof (cases "gc_correct g \<and> \<not> subject_has_solved read (ch_id (gc_challenge g)) (gc_subject g)")
    case True
    show ?thesis
      by (rule that [OF refl]) (simp_all add: record_grade_def Let_def fig conflict True)
  next
    case False
    then show ?thesis
      by (intro that [OF refl]) (auto simp add: record_grade_def Let_def)
  qed
qed

section \<open>Awards on the earliest correct submission\<close>

definition awards_settled :: "(ident \<times> subject) set \<Rightarrow> submission list \<Rightarrow> bool" where
  "awards_settled K rows = (\<forall>r\<in>set rows. (su_challenge_id r, row_credit r) \<in> K \<longrightarrow>
     (awarded r \<longleftrightarrow> su_is_correct r \<and> (\<forall>r'\<in>set rows. su_challenge_id r' = su_challenge_id r
        \<and> row_credit r' = row_credit r \<and> su_is_correct r' \<longrightarrow> solve_order r \<le> solve_order r')))"

lemma awards_settledD:
  "awards_settled K rows \<Longrightarrow> r \<in> set rows \<Longrightarrow> (su_challenge_id r, row_credit r) \<in> K \<Longrightarrow>
     awarded r \<longleftrightarrow> su_is_correct r \<and> (\<forall>r'\<in>set rows. su_challenge_id r' = su_challenge_id r
        \<and> row_credit r' = row_credit r \<and> su_is_correct r' \<longrightarrow> solve_order r \<le> solve_order r')"
  unfolding awards_settled_def by blast

lemma awards_settled_views:
  "awards_settled K rows = (\<forall>v\<in>full_view ` set rows. case v of ((i, ch, s, ord, c), a) \<Rightarrow> (ch, s) \<in> K \<longrightarrow>
     (a \<longleftrightarrow> c \<and> (\<forall>v'\<in>full_view ` set rows. case v' of ((i', ch', s', ord', c'), a') \<Rightarrow>
        ch' = ch \<and> s' = s \<and> c' \<longrightarrow> ord \<le> ord')))"
  by (simp add: awards_settled_def full_view_def row_view_def)

lemma awards_settled_cong:
  assumes "map full_view xs = map full_view ys"
  shows "awards_settled K xs = awards_settled K ys"
proof -
  have "full_view ` set xs = full_view ` set ys" using assms by (metis set_map)
  then show ?thesis by (simp only: awards_settled_views)
qed

lemma awards_settled_mono: "awards_settled K rows \<Longrightarrow> L \<subseteq> K \<Longrightarrow> awards_settled L rows"
  by (auto simp: awards_settled_def)

lemma awards_settled_append_wrong:
  "awards_settled K rows \<Longrightarrow> \<not> su_is_correct row \<Longrightarrow> awards_settled K (rows @ [row])"
  by (auto simp: awards_settled_def awarded_def)

lemma awards_settled_append_first:
  assumes "awards_settled K rows" "awarded row"
    and first: "\<And>r. r \<in> set rows \<Longrightarrow> su_challenge_id r = su_challenge_id row \<Longrightarrow> row_credit r = row_credit row
      \<Longrightarrow> \<not> su_is_correct r"
  shows "awards_settled K (rows @ [row])"
  unfolding awards_settled_def
proof (intro ballI impI)
  fix r assume r: "r \<in> set (rows @ [row])" and K: "(su_challenge_id r, row_credit r) \<in> K"
  let ?key = "\<lambda>r. (su_challenge_id r, row_credit r)"
  have "(awarded r \<longleftrightarrow> su_is_correct r \<and> (\<forall>r'\<in>set (rows @ [row]). ?key r' = ?key r \<and> su_is_correct r'
      \<longrightarrow> solve_order r \<le> solve_order r'))"
  proof (cases "?key r = ?key row")
    case True
    have only: "r' = row" if "r' \<in> set (rows @ [row])" "?key r' = ?key row" "su_is_correct r'" for r'
      using that first by auto
    show ?thesis
    proof (cases "r = row")
      case True
      with assms(2) only show ?thesis unfolding awarded_def by blast
    next
      case False
      with r only True have "\<not> su_is_correct r" by blast
      then show ?thesis by (simp add: awarded_def)
    qed
  next
    case False
    with r have "r \<in> set rows" by auto
    with assms(1) K False show ?thesis unfolding awards_settled_def by auto
  qed
  then show "awarded r \<longleftrightarrow> su_is_correct r \<and> (\<forall>r'\<in>set (rows @ [row]). su_challenge_id r' = su_challenge_id r
      \<and> row_credit r' = row_credit r \<and> su_is_correct r' \<longrightarrow> solve_order r \<le> solve_order r')"
    by simp
qed

lemma awards_settled_append_other:
  assumes "awards_settled K rows" "(su_challenge_id row, row_credit row) \<notin> K"
  shows "awards_settled K (rows @ [row])"
  using assms unfolding awards_settled_def by auto

lemma regrade_settles:
  assumes dist: "distinct (map su_id (db_submissions d))" and wf: "wf_subject s"
    and other: "awards_settled (K - {(ch_id ch, s)}) (db_submissions d)"
    and changed: "\<And>r. r \<in> set (db_submissions d) \<Longrightarrow> su_id r = rid \<Longrightarrow>
      su_challenge_id r = ch_id ch \<and> row_credit r = s"
  shows "awards_settled (insert (ch_id ch, s) K) (db_submissions (snd (regrade ch s rid c d)))"
proof -
  let ?rows = "db_submissions d" and ?rows' = "db_submissions (snd (regrade ch s rid c d))"
  obtain H where H: "?rows' = map H ?rows"
    and view: "\<And>r. row_view (H r) = (su_id r, su_challenge_id r, row_credit r, solve_order r,
           if su_id r = rid then c else su_is_correct r)"
    and aw: "\<And>r. \<not> mine (ch_id ch) s r \<Longrightarrow> su_id r \<noteq> rid \<Longrightarrow> awarded (H r) = awarded r"
    using regrade_map [OF dist, of ch s rid c] by metis
  have same: "su_challenge_id (H r) = su_challenge_id r" "row_credit (H r) = row_credit r"
      "solve_order (H r) = solve_order r" "su_is_correct (H r) = (if su_id r = rid then c else su_is_correct r)" for r
    using view [of r] by (simp_all add: row_view_def)
  show ?thesis
    unfolding awards_settled_def
  proof (intro ballI impI)
    fix r assume r: "r \<in> set ?rows'" and K: "(su_challenge_id r, row_credit r) \<in> insert (ch_id ch, s) K"
    from r H obtain q where q: "q \<in> set ?rows" "r = H q" by auto
    show "awarded r \<longleftrightarrow> su_is_correct r \<and> (\<forall>r'\<in>set ?rows'. su_challenge_id r' = su_challenge_id r
        \<and> row_credit r' = row_credit r \<and> su_is_correct r' \<longrightarrow> solve_order r \<le> solve_order r')"
    proof (cases "su_challenge_id r = ch_id ch \<and> row_credit r = s")
      case True
      then have "mine (ch_id ch) s r" using mine_credit [OF wf] by blast
      from regrade_awarded_iff [OF dist refl r this] show ?thesis
        using True by (simp add: mine_credit [OF wf])
    next
      case False
      then have nq: "\<not> (su_challenge_id q = ch_id ch \<and> row_credit q = s)" using q same by simp
      have unchanged: "su_id x \<noteq> rid"
        if "x \<in> set ?rows" "su_challenge_id x = su_challenge_id q" "row_credit x = row_credit q" for x
        using changed [OF that(1)] that nq by auto
      have "awarded r = awarded q" "su_is_correct r = su_is_correct q"
        using q aw nq unchanged [OF q(1)] same by (simp_all add: mine_credit [OF wf])
      moreover have "awarded q \<longleftrightarrow> su_is_correct q \<and> (\<forall>r'\<in>set ?rows. su_challenge_id r' = su_challenge_id q
          \<and> row_credit r' = row_credit q \<and> su_is_correct r' \<longrightarrow> solve_order q \<le> solve_order r')"
        by (rule awards_settledD [OF other q(1)]) (use K nq q(2) same in auto)
      moreover have "(\<forall>r'\<in>set ?rows. su_challenge_id r' = su_challenge_id q
          \<and> row_credit r' = row_credit q \<and> su_is_correct r' \<longrightarrow> solve_order q \<le> solve_order r') \<longleftrightarrow>
        (\<forall>r'\<in>set ?rows'. su_challenge_id r' = su_challenge_id r
          \<and> row_credit r' = row_credit r \<and> su_is_correct r' \<longrightarrow> solve_order r \<le> solve_order r')"
        unfolding H q(2) set_map ball_simps same
      proof (rule ball_cong [OF refl])
        fix x assume x: "x \<in> set ?rows"
        show "(su_challenge_id x = su_challenge_id q \<and> row_credit x = row_credit q \<and> su_is_correct x
            \<longrightarrow> solve_order q \<le> solve_order x) =
          (su_challenge_id x = su_challenge_id q \<and> row_credit x = row_credit q
            \<and> (if su_id x = rid then c else su_is_correct x) \<longrightarrow> solve_order q \<le> solve_order x)"
          using unchanged [OF x] by (cases "su_id x = rid"; simp; blast)
      qed
      ultimately show ?thesis by blast
    qed
  qed
qed

section \<open>Scores follow the newest finished judging\<close>

text \<open>
  What scoring knows of a finished judging: its code, its place in the order, its verdict; and
  the verdict that decides a code, the one of the newest.
\<close>

type_synonym judging_view = "ident \<times> (time \<times> ident) \<times> verdict option"

definition judging_view :: "judging \<Rightarrow> judging_view" where
  "judging_view j = (ju_code_submission_id j, queue_order j, ju_verdict j)"

definition done_views :: "db \<Rightarrow> judging_view set" where
  "done_views d = judging_view ` {j \<in> set (db_judgings d). ju_status j = Judging_Done}"

definition deciding :: "('c \<times> ('q::linorder) \<times> 'v) set \<Rightarrow> 'c \<Rightarrow> 'v \<Rightarrow> bool" where
  "deciding V c v = (\<exists>q. (c, q, v) \<in> V \<and> (\<forall>q' v'. (c, q', v') \<in> V \<longrightarrow> q' \<le> q))"

lemma deciding_insert_other [simp]:
  "c' \<noteq> c \<Longrightarrow> deciding (insert (c, q, v) V) c' w = deciding V c' w"
  by (auto simp: deciding_def)

lemma deciding_insert_low:
  assumes "(c, q0, v0) \<in> V" "q < q0"
  shows "deciding (insert (c, q, v) V) c w = deciding V c w"
proof
  assume "deciding (insert (c, q, v) V) c w"
  then obtain p where p: "(c, p, w) \<in> insert (c, q, v) V"
      "\<And>q' v'. (c, q', v') \<in> insert (c, q, v) V \<Longrightarrow> q' \<le> p"
    by (auto simp: deciding_def)
  from p(2) [of q0 v0] assms(1) have "q0 \<le> p" by blast
  with assms(2) p show "deciding V c w" unfolding deciding_def by auto
next
  assume "deciding V c w"
  then obtain p where p: "(c, p, w) \<in> V" "\<And>q' v'. (c, q', v') \<in> V \<Longrightarrow> q' \<le> p"
    by (auto simp: deciding_def)
  from p(2) assms have "q \<le> p" by fastforce
  with p show "deciding (insert (c, q, v) V) c w" unfolding deciding_def by blast
qed

lemma deciding_insert_top:
  assumes "\<And>q' v'. (c, q', v') \<in> V \<Longrightarrow> q' < q"
  shows "deciding (insert (c, q, v) V) c w \<longleftrightarrow> w = v"
proof
  assume "deciding (insert (c, q, v) V) c w"
  then obtain p where p: "(c, p, w) \<in> insert (c, q, v) V" "q \<le> p"
    by (auto simp: deciding_def)
  with assms have "(c, p, w) \<notin> V" by fastforce
  with p show "w = v" by simp
next
  assume "w = v"
  then show "deciding (insert (c, q, v) V) c w"
    unfolding deciding_def by (intro exI [of _ q]) (auto dest: assms)
qed

definition judged :: "('c \<times> 'q \<times> 'v) set \<Rightarrow> 'c \<Rightarrow> bool" where
  "judged V c = (\<exists>q v. (c, q, v) \<in> V)"

lemma judged_insert [simp]: "judged (insert (c, q, v) V) c' \<longleftrightarrow> c' = c \<or> judged V c'"
  by (auto simp: judged_def)

lemma judgedI: "(c, q, v) \<in> V \<Longrightarrow> judged V c"
  by (auto simp: judged_def)

text \<open>
  Whose verdicts are credited: code handed in for a team always is (to the team or, in a competition
  without teams, to its user); code of a user with no team is credited to the user, unless its
  competition is in team mode when the verdict is recorded. The set \<open>T\<close> holds competitions which
  are not.
\<close>

definition credited :: "ident set \<Rightarrow> code_submission \<Rightarrow> bool" where
  "credited T code \<longleftrightarrow> cs_team_id code \<noteq> None \<or> cs_competition_id code \<in> T"

definition teamless :: "ident set \<Rightarrow> db \<Rightarrow> bool" where
  "teamless T d \<longleftrightarrow> (\<forall>c\<in>set (db_competitions d). co_id c \<in> T \<longrightarrow> co_participation_mode c \<noteq> Team_Mode)"

lemma teamless_empty [simp]: "teamless {} d"
  by (simp add: teamless_def)

text \<open>
  One code's score: unscored, it has no finished scored judging (unless there was nobody to
  credit); scored, its submission row carries the deciding verdict.
\<close>

definition scored_ok ::
  "ident set \<Rightarrow> judging_view set \<Rightarrow> (ident \<times> ident \<times> subject \<times> (time \<times> ident) \<times> bool) set \<Rightarrow> code_submission \<Rightarrow> bool" where
  "scored_ok T V R code =
     (case cs_submission_id code of
        None \<Rightarrow> \<not> (cs_kind code = Submit_Kind \<and> credited T code \<and> judged V (cs_id code))
      | Some s \<Rightarrow> cs_kind code = Submit_Kind \<and> judged V (cs_id code)
          \<and> (\<exists>cr ord b. (s, cs_challenge_id code, cr, ord, b) \<in> R
               \<and> (\<forall>v. deciding V (cs_id code) v \<longrightarrow> b = (v = Some Accepted))))"

lemma scored_ok_other_code:
  "cs_id code \<noteq> c \<Longrightarrow> scored_ok T (insert (c, q, v) V) R code = scored_ok T V R code"
  by (simp add: scored_ok_def split: option.split)

lemma scored_ok_more_rows: "scored_ok T V R code \<Longrightarrow> R \<subseteq> R' \<Longrightarrow> scored_ok T V R' code"
  by (auto simp: scored_ok_def split: option.splits) blast

section \<open>The invariant\<close>

definition programming :: "db \<Rightarrow> ident \<Rightarrow> bool" where
  "programming d i = (case get_challenge d i of None \<Rightarrow> False | Some ch \<Rightarrow> ch_flag_type ch = Programming)"

definition copies_code :: "judging \<Rightarrow> code_submission \<Rightarrow> bool" where
  "copies_code j code = (ju_code_submission_id j = cs_id code
     \<and> ju_competition_id j = cs_competition_id code \<and> ju_challenge_id j = cs_challenge_id code
     \<and> ju_user_id j = cs_user_id code \<and> ju_team_id j = cs_team_id code \<and> ju_kind j = cs_kind code)"

text \<open>The columns of one judging agree with its status; the attempts stay within their bound.\<close>

definition judging_typed :: "judging \<Rightarrow> bool" where
  "judging_typed j = (0 \<le> ju_attempts j \<and> ju_attempts j \<le> MAX_ATTEMPTS \<and>
     (case ju_status j of
        Judging_Queued \<Rightarrow> ju_attempts j < MAX_ATTEMPTS \<and> ju_verdict j = None \<and> ju_finished_at j = None
          \<and> ju_claimed_at j = None \<and> ju_deadline_at j = None
      | Judging_Running \<Rightarrow> 0 < ju_attempts j \<and> ju_verdict j = None \<and> ju_finished_at j = None
          \<and> ju_claimed_at j \<noteq> None \<and> ju_deadline_at j \<noteq> None
      | Judging_Done \<Rightarrow> ju_verdict j \<noteq> None \<and> ju_finished_at j \<noteq> None
          \<and> (0 < ju_attempts j \<or> ju_origin j = Origin_Override)
      | Judging_Failed \<Rightarrow> ju_verdict j = Some Internal_Error \<and> ju_finished_at j \<noteq> None
          \<and> 0 < ju_attempts j))"

definition links_ok :: "code_submission list \<Rightarrow> bool" where
  "links_ok codes = (\<forall>c\<in>set codes. \<forall>c'\<in>set codes.
     cs_submission_id c \<noteq> None \<and> cs_submission_id c = cs_submission_id c' \<longrightarrow> cs_id c = cs_id c')"

lemma links_okD:
  "links_ok codes \<Longrightarrow> c \<in> set codes \<Longrightarrow> c' \<in> set codes \<Longrightarrow> cs_submission_id c = Some s \<Longrightarrow>
     cs_submission_id c' = Some s \<Longrightarrow> cs_id c = cs_id c'"
  unfolding links_ok_def by (drule bspec, assumption, drule bspec, assumption) simp

definition ids_ok :: "db \<Rightarrow> bool" where
  "ids_ok d = (distinct (map ju_id (db_judgings d)) \<and> distinct (map cs_id (db_code_submissions d))
     \<and> distinct (map su_id (db_submissions d))
     \<and> links_ok (db_code_submissions d))"

definition jobs_ok :: "code_submission list \<Rightarrow> judging list \<Rightarrow> bool" where
  "jobs_ok codes js = (\<forall>j\<in>set js. \<exists>code\<in>set codes. copies_code j code)"

definition refs_ok :: "db \<Rightarrow> bool" where
  "refs_ok d = (jobs_ok (db_code_submissions d) (db_judgings d)
     \<and> (\<forall>code\<in>set (db_code_submissions d). get_competition d (cs_competition_id code) \<noteq> None
          \<and> programming d (cs_challenge_id code)))"

definition award_keys :: "db \<Rightarrow> (ident \<times> subject) set" where
  "award_keys d = {(ch, s). programming d ch}"

text \<open>Everything but the scores, which a session that finishes a judging breaks for a moment.\<close>

definition judge_base :: "db \<Rightarrow> bool" where
  "judge_base d = (ids_ok d \<and> refs_ok d \<and> list_all judging_typed (db_judgings d)
     \<and> awards_settled (award_keys d) (db_submissions d))"

definition scores_ok :: "ident set \<Rightarrow> judging_view set \<Rightarrow> db \<Rightarrow> bool" where
  "scores_ok T V d = (\<forall>code\<in>set (db_code_submissions d). scored_ok T V (row_view ` set (db_submissions d)) code)"

definition judge_inv :: "ident set \<Rightarrow> db \<Rightarrow> bool" where
  "judge_inv T d = (judge_base d \<and> scores_ok T (done_views d) d)"

section \<open>Sessions that finish no judging\<close>

lemma frame_simps [simp]:
  "get_competition (d\<lparr>db_judgings := js\<rparr>) = get_competition d"
  "get_competition (d\<lparr>db_submissions := rs\<rparr>) = get_competition d"
  "get_competition (d\<lparr>db_code_submissions := cs\<rparr>) = get_competition d"
  "get_competition (d\<lparr>db_judging_runs := jr\<rparr>) = get_competition d"
  "get_challenge (d\<lparr>db_judgings := js\<rparr>) = get_challenge d"
  "get_challenge (d\<lparr>db_submissions := rs\<rparr>) = get_challenge d"
  "get_challenge (d\<lparr>db_code_submissions := cs\<rparr>) = get_challenge d"
  "get_challenge (d\<lparr>db_judging_runs := jr\<rparr>) = get_challenge d"
  by (simp_all add: get_competition_def get_challenge_def fun_eq_iff)

lemma programming_frame [simp]:
  "programming (d\<lparr>db_judgings := js\<rparr>) = programming d"
  "programming (d\<lparr>db_submissions := rs\<rparr>) = programming d"
  "programming (d\<lparr>db_code_submissions := cs\<rparr>) = programming d"
  "programming (d\<lparr>db_judging_runs := jr\<rparr>) = programming d"
  by (simp_all add: programming_def fun_eq_iff)

lemma award_keys_frame [simp]:
  "award_keys (d\<lparr>db_judgings := js\<rparr>) = award_keys d"
  "award_keys (d\<lparr>db_submissions := rs\<rparr>) = award_keys d"
  "award_keys (d\<lparr>db_code_submissions := cs\<rparr>) = award_keys d"
  "award_keys (d\<lparr>db_judging_runs := jr\<rparr>) = award_keys d"
  by (simp_all add: award_keys_def)

definition same_job :: "judging \<Rightarrow> judging \<Rightarrow> bool" where
  "same_job j j' = (ju_id j' = ju_id j \<and> ju_competition_id j' = ju_competition_id j
     \<and> ju_code_submission_id j' = ju_code_submission_id j \<and> ju_challenge_id j' = ju_challenge_id j
     \<and> ju_user_id j' = ju_user_id j \<and> ju_team_id j' = ju_team_id j \<and> ju_kind j' = ju_kind j
     \<and> ju_origin j' = ju_origin j \<and> ju_created_at j' = ju_created_at j)"

lemma copies_code_same_job: "same_job j j' \<Longrightarrow> copies_code j' code = copies_code j code"
  by (simp add: same_job_def copies_code_def)

lemma jobs_ok_map: "jobs_ok codes js \<Longrightarrow> (\<And>j. j \<in> set js \<Longrightarrow> same_job j (g j)) \<Longrightarrow> jobs_ok codes (map g js)"
  unfolding jobs_ok_def by (fastforce simp: copies_code_same_job)

lemma judge_base_update:
  assumes "judge_base d"
    and upd: "\<And>j. j \<in> set (db_judgings d) \<Longrightarrow> judging_typed j \<Longrightarrow> P j \<Longrightarrow> same_job j (f j) \<and> judging_typed (f j)"
  shows "judge_base (snd (update_judgings P f d))"
proof -
  let ?g = "\<lambda>j. if P j then f j else j"
  have typed: "\<And>j. j \<in> set (db_judgings d) \<Longrightarrow> judging_typed j"
    using assms(1) by (simp add: judge_base_def list_all_iff)
  have same: "same_job j (?g j)" if "j \<in> set (db_judgings d)" for j
    using upd [OF that typed [OF that]] by (simp add: same_job_def)
  have "map ju_id (update_where P f (db_judgings d)) = map ju_id (db_judgings d)"
    using upd typed by (intro map_update_where) (auto simp: same_job_def)
  then have "ids_ok (snd (update_judgings P f d))"
    using assms(1) by (simp add: judge_base_def ids_ok_def)
  moreover have "refs_ok (snd (update_judgings P f d))"
    using assms(1) jobs_ok_map [of _ "db_judgings d" ?g, OF _ same]
    by (simp add: judge_base_def refs_ok_def update_where_def)
  moreover have "list_all judging_typed (update_where P f (db_judgings d))"
    using typed upd by (auto simp: list_all_iff update_where_def)
  ultimately show ?thesis
    using assms(1) by (simp add: judge_base_def)
qed

lemma judge_inv_update [inv_intros]:
  assumes "judge_inv T d"
    and upd: "\<And>j. j \<in> set (db_judgings d) \<Longrightarrow> judging_typed j \<Longrightarrow> P j \<Longrightarrow>
      same_job j (f j) \<and> judging_typed (f j) \<and> ju_status j \<noteq> Judging_Done \<and> ju_status (f j) \<noteq> Judging_Done"
  shows "judge_inv T (snd (update_judgings P f d))"
proof -
  have typed: "\<And>j. j \<in> set (db_judgings d) \<Longrightarrow> judging_typed j"
    using assms(1) by (simp add: judge_inv_def judge_base_def list_all_iff)
  have "{j \<in> set (update_where P f (db_judgings d)). ju_status j = Judging_Done}
      = {j \<in> set (db_judgings d). ju_status j = Judging_Done}"
    using upd typed by (fastforce simp: set_update_where)
  then have "done_views (snd (update_judgings P f d)) = done_views d"
    by (simp add: done_views_def)
  moreover have "judge_base (snd (update_judgings P f d))"
    using assms by (intro judge_base_update) (auto simp: judge_inv_def)
  ultimately show ?thesis
    using assms(1) by (simp add: judge_inv_def scores_ok_def)
qed

lemmas typed_defs = judging_typed_def same_job_def fenced_def MAX_ATTEMPTS_def

lemma claim_first_inv: "judge_inv T d \<Longrightarrow> judge_inv T (snd (claim_first now is d))"
proof (induction "is" arbitrary: d)
  case (Cons i "is")
  let ?u = "update_judgings (\<lambda>j. ju_id j = i \<and> ju_status j = Judging_Queued) (claimed_values now) d"
  have "judge_inv T (snd ?u)"
    using Cons.prems by (rule judge_inv_update) (auto simp: typed_defs claimed_values_def)
  with Cons.IH [of "snd ?u"] show ?case
    by (simp add: Let_def update_judgings_def split: prod.split)
qed simp

lemma prepare_inv: "judge_inv T d \<Longrightarrow> judge_inv T (snd (prepare cl budget version now d))"
proof -
  assume inv: "judge_inv T d"
  have "judge_inv T (snd (update_judgings (fenced cl) (\<lambda>j. j\<lparr>ju_deadline_at := Some (now + budget + DEADLINE_SLACK),
      ju_problem_version := Some version\<rparr>) d))"
    using inv by (rule judge_inv_update) (auto simp: typed_defs)
  with inv show ?thesis
    by (auto simp: prepare_def Let_def update_judgings_def split: option.split)
qed

lemma give_up_inv: "judge_inv T d \<Longrightarrow> judge_inv T (fst (give_up_or_retry cl err retry now d))"
proof -
  assume inv: "judge_inv T d"
  have "judge_inv T (snd (update_judgings (fenced cl) (\<lambda>x. x\<lparr>ju_status := Judging_Queued,
      ju_claimed_at := None, ju_deadline_at := None, ju_error := Some (take 2000 err)\<rparr>) d))"
    if "cl_attempt cl < MAX_ATTEMPTS"
    using inv by (rule judge_inv_update) (use that in \<open>auto simp: typed_defs\<close>)
  moreover have "judge_inv T (snd (update_judgings (fenced cl) (failed_values (take 2000 err) now) d))"
    using inv by (rule judge_inv_update) (auto simp: typed_defs failed_values_def)
  ultimately show ?thesis
    using inv by (auto simp: give_up_or_retry_def Let_def update_judgings_def split: option.split)
qed

lemma reclaim_each_inv: "judge_inv T d \<Longrightarrow> judge_inv T (snd (snd (reclaim_each now js d)))"
proof (induction js arbitrary: d)
  case (Cons j js)
  have "judge_inv T (snd (update_judgings (fenced \<lparr>cl_judging_id = ju_id j, cl_attempt = ju_attempts j\<rparr>)
      (reclaim_values (ju_attempts j \<ge> MAX_ATTEMPTS) now) d))"
    using Cons.prems
    by (rule judge_inv_update) (auto simp: typed_defs reclaim_values_def failed_values_def)
  then show ?case unfolding reclaim_each_state by (rule Cons.IH)
qed simp

section \<open>Recording a verdict keeps scores and awards\<close>

lemma record_grade_frame:
  "snd (record_grade read d g) = d\<lparr>db_submissions := db_submissions (snd (record_grade read d g))\<rparr>"
  by (auto simp: record_grade_def Let_def split: prod.split)

lemma regrade_frame:
  "snd (regrade ch s rid c d) = d\<lparr>db_submissions := db_submissions (snd (regrade ch s rid c d))\<rparr>"
  by (simp add: regrade_def Let_def)

lemma link_simps [simp]:
  "db_submissions (link_judging jid sid d) = db_submissions d"
  "db_submissions (link_code cid sid d) = db_submissions d"
  "link_judging jid sid (d\<lparr>db_submissions := rs\<rparr>) = (link_judging jid sid d)\<lparr>db_submissions := rs\<rparr>"
  "link_code cid sid (d\<lparr>db_submissions := rs\<rparr>) = (link_code cid sid d)\<lparr>db_submissions := rs\<rparr>"
  by (simp_all add: link_judging_def link_code_def)

text \<open>A grade recorded and, when it duplicates an earlier award, reconciled: the rows after it.\<close>

lemma grade_reconciled:
  assumes dist: "distinct (map su_id (db_submissions d))" and fresh: "gc_row_id g \<notin> su_id ` set (db_submissions d)"
    and wf: "wf_subject (gc_subject g)" and settled: "awards_settled K (db_submissions d)"
    and credit: "\<And>row. su_user_id row = gc_user_id g \<Longrightarrow> su_team_id row = sj_team_id (gc_subject g) \<Longrightarrow>
      row_credit row = gc_subject g"
    and rg: "record_grade d d g = (out, d1)"
    and rows: "rows = (if su_is_correct (go_submission out) \<and> su_is_duplicate (go_submission out)
      then db_submissions (snd (regrade (gc_challenge g) (gc_subject g) (su_id (go_submission out)) True d1))
      else db_submissions d1)"
  obtains row where "map row_view rows = map row_view (db_submissions d @ [row])"
    and "su_id row = gc_row_id g" "su_challenge_id row = ch_id (gc_challenge g)" "su_is_correct row = gc_correct g"
    and "su_id (go_submission out) = gc_row_id g" "awards_settled K rows"
proof -
  obtain row where out: "go_submission out = row"
    and view: "map full_view (db_submissions d1) = map full_view (db_submissions d @ [row])"
    and row: "su_id row = gc_row_id g" "su_challenge_id row = ch_id (gc_challenge g)" "su_is_correct row = gc_correct g"
      "su_user_id row = gc_user_id g" "su_team_id row = sj_team_id (gc_subject g)"
    and dup: "su_is_duplicate row \<longleftrightarrow> gc_correct g \<and> (subject_has_solved d (ch_id (gc_challenge g)) (gc_subject g)
       \<or> exists_where (\<lambda>r. awarded r \<and> subject_key r =
            (ch_id (gc_challenge g), coalesce (sj_team_id (gc_subject g)) (gc_user_id g))) (db_submissions d))"
    by (rule record_grade_rows [of d d g, unfolded rg fst_conv snd_conv])
  have cr: "row_credit row = gc_subject g" using row by (intro credit)
  have rv: "map row_view (db_submissions d1) = map row_view (db_submissions d @ [row])"
    using view by (rule full_view_row_view)
  show ?thesis
  proof (cases "su_is_correct row \<and> su_is_duplicate row")
    case False
    have "awards_settled K (db_submissions d @ [row])"
    proof (cases "su_is_correct row")
      case True
      then have "\<not> subject_has_solved d (ch_id (gc_challenge g)) (gc_subject g)" and aw: "awarded row"
        using False dup row by (auto simp: awarded_def)
      then have "\<not> su_is_correct r" if "r \<in> set (db_submissions d)" "su_challenge_id r = ch_id (gc_challenge g)"
          "row_credit r = gc_subject g" for r
        using that mine_credit [OF wf, of "ch_id (gc_challenge g)" r]
        by (auto simp: subject_has_solved_def exists_where_iff mine_def)
      with settled aw show ?thesis using row cr by (intro awards_settled_append_first) auto
    qed (use settled in \<open>simp add: awards_settled_append_wrong\<close>)
    then have "awards_settled K (db_submissions d1)" by (simp only: awards_settled_cong [OF view])
    moreover have "rows = db_submissions d1" unfolding rows out by (rule if_not_P [OF False])
    ultimately show ?thesis using rv row out by (intro that [of row]) simp_all
  next
    case True
    let ?d' = "snd (regrade (gc_challenge g) (gc_subject g) (gc_row_id g) True d1)"
    have ids: "map su_id (db_submissions d1) = map su_id (db_submissions d) @ [gc_row_id g]"
      using row_view_eqD(1) [OF rv] row by simp
    have dist1: "distinct (map su_id (db_submissions d1))" using dist fresh by (simp add: ids)
    have views: "row_view ` set (db_submissions d1) = row_view ` set (db_submissions d @ [row])"
      using rv by (metis set_map)
    have new: "su_challenge_id r = ch_id (gc_challenge g) \<and> row_credit r = gc_subject g \<and> su_is_correct r"
      if r: "r \<in> set (db_submissions d1)" "su_id r = gc_row_id g" for r
    proof -
      have "row_view r \<in> row_view ` set (db_submissions d @ [row])" using r views by blast
      then obtain q where q: "q \<in> set (db_submissions d @ [row])" "row_view r = row_view q" by blast
      then have "q = row" using fresh r by (auto simp: row_view_def)
      with q True row cr show ?thesis by (simp add: row_view_def)
    qed
    have "awards_settled (K - {(ch_id (gc_challenge g), gc_subject g)}) (db_submissions d @ [row])"
      using settled row cr by (intro awards_settled_append_other) (auto intro: awards_settled_mono)
    then have "awards_settled (K - {(ch_id (gc_challenge g), gc_subject g)}) (db_submissions d1)"
      by (simp only: awards_settled_cong [OF view])
    then have "awards_settled (insert (ch_id (gc_challenge g), gc_subject g) K) (db_submissions ?d')"
      using new by (intro regrade_settles [OF dist1 wf]) blast+
    then have settled': "awards_settled K (db_submissions ?d')" by (rule awards_settled_mono) blast
    have "map row_view (db_submissions ?d') = map row_view (db_submissions d1)"
    proof -
      obtain H where H: "db_submissions ?d' = map H (db_submissions d1)"
        and hv: "\<And>r. row_view (H r) = (su_id r, su_challenge_id r, row_credit r, solve_order r,
           if su_id r = gc_row_id g then True else su_is_correct r)"
        using regrade_map [OF dist1, of "gc_challenge g" "gc_subject g" "gc_row_id g" True] by metis
      have "row_view (H r) = row_view r" if "r \<in> set (db_submissions d1)" for r
        unfolding hv unfolding row_view_def using new [OF that] by auto
      then show ?thesis by (simp add: H)
    qed
    moreover have "rows = db_submissions ?d'" unfolding rows out row(1) by (rule if_P [OF True])
    ultimately show ?thesis using settled' rv row out by (intro that [of row]) simp_all
  qed
qed

lemma queue_order_less:
  "queue_order j < queue_order x \<longleftrightarrow>
     ju_created_at j < ju_created_at x \<or> ju_created_at x = ju_created_at j \<and> ju_id j < ju_id x"
  by (auto simp: queue_order_def less_prod_def)

lemma is_latest_iff:
  assumes "distinct (map ju_id (db_judgings d))" "jn \<in> set (db_judgings d)" "same_job j jn"
  shows "is_latest_finished d j \<longleftrightarrow>
    (\<forall>q v. (ju_code_submission_id j, q, v) \<in> done_views d - {judging_view jn} \<longrightarrow> q < queue_order j)"
proof -
  have eq: "queue_order jn = queue_order j" "ju_code_submission_id jn = ju_code_submission_id j"
      "ju_id jn = ju_id j"
    using assms(3) by (simp_all add: same_job_def queue_order_def)
  have other: "judging_view x \<noteq> judging_view jn \<longleftrightarrow> ju_id x \<noteq> ju_id j" if "x \<in> set (db_judgings d)" for x
  proof
    assume "ju_id x \<noteq> ju_id j"
    then show "judging_view x \<noteq> judging_view jn" using eq by (auto simp: judging_view_def queue_order_def)
  next
    assume "judging_view x \<noteq> judging_view jn"
    then have "x \<noteq> jn" by blast
    with assms(1,2) that eq show "ju_id x \<noteq> ju_id j" by (metis distinct_map inj_onD)
  qed
  have "is_latest_finished d j \<longleftrightarrow> (\<forall>x\<in>set (db_judgings d). ju_code_submission_id x = ju_code_submission_id j
      \<and> ju_status x = Judging_Done \<and> ju_id x \<noteq> ju_id j \<longrightarrow> \<not> queue_order j < queue_order x)"
    unfolding is_latest_finished_def count_where_0_iff queue_order_less by blast
  also have "\<dots> \<longleftrightarrow> (\<forall>x\<in>set (db_judgings d). ju_code_submission_id x = ju_code_submission_id j
      \<and> ju_status x = Judging_Done \<and> judging_view x \<noteq> judging_view jn \<longrightarrow> queue_order x < queue_order j)"
  proof (rule ball_cong [OF refl])
    fix x assume x: "x \<in> set (db_judgings d)"
    have "queue_order j \<noteq> queue_order x" if "ju_id x \<noteq> ju_id j"
      using that by (simp add: queue_order_def)
    then have "(\<not> queue_order j < queue_order x) = (queue_order x < queue_order j)" if "ju_id x \<noteq> ju_id j"
      using that linorder_less_linear [of "queue_order j" "queue_order x"] less_asym by blast
    then show "(ju_code_submission_id x = ju_code_submission_id j \<and> ju_status x = Judging_Done
        \<and> ju_id x \<noteq> ju_id j \<longrightarrow> \<not> queue_order j < queue_order x) =
      (ju_code_submission_id x = ju_code_submission_id j \<and> ju_status x = Judging_Done
        \<and> judging_view x \<noteq> judging_view jn \<longrightarrow> queue_order x < queue_order j)"
      unfolding other [OF x] by blast
  qed
  also have "\<dots> \<longleftrightarrow> (\<forall>w\<in>done_views d - {judging_view jn}. fst w = ju_code_submission_id j \<longrightarrow>
      fst (snd w) < queue_order j)"
  proof -
    have views: "done_views d - {judging_view jn} = judging_view `
        {x \<in> set (db_judgings d). ju_status x = Judging_Done \<and> judging_view x \<noteq> judging_view jn}"
      by (auto simp: done_views_def)
    have parts: "fst (judging_view x) = ju_code_submission_id x" "fst (snd (judging_view x)) = queue_order x" for x
      by (simp_all add: judging_view_def)
    show ?thesis unfolding views ball_simps(9) parts by blast
  qed
  also have "\<dots> \<longleftrightarrow> (\<forall>q v. (ju_code_submission_id j, q, v) \<in> done_views d - {judging_view jn} \<longrightarrow> q < queue_order j)"
    by force
  finally show ?thesis .
qed

text \<open>The scores of the other codes do not see the new finished judging.\<close>

lemma scores_ok_other:
  assumes "scores_ok T V0 d" "codes = db_code_submissions d" "row_view ` set (db_submissions d) \<subseteq> R"
    and "code \<in> set codes" "cs_id code \<noteq> c"
  shows "scored_ok T (insert (c, q, v) V0) R code"
  using assms scored_ok_more_rows by (simp add: scores_ok_def scored_ok_other_code) blast

lemma scored_ok_not_latest:
  assumes "scored_ok T V0 R code" "(cs_id code, q0, v0) \<in> V0" "q < q0"
  shows "scored_ok T (insert (cs_id code, q, v) V0) R code"
  using assms(1) judgedI [OF assms(2)] deciding_insert_low [OF assms(2,3)]
  by (simp add: scored_ok_def split: option.splits)

lemma find_id_Some:
  assumes "distinct (map key xs)" "x \<in> set xs" "key x = i"
  shows "find (\<lambda>y. key y = i) xs = Some x"
proof -
  obtain y where y: "find (\<lambda>y. key y = i) xs = Some y"
    using assms(2,3) by (cases "find (\<lambda>y. key y = i) xs") (auto simp: find_None_iff)
  then have "y \<in> set xs" "key y = i" using find_Some_in by fastforce+
  with assms have "y = x" by (metis distinct_map inj_onD)
  with y show ?thesis by simp
qed

text \<open>Linking a code and a judging to a row, as updates of the tables.\<close>

lemma links_frame:
  "link_judging jid sid (link_code cid sid d) = d\<lparr>
     db_code_submissions := update_where (\<lambda>x. cs_id x = cid) (\<lambda>x. x\<lparr>cs_submission_id := Some sid\<rparr>) (db_code_submissions d),
     db_judgings := update_where (\<lambda>x. ju_id x = jid) (\<lambda>x. x\<lparr>ju_submission_id := Some sid\<rparr>) (db_judgings d)\<rparr>"
  by (simp add: link_judging_def link_code_def)

lemma done_views_link:
  "done_views (d\<lparr>db_judgings := update_where P (\<lambda>x. x\<lparr>ju_submission_id := sid\<rparr>) (db_judgings d)\<rparr>) = done_views d"
proof -
  define g where "g x = (if P x then x\<lparr>ju_submission_id := sid\<rparr> else x)" for x
  have g: "judging_view (g x) = judging_view x" "ju_status (g x) = ju_status x" for x
    by (simp_all add: judging_view_def queue_order_def g_def)
  have "judging_view ` {x \<in> g ` A. ju_status x = Judging_Done} = judging_view ` {x \<in> A. ju_status x = Judging_Done}" for A
  proof -
    have "{x \<in> g ` A. ju_status x = Judging_Done} = g ` {x \<in> A. ju_status x = Judging_Done}"
      by (auto simp: g(2))
    then show ?thesis by (simp only: image_image g(1))
  qed
  then show ?thesis by (simp add: done_views_def update_where_def flip: g_def)
qed

lemma done_views_frame [simp]:
  "done_views (d\<lparr>db_submissions := rs\<rparr>) = done_views d"
  "done_views (d\<lparr>db_code_submissions := cs\<rparr>) = done_views d"
  "done_views (d\<lparr>db_judging_runs := jr\<rparr>) = done_views d"
  by (simp_all add: done_views_def)

lemma judging_typed_link: "judging_typed (x\<lparr>ju_submission_id := sid\<rparr>) = judging_typed x"
  by (simp add: judging_typed_def split: judging_status.split)

lemma judge_base_link:
  "judge_base d \<Longrightarrow>
     judge_base (d\<lparr>db_judgings := update_where P (\<lambda>x. x\<lparr>ju_submission_id := sid\<rparr>) (db_judgings d)\<rparr>)"
  using judge_base_update [of d P "\<lambda>x. x\<lparr>ju_submission_id := sid\<rparr>"]
  by (simp add: same_job_def judging_typed_link)

text \<open>Giving one code a fresh row, with the row appended to the submissions.\<close>

lemma judge_base_code_link:
  assumes base: "judge_base d" and fresh: "sid \<notin> su_id ` set (db_submissions d)"
    and linked: "\<And>c s. c \<in> set (db_code_submissions d) \<Longrightarrow> cs_submission_id c = Some s \<Longrightarrow>
      s \<in> su_id ` set (db_submissions d)"
    and rows: "map su_id rows = map su_id (db_submissions d) @ [sid]" "awards_settled (award_keys d) rows"
  shows "judge_base (d\<lparr>db_submissions := rows, db_code_submissions :=
      update_where (\<lambda>x. cs_id x = cid) (\<lambda>x. x\<lparr>cs_submission_id := Some sid\<rparr>) (db_code_submissions d)\<rparr>)"
proof -
  let ?link = "\<lambda>x. x\<lparr>cs_submission_id := Some sid\<rparr>"
  let ?codes = "update_where (\<lambda>x. cs_id x = cid) ?link (db_code_submissions d)"
  have ids: "map cs_id ?codes = map cs_id (db_code_submissions d)" by (rule map_update_where) simp
  have old: "cs_submission_id c \<noteq> Some sid" if "c \<in> set (db_code_submissions d)" for c
    using linked [OF that] fresh by blast
  have "links_ok (db_code_submissions d)" using base by (simp add: judge_base_def ids_ok_def)
  then have "links_ok ?codes"
    unfolding links_ok_def set_update_where
  proof (intro ballI impI)
    fix c c'
    assume ok: "\<forall>c\<in>set (db_code_submissions d). \<forall>c'\<in>set (db_code_submissions d).
        cs_submission_id c \<noteq> None \<and> cs_submission_id c = cs_submission_id c' \<longrightarrow> cs_id c = cs_id c'"
      and "c \<in> (\<lambda>r. if cs_id r = cid then ?link r else r) ` set (db_code_submissions d)"
      and "c' \<in> (\<lambda>r. if cs_id r = cid then ?link r else r) ` set (db_code_submissions d)"
      and eq: "cs_submission_id c \<noteq> None \<and> cs_submission_id c = cs_submission_id c'"
    then obtain x x' where x: "x \<in> set (db_code_submissions d)" "c = (if cs_id x = cid then ?link x else x)"
      and x': "x' \<in> set (db_code_submissions d)" "c' = (if cs_id x' = cid then ?link x' else x')"
      by blast
    show "cs_id c = cs_id c'"
    proof (cases "cs_id x = cid \<or> cs_id x' = cid")
      case True
      with eq x x' old [OF x(1)] old [OF x'(1)] show ?thesis by (auto split: if_splits)
    next
      case False
      with x x' have "c = x" "c' = x'" by simp_all
      with ok x(1) x'(1) eq show ?thesis by blast
    qed
  qed
  moreover have "jobs_ok ?codes (db_judgings d)"
  proof -
    have "copies_code j (if cs_id x = cid then ?link x else x) = copies_code j x" for j x
      by (simp add: copies_code_def)
    then show ?thesis
      using base unfolding judge_base_def refs_ok_def jobs_ok_def set_update_where by blast
  qed
  moreover have "\<forall>code\<in>set ?codes. get_competition d (cs_competition_id code) \<noteq> None
      \<and> programming d (cs_challenge_id code)"
    using base unfolding judge_base_def refs_ok_def set_update_where by auto
  ultimately show ?thesis
    using base fresh rows ids by (simp add: judge_base_def ids_ok_def refs_ok_def)
qed

lemma get_challenge_id: "get_challenge d i = Some ch \<Longrightarrow> ch_id ch = i"
  unfolding get_challenge_def by (drule find_Some_in) simp

lemma scored_linked:
  assumes "cs_kind code = Submit_Kind" "(sid, cs_challenge_id code, cr, ord, b) \<in> R"
    and "b = (v = Some Accepted)" "\<And>q' v'. (cs_id code, q', v') \<in> V0 \<Longrightarrow> q' < q"
    and "cs_submission_id code = Some sid"
  shows "scored_ok T (insert (cs_id code, q, v) V0) R code"
proof -
  have "deciding (insert (cs_id code, q, v) V0) (cs_id code) w \<longleftrightarrow> w = v" for w
    using assms(4) by (rule deciding_insert_top)
  moreover have "\<exists>cr ord b. (sid, cs_challenge_id code, cr, ord, b) \<in> R \<and> b = (v = Some Accepted)"
    using assms(2,3) by blast
  ultimately show ?thesis using assms(1,5) by (simp add: scored_ok_def)
qed

lemma scored_ok_rows:
  assumes "scored_ok T V R x"
    and "\<And>s ch cr ord b. cs_submission_id x = Some s \<Longrightarrow> (s, ch, cr, ord, b) \<in> R \<Longrightarrow> (s, ch, cr, ord, b) \<in> R'"
  shows "scored_ok T V R' x"
  using assms by (simp add: scored_ok_def split: option.splits) blast

lemma judge_base_rows:
  "judge_base d \<Longrightarrow> map su_id rows = map su_id (db_submissions d) \<Longrightarrow> awards_settled (award_keys d) rows
     \<Longrightarrow> judge_base (d\<lparr>db_submissions := rows\<rparr>)"
  by (simp add: judge_base_def ids_ok_def refs_ok_def)

lemma regrade_rows_cong:
  "db_submissions d = db_submissions d' \<Longrightarrow>
     db_submissions (snd (regrade ch s rid c d)) = db_submissions (snd (regrade ch s rid c d'))"
  by (simp add: regrade_def Let_def)

lemma first_verdict_effect:
  assumes dist: "distinct (map su_id (db_submissions d))" and fresh: "rid \<notin> su_id ` set (db_submissions d)"
    and credit: "judging_credit c j = Some s" and settled: "awards_settled K (db_submissions d)"
  obtains rows row where "snd (record_first_verdict c ch s j code correct rid now d) =
      link_judging (ju_id j) rid (link_code (cs_id code) rid (d\<lparr>db_submissions := rows\<rparr>))"
    and "map row_view rows = map row_view (db_submissions d @ [row])" "su_id row = rid"
    and "su_challenge_id row = ch_id ch" "su_is_correct row = correct" "awards_settled K rows"
proof -
  define g where "g = code_grade_call c ch s j code correct rid now"
  obtain out d1 where rg: "record_grade d d g = (out, d1)" by (cases "record_grade d d g")
  let ?sub = "go_submission out"
  let ?dup = "su_is_correct ?sub \<and> su_is_duplicate ?sub"
  let ?rows = "if ?dup then db_submissions (snd (regrade ch s (su_id ?sub) True d1)) else db_submissions d1"
  have g: "gc_challenge g = ch" "gc_subject g = s" "gc_row_id g = rid" "gc_correct g = correct"
      "gc_user_id g = ju_user_id j"
    by (simp_all add: g_def code_grade_call_def)
  have wf: "wf_subject (gc_subject g)" using credit by (simp add: g wf_judging_credit)
  have cr: "row_credit row = gc_subject g"
    if "su_user_id row = gc_user_id g" "su_team_id row = sj_team_id (gc_subject g)" for row
    using that credit by (auto simp: g judging_credit_def row_credit_def split: if_splits)
  have rows_eq: "?rows = (if ?dup
      then db_submissions (snd (regrade (gc_challenge g) (gc_subject g) (su_id ?sub) True d1))
      else db_submissions d1)"
    by (simp only: g)
  have fresh': "gc_row_id g \<notin> su_id ` set (db_submissions d)" using fresh by (simp add: g)
  obtain row where "map row_view ?rows = map row_view (db_submissions d @ [row])"
      "su_id row = gc_row_id g" "su_challenge_id row = ch_id (gc_challenge g)"
      "su_is_correct row = gc_correct g" "su_id ?sub = gc_row_id g" "awards_settled K ?rows"
    by (rule grade_reconciled [OF dist fresh' wf settled cr rg rows_eq])
  note row = this [unfolded g]
  note sid = row(5)
  let ?links = "\<lambda>d. link_judging (ju_id j) rid (link_code (cs_id code) rid d)"
  have d1: "d1 = d\<lparr>db_submissions := db_submissions d1\<rparr>"
    using record_grade_frame [of d d g] by (simp add: rg)
  have "snd (record_first_verdict c ch s j code correct rid now d) =
      (if ?dup then snd (regrade ch s rid True (?links d1)) else ?links d1)"
    using rg sid by (simp add: record_first_verdict_def g_def Let_def split: prod.split)
  also have "\<dots> = ?links (d\<lparr>db_submissions := ?rows\<rparr>)"
  proof (cases ?dup)
    case True
    have "snd (regrade ch s rid True (?links d1)) = (?links d1)\<lparr>db_submissions :=
        db_submissions (snd (regrade ch s rid True d1))\<rparr>"
      using regrade_frame [of ch s rid True "?links d1"] regrade_rows_cong [of "?links d1" d1 ch s rid True]
      by simp
    moreover have "(?links d1)\<lparr>db_submissions := rs\<rparr> = (?links d)\<lparr>db_submissions := rs\<rparr>" for rs
      by (subst d1) simp
    ultimately show ?thesis using True sid by (simp add: if_P [OF True])
  next
    case False
    then show ?thesis using d1 by (simp add: if_not_P [OF False])
  qed
  finally show ?thesis using row(1,2,3,4,6) by (rule that)
qed

text \<open>
  The state of a session between marking a scored judging done and recording its verdict, when
  that judging is the newest finished one of its code: everything is in order but the score of
  this one code.
\<close>

definition newly_decided :: "ident set \<Rightarrow> db \<Rightarrow> judging_view set \<Rightarrow> code_submission \<Rightarrow> time \<times> ident \<Rightarrow> verdict \<Rightarrow> bool" where
  "newly_decided T d V code q v = (judge_base d \<and> done_views d = insert (cs_id code, q, Some v) V
     \<and> scores_ok T V d \<and> code \<in> set (db_code_submissions d) \<and> cs_kind code = Submit_Kind
     \<and> (\<forall>q' v'. (cs_id code, q', v') \<in> V \<longrightarrow> q' < q))"

lemma newly_decidedD:
  assumes "newly_decided T d V code q v"
  shows "judge_base d" "done_views d = insert (cs_id code, q, Some v) V" "scores_ok T V d"
    "code \<in> set (db_code_submissions d)" "cs_kind code = Submit_Kind"
    "\<And>q' v'. (cs_id code, q', v') \<in> V \<Longrightarrow> q' < q"
    "distinct (map su_id (db_submissions d))" "distinct (map cs_id (db_code_submissions d))"
    "links_ok (db_code_submissions d)" "awards_settled (award_keys d) (db_submissions d)"
  using assms unfolding newly_decided_def judge_base_def ids_ok_def by blast+

lemma newly_decided_own:
  "newly_decided T d V code q v \<Longrightarrow> x \<in> set (db_code_submissions d) \<Longrightarrow> cs_id x = cs_id code \<Longrightarrow> x = code"
  using newly_decidedD(4,8) by (metis distinct_map inj_onD)

text \<open>The scores after a re-verdict of the code's row.\<close>

lemma reverdict_inv:
  assumes new: "newly_decided T d V code q v" and sid: "cs_submission_id code = Some sid"
    and ch: "ch_id ch = cs_challenge_id code"
    and r: "r \<in> set (db_submissions d)" "su_id r = sid" "su_challenge_id r = cs_challenge_id code"
  shows "judge_inv T (link_judging jid sid (snd (regrade ch (row_credit r) sid (v = Accepted) d)))"
proof -
  let ?d1 = "snd (regrade ch (row_credit r) sid (v = Accepted) d)"
  let ?R = "row_view ` set (db_submissions d)" and ?R' = "row_view ` set (db_submissions ?d1)"
  note D = newly_decidedD [OF new]
  obtain H where H: "db_submissions ?d1 = map H (db_submissions d)"
    and hv: "\<And>x. row_view (H x) = (su_id x, su_challenge_id x, row_credit x, solve_order x,
       if su_id x = sid then v = Accepted else su_is_correct x)"
    using regrade_map [OF D(7), of ch "row_credit r" sid "v = Accepted"] by metis
  have in_R': "row_view (H x) \<in> ?R'" if "x \<in> set (db_submissions d)" for x
    using that by (simp add: H)
  have rids: "map su_id (db_submissions ?d1) = map su_id (db_submissions d)"
    using hv by (simp add: H row_view_def)
  have "x = r" if "x \<in> set (db_submissions d)" "su_id x = sid" for x
    using that r(1,2) D(7) by (metis distinct_map inj_onD)
  then have "awards_settled (insert (ch_id ch, row_credit r) (award_keys d)) (db_submissions ?d1)"
    using r(3) ch D(10)
    by (intro regrade_settles [OF D(7) wf_row_credit]) (auto intro: awards_settled_mono)
  then have "awards_settled (award_keys d) (db_submissions ?d1)" by (rule awards_settled_mono) blast
  then have base: "judge_base ?d1"
    using judge_base_rows [OF D(1) rids] regrade_frame [of ch "row_credit r" sid "v = Accepted" d] by simp
  have d1: "done_views ?d1 = done_views d" "db_code_submissions ?d1 = db_code_submissions d"
    by (subst regrade_frame, simp)+
  have "scored_ok T (done_views d) ?R' x" if x: "x \<in> set (db_code_submissions d)" for x
  proof (cases "cs_id x = cs_id code")
    case True
    have "(sid, cs_challenge_id code, row_credit r, solve_order r, v = Accepted) \<in> ?R'"
      using in_R' [OF r(1)] by (simp only: hv r(2,3) if_P)
    then show ?thesis
      unfolding newly_decided_own [OF new x True] D(2) by (intro scored_linked) (use D(5,6) sid in auto)
  next
    case False
    have "scored_ok T V ?R' x"
    proof (rule scored_ok_rows)
      show "scored_ok T V ?R x" using D(3) x by (simp add: scores_ok_def)
      fix s h cr ord b assume s: "cs_submission_id x = Some s" "(s, h, cr, ord, b) \<in> ?R"
      then have "s \<noteq> sid" using links_okD [OF D(9) x D(4)] sid False by blast
      from s(2) obtain y where y: "y \<in> set (db_submissions d)" "row_view y = (s, h, cr, ord, b)"
        by (metis imageE)
      then have "su_id y \<noteq> sid" using \<open>s \<noteq> sid\<close> by (simp add: row_view_def)
      then have "row_view (H y) = row_view y" by (simp only: hv row_view_def [of y] if_False)
      with in_R' [OF y(1)] y(2) show "(s, h, cr, ord, b) \<in> ?R'" by simp
    qed
    then show ?thesis by (simp add: D(2) scored_ok_other_code False)
  qed
  then have "scores_ok T (done_views d) ?d1" by (simp add: scores_ok_def d1)
  then show ?thesis
    using judge_base_link [OF base, of "\<lambda>x. ju_id x = jid" "Some sid"]
      done_views_link [where d = ?d1 and P = "\<lambda>x. ju_id x = jid" and sid = "Some sid"]
    by (simp add: judge_inv_def link_judging_def scores_ok_def d1)
qed

text \<open>The scores after the first verdict of a code, with its fresh row.\<close>

lemma first_verdict_inv:
  assumes new: "newly_decided T d V code q v" and ch: "ch_id ch = cs_challenge_id code"
    and fresh: "rid \<notin> su_id ` set (db_submissions d)"
    and rv: "map row_view rows = map row_view (db_submissions d @ [row])"
    and row: "su_id row = rid" "su_challenge_id row = ch_id ch" "su_is_correct row = (v = Accepted)"
    and settled: "awards_settled (award_keys d) rows"
  shows "judge_inv T (link_judging jid rid (link_code (cs_id code) rid (d\<lparr>db_submissions := rows\<rparr>)))"
proof -
  let ?R = "row_view ` set (db_submissions d)" and ?R' = "row_view ` set rows"
  let ?link = "\<lambda>x. if cs_id x = cs_id code then x\<lparr>cs_submission_id := Some rid\<rparr> else x"
  let ?d1 = "d\<lparr>db_submissions := rows, db_code_submissions := update_where (\<lambda>x. cs_id x = cs_id code)
      (\<lambda>x. x\<lparr>cs_submission_id := Some rid\<rparr>) (db_code_submissions d)\<rparr>"
  note D = newly_decidedD [OF new]
  have R': "?R' = insert (row_view row) ?R" using arg_cong [OF rv, of set] by simp
  have linked: "s' \<in> su_id ` set (db_submissions d)"
    if x: "x \<in> set (db_code_submissions d)" "cs_submission_id x = Some s'" for x s'
  proof -
    have "scored_ok T V ?R x" using D(3) x(1) by (simp add: scores_ok_def)
    then obtain y where "y \<in> set (db_submissions d)" "su_id y = s'"
      by (auto simp: scored_ok_def x(2) row_view_def)
    then show ?thesis by blast
  qed
  have "map su_id rows = map su_id (db_submissions d) @ [rid]"
    using row_view_eqD(1) [OF rv] row by simp
  then have base: "judge_base ?d1"
    using judge_base_code_link [OF D(1) fresh linked _ settled, where cid = "cs_id code"] by simp
  have "scored_ok T (done_views d) ?R' (?link x)" if x: "x \<in> set (db_code_submissions d)" for x
  proof (cases "cs_id x = cs_id code")
    case True
    have "row_view row \<in> ?R'" unfolding R' by simp
    then have "(rid, cs_challenge_id code, row_credit row, solve_order row, v = Accepted) \<in> ?R'"
      unfolding row_view_def row using ch by simp
    then have "scored_ok T (insert (cs_id (?link code), q, Some v) V) ?R' (?link code)"
      by (intro scored_linked) (use D(5,6) in auto)
    then show ?thesis by (simp add: newly_decided_own [OF new x True] D(2))
  next
    case False
    have "scored_ok T V ?R' x"
      using scored_ok_more_rows [of T V ?R x ?R'] D(3) x by (auto simp: scores_ok_def R')
    then show ?thesis by (simp add: D(2) scored_ok_other_code False)
  qed
  then have "\<forall>x\<in>set (update_where (\<lambda>x. cs_id x = cs_id code)
      (\<lambda>x. x\<lparr>cs_submission_id := Some rid\<rparr>) (db_code_submissions d)). scored_ok T (done_views d) ?R' x"
    unfolding set_update_where by blast
  then have "scores_ok T (done_views d) ?d1" by (simp add: scores_ok_def)
  then show ?thesis
    unfolding links_frame
    using judge_base_link [OF base, of "\<lambda>x. ju_id x = jid" "Some rid"]
      done_views_link [where d = ?d1 and P = "\<lambda>x. ju_id x = jid" and sid = "Some rid"]
    by (simp add: judge_inv_def scores_ok_def)
qed

lemma queue_order_eqD:
  "distinct (map ju_id js) \<Longrightarrow> x \<in> set js \<Longrightarrow> y \<in> set js \<Longrightarrow> queue_order x = queue_order y \<Longrightarrow> x = y"
  by (metis distinct_map inj_onD queue_order_def snd_conv)

lemma not_latest_inv:
  assumes base: "judge_base d" and V: "done_views d = insert (cs_id code, q, v) V" and scores: "scores_ok T V d"
    and code: "code \<in> set (db_code_submissions d)" and later: "(cs_id code, q0, v0) \<in> V" "q < q0"
  shows "judge_inv T d"
proof -
  have "scored_ok T (done_views d) (row_view ` set (db_submissions d)) x"
    if x: "x \<in> set (db_code_submissions d)" for x
  proof -
    have ok: "scored_ok T V (row_view ` set (db_submissions d)) x" using scores x by (simp add: scores_ok_def)
    show ?thesis
    proof (cases "cs_id x = cs_id code")
      case True
      then show ?thesis using scored_ok_not_latest [OF ok] later by (simp add: V)
    next
      case False
      then show ?thesis using ok by (simp add: V scored_ok_other_code)
    qed
  qed
  with base show ?thesis by (simp add: judge_inv_def scores_ok_def)
qed

text \<open>
  The heart of the invariant: with everything in order but the score of the judging that has
  just been marked done, recording its verdict puts the score in order too.
\<close>

lemma record_verdict_inv:
  assumes base: "judge_base d" and solo: "teamless T d"
    and scores: "scores_ok T (done_views d - {judging_view jn}) d"
    and jn: "jn \<in> set (db_judgings d)" "ju_status jn = Judging_Done" "same_job j jn"
      "ju_verdict jn = Some v" "ju_kind j = Submit_Kind"
    and fresh: "rid \<notin> su_id ` set (db_submissions d)"
  shows "judge_inv T (snd (record_verdict j v rid now d))"
proof -
  let ?V = "done_views d - {judging_view jn}" and ?q = "queue_order j"
  have ids: "distinct (map ju_id (db_judgings d))" "distinct (map cs_id (db_code_submissions d))"
      "distinct (map su_id (db_submissions d))"
    using base by (auto simp: judge_base_def ids_ok_def)
  from base jn(1) obtain code where code: "code \<in> set (db_code_submissions d)" "copies_code jn code"
    by (auto simp: judge_base_def refs_ok_def jobs_ok_def)
  from base code(1) obtain c ch where c: "get_competition d (cs_competition_id code) = Some c"
    and ch: "get_challenge d (cs_challenge_id code) = Some ch"
    by (cases "get_challenge d (cs_challenge_id code)")
      (auto simp: judge_base_def refs_ok_def programming_def)
  note chid = get_challenge_id [OF ch]
  have job: "ju_code_submission_id j = cs_id code" "ju_competition_id j = cs_competition_id code"
      "ju_challenge_id j = cs_challenge_id code" "ju_user_id j = cs_user_id code"
      "ju_team_id j = cs_team_id code" "cs_kind code = Submit_Kind"
    using code(2) jn(3,5) by (simp_all add: copies_code_def same_job_def)
  have q: "queue_order jn = ?q" using jn(3) by (simp add: queue_order_def same_job_def)
  have view: "judging_view jn = (cs_id code, ?q, Some v)"
    using jn(3,4) job(1) q by (simp add: judging_view_def same_job_def)
  have "judging_view jn \<in> done_views d" using jn(1,2) by (simp add: done_views_def)
  then have V: "done_views d = insert (cs_id code, ?q, Some v) ?V" using view by auto
  have gcode: "get_code d (cs_id code) = Some code"
    unfolding get_code_def using ids(2) code(1) by (rule find_id_Some) simp
  note latest = is_latest_iff [OF ids(1) jn(1,3), unfolded job(1)]
  show ?thesis
  proof (cases "is_latest_finished d j")
    case False
    then obtain q0 v0 where q0: "(cs_id code, q0, v0) \<in> ?V" "\<not> q0 < ?q"
      unfolding latest by blast
    from q0(1) obtain x where x: "x \<in> set (db_judgings d)" "judging_view x \<noteq> judging_view jn"
        "queue_order x = q0"
      by (auto simp: done_views_def judging_view_def)
    then have "q0 \<noteq> ?q" using queue_order_eqD [OF ids(1) x(1) jn(1)] q by auto
    with q0 have "?q < q0" by simp
    with not_latest_inv [OF base V scores code(1) q0(1)] False show ?thesis
      by (simp add: record_verdict_def)
  next
    case True
    with base scores code(1) V job(6) have new: "newly_decided T d ?V code ?q v"
      unfolding newly_decided_def latest by blast
    show ?thesis
    proof (cases "cs_submission_id code")
      case (Some sid)
      from scores code(1) obtain r where r: "r \<in> set (db_submissions d)" "su_id r = sid"
          "su_challenge_id r = cs_challenge_id code"
        unfolding scores_ok_def by (fastforce simp: scored_ok_def Some row_view_def)
      then have gr: "get_submission d sid = Some r"
        unfolding get_submission_def using ids(3) by (intro find_id_Some) simp_all
      show ?thesis
        using reverdict_inv [OF new Some chid r] True job c ch gcode Some gr r(2)
        by (auto simp: record_verdict_def split: prod.split)
    next
      case None
      show ?thesis
      proof (cases "judging_credit c j")
        case no_credit: None
        then have "cs_team_id code = None" "co_participation_mode c = Team_Mode"
          using job(5) by (auto simp: judging_credit_def split: if_splits)
        moreover have "c \<in> set (db_competitions d)" "co_id c = cs_competition_id code"
          using c by (auto simp: get_competition_def dest: find_Some_in)
        ultimately have "\<not> credited T code" using solo by (auto simp: credited_def teamless_def)
        then have own: "scored_ok T W R code" for W R by (simp add: scored_ok_def None)
        have "scores_ok T (done_views d) d"
          unfolding scores_ok_def
          using own newly_decided_own [OF new] scores scored_ok_other_code V
          by (metis scores_ok_def)
        then show ?thesis
          using True job c ch gcode None no_credit base by (simp add: record_verdict_def judge_inv_def)
      next
        case (Some s)
        have settled: "awards_settled (award_keys d) (db_submissions d)" using base by (simp add: judge_base_def)
        obtain rows row where effect: "snd (record_first_verdict c ch s j code (v = Accepted) rid now d) =
            link_judging (ju_id j) rid (link_code (cs_id code) rid (d\<lparr>db_submissions := rows\<rparr>))"
          and rows: "map row_view rows = map row_view (db_submissions d @ [row])" "su_id row = rid"
            "su_challenge_id row = ch_id ch" "su_is_correct row = (v = Accepted)"
            "awards_settled (award_keys d) rows"
          by (rule first_verdict_effect [OF ids(3) fresh Some settled,
                where ch = ch and code = code and correct = "v = Accepted" and now = now])
        show ?thesis
          using first_verdict_inv [OF new chid fresh rows] effect True job c ch gcode None Some
          by (simp add: record_verdict_def)
      qed
    qed
  qed
qed

end
