(* ===== verification/Judge_Runs.thy ===== *)
theory Judge_Runs
  imports Judge_World
begin

text \<open>
  The judge's runs: the step relation over the sessions of \<open>Judge\<close>, its invariant in every
  reachable state and what follows from it for scores, awards, lost claims and overdue judgings. Whom
  a verdict is credited to depends on the mode of the competition when it is recorded, which an edit
  may change: \<open>judge_run T\<close> are the runs in which the competitions of \<open>T\<close> never had teams.
\<close>

section \<open>Sessions that finish a judging\<close>

lemma judge_invD:
  assumes "judge_inv T d"
  shows "judge_base d" "scores_ok T (done_views d) d" "distinct (map ju_id (db_judgings d))"
    "distinct (map su_id (db_submissions d))" "distinct (map cs_id (db_code_submissions d))"
    "\<And>j. j \<in> set (db_judgings d) \<Longrightarrow> judging_typed j"
    "\<And>j. j \<in> set (db_judgings d) \<Longrightarrow> \<exists>code\<in>set (db_code_submissions d). copies_code j code"
    "awards_settled (award_keys d) (db_submissions d)"
  using assms by (auto simp: judge_inv_def judge_base_def ids_ok_def refs_ok_def jobs_ok_def list_all_iff)

lemma scored_ok_unscored_kind:
  "scored_ok T V R code \<Longrightarrow> cs_kind code \<noteq> Submit_Kind \<Longrightarrow> scored_ok T V' R code"
  by (simp add: scored_ok_def split: option.splits)

lemma finished_inv:
  assumes inv: "judge_inv T d" and base: "judge_base d2" and solo: "teamless T d2"
    and same: "db_submissions d2 = db_submissions d" "db_code_submissions d2 = db_code_submissions d"
    and views: "done_views d2 = insert (judging_view jn) (done_views d)"
    and new: "\<And>x. x \<in> set (db_judgings d) \<Longrightarrow> ju_status x = Judging_Done \<Longrightarrow> ju_id x \<noteq> ju_id jn"
    and jn: "jn \<in> set (db_judgings d2)" "ju_status jn = Judging_Done" "same_job j jn" "ju_verdict jn = Some v"
    and fresh: "rid \<notin> su_id ` set (db_submissions d)"
  shows "judge_inv T (if ju_kind j = Submit_Kind then snd (record_verdict j v rid now d2) else d2)"
proof -
  have "judging_view jn \<notin> done_views d"
    using new by (force simp: done_views_def judging_view_def queue_order_def)
  then have scores: "scores_ok T (done_views d2 - {judging_view jn}) d2"
    using judge_invD(2) [OF inv] same views by (simp add: scores_ok_def)
  show ?thesis
  proof (cases "ju_kind j = Submit_Kind")
    case True
    then show ?thesis using record_verdict_inv [OF base solo scores jn] fresh same by simp
  next
    case False
    from base jn(1) obtain code where code: "code \<in> set (db_code_submissions d2)" "copies_code jn code"
      by (auto simp: judge_base_def refs_ok_def jobs_ok_def)
    have kind: "cs_kind code \<noteq> Submit_Kind" and cid: "ju_code_submission_id jn = cs_id code"
      using code(2) jn(3) False by (auto simp: copies_code_def same_job_def)
    have "distinct (map cs_id (db_code_submissions d2))" using base by (simp add: judge_base_def ids_ok_def)
    then have own: "x = code" if "x \<in> set (db_code_submissions d2)" "cs_id x = cs_id code" for x
      using that code(1) by (metis distinct_map inj_onD)
    have "scored_ok T (done_views d2) (row_view ` set (db_submissions d2)) x"
      if x: "x \<in> set (db_code_submissions d2)" for x
    proof -
      have ok: "scored_ok T (done_views d) (row_view ` set (db_submissions d2)) x"
        using judge_invD(2) [OF inv] x same by (simp add: scores_ok_def)
      show ?thesis
      proof (cases "cs_id x = cs_id code")
        case True
        then show ?thesis using scored_ok_unscored_kind [OF ok] own [OF x] kind by simp
      next
        case False
        then show ?thesis using ok by (simp add: views judging_view_def cid scored_ok_other_code)
      qed
    qed
    with base False show ?thesis by (simp add: judge_inv_def scores_ok_def)
  qed
qed

lemma done_views_finish:
  assumes "distinct (map ju_id js)" "j \<in> set js" "P j" "\<And>x. x \<in> set js \<Longrightarrow> P x \<Longrightarrow> ju_id x = ju_id j"
    and "ju_status j \<noteq> Judging_Done" "ju_status (f j) = Judging_Done"
  shows "judging_view ` {x \<in> set (update_where P f js). ju_status x = Judging_Done} =
    insert (judging_view (f j)) (judging_view ` {x \<in> set js. ju_status x = Judging_Done})"
proof -
  have P_iff: "P x \<longleftrightarrow> x = j" if x: "x \<in> set js" for x
  proof
    assume "P x"
    then have "ju_id x = ju_id j" using assms(4) x by blast
    with assms(1,2) x show "x = j" by (metis distinct_map inj_onD)
  qed (use assms(3) in simp)
  have "set (update_where P f js) = (\<lambda>x. if x = j then f j else x) ` set js"
    unfolding set_update_where by (rule image_cong) (auto simp: P_iff)
  then have "{x \<in> set (update_where P f js). ju_status x = Judging_Done} =
      insert (f j) {x \<in> set js. ju_status x = Judging_Done}"
    using assms(2,5,6) by auto
  then show ?thesis by simp
qed

lemma done_values_simps [simp]:
  "ju_status (done_values result tests now j) = Judging_Done"
  "ju_verdict (done_values result tests now j) = Some (re_verdict result)"
  "ju_id (done_values result tests now j) = ju_id j"
  "same_job j (done_values result tests now j)"
  by (simp_all add: done_values_def same_job_def)

lemma fenced_once:
  assumes "distinct (map ju_id js)" "count_where (fenced cl) js = 1"
  obtains j where "j \<in> set js" "fenced cl j" "find (\<lambda>r. ju_id r = cl_judging_id cl) js = Some j"
proof -
  from assms(2) obtain j where j: "j \<in> set js" "fenced cl j"
    by (metis count_where_0_iff zero_neq_one)
  with assms(1) have "find (\<lambda>r. ju_id r = cl_judging_id cl) js = Some j"
    by (intro find_id_Some) (simp_all add: fenced_def)
  with j show ?thesis by (rule that)
qed

lemma finish_inv:
  assumes inv: "judge_inv T d" and solo: "teamless T d" and fresh: "rid \<notin> su_id ` set (db_submissions d)"
  shows "judge_inv T (fst (finish_judging cl result tests now rid d))"
proof (cases "get_judging d (cl_judging_id cl) \<noteq> None \<and> count_where (fenced cl) (db_judgings d) = 1")
  case False
  with inv show ?thesis
    by (auto simp: finish_judging_def update_judgings_def split: option.split)
next
  case True
  note ids = judge_invD(3) [OF inv]
  from True obtain j where j: "j \<in> set (db_judgings d)" "fenced cl j" "get_judging d (cl_judging_id cl) = Some j"
    using fenced_once [OF ids] unfolding get_judging_def by metis
  let ?f = "done_values result tests now" and ?u = "update_judgings (fenced cl) (done_values result tests now) d"
  let ?d2 = "(snd ?u)\<lparr>db_judging_runs := db_judging_runs (snd ?u) @ map (run_row (ju_id j)) (re_tests result)\<rparr>"
  have base: "judge_base (snd ?u)"
    using judge_invD(1) [OF inv]
    by (rule judge_base_update) (auto simp: typed_defs done_values_def)
  have "judge_inv T (if ju_kind j = Submit_Kind then snd (record_verdict j (re_verdict result) rid now ?d2) else ?d2)"
  proof (rule finished_inv [OF inv])
    show "judge_base ?d2" using base by (simp add: judge_base_def ids_ok_def refs_ok_def)
    show "done_views ?d2 = insert (judging_view (?f j)) (done_views d)"
      unfolding done_views_def
      using done_views_finish [OF ids j(1), where P = "fenced cl" and f = ?f] j(2) by (simp add: fenced_def)
    show "?f j \<in> set (db_judgings ?d2)" using j(1,2) by (simp add: set_update_where rev_image_eqI)
    show "ju_id x \<noteq> ju_id (?f j)" if "x \<in> set (db_judgings d)" "ju_status x = Judging_Done" for x
    proof
      assume "ju_id x = ju_id (?f j)"
      then have "x = j" using ids j(1) that(1) by simp (metis distinct_map inj_onD)
      with that(2) j(2) show False by (simp add: fenced_def)
    qed
  qed (use fresh solo in \<open>simp_all add: teamless_def\<close>)
  then show ?thesis
    using True j(3)
    by (cases "ju_kind j = Submit_Kind")
      (simp_all add: finish_judging_def update_judgings_def Let_def case_prod_unfold)
qed

lemma conclude_inv:
  "judge_inv T d \<Longrightarrow> teamless T d \<Longrightarrow> rid \<notin> su_id ` set (db_submissions d) \<Longrightarrow>
     judge_inv T (fst (conclude_run cl out tests now rid d))"
  using give_up_inv finish_inv
  by (auto simp: conclude_run_def Let_def case_prod_unfold split: executor_outcome.split)

section \<open>Sessions that add rows\<close>

text \<open>New queued judgings of existing code: a rejudge of one row, or of a whole problem.\<close>

definition fresh_jobs :: "db \<Rightarrow> judging list \<Rightarrow> bool" where
  "fresh_jobs d js = (distinct (map ju_id js) \<and> ju_id ` set (db_judgings d) \<inter> ju_id ` set js = {}
     \<and> (\<forall>j\<in>set js. judging_typed j \<and> (\<exists>code\<in>set (db_code_submissions d). copies_code j code)))"

lemma judge_base_append:
  assumes "judge_base d" "fresh_jobs d js"
  shows "judge_base (d\<lparr>db_judgings := db_judgings d @ js\<rparr>)"
proof -
  have "distinct (map ju_id (db_judgings d))" using assms(1) by (simp add: judge_base_def ids_ok_def)
  then have "distinct (map ju_id (db_judgings d @ js))"
    using assms(2) by (simp add: fresh_jobs_def)
  moreover have "jobs_ok (db_code_submissions d) (db_judgings d @ js)"
    using assms by (auto simp: judge_base_def refs_ok_def jobs_ok_def fresh_jobs_def)
  moreover have "list_all judging_typed (db_judgings d @ js)"
    using assms by (auto simp: judge_base_def fresh_jobs_def list_all_iff)
  ultimately show ?thesis using assms(1) by (simp add: judge_base_def ids_ok_def refs_ok_def)
qed

lemma queued_inv:
  assumes "judge_inv T d" "fresh_jobs d js" "\<And>j. j \<in> set js \<Longrightarrow> ju_status j = Judging_Queued"
  shows "judge_inv T (d\<lparr>db_judgings := db_judgings d @ js\<rparr>)"
proof -
  have "{x \<in> set (db_judgings d @ js). ju_status x = Judging_Done} =
      {x \<in> set (db_judgings d). ju_status x = Judging_Done}"
    using assms(3) by fastforce
  then have "done_views (d\<lparr>db_judgings := db_judgings d @ js\<rparr>) = done_views d"
    by (simp add: done_views_def)
  with assms judge_base_append [OF judge_invD(1) [OF assms(1)] assms(2)] show ?thesis
    by (simp add: judge_inv_def scores_ok_def)
qed

lemma typed_queued:
  "ju_status j = Judging_Queued \<Longrightarrow> ju_attempts j = 0 \<Longrightarrow> ju_verdict j = None \<Longrightarrow> ju_finished_at j = None
     \<Longrightarrow> ju_claimed_at j = None \<Longrightarrow> ju_deadline_at j = None \<Longrightarrow> judging_typed j"
  by (simp add: judging_typed_def MAX_ATTEMPTS_def)

lemma new_judging_simps [simp]:
  "ju_id (new_judging i code k o' who now) = i" "ju_status (new_judging i code k o' who now) = Judging_Queued"
  "judging_typed (new_judging i code k o' who now)"
  "copies_code (new_judging i code (cs_kind code) o' who now) code"
  by (simp_all add: new_judging_def copies_code_def typed_queued)

lemma judging_like_simps [simp]:
  "ju_id (judging_like j i o' actor now) = i" "ju_status (judging_like j i o' actor now) = Judging_Queued"
  "ju_kind (judging_like j i o' actor now) = ju_kind j"
  "judging_typed (judging_like j i o' actor now)"
  "copies_code (judging_like j i o' actor now) code = copies_code j code"
  by (simp_all add: judging_like_def copies_code_def typed_queued)

lemma override_row_simps [simp]:
  "ju_id (override_row j i actor v reason now) = i"
  "ju_status (override_row j i actor v reason now) = Judging_Done"
  "ju_verdict (override_row j i actor v reason now) = Some v"
  "ju_kind (override_row j i actor v reason now) = ju_kind j"
  "judging_typed (override_row j i actor v reason now)"
  "copies_code (override_row j i actor v reason now) code = copies_code j code"
  by (simp_all add: override_row_def judging_like_def copies_code_def judging_typed_def MAX_ATTEMPTS_def)

lemma queue_code_state [simp]:
  "fst (snd (queue_code code jid now d)) = d\<lparr>db_code_submissions := db_code_submissions d @ [code],
     db_judgings := db_judgings d @ [new_judging jid code (cs_kind code) Origin_Submission None now]\<rparr>"
  by (simp add: queue_code_def Let_def)

lemma links_ok_append:
  assumes "links_ok codes" "cs_submission_id c = None"
  shows "links_ok (codes @ [c])"
  unfolding links_ok_def
proof (intro ballI impI)
  fix x y assume xy: "x \<in> set (codes @ [c])" "y \<in> set (codes @ [c])"
    and eq: "cs_submission_id x \<noteq> None \<and> cs_submission_id x = cs_submission_id y"
  then obtain s where s: "cs_submission_id x = Some s" "cs_submission_id y = Some s" by (metis option.exhaust)
  with xy assms(2) have "x \<in> set codes" "y \<in> set codes" by auto
  with links_okD [OF assms(1)] s show "cs_id x = cs_id y" by blast
qed

lemma new_code_inv:
  assumes inv: "judge_inv T d" and fresh: "cs_id code \<notin> cs_id ` set (db_code_submissions d)"
    and code: "cs_submission_id code = None" "get_competition d (cs_competition_id code) \<noteq> None"
      "programming d (cs_challenge_id code)"
  shows "judge_inv T (d\<lparr>db_code_submissions := db_code_submissions d @ [code]\<rparr>)"
proof -
  have "\<not> judged (done_views d) (cs_id code)"
  proof
    assume "judged (done_views d) (cs_id code)"
    then obtain j where j: "j \<in> set (db_judgings d)" "ju_code_submission_id j = cs_id code"
      by (auto simp: judged_def done_views_def judging_view_def)
    with judge_invD(7) [OF inv j(1)] fresh show False by (auto simp: copies_code_def)
  qed
  then have "scored_ok T (done_views d) R code" for R by (simp add: scored_ok_def code(1))
  then have "\<forall>x\<in>set (db_code_submissions d @ [code]). scored_ok T (done_views d) (row_view ` set (db_submissions d)) x"
    using judge_invD(2) [OF inv] by (simp add: scores_ok_def)
  moreover have "judge_base (d\<lparr>db_code_submissions := db_code_submissions d @ [code]\<rparr>)"
  proof -
    note base = judge_invD(1) [OF inv, unfolded judge_base_def ids_ok_def refs_ok_def]
    have "links_ok (db_code_submissions d)" using base by blast
    then have "links_ok (db_code_submissions d @ [code])" using code(1) by (rule links_ok_append)
    moreover have "jobs_ok (db_code_submissions d @ [code]) (db_judgings d)"
      using base by (auto simp: jobs_ok_def)
    moreover have "distinct (map cs_id (db_code_submissions d @ [code]))" using base fresh by simp
    ultimately show ?thesis
      using base code(2,3) by (simp add: judge_base_def ids_ok_def refs_ok_def)
  qed
  ultimately show ?thesis by (simp add: judge_inv_def scores_ok_def)
qed

lemma queue_code_inv:
  assumes "judge_inv T d" "cs_id code \<notin> cs_id ` set (db_code_submissions d)" "cs_submission_id code = None"
    "get_competition d (cs_competition_id code) \<noteq> None" "programming d (cs_challenge_id code)"
    and jid: "jid \<notin> ju_id ` set (db_judgings d)"
  shows "judge_inv T (fst (snd (queue_code code jid now d)))"
proof -
  let ?d1 = "d\<lparr>db_code_submissions := db_code_submissions d @ [code]\<rparr>"
  let ?j = "new_judging jid code (cs_kind code) Origin_Submission None now"
  have "judge_inv T (?d1\<lparr>db_judgings := db_judgings ?d1 @ [?j]\<rparr>)"
    by (rule queued_inv [OF new_code_inv [OF assms(1-5)]]) (use jid in \<open>simp_all add: fresh_jobs_def\<close>)
  then show ?thesis by simp
qed

lemma scoped_judging_in: "scoped_judging d cid jid = Inr j \<Longrightarrow> j \<in> set (db_judgings d)"
  by (auto simp: scoped_judging_def dest: find_Some_in split: option.splits)

lemma rejudge_one_inv:
  assumes inv: "judge_inv T d" and fresh: "i \<notin> ju_id ` set (db_judgings d)"
  shows "judge_inv T (fst (snd (rejudge_one mods cid jid actor i now d)))"
proof -
  have "judge_inv T (d\<lparr>db_judgings := db_judgings d @ [judging_like j i Origin_Rejudge actor now]\<rparr>)"
    if "scoped_judging d cid jid = Inr j" for j
    by (rule queued_inv [OF inv])
      (use fresh judge_invD(7) [OF inv scoped_judging_in [OF that]] in \<open>simp_all add: fresh_jobs_def\<close>)
  with inv show ?thesis
    by (auto simp: rejudge_one_def raise_def Let_def res_bind_Inr_iff split: sum.split)
qed

lemma rejudge_problem_inv:
  assumes inv: "judge_inv T d" and fresh: "inj fresh" "\<And>n. fresh n \<notin> ju_id ` set (db_judgings d)"
  shows "judge_inv T (fst (snd (rejudge_problem mods cid chid only actor fresh now d)))"
proof -
  have ids: "map ju_id (map (\<lambda>(n, c). new_judging (fresh n) c Submit_Kind Origin_Rejudge (Some actor) now)
      (enumerate m codes)) = map fresh [m..<m + length codes]" for m codes
  proof -
    have "map ju_id (map (\<lambda>(n, c). new_judging (fresh n) c Submit_Kind Origin_Rejudge (Some actor) now)
        (enumerate m codes)) = map fresh (map fst (enumerate m codes))"
      unfolding map_map by (rule map_cong) (simp_all add: case_prod_unfold)
    then show ?thesis by (simp only: map_fst_enumerate)
  qed
  have queued: "judge_inv T (d\<lparr>db_judgings := db_judgings d @
      map (\<lambda>(n, c). new_judging (fresh n) c Submit_Kind Origin_Rejudge (Some actor) now) (enumerate 0 codes)\<rparr>)"
    if codes: "\<And>c. c \<in> set codes \<Longrightarrow> c \<in> set (db_code_submissions d) \<and> cs_kind c = Submit_Kind" for codes
  proof (rule queued_inv [OF inv])
    let ?new = "map (\<lambda>(n, c). new_judging (fresh n) c Submit_Kind Origin_Rejudge (Some actor) now) (enumerate 0 codes)"
    have "distinct (map ju_id ?new)"
      using fresh(1) unfolding ids distinct_map by (simp add: inj_on_def)
    moreover have "\<exists>code\<in>set (db_code_submissions d). copies_code (new_judging i c Submit_Kind o' who now) code"
      if "c \<in> set codes" for c i o' who
      using codes [OF that] new_judging_simps(4) [of i c o' who now] by force
    moreover have "ju_id ` set (db_judgings d) \<inter> ju_id ` set ?new = {}"
    proof -
      have "ju_id ` set ?new = fresh ` {0..<length codes}"
        using arg_cong [OF ids [where m = 0 and codes = codes], of set] by (simp only: set_map set_upt) simp
      then show ?thesis using fresh(2) by (metis (no_types, lifting) disjoint_iff imageE)
    qed
    ultimately show "fresh_jobs d ?new"
      by (auto simp: fresh_jobs_def in_set_enumerate_eq)
  qed auto
  show ?thesis
    using inv by (auto simp: rejudge_problem_def raise_def Let_def split: sum.split intro!: queued)
qed

lemma override_inv:
  assumes inv: "judge_inv T d" and solo: "teamless T d" and i: "i \<notin> ju_id ` set (db_judgings d)" and rid: "rid \<notin> su_id ` set (db_submissions d)"
  shows "judge_inv T (fst (snd (override_verdict mods cid jid actor v reason i rid now d)))"
proof -
  have "judge_inv T (snd (record_verdict (override_row j i actor v reason now) v rid now
      (d\<lparr>db_judgings := db_judgings d @ [override_row j i actor v reason now]\<rparr>)))"
    if scoped: "scoped_judging d cid jid = Inr j" and kind: "ju_kind j = Submit_Kind" for j
  proof -
    let ?n = "override_row j i actor v reason now"
    let ?d2 = "d\<lparr>db_judgings := db_judgings d @ [?n]\<rparr>"
    have jobs: "fresh_jobs d [?n]"
      using i judge_invD(7) [OF inv scoped_judging_in [OF scoped]] by (simp add: fresh_jobs_def)
    have views: "done_views ?d2 = insert (judging_view ?n) (done_views d)"
    proof -
      have "{x \<in> set (db_judgings d @ [?n]). ju_status x = Judging_Done} =
          insert ?n {x \<in> set (db_judgings d). ju_status x = Judging_Done}" by auto
      then show ?thesis by (simp add: done_views_def)
    qed
    have "ju_id x \<noteq> ju_id ?n" if "x \<in> set (db_judgings d)" for x using that i by auto
    then have "judge_inv T (if ju_kind ?n = Submit_Kind then snd (record_verdict ?n v rid now ?d2) else ?d2)"
      by (intro finished_inv [OF inv judge_base_append [OF judge_invD(1) [OF inv] jobs] _ _ _ views])
        (use rid solo in \<open>simp_all add: same_job_def teamless_def\<close>)
    then show ?thesis using kind by simp
  qed
  with inv show ?thesis
    by (auto simp: override_verdict_def raise_def Let_def case_prod_unfold res_bind_Inr_iff split: sum.split)
qed

lemma flag_inv:
  assumes inv: "judge_inv T d" and rid: "gc_row_id g \<notin> su_id ` set (db_submissions d)"
    and other: "\<not> programming d (ch_id (gc_challenge g))"
  shows "judge_inv T (snd (record_grade read d g))"
proof -
  let ?d' = "snd (record_grade read d g)"
  obtain row where view: "map full_view (db_submissions ?d') = map full_view (db_submissions d @ [row])"
    and row: "su_id row = gc_row_id g" "su_challenge_id row = ch_id (gc_challenge g)"
    by (rule record_grade_rows [of read d g])
  have rv: "map row_view (db_submissions ?d') = map row_view (db_submissions d @ [row])"
    using view by (rule full_view_row_view)
  have ids: "map su_id (db_submissions ?d') = map su_id (db_submissions d @ [row])"
    using rv by (rule row_view_eqD(1))
  have more: "row_view ` set (db_submissions d) \<subseteq> row_view ` set (db_submissions ?d')"
    using arg_cong [OF rv, of set] by auto
  have "(su_challenge_id row, row_credit row) \<notin> award_keys d" using other row by (simp add: award_keys_def)
  then have "awards_settled (award_keys d) (db_submissions ?d')"
    unfolding awards_settled_cong [OF view]
    by (rule awards_settled_append_other [OF judge_invD(8) [OF inv]])
  then have "judge_base (d\<lparr>db_submissions := db_submissions ?d'\<rparr>)"
    using judge_invD(1) [OF inv] ids row(1) rid by (simp add: judge_base_def ids_ok_def refs_ok_def)
  moreover have "scores_ok T (done_views d) (d\<lparr>db_submissions := db_submissions ?d'\<rparr>)"
    using judge_invD(2) [OF inv] scored_ok_more_rows [OF _ more] by (simp add: scores_ok_def)
  ultimately have "judge_inv T (d\<lparr>db_submissions := db_submissions ?d'\<rparr>)" by (simp add: judge_inv_def)
  then show ?thesis by (simp flip: record_grade_frame)
qed

section \<open>The rest of the platform\<close>

text \<open>
  Everything else may change any other table. It keeps the competitions that have code, and does
  not turn a challenge that has code into another type or one that has submissions into a
  programming challenge.
\<close>

definition judge_env :: "db \<Rightarrow> db \<Rightarrow> bool" where
  "judge_env d d' = (db_judgings d' = db_judgings d \<and> db_code_submissions d' = db_code_submissions d
     \<and> db_submissions d' = db_submissions d
     \<and> (\<forall>code\<in>set (db_code_submissions d). get_competition d' (cs_competition_id code) \<noteq> None
          \<and> programming d' (cs_challenge_id code))
     \<and> (\<forall>r\<in>set (db_submissions d). programming d' (su_challenge_id r) = programming d (su_challenge_id r)))"

lemma env_inv:
  assumes "judge_inv T d" "judge_env d d'"
  shows "judge_inv T d'"
proof -
  have "awards_settled (award_keys d') (db_submissions d) = awards_settled (award_keys d) (db_submissions d)"
    using assms(2) unfolding awards_settled_def judge_env_def award_keys_def by auto
  moreover have "done_views d' = done_views d" using assms(2) by (simp add: done_views_def judge_env_def)
  ultimately show ?thesis
    using assms by (simp add: judge_inv_def judge_base_def ids_ok_def refs_ok_def scores_ok_def judge_env_def)
qed

section \<open>Runs\<close>

text \<open>One session at a time, from any process. A claim is any value: stale, foreign or forged.\<close>

inductive judge_step :: "db \<Rightarrow> db \<Rightarrow> bool" where
  Queue: "\<lbrakk>cs_id code \<notin> cs_id ` set (db_code_submissions d); jid \<notin> ju_id ` set (db_judgings d);
     cs_submission_id code = None; get_competition d (cs_competition_id code) \<noteq> None;
     programming d (cs_challenge_id code)\<rbrakk> \<Longrightarrow> judge_step d (fst (snd (queue_code code jid now d)))"
| Claim: "judge_step d (snd (claim_next read now d))"
| Prepare: "judge_step d (snd (prepare cl budget version now d))"
| Conclude: "rid \<notin> su_id ` set (db_submissions d) \<Longrightarrow>
     judge_step d (fst (conclude_run cl out tests now rid d))"
| Give_Up: "judge_step d (fst (give_up_or_retry cl err retry now d))"
| Reclaim: "judge_step d (snd (snd (reclaim_pass read now d)))"
| Rejudge: "i \<notin> ju_id ` set (db_judgings d) \<Longrightarrow>
     judge_step d (fst (snd (rejudge_one mods cid jid actor i now d)))"
| Rejudge_All: "inj fresh \<Longrightarrow> (\<And>n. fresh n \<notin> ju_id ` set (db_judgings d)) \<Longrightarrow>
     judge_step d (fst (snd (rejudge_problem mods cid chid only actor fresh now d)))"
| Override: "i \<notin> ju_id ` set (db_judgings d) \<Longrightarrow> rid \<notin> su_id ` set (db_submissions d) \<Longrightarrow>
     judge_step d (fst (snd (override_verdict mods cid jid actor v reason i rid now d)))"
| Flag: "gc_row_id g \<notin> su_id ` set (db_submissions d) \<Longrightarrow> \<not> programming d (ch_id (gc_challenge g)) \<Longrightarrow>
     judge_step d (snd (record_grade read d g))"
| Platform: "judge_env d d' \<Longrightarrow> judge_step d d'"

inductive judge_reachable :: "db \<Rightarrow> bool" where
  Init: "db_judgings d = [] \<Longrightarrow> db_code_submissions d = [] \<Longrightarrow> db_submissions d = [] \<Longrightarrow> judge_reachable d"
| Step: "judge_reachable d \<Longrightarrow> judge_step d d' \<Longrightarrow> judge_reachable d'"

text \<open>
  The runs in which, from a state on that holds no code yet, the competitions of \<open>T\<close> never are in
  team mode (an edit of a competition may change its mode). With no such competition they are all
  the runs there are.
\<close>

inductive judge_run :: "ident set \<Rightarrow> db \<Rightarrow> bool" where
  Run_Init: "judge_reachable d \<Longrightarrow> db_code_submissions d = [] \<Longrightarrow> teamless T d \<Longrightarrow> judge_run T d"
| Run_Step: "judge_run T d \<Longrightarrow> judge_step d d' \<Longrightarrow> teamless T d' \<Longrightarrow> judge_run T d'"

lemma judge_step_inv: "judge_step d d' \<Longrightarrow> judge_inv T d \<Longrightarrow> teamless T d \<Longrightarrow> judge_inv T d'"
proof (induction rule: judge_step.induct)
  case (Claim d read now)
  show ?case unfolding claim_next_def by (rule claim_first_inv [OF Claim(1)])
next
  case (Reclaim d read now)
  show ?case unfolding reclaim_pass_def by (rule reclaim_each_inv [OF Reclaim(1)])
qed (fact queue_code_inv prepare_inv conclude_inv give_up_inv rejudge_one_inv rejudge_problem_inv
      override_inv flag_inv env_inv | blast intro: queue_code_inv prepare_inv conclude_inv give_up_inv
      rejudge_one_inv rejudge_problem_inv override_inv flag_inv env_inv)+

lemma judge_reachable_inv: "judge_reachable d \<Longrightarrow> judge_inv {} d"
proof (induction rule: judge_reachable.induct)
  case (Init d)
  then show ?case
    by (simp add: judge_inv_def judge_base_def ids_ok_def refs_ok_def jobs_ok_def links_ok_def
        awards_settled_def scores_ok_def)
qed (simp add: judge_step_inv)

lemma judge_run_inv: "judge_run T d \<Longrightarrow> judge_inv T d \<and> teamless T d"
proof (induction rule: judge_run.induct)
  case (Run_Init d T)
  then show ?case
    using judge_invD(1) [OF judge_reachable_inv [OF Run_Init(1)]] by (simp add: judge_inv_def scores_ok_def)
qed (simp add: judge_step_inv)

lemma judge_run_reachable: "judge_run T d \<Longrightarrow> judge_reachable d"
  by (induction rule: judge_run.induct) (auto intro: judge_reachable.Step)

lemma judge_reachable_run: "judge_reachable d \<Longrightarrow> judge_run {} d"
  by (induction rule: judge_reachable.induct) (auto intro: judge_run.intros judge_reachable.Init)

section \<open>What holds in every run\<close>

text \<open>
  C24: In every reachable state each judging row is well typed: the verdict, the claim and the
  deadline are set exactly as its status says, a running or finished judging was claimed at least
  once (an override aside), a queued one can still be claimed, and no judging is ever claimed
  more than three times.\<close>

theorem judgings_well_typed:
  assumes "judge_reachable d" "j \<in> set (db_judgings d)"
  shows "judging_typed j"
  using judge_invD(6) [OF judge_reachable_inv [OF assms(1)] assms(2)] .

lemma scored_row:
  assumes "judge_inv T d" "code \<in> set (db_code_submissions d)" "cs_kind code = Submit_Kind" "credited T code"
    and "deciding (done_views d) (cs_id code) v"
  shows "\<exists>s row. cs_submission_id code = Some s \<and> get_submission d s = Some row
    \<and> su_challenge_id row = cs_challenge_id code \<and> su_is_correct row = (v = Some Accepted)"
proof -
  have ok: "scored_ok T (done_views d) (row_view ` set (db_submissions d)) code"
    using judge_invD(2) [OF assms(1)] assms(2) by (simp add: scores_ok_def)
  have "judged (done_views d) (cs_id code)" using assms(5) by (auto simp: deciding_def judged_def)
  with ok assms(3,4) obtain s where s: "cs_submission_id code = Some s"
    by (cases "cs_submission_id code") (auto simp: scored_ok_def)
  with ok have "\<exists>cr ord b. (s, cs_challenge_id code, cr, ord, b) \<in> row_view ` set (db_submissions d)
      \<and> (\<forall>v. deciding (done_views d) (cs_id code) v \<longrightarrow> b = (v = Some Accepted))"
    by (simp only: scored_ok_def option.case)
  then obtain cr ord b where "(s, cs_challenge_id code, cr, ord, b) \<in> row_view ` set (db_submissions d)"
      and b: "\<forall>v. deciding (done_views d) (cs_id code) v \<longrightarrow> b = (v = Some Accepted)"
    by (elim exE conjE)
  then obtain row where row: "row \<in> set (db_submissions d)" "su_id row = s"
      "su_challenge_id row = cs_challenge_id code" "su_is_correct row = b"
    by (auto simp: row_view_def)
  moreover have "get_submission d s = Some row"
    unfolding get_submission_def using judge_invD(4) [OF assms(1)] row(1,2) by (rule find_id_Some)
  ultimately show ?thesis using s b assms(5) by blast
qed

text \<open>
  C22: Scores follow the newest finished judging. Whatever workers, reapers, rejudges, overrides
  and flag submissions did and in whatever order, a scored submission (or a rejudge of it) whose
  newest finished judging is j is linked to a submission row on its own challenge, and that row is
  correct exactly when j's verdict is accepted. This holds for code handed in for a team whatever
  the mode of its competition was and became, and for code of a user playing alone whenever its
  competition was in team mode in no state of the run. (Code without a team whose competition is in
  team mode when the verdict comes is credited to nobody and gets no row.)\<close>

theorem score_follows_latest_verdict:
  assumes "judge_run T d" and "code \<in> set (db_code_submissions d)"
    and "cs_kind code = Submit_Kind" "cs_team_id code \<noteq> None \<or> cs_competition_id code \<in> T"
    and "j \<in> set (db_judgings d)" "ju_code_submission_id j = cs_id code" "ju_status j = Judging_Done"
    and newest: "\<And>x. x \<in> set (db_judgings d) \<Longrightarrow> ju_code_submission_id x = cs_id code \<Longrightarrow>
      ju_status x = Judging_Done \<Longrightarrow> (ju_created_at x, ju_id x) \<le> (ju_created_at j, ju_id j)"
  shows "\<exists>s row. cs_submission_id code = Some s \<and> get_submission d s = Some row
    \<and> su_challenge_id row = cs_challenge_id code \<and> su_is_correct row = (ju_verdict j = Some Accepted)"
proof (rule scored_row [OF judge_run_inv [OF assms(1), THEN conjunct1] assms(2,3) assms(4) [folded credited_def]])
  have "(cs_id code, queue_order j, ju_verdict j) \<in> done_views d"
    using assms(5-7) by (auto simp: done_views_def judging_view_def intro!: rev_image_eqI [of j])
  moreover have "q \<le> queue_order j" if "(cs_id code, q, v) \<in> done_views d" for q v
    using that newest by (auto simp: done_views_def judging_view_def queue_order_def)
  ultimately show "deciding (done_views d) (cs_id code) (ju_verdict j)" unfolding deciding_def by blast
qed

text \<open>
  C23: On a programming challenge the award of every solver (a team, or a user playing alone) sits
  on its earliest correct submission in every reachable state, however verdicts were recorded,
  revised and overridden: a row is the rewarded one exactly when it is correct and no correct row
  of the same solver on that challenge came before it.\<close>

theorem judged_award_is_earliest:
  assumes "judge_reachable d" "programming d (su_challenge_id r)" "r \<in> set (db_submissions d)"
  shows "awarded r \<longleftrightarrow> su_is_correct r \<and> (\<forall>r'\<in>set (db_submissions d).
    su_challenge_id r' = su_challenge_id r \<and> row_credit r' = row_credit r \<and> su_is_correct r'
      \<longrightarrow> (su_created_at r, su_id r) \<le> (su_created_at r', su_id r'))"
  using awards_settledD [OF judge_invD(8) [OF judge_reachable_inv [OF assms(1)]] assms(3)] assms(2)
  by (simp add: award_keys_def solve_order_def)

section \<open>Claims that were lost\<close>

text \<open>
  C25: A worker whose claim was taken away (the judging was reclaimed and perhaps claimed again, so
  no row is still running at the attempt it holds) can do nothing with it: preparing reports the
  claim lost, concluding with any outcome of the executor and giving up leave the database as it
  is, drop no cached board and emit no event.\<close>

theorem lost_claim_changes_nothing:
  assumes lost: "\<And>j. j \<in> set (db_judgings d) \<Longrightarrow> ju_id j = cl_judging_id cl \<Longrightarrow>
    ju_status j = Judging_Running \<Longrightarrow> ju_attempts j \<noteq> cl_attempt cl"
  shows "prepare cl budget version now d = (Claim_Lost, d) \<and> conclude_run cl out tests now rid d = (d, False, [])
    \<and> give_up_or_retry cl err retry now d = (d, [])"
proof -
  have none: "count_where (fenced cl) (db_judgings d) = 0"
    using lost by (auto simp: count_where_0_iff fenced_def)
  have "prepare cl budget version now d = (Claim_Lost, d)"
    using lost by (auto simp: prepare_def get_judging_def dest: find_Some_in split: option.splits)
  moreover have give_up: "give_up_or_retry cl err retry now d = (d, [])" for err retry
    by (simp add: give_up_or_retry_def update_judgings_def Let_def none split: option.split)
  moreover have "finish_judging cl result tests now rid d = (d, False, [])" for result
    by (simp add: finish_judging_def update_judgings_def none split: option.split)
  ultimately show ?thesis by (simp add: conclude_run_def split: executor_outcome.split)
qed

section \<open>Finished judgings are final\<close>

text \<open>Every finished judging of the first list is in the second, its link to a row aside.\<close>

definition final_kept :: "judging list \<Rightarrow> judging list \<Rightarrow> bool" where
  "final_kept js js' = (\<forall>j\<in>set js. ju_status j = Judging_Done \<or> ju_status j = Judging_Failed \<longrightarrow>
     (\<exists>s. j\<lparr>ju_submission_id := s\<rparr> \<in> set js'))"

lemma final_kept_refl [simp]: "final_kept js js"
  unfolding final_kept_def
proof (intro ballI impI)
  fix j assume "j \<in> set js"
  then have "j\<lparr>ju_submission_id := ju_submission_id j\<rparr> \<in> set js" by simp
  then show "\<exists>s. j\<lparr>ju_submission_id := s\<rparr> \<in> set js" by blast
qed

lemma final_kept_trans: "final_kept js js' \<Longrightarrow> final_kept js' js'' \<Longrightarrow> final_kept js js''"
  unfolding final_kept_def
proof (intro ballI impI)
  fix j
  assume 1: "\<forall>j\<in>set js. ju_status j = Judging_Done \<or> ju_status j = Judging_Failed \<longrightarrow>
      (\<exists>s. j\<lparr>ju_submission_id := s\<rparr> \<in> set js')"
    and 2: "\<forall>j\<in>set js'. ju_status j = Judging_Done \<or> ju_status j = Judging_Failed \<longrightarrow>
      (\<exists>s. j\<lparr>ju_submission_id := s\<rparr> \<in> set js'')"
    and j: "j \<in> set js" "ju_status j = Judging_Done \<or> ju_status j = Judging_Failed"
  from 1 j obtain s where "j\<lparr>ju_submission_id := s\<rparr> \<in> set js'" by blast
  with 2 j(2) show "\<exists>s. j\<lparr>ju_submission_id := s\<rparr> \<in> set js''" by fastforce
qed

lemma final_kept_update:
  assumes "\<And>j. P j \<Longrightarrow> ju_status j \<noteq> Judging_Done \<and> ju_status j \<noteq> Judging_Failed"
  shows "final_kept js (update_where P f js)"
proof -
  have "\<exists>s. j\<lparr>ju_submission_id := s\<rparr> \<in> set (update_where P f js)" if "j \<in> set js" "\<not> P j" for j
    using that by (intro exI [of _ "ju_submission_id j"]) (simp add: set_update_where rev_image_eqI)
  then show ?thesis using assms unfolding final_kept_def by blast
qed

lemma final_kept_append: "final_kept js (js @ js')"
proof -
  have "\<exists>s. j\<lparr>ju_submission_id := s\<rparr> \<in> set (js @ js')" if "j \<in> set js" for j
    using that by (intro exI [of _ "ju_submission_id j"]) simp
  then show ?thesis by (simp only: final_kept_def) blast
qed

lemma final_kept_link: "final_kept js (update_where P (\<lambda>x. x\<lparr>ju_submission_id := sid\<rparr>) js)"
  unfolding final_kept_def
proof (intro ballI impI)
  fix j assume j: "j \<in> set js"
  show "\<exists>s. j\<lparr>ju_submission_id := s\<rparr> \<in> set (update_where P (\<lambda>x. x\<lparr>ju_submission_id := sid\<rparr>) js)"
  proof (rule exI [of _ "if P j then sid else ju_submission_id j"])
    show "j\<lparr>ju_submission_id := if P j then sid else ju_submission_id j\<rparr> \<in>
        set (update_where P (\<lambda>x. x\<lparr>ju_submission_id := sid\<rparr>) js)"
      unfolding set_update_where by (rule rev_image_eqI [OF j]) simp
  qed
qed

lemma record_verdict_kept: "final_kept (db_judgings d) (db_judgings (snd (record_verdict j v rid now d)))"
proof -
  have grade: "db_judgings (snd (record_grade d' d'' g)) = db_judgings d''" for d' d'' g
    by (subst record_grade_frame) simp
  have regrade: "db_judgings (snd (regrade ch s r c d')) = db_judgings d'" for ch s r c d'
    by (subst regrade_frame) simp
  have link: "final_kept (db_judgings d) (db_judgings (link_judging i r d'))"
    if "db_judgings d' = db_judgings d" for i r d'
    using final_kept_link [of "db_judgings d"] that by (simp add: link_judging_def)
  have first: "final_kept (db_judgings d) (db_judgings (snd (record_first_verdict c ch s j code ok rid now d)))"
    for c ch s code ok
    by (auto simp: record_first_verdict_def Let_def case_prod_unfold regrade grade link_code_def intro!: link)
  show ?thesis
    by (auto simp: record_verdict_def Let_def case_prod_unfold regrade intro!: link first split: option.split)
qed

lemma claim_first_kept: "final_kept (db_judgings d) (db_judgings (snd (claim_first now is d)))"
proof (induction "is" arbitrary: d)
  case (Cons i "is")
  let ?u = "update_judgings (\<lambda>j. ju_id j = i \<and> ju_status j = Judging_Queued) (claimed_values now) d"
  have "final_kept (db_judgings d) (db_judgings (snd ?u))" by (auto intro: final_kept_update)
  with Cons.IH [of "snd ?u"] show ?case
    by (auto simp: Let_def update_judgings_def split: prod.split intro: final_kept_trans)
qed simp

lemma fenced_kept: "final_kept js (update_where (fenced cl) f js)"
  by (rule final_kept_update) (simp add: fenced_def)

lemma reclaim_each_kept: "final_kept (db_judgings d) (db_judgings (snd (snd (reclaim_each now js d))))"
proof (induction js arbitrary: d)
  case (Cons j js)
  show ?case
    unfolding reclaim_each_state by (rule final_kept_trans [OF _ Cons.IH]) (simp add: fenced_kept)
qed simp

lemma prepare_kept: "final_kept (db_judgings d) (db_judgings (snd (prepare cl budget version now d)))"
  unfolding prepare_def Let_def update_judgings_def
  by (auto simp: fenced_kept split: option.split)

lemma give_up_kept: "final_kept (db_judgings d) (db_judgings (fst (give_up_or_retry cl err retry now d)))"
  by (simp add: give_up_or_retry_def update_judgings_def Let_def fenced_kept split: option.split)

lemma finish_kept: "final_kept (db_judgings d) (db_judgings (fst (finish_judging cl result tests now rid d)))"
proof -
  have "final_kept (db_judgings d) (db_judgings (snd (record_verdict j v rid now
      (d\<lparr>db_judgings := update_where (fenced cl) f (db_judgings d), db_judging_runs := runs\<rparr>))))" for j v f runs
    by (rule final_kept_trans [OF fenced_kept]) (rule record_verdict_kept [where d = "d\<lparr>db_judgings := js, db_judging_runs := runs\<rparr>" for js, simplified])
  then show ?thesis
    by (simp add: finish_judging_def update_judgings_def Let_def case_prod_unfold fenced_kept split: option.split)
qed

text \<open>
  C26: A verdict is never rewritten. Whatever session runs next, every judging that is done or
  failed keeps all its columns: status, verdict, attempts, times and results; at most the link to
  the submission row it was scored on is set. A correction is always a new judging.\<close>

theorem finished_judging_is_final:
  assumes "judge_step d d'" "j \<in> set (db_judgings d)" "ju_status j \<in> {Judging_Done, Judging_Failed}"
  shows "\<exists>s. j\<lparr>ju_submission_id := s\<rparr> \<in> set (db_judgings d')"
proof -
  have "final_kept (db_judgings d) (db_judgings d')"
    using assms(1)
  proof cases
    case (Claim read now)
    then show ?thesis by (simp add: claim_next_def claim_first_kept)
  next
    case (Prepare cl budget version now)
    then show ?thesis by (simp only: prepare_kept)
  next
    case (Conclude rid cl out tests now)
    then show ?thesis
      by (simp add: conclude_run_def Let_def case_prod_unfold give_up_kept finish_kept split: executor_outcome.split)
  next
    case (Reclaim read now)
    then show ?thesis by (simp add: reclaim_pass_def reclaim_each_kept)
  next
    case (Rejudge i mods cid jid actor now)
    then show ?thesis by (simp add: rejudge_one_def raise_def Let_def final_kept_append split: sum.split)
  next
    case (Rejudge_All fresh mods cid chid only actor now)
    then show ?thesis by (simp add: rejudge_problem_def raise_def Let_def final_kept_append split: sum.split)
  next
    case (Override i rid mods cid jid actor v reason now)
    have "final_kept (db_judgings d) (db_judgings (snd (record_verdict j v rid now
        (d\<lparr>db_judgings := db_judgings d @ [n]\<rparr>))))" for j n
      by (rule final_kept_trans [OF final_kept_append])
        (rule record_verdict_kept [where d = "d\<lparr>db_judgings := js\<rparr>" for js, simplified])
    with Override show ?thesis
      by (simp add: override_verdict_def raise_def Let_def case_prod_unfold split: sum.split)
  next
    case (Flag g read)
    then show ?thesis by (subst Flag(1), subst record_grade_frame) simp
  qed (simp_all add: final_kept_append give_up_kept judge_env_def)
  with assms(2,3) show ?thesis by (auto simp: final_kept_def)
qed

section \<open>The reaper leaves nothing overdue\<close>

lemma reclaim_each_overdue:
  "x \<in> set (db_judgings (snd (snd (reclaim_each now js d)))) \<Longrightarrow> overdue now x \<Longrightarrow>
     x \<in> set (db_judgings d) \<and> x \<notin> set js"
proof (induction js arbitrary: d)
  case (Cons j js)
  let ?P = "fenced \<lparr>cl_judging_id = ju_id j, cl_attempt = ju_attempts j\<rparr>"
  let ?d1 = "snd (update_judgings ?P (reclaim_values (ju_attempts j \<ge> MAX_ATTEMPTS) now) d)"
  have "x \<in> set (db_judgings ?d1)" "x \<notin> set js"
    using Cons.IH [of ?d1] Cons.prems unfolding reclaim_each_state by blast+
  moreover have "?P x \<Longrightarrow> x \<notin> set (db_judgings ?d1)"
    using Cons.prems(2) by (auto simp: set_update_where fenced_def)
  moreover have "x = j \<Longrightarrow> ?P x" using Cons.prems(2) by (simp add: fenced_def overdue_def)
  moreover have "x \<in> set (db_judgings ?d1) \<Longrightarrow> x \<in> set (db_judgings d)"
    using Cons.prems(2) by (auto simp: set_update_where)
  ultimately show ?case by auto
qed simp

text \<open>
  C27: The reaper ends and leaves nothing behind: its batched loop returns for every table, and in
  the state it leaves no running judging is past its deadline, however many batches that took.\<close>

theorem reclaim_leaves_nothing_overdue:
  "filter (overdue now) (db_judgings (snd (snd (reclaim now d)))) = []"
proof (induction now d rule: reclaim.induct)
  case (1 now d)
  let ?batch = "take JUDGE_REAP_BATCH (filter (overdue now) (db_judgings d))"
  let ?r = "reclaim_pass d now d"
  show ?case
  proof (cases "length ?batch < JUDGE_REAP_BATCH")
    case True
    then have "?batch = filter (overdue now) (db_judgings d)" by simp
    then have "\<not> overdue now x" if "x \<in> set (db_judgings (snd (snd ?r)))" for x
      using that reclaim_each_overdue [of x now ?batch d] by (auto simp: reclaim_pass_def)
    then show ?thesis
      using True by (subst reclaim.simps) (simp add: Let_def case_prod_unfold filter_empty_conv)
  next
    case False
    have "filter (overdue now) (db_judgings (snd (snd (reclaim now (snd (snd ?r)))))) = []"
      by (rule "1.IH" [OF refl prod.collapse prod.collapse False])
    then show ?thesis using False by (subst reclaim.simps) (simp add: Let_def case_prod_unfold)
  qed
qed

section \<open>A concrete run\<close>

text \<open>
  A team's code is queued, claimed and accepted; the verdict is then overridden to a wrong answer.
\<close>

definition run_start :: db where
  "run_start = empty_db\<lparr>
     db_competitions := [(blank_competition ''A'')\<lparr>co_participation_mode := Team_Mode\<rparr>],
     db_challenges := [(blank_challenge ''A'' ''q'')\<lparr>ch_flag_type := Programming, ch_points := 100\<rparr>]\<rparr>"

definition run_code :: code_submission where
  "run_code = \<lparr>cs_id = ''c1'', cs_competition_id = ''A'', cs_challenge_id = ''q'', cs_user_id = ''u'',
     cs_team_id = Some ''t'', cs_kind = Submit_Kind, cs_language_key = ''py'', cs_language_name = ''Python'',
     cs_source_object_key = ''k'', cs_source_bytes = 10, cs_submission_id = None, cs_created_at = 1\<rparr>"

definition run_result :: judge_result where
  "run_result = \<lparr>re_verdict = Accepted, re_compile_output = [], re_tests = [], re_error = None\<rparr>"

definition run_queued :: db where "run_queued = fst (snd (queue_code run_code ''j1'' 1 run_start))"
definition run_claimed :: db where "run_claimed = snd (claim_next run_queued 2 run_queued)"
definition run_accepted :: db where
  "run_accepted = fst (conclude_run \<lparr>cl_judging_id = ''j1'', cl_attempt = 1\<rparr>
     (Executor_Returned run_result) 0 3 ''s1'' run_claimed)"

lemma run_reachable: "judge_reachable run_queued" "judge_reachable run_claimed" "judge_reachable run_accepted"
proof -
  have "judge_reachable run_start" by (rule judge_reachable.Init) code_simp+
  then show q: "judge_reachable run_queued"
    unfolding run_queued_def by (rule judge_reachable.Step [OF _ judge_step.Queue]) code_simp+
  then show c: "judge_reachable run_claimed"
    unfolding run_claimed_def by (rule judge_reachable.Step [OF _ judge_step.Claim])
  then show "judge_reachable run_accepted"
    unfolding run_accepted_def by (rule judge_reachable.Step [OF _ judge_step.Conclude]) code_simp
qed

lemma run_accepted_rows:
  "map (\<lambda>j. (ju_id j, ju_code_submission_id j, ju_status j, ju_verdict j, ju_created_at j)) (db_judgings run_accepted)
     = [(''j1'', ''c1'', Judging_Done, Some Accepted, 1)]"
  "db_code_submissions run_accepted = [run_code\<lparr>cs_submission_id := Some ''s1''\<rparr>]"
  "map (\<lambda>r. (su_id r, su_challenge_id r, su_is_correct r)) (db_submissions run_accepted) = [(''s1'', ''q'', True)]"
  by code_simp+

lemma judgings_well_typed_witness: "list_all judging_typed (db_judgings run_accepted)"
  using judgings_well_typed [OF run_reachable(3)] by (simp add: list_all_iff)

text \<open>The same in a competition without teams, up to and including the override.\<close>

definition solo_start :: db where
  "solo_start = run_start\<lparr>db_competitions := [(blank_competition ''A'')\<lparr>co_participation_mode := Individual_Mode\<rparr>]\<rparr>"

definition solo_code :: code_submission where
  "solo_code = run_code\<lparr>cs_team_id := None\<rparr>"

definition solo_queued :: db where "solo_queued = fst (snd (queue_code solo_code ''j1'' 1 solo_start))"
definition solo_claimed :: db where "solo_claimed = snd (claim_next solo_queued 2 solo_queued)"
definition solo_accepted :: db where
  "solo_accepted = fst (conclude_run \<lparr>cl_judging_id = ''j1'', cl_attempt = 1\<rparr>
     (Executor_Returned run_result) 0 3 ''s1'' solo_claimed)"
definition solo_overridden :: db where
  "solo_overridden = fst (snd (override_verdict [judge_module] ''A'' ''j1'' ''admin'' Wrong_Answer ''r'' ''j2'' ''s9'' 4
     solo_accepted))"

lemma solo_run: "judge_run {''A''} solo_accepted" "judge_run {''A''} solo_overridden"
proof -
  have "judge_reachable solo_start" by (rule judge_reachable.Init) code_simp+
  then have "judge_run {''A''} solo_start" by (rule judge_run.Run_Init) code_simp+
  moreover have "judge_step solo_start solo_queued"
    unfolding solo_queued_def by (rule judge_step.Queue) code_simp+
  ultimately have "judge_run {''A''} solo_queued" by (rule judge_run.Run_Step) code_simp
  moreover have "judge_step solo_queued solo_claimed" unfolding solo_claimed_def by (rule judge_step.Claim)
  ultimately have "judge_run {''A''} solo_claimed" by (rule judge_run.Run_Step) code_simp
  moreover have "judge_step solo_claimed solo_accepted"
    unfolding solo_accepted_def by (rule judge_step.Conclude) code_simp
  ultimately show a: "judge_run {''A''} solo_accepted" by (rule judge_run.Run_Step) code_simp
  have "judge_step solo_accepted solo_overridden"
    unfolding solo_overridden_def by (rule judge_step.Override) code_simp+
  with a show "judge_run {''A''} solo_overridden" by (rule judge_run.Run_Step) code_simp
qed

lemma solo_rows:
  "map (\<lambda>j. (ju_id j, ju_code_submission_id j, ju_status j, ju_verdict j, ju_created_at j)) (db_judgings solo_overridden)
     = [(''j1'', ''c1'', Judging_Done, Some Accepted, 1), (''j2'', ''c1'', Judging_Done, Some Wrong_Answer, 4)]"
  "db_code_submissions solo_overridden = [solo_code\<lparr>cs_submission_id := Some ''s1''\<rparr>]"
  by code_simp+

lemma score_follows_latest_verdict_witness:
  "(\<exists>row. get_submission run_accepted ''s1'' = Some row \<and> su_challenge_id row = ''q'' \<and> su_is_correct row)
   \<and> (\<exists>row. get_submission solo_overridden ''s1'' = Some row \<and> su_challenge_id row = ''q'' \<and> \<not> su_is_correct row)"
proof
  obtain j where js: "db_judgings run_accepted = [j]" and j: "ju_id j = ''j1''" "ju_code_submission_id j = ''c1''"
      "ju_status j = Judging_Done" "ju_verdict j = Some Accepted"
    using run_accepted_rows(1) by (auto simp: map_eq_Cons_conv)
  let ?code = "run_code\<lparr>cs_submission_id := Some ''s1''\<rparr>"
  have kind: "cs_kind ?code = Submit_Kind" "cs_team_id ?code \<noteq> None \<or> cs_competition_id ?code \<in> {}"
      "cs_id ?code = ''c1''" "cs_challenge_id ?code = ''q''" by (simp_all add: run_code_def)
  have "\<exists>s row. cs_submission_id ?code = Some s \<and> get_submission run_accepted s = Some row
      \<and> su_challenge_id row = cs_challenge_id ?code \<and> su_is_correct row = (ju_verdict j = Some Accepted)"
    by (rule score_follows_latest_verdict [OF judge_reachable_run [OF run_reachable(3)] _ kind(1,2), where j = j])
      (simp_all add: js j kind(3) run_accepted_rows(2))
  then show "\<exists>row. get_submission run_accepted ''s1'' = Some row \<and> su_challenge_id row = ''q'' \<and> su_is_correct row"
    by (simp add: j(4) kind(4))
next
  obtain i j where js: "db_judgings solo_overridden = [i, j]"
    and i: "ju_id i = ''j1''" "ju_created_at i = 1"
    and j: "ju_id j = ''j2''" "ju_created_at j = 4" "ju_code_submission_id j = ''c1''" "ju_status j = Judging_Done"
      "ju_verdict j = Some Wrong_Answer"
    using solo_rows(1) by (auto simp: map_eq_Cons_conv)
  let ?code = "solo_code\<lparr>cs_submission_id := Some ''s1''\<rparr>"
  have kind: "cs_kind ?code = Submit_Kind" "cs_team_id ?code \<noteq> None \<or> cs_competition_id ?code \<in> {''A''}"
      "cs_id ?code = ''c1''" "cs_challenge_id ?code = ''q''" by (simp_all add: solo_code_def run_code_def)
  have "\<exists>s row. cs_submission_id ?code = Some s \<and> get_submission solo_overridden s = Some row
      \<and> su_challenge_id row = cs_challenge_id ?code \<and> su_is_correct row = (ju_verdict j = Some Accepted)"
    by (rule score_follows_latest_verdict [OF solo_run(2) _ kind(1,2), where j = j])
      (auto simp: js i j kind(3) solo_rows(2))
  then show "\<exists>row. get_submission solo_overridden ''s1'' = Some row \<and> su_challenge_id row = ''q'' \<and> \<not> su_is_correct row"
    by (simp add: j(5) kind(4))
qed

lemma judged_award_is_earliest_witness: "awarded (hd (db_submissions run_accepted))"
proof -
  have "hd (db_submissions run_accepted) \<in> set (db_submissions run_accepted)" by code_simp
  moreover have "programming run_accepted (su_challenge_id (hd (db_submissions run_accepted)))" by code_simp
  moreover have "su_is_correct (hd (db_submissions run_accepted))" by code_simp
  moreover have "set (db_submissions run_accepted) = {hd (db_submissions run_accepted)}" by code_simp
  ultimately show ?thesis using judged_award_is_earliest [OF run_reachable(3)] by simp
qed

lemma lost_claim_changes_nothing_witness:
  "conclude_run \<lparr>cl_judging_id = ''j1'', cl_attempt = 0\<rparr> (Executor_Returned run_result) 0 9 ''s2'' run_claimed
     = (run_claimed, False, [])"
proof -
  have "\<forall>j\<in>set (db_judgings run_claimed). ju_attempts j = 1" by code_simp
  then show ?thesis
    by (intro lost_claim_changes_nothing [THEN conjunct2, THEN conjunct1]) simp
qed

lemma finished_judging_is_final_witness:
  "\<exists>s. (hd (db_judgings run_accepted))\<lparr>ju_submission_id := s\<rparr> \<in>
     set (db_judgings (fst (snd (override_verdict [judge_module] ''A'' ''j1'' ''admin'' Wrong_Answer ''r'' ''j2'' ''s9'' 4
       run_accepted))))"
proof (rule finished_judging_is_final)
  show "judge_step run_accepted (fst (snd (override_verdict [judge_module] ''A'' ''j1'' ''admin'' Wrong_Answer ''r'' ''j2''
      ''s9'' 4 run_accepted)))"
    by (rule judge_step.Override) code_simp+
qed code_simp+

end
