(* ===== verification/Challenges.thy ===== *)
theory Challenges
  imports Instance_Routes Scoreboard Module_Loader
begin

text \<open>
  Authoring and reading challenges (\<open>routers/challenges.py\<close>). Permission checks of the route
  dependencies are \<open>Permissions.require_permission\<close>; the checks the handlers make themselves are
  here. A plaintext flag, a fresh id, a salt and the clock are arguments. The ctfcli archives are
  not modelled.
\<close>

section \<open>Validation\<close>

text \<open>Python's \<open>xs or None\<close> on an optional list.\<close>

definition or_none :: "'a list option \<Rightarrow> 'a list option" where
  "or_none x = (if x = Some [] then None else x)"

definition apply_flag :: "hasher \<Rightarrow> string \<Rightarrow> string \<Rightarrow> challenge \<Rightarrow> challenge" where
  "apply_flag sha salt raw ch =
     (if ch_flag_type ch = Regex_Flag
      then ch\<lparr>ch_flag_regex := Some raw, ch_flag_hash := None, ch_flag_salt := None\<rparr>
      else ch\<lparr>ch_flag_salt := Some salt,
              ch_flag_hash := Some (hash_static_flag sha raw salt (ch_case_insensitive ch)),
              ch_flag_regex := None\<rparr>)"

definition validate_multiple_choice :: "string option \<Rightarrow> challenge \<Rightarrow> challenge res" where
  "validate_multiple_choice raw ch =
     (let cleaned = map strip (coalesce (ch_choices ch) []) in
      res_bind (ensure (2 \<le> length cleaned) 400 ''A multiple-choice challenge needs at least two options'') (\<lambda>_.
      res_bind (ensure ([] \<notin> set cleaned) 400 ''Multiple-choice options can't be blank'') (\<lambda>_.
      res_bind (ensure (distinct cleaned) 400 ''Multiple-choice options must be unique'') (\<lambda>_.
      res_bind (ensure (case raw of None \<Rightarrow> True | Some r \<Rightarrow> strip r \<in> set cleaned) 400
                  ''The correct answer must be one of the options'') (\<lambda>_.
      Inr (ch\<lparr>ch_choices := Some cleaned\<rparr>))))))"

definition validate_programming :: "loaded \<Rightarrow> db \<Rightarrow> ident \<Rightarrow> string option \<Rightarrow> unit res" where
  "validate_programming mods d cid raw =
     res_bind (ensure (is_module_enabled mods d ''judge'' (Some cid)) 400
       ''Turn on the code judge module for this competition to add programming challenges'') (\<lambda>_.
     ensure (raw = None) 400 ''Programming challenges are marked by running code, not by a flag'')"

text \<open>\<open>_set_value\<close>: what a challenge is worth now.\<close>

definition current_value :: "db \<Rightarrow> challenge \<Rightarrow> int" where
  "current_value d ch = challenge_value ch (int (count_where (awarded_on (ch_id ch)) (db_submissions d)))"

definition prereq_ids :: "challenge \<Rightarrow> ident list" where
  "prereq_ids ch = coalesce (ch_prerequisites ch) []"

definition validate_prerequisites :: "db \<Rightarrow> ident \<Rightarrow> ident option \<Rightarrow> ident list \<Rightarrow> unit res" where
  "validate_prerequisites d cid chid prereqs =
     (let ids = remdups prereqs in
      res_bind (ensure (case chid of None \<Rightarrow> True | Some i \<Rightarrow> i \<notin> set ids) 400
        ''A challenge can't be its own prerequisite'') (\<lambda>_.
      ensure (list_all (\<lambda>i. list_ex (\<lambda>c. ch_competition_id c = cid \<and> ch_id c = i) (db_challenges d)) ids) 400
        ''A prerequisite is not a challenge in this competition''))"

definition is_locked :: "challenge \<Rightarrow> ident set \<Rightarrow> bool" where
  "is_locked ch solved = list_ex (\<lambda>p. p \<notin> solved) (prereq_ids ch)"

definition redact_for_competitor :: "bool \<Rightarrow> ident set option \<Rightarrow> challenge \<Rightarrow> challenge" where
  "redact_for_competitor can_edit solved ch =
     (if \<not> can_edit \<and> is_locked ch (coalesce solved {}) then ch\<lparr>ch_connection_info := None\<rparr> else ch)"

definition validate_metadata :: "competition \<Rightarrow> challenge \<Rightarrow> unit res" where
  "validate_metadata c ch =
     (let unknown = filter (\<lambda>t. t \<notin> set (coalesce (co_challenge_tags c) [])) (coalesce (ch_tags ch) []) in
      res_bind (ensure (unknown = []) 400
        (''Unknown tag(s) for this competition: '' @ join_with '', '' unknown)) (\<lambda>_.
      ensure (case ch_difficulty ch of None \<Rightarrow> True | Some x \<Rightarrow> x \<in> set (coalesce (co_difficulty_tiers c) []))
        400 ''Unknown difficulty tier for this competition''))"

definition validate_scoring :: "challenge \<Rightarrow> unit res" where
  "validate_scoring ch =
     (if ch_scoring_type ch \<noteq> Dynamic_Scoring then Inr ()
      else (case (ch_min_points ch, ch_decay ch) of
        (Some m, Some k) \<Rightarrow>
          res_bind (ensure (1 \<le> k) 400 ''Decay must be at least 1'') (\<lambda>_.
          ensure (m \<le> ch_points ch) 400 ''Minimum value can't exceed the initial value'')
      | _ \<Rightarrow> Inl (HTTPException 400 ''Dynamic scoring needs a minimum value and a decay'')))"

definition get_scoped_challenge :: "db \<Rightarrow> ident \<Rightarrow> ident \<Rightarrow> challenge res" where
  "get_scoped_challenge d cid chid =
     (case find (\<lambda>c. ch_competition_id c = cid \<and> ch_id c = chid) (db_challenges d) of
        None \<Rightarrow> Inl (HTTPException 404 ''Challenge not found'')
      | Some c \<Rightarrow> Inr c)"

definition is_released :: "time \<Rightarrow> challenge \<Rightarrow> bool" where
  "is_released now ch = (case ch_release_at ch of None \<Rightarrow> True | Some t \<Rightarrow> t \<le> now)"

definition load_visible_challenge :: "time \<Rightarrow> db \<Rightarrow> ident \<Rightarrow> ident \<Rightarrow> ident \<Rightarrow> challenge res" where
  "load_visible_challenge now d cid chid u =
     res_bind (get_scoped_challenge d cid chid) (\<lambda>ch.
       let hidden = ch_state ch \<noteq> Published \<or> \<not> is_released now ch in
       if hidden \<and> \<not> user_has_permission d u ''challenge_edit'' (Some cid)
       then Inl (HTTPException 404 ''Challenge not found'') else Inr ch)"

definition validate_category :: "db \<Rightarrow> ident \<Rightarrow> ident option \<Rightarrow> unit res" where
  "validate_category d cid cat =
     (case cat of
        None \<Rightarrow> Inr ()
      | Some i \<Rightarrow> ensure (list_ex (\<lambda>c. ca_competition_id c = cid \<and> ca_id c = i) (db_categories d)) 400
          ''Unknown category for this competition'')"

section \<open>Reading\<close>

text \<open>A challenge as a response carries it: the row, redacted, and its annotations.\<close>

record challenge_view =
  cv_challenge :: challenge
  cv_solve_count :: int
  cv_value :: int
  cv_solved :: bool
  cv_instanced :: bool
  cv_locked :: bool
  cv_my_rating :: "int option"
  cv_attempts_remaining :: "int option"
  cv_subject_value :: "int option"

text \<open>Python's truth of an optional percentage.\<close>

definition truthy :: "int option \<Rightarrow> bool" where
  "truthy x = (x \<noteq> None \<and> x \<noteq> Some 0)"

definition list_view ::
  "bool \<Rightarrow> subject option \<Rightarrow> (ident \<Rightarrow> int option) \<Rightarrow> ident set \<Rightarrow> int option \<Rightarrow> int option \<Rightarrow>
     (ident \<Rightarrow> int option) \<Rightarrow> (ident \<Rightarrow> int option) \<Rightarrow> ident set \<Rightarrow> challenge \<Rightarrow> challenge_view" where
  "list_view can_edit subject counts solved limit penalty attempts ratings instanced ch =
     (let count = coalesce (counts (ch_id ch)) 0;
          val = challenge_value ch count;
          guessing = (ch_flag_type ch = Multiple_Choice \<and> ch_id ch \<notin> solved);
          wrong = coalesce (attempts (ch_id ch)) 0;
          reduced = penalised_value val penalty wrong
      in \<lparr>cv_challenge = redact_for_competitor can_edit
              (if subject \<noteq> None then Some solved else None) ch,
          cv_solve_count = count, cv_value = val, cv_solved = (ch_id ch \<in> solved),
          cv_instanced = (ch_id ch \<in> instanced),
          cv_locked = (\<not> can_edit \<and> subject \<noteq> None \<and> is_locked ch solved),
          cv_my_rating = ratings (ch_id ch),
          cv_attempts_remaining = (if guessing then map_option (\<lambda>l. max 0 (l - wrong)) limit else None),
          cv_subject_value = (if guessing \<and> truthy penalty \<and> reduced < val then Some reduced else None)\<rparr>)"

definition list_challenges :: "time \<Rightarrow> db \<Rightarrow> ident \<Rightarrow> ident \<Rightarrow> challenge_view list" where
  "list_challenges now d cid u =
     (let can_edit = user_has_permission d u ''challenge_edit'' (Some cid);
          competition = get_competition d cid
      in if \<not> can_edit \<and> (case competition of None \<Rightarrow> False | Some c \<Rightarrow> \<not> is_playable c) then []
      else
        let challenges = sort_key ch_created_at
              (filter (\<lambda>ch. ch_competition_id ch = cid
                 \<and> (can_edit \<or> ch_state ch = Published \<and> is_released now ch)) (db_challenges d));
            subject = Option.bind competition (\<lambda>c. resolve_subject d c u);
            counts = solve_counts d cid (Option.bind competition (\<lambda>c. visible_solve_cutoff now d c u));
            solved = (case subject of None \<Rightarrow> {} | Some s \<Rightarrow> solved_challenge_ids d cid s);
            limit = Option.bind competition co_mc_guess_limit;
            penalty = Option.bind competition co_mc_penalty_pct;
            attempts = (case subject of None \<Rightarrow> (\<lambda>_. None)
              | Some s \<Rightarrow> if limit \<noteq> None \<or> truthy penalty then subject_attempt_counts d cid s else (\<lambda>_. None));
            ratings = (case competition of None \<Rightarrow> (\<lambda>_. None)
              | Some c \<Rightarrow> if co_challenge_ratings_enabled c
                  then map_of (rev (map (\<lambda>r. (cr_challenge_id r, cr_rating r))
                    (filter (\<lambda>r. cr_competition_id r = cid \<and> cr_user_id r = u) (db_ratings d))))
                  else (\<lambda>_. None));
            instanced = set (map cd_challenge_id
              (filter (\<lambda>r. cd_competition_id r = cid \<and> cd_challenge_id r \<in> ch_id ` set challenges)
                (db_deployments d)))
        in map (list_view can_edit subject counts solved limit penalty attempts ratings instanced) challenges)"

text \<open>The detail route; a raised error is the outcome of a refused read.\<close>

definition get_challenge_route :: "time \<Rightarrow> db \<Rightarrow> ident \<Rightarrow> ident \<Rightarrow> ident \<Rightarrow> challenge_view res" where
  "get_challenge_route now d cid chid u =
     (let competition = get_competition d cid in
      res_bind (case competition of None \<Rightarrow> Inr () | Some c \<Rightarrow> require_playable d c u) (\<lambda>_.
      res_bind (load_visible_challenge now d cid chid u) (\<lambda>ch.
        let cutoff = Option.bind competition (\<lambda>c. visible_solve_cutoff now d c u);
            count = int (count_where (\<lambda>r. awarded_on chid r
              \<and> (case cutoff of None \<Rightarrow> True | Some t \<Rightarrow> su_created_at r \<le> t)) (db_submissions d));
            val = challenge_value ch count;
            subject = Option.bind competition (\<lambda>c. resolve_subject d c u);
            solved = (case subject of None \<Rightarrow> False | Some s \<Rightarrow> subject_has_solved d chid s);
            gated = (prereq_ids ch \<noteq> []);
            can_edit = (gated \<and> user_has_permission d u ''challenge_edit'' (Some cid));
            solved_ids = (if gated \<and> \<not> can_edit then map_option (solved_challenge_ids d cid) subject else None);
            locked = (case solved_ids of None \<Rightarrow> False | Some ids \<Rightarrow> is_locked ch ids);
            limit = Option.bind competition co_mc_guess_limit;
            penalty = Option.bind competition co_mc_penalty_pct;
            used = (if ch_flag_type ch = Multiple_Choice \<and> \<not> solved \<and> (limit \<noteq> None \<or> truthy penalty)
                    then map_option (subject_attempt_count d chid) subject else None);
            reduced = (\<lambda>n. penalised_value val penalty n)
        in Inr \<lparr>cv_challenge = redact_for_competitor can_edit solved_ids ch,
                cv_solve_count = count, cv_value = val, cv_solved = solved,
                cv_instanced = list_ex (\<lambda>r. cd_competition_id r = cid \<and> cd_challenge_id r = chid) (db_deployments d),
                cv_locked = locked,
                cv_my_rating = (case competition of None \<Rightarrow> None
                  | Some c \<Rightarrow> if co_challenge_ratings_enabled c
                      then map_option cr_rating (find (\<lambda>r. cr_challenge_id r = chid \<and> cr_user_id r = u) (db_ratings d))
                      else None),
                cv_attempts_remaining = (case (used, limit) of (Some n, Some l) \<Rightarrow> Some (max 0 (l - n)) | _ \<Rightarrow> None),
                cv_subject_value = (case used of None \<Rightarrow> None
                  | Some n \<Rightarrow> if truthy penalty \<and> reduced n < val then Some (reduced n) else None)\<rparr>)))"

text \<open>The solver list; the name is missing when the team or user is gone.\<close>

record solver =
  so_subject_id :: "ident option"
  so_name :: "string option"
  so_solved_at :: time
  so_first_blood :: bool

definition list_solves :: "time \<Rightarrow> db \<Rightarrow> ident \<Rightarrow> ident \<Rightarrow> ident \<Rightarrow> solver list res" where
  "list_solves now d cid chid u =
     res_bind (load_visible_challenge now d cid chid u) (\<lambda>_.
       let competition = get_competition d cid;
           team_mode = (case competition of None \<Rightarrow> False | Some c \<Rightarrow> co_participation_mode c = Team_Mode);
           cutoff = Option.bind competition (\<lambda>c. visible_solve_cutoff now d c u);
           rows = sort_key su_created_at (filter (\<lambda>r. awarded_on chid r \<and> in_scope team_mode (su_team_id r)
             \<and> (case cutoff of None \<Rightarrow> True | Some t \<Rightarrow> su_created_at r \<le> t)) (db_submissions d));
           name = (\<lambda>i. if team_mode then map_option te_name (get_team d i) else map_option us_display_name (get_user d i))
       in Inr (map (\<lambda>(n, r). \<lparr>so_subject_id = solve_col team_mode r, so_name = Option.bind (solve_col team_mode r) name,
                 so_solved_at = su_created_at r, so_first_blood = (n = 0)\<rparr>) (enumerate 0 rows)))"

section \<open>Creating\<close>

record challenge_create =
  cb_title :: string
  cb_description :: pyval
  cb_category_id :: "ident option"
  cb_points :: int
  cb_scoring_type :: scoring_type
  cb_min_points :: "int option"
  cb_decay :: "int option"
  cb_release_at :: "time option"
  cb_prerequisites :: "ident list"
  cb_tags :: "string list"
  cb_difficulty :: "string option"
  cb_connection_info :: "string option"
  cb_flag_type :: flag_type
  cb_case_insensitive :: bool
  cb_flag :: "string option"
  cb_choices :: "string list option"

definition created_row :: "challenge_create \<Rightarrow> ident \<Rightarrow> ident \<Rightarrow> time \<Rightarrow> challenge" where
  "created_row b cid i now =
     \<lparr>ch_id = i, ch_competition_id = cid, ch_title = cb_title b, ch_description = cb_description b,
      ch_category_id = cb_category_id b, ch_points = cb_points b, ch_scoring_type = cb_scoring_type b,
      ch_min_points = cb_min_points b, ch_decay = cb_decay b, ch_state = Draft,
      ch_release_at = cb_release_at b, ch_prerequisites = or_none (Some (cb_prerequisites b)),
      ch_tags = or_none (Some (cb_tags b)), ch_difficulty = cb_difficulty b,
      ch_connection_info = cb_connection_info b, ch_flag_type = cb_flag_type b,
      ch_case_insensitive = cb_case_insensitive b, ch_flag_hash = None, ch_flag_salt = None,
      ch_flag_regex = None, ch_choices = None, ch_created_at = now\<rparr>"

definition checked_create ::
  "loaded \<Rightarrow> hasher \<Rightarrow> string \<Rightarrow> db \<Rightarrow> ident \<Rightarrow> challenge_create \<Rightarrow> ident \<Rightarrow> time \<Rightarrow> challenge res" where
  "checked_create mods sha salt d cid b i now =
     (let ch = created_row b cid i now in
      res_bind (validate_category d cid (cb_category_id b)) (\<lambda>_.
      res_bind (validate_scoring ch) (\<lambda>_.
      res_bind (if cb_flag_type b = Programming then validate_programming mods d cid (cb_flag b) else Inr ()) (\<lambda>_.
      res_bind (validate_prerequisites d cid None (prereq_ids ch)) (\<lambda>_.
      res_bind (case get_competition d cid of None \<Rightarrow> Inr () | Some c \<Rightarrow> validate_metadata c ch) (\<lambda>_.
      res_bind (if cb_flag_type b = Multiple_Choice \<and> cb_choices b \<noteq> None
                then validate_multiple_choice (cb_flag b) (ch\<lparr>ch_choices := cb_choices b\<rparr>) else Inr ch) (\<lambda>ch1.
      Inr (case cb_flag b of None \<Rightarrow> ch1 | Some raw \<Rightarrow> apply_flag sha salt raw ch1))))))))"

text \<open>The response of a write: the row and its current value.\<close>

definition challenge_event :: "string \<Rightarrow> ident \<Rightarrow> ident \<Rightarrow> ident \<Rightarrow> payload \<Rightarrow> event" where
  "challenge_event name cid chid u extra =
     Event name ([(''competition_id'', PStr cid), (''challenge_id'', PStr chid), (''user_id'', PStr u)] @ extra)"

definition create_challenge ::
  "loaded \<Rightarrow> hasher \<Rightarrow> string \<Rightarrow> db \<Rightarrow> ident \<Rightarrow> challenge_create \<Rightarrow> ident \<Rightarrow> time \<Rightarrow> ident \<Rightarrow>
     (challenge \<times> int) outcome" where
  "create_challenge mods sha salt d cid b i now u =
     (case checked_create mods sha salt d cid b i now of
        Inl e \<Rightarrow> (Inl e, d, [])
      | Inr ch \<Rightarrow> (Inr (ch, challenge_value ch 0), d\<lparr>db_challenges := db_challenges d @ [ch]\<rparr>,
          [challenge_event ''challenge.created'' cid i u [(''title'', PStr (ch_title ch))]]))"

section \<open>Editing\<close>

text \<open>
  The fields a \<open>PATCH\<close> sets: \<open>None\<close> is a field that was not sent; a nullable column can be
  set to null. Null for a column that is not nullable fails at the commit and is left out.
\<close>

record challenge_update =
  up_title :: "string option"
  up_description :: "pyval option"
  up_category_id :: "ident option option"
  up_points :: "int option"
  up_scoring_type :: "scoring_type option"
  up_min_points :: "int option option"
  up_decay :: "int option option"
  up_release_at :: "time option option"
  up_prerequisites :: "ident list option option"
  up_tags :: "string list option option"
  up_difficulty :: "string option option"
  up_connection_info :: "string option option"
  up_flag_type :: "flag_type option"
  up_case_insensitive :: "bool option"
  up_flag :: "string option"
  up_choices :: "string list option option"

definition no_changes :: challenge_update where
  "no_changes = \<lparr>up_title = None, up_description = None, up_category_id = None, up_points = None,
     up_scoring_type = None, up_min_points = None, up_decay = None, up_release_at = None,
     up_prerequisites = None, up_tags = None, up_difficulty = None, up_connection_info = None,
     up_flag_type = None, up_case_insensitive = None, up_flag = None, up_choices = None\<rparr>"

definition set_fields :: "challenge_update \<Rightarrow> challenge \<Rightarrow> challenge" where
  "set_fields b ch = ch\<lparr>
     ch_title := coalesce (up_title b) (ch_title ch),
     ch_description := coalesce (up_description b) (ch_description ch),
     ch_category_id := coalesce (up_category_id b) (ch_category_id ch),
     ch_points := coalesce (up_points b) (ch_points ch),
     ch_scoring_type := coalesce (up_scoring_type b) (ch_scoring_type ch),
     ch_min_points := coalesce (up_min_points b) (ch_min_points ch),
     ch_decay := coalesce (up_decay b) (ch_decay ch),
     ch_release_at := coalesce (up_release_at b) (ch_release_at ch),
     ch_prerequisites := coalesce (up_prerequisites b) (ch_prerequisites ch),
     ch_tags := coalesce (up_tags b) (ch_tags ch),
     ch_difficulty := coalesce (up_difficulty b) (ch_difficulty ch),
     ch_connection_info := coalesce (up_connection_info b) (ch_connection_info ch),
     ch_flag_type := coalesce (up_flag_type b) (ch_flag_type ch),
     ch_case_insensitive := coalesce (up_case_insensitive b) (ch_case_insensitive ch),
     ch_choices := coalesce (up_choices b) (ch_choices ch)\<rparr>"

text \<open>The sorted names of the fields that were sent.\<close>

definition changed_fields :: "challenge_update \<Rightarrow> string list" where
  "changed_fields b = map snd (filter fst
     [(up_case_insensitive b \<noteq> None, ''case_insensitive''), (up_category_id b \<noteq> None, ''category_id''),
      (up_choices b \<noteq> None, ''choices''), (up_connection_info b \<noteq> None, ''connection_info''),
      (up_decay b \<noteq> None, ''decay''), (up_description b \<noteq> None, ''description''),
      (up_difficulty b \<noteq> None, ''difficulty''), (up_flag b \<noteq> None, ''flag''),
      (up_flag_type b \<noteq> None, ''flag_type''), (up_min_points b \<noteq> None, ''min_points''),
      (up_points b \<noteq> None, ''points''), (up_prerequisites b \<noteq> None, ''prerequisites''),
      (up_release_at b \<noteq> None, ''release_at''), (up_scoring_type b \<noteq> None, ''scoring_type''),
      (up_tags b \<noteq> None, ''tags''), (up_title b \<noteq> None, ''title'')])"

definition update_choices :: "challenge_update \<Rightarrow> challenge \<Rightarrow> challenge res" where
  "update_choices b ch =
     (if ch_flag_type ch \<noteq> Multiple_Choice then Inr (ch\<lparr>ch_choices := None\<rparr>)
      else let ch1 = ch\<lparr>ch_choices := or_none (ch_choices ch)\<rparr> in
        res_bind (ensure (\<not> (up_choices b \<noteq> None \<and> up_flag b = None \<and> ch_flag_hash ch1 \<noteq> None)) 400
          ''Re-enter the correct answer when changing the options'') (\<lambda>_.
        if ch_choices ch1 \<noteq> None then validate_multiple_choice (up_flag b) ch1 else Inr ch1))"

definition update_flag :: "hasher \<Rightarrow> string \<Rightarrow> challenge_update \<Rightarrow> challenge \<Rightarrow> challenge res" where
  "update_flag sha salt b ch =
     (case up_flag b of
        Some raw \<Rightarrow> Inr (apply_flag sha salt raw ch)
      | None \<Rightarrow> res_bind (ensure (\<not> ((up_case_insensitive b \<noteq> None \<or> up_flag_type b \<noteq> None) \<and> has_flag ch)) 400
          ''Changing flag settings requires re-entering the flag'') (\<lambda>_. Inr ch))"

definition checked_update ::
  "hasher \<Rightarrow> string \<Rightarrow> db \<Rightarrow> ident \<Rightarrow> challenge_update \<Rightarrow> challenge \<Rightarrow> challenge res" where
  "checked_update sha salt d cid b ch =
     res_bind (case up_category_id b of None \<Rightarrow> Inr () | Some cat \<Rightarrow> validate_category d cid cat) (\<lambda>_.
     res_bind (ensure (case up_flag_type b of None \<Rightarrow> True
         | Some t \<Rightarrow> (t = Programming) = (ch_flag_type ch = Programming)) 400
       ''A challenge can't be switched to or from Programming - create a new challenge instead'') (\<lambda>_.
     res_bind (ensure (\<not> (ch_flag_type ch = Programming \<and> up_flag b \<noteq> None)) 400
       ''Programming challenges are marked by running code, not by a flag'') (\<lambda>_.
     let ch1 = set_fields b ch in
     res_bind (validate_scoring ch1) (\<lambda>_.
     let ch2 = (if up_prerequisites b \<noteq> None then ch1\<lparr>ch_prerequisites := or_none (ch_prerequisites ch1)\<rparr> else ch1) in
     res_bind (if up_prerequisites b \<noteq> None
               then validate_prerequisites d cid (Some (ch_id ch)) (prereq_ids ch2) else Inr ()) (\<lambda>_.
     let meta = (up_tags b \<noteq> None \<or> up_difficulty b \<noteq> None);
         ch3 = (if meta then ch2\<lparr>ch_tags := or_none (ch_tags ch2)\<rparr> else ch2) in
     res_bind (if meta then (case get_competition d cid of None \<Rightarrow> Inr () | Some c \<Rightarrow> validate_metadata c ch3)
               else Inr ()) (\<lambda>_.
     res_bind (update_choices b ch3) (update_flag sha salt b)))))))"

definition put_challenge :: "challenge \<Rightarrow> db \<Rightarrow> db" where
  "put_challenge ch d = d\<lparr>db_challenges := update_where (\<lambda>c. ch_id c = ch_id ch) (\<lambda>_. ch) (db_challenges d)\<rparr>"

definition update_challenge ::
  "hasher \<Rightarrow> string \<Rightarrow> db \<Rightarrow> ident \<Rightarrow> ident \<Rightarrow> challenge_update \<Rightarrow> ident \<Rightarrow> (challenge \<times> int) outcome" where
  "update_challenge sha salt d cid chid b u =
     (case res_bind (get_scoped_challenge d cid chid) (checked_update sha salt d cid b) of
        Inl e \<Rightarrow> (Inl e, d, [])
      | Inr ch \<Rightarrow> (Inr (ch, current_value d ch), put_challenge ch d,
          [challenge_event ''challenge.updated'' cid chid u
            [(''changed_fields'', PList (map PStr (changed_fields b)))]]))"

section \<open>Publishing\<close>

text \<open>What publishing asks of a challenge: something to grade a submission against.\<close>

definition publishable :: "loaded \<Rightarrow> db \<Rightarrow> ident \<Rightarrow> challenge \<Rightarrow> unit res" where
  "publishable mods d cid ch =
     (if ch_flag_type ch = Programming
      then res_bind (ensure (is_module_enabled mods d ''judge'' (Some cid)) 400
             ''Turn on the code judge module for this competition first'') (\<lambda>_.
           ensure (case find (\<lambda>p. jp_challenge_id p = ch_id ch \<and> jp_competition_id p = cid) (db_judge_problems d) of
               None \<Rightarrow> False | Some p \<Rightarrow> jp_testcases p \<noteq> []) 400
             ''Add at least one test case before publishing'')
      else ensure (has_flag ch \<or> deployment_flag_mode d cid (ch_id ch) = Some Unique_Per_Instance) 400
             ''A challenge needs a flag before it can be published'')"

definition publish_challenge :: "loaded \<Rightarrow> db \<Rightarrow> ident \<Rightarrow> ident \<Rightarrow> ident \<Rightarrow> (challenge \<times> int) outcome" where
  "publish_challenge mods d cid chid u =
     (case res_bind (get_scoped_challenge d cid chid)
             (\<lambda>ch. res_bind (publishable mods d cid ch) (\<lambda>_. Inr ch)) of
        Inl e \<Rightarrow> (Inl e, d, [])
      | Inr ch \<Rightarrow>
          if ch_state ch = Published then (Inr (ch, current_value d ch), d, [])
          else (let ch1 = ch\<lparr>ch_state := Published\<rparr> in
            (Inr (ch1, current_value d ch1), put_challenge ch1 d,
             [challenge_event ''challenge.published'' cid chid u [(''title'', PStr (ch_title ch))]])))"

definition unpublish_challenge :: "db \<Rightarrow> ident \<Rightarrow> ident \<Rightarrow> ident \<Rightarrow> (challenge \<times> int) outcome" where
  "unpublish_challenge d cid chid u =
     (case get_scoped_challenge d cid chid of
        Inl e \<Rightarrow> (Inl e, d, [])
      | Inr ch \<Rightarrow>
          if ch_state ch = Draft then (Inr (ch, current_value d ch), d, [])
          else (let ch1 = ch\<lparr>ch_state := Draft\<rparr> in
            (Inr (ch1, current_value d ch1), put_challenge ch1 d,
             [challenge_event ''challenge.updated'' cid chid u [(''changed_fields'', PList [PStr ''state''])]])))"

section \<open>Deleting and resetting\<close>

text \<open>The rows that go with a challenge (\<open>ON DELETE CASCADE\<close>).\<close>

definition cascade_challenge :: "ident \<Rightarrow> db \<Rightarrow> db" where
  "cascade_challenge i d = d\<lparr>
     db_challenges := delete_where (\<lambda>r. ch_id r = i) (db_challenges d),
     db_submissions := delete_where (\<lambda>r. su_challenge_id r = i) (db_submissions d),
     db_guess_resets := delete_where (\<lambda>r. gr_challenge_id r = i) (db_guess_resets d),
     db_hints := delete_where (\<lambda>r. hi_challenge_id r = i) (db_hints d),
     db_hint_reveals := delete_where (\<lambda>r. hr_challenge_id r = i) (db_hint_reveals d),
     db_ratings := delete_where (\<lambda>r. cr_challenge_id r = i) (db_ratings d),
     db_deployments := delete_where (\<lambda>r. cd_challenge_id r = i) (db_deployments d),
     db_instances := delete_where (\<lambda>r. ci_challenge_id r = i) (db_instances d),
     db_attachments := delete_where (\<lambda>r. at_challenge_id r = i) (db_attachments d),
     db_judge_problems := delete_where (\<lambda>r. jp_challenge_id r = i) (db_judge_problems d),
     db_code_submissions := delete_where (\<lambda>r. cs_challenge_id r = i) (db_code_submissions d),
     db_judgings := delete_where (\<lambda>r. ju_challenge_id r = i) (db_judgings d),
     db_judging_runs := delete_where (\<lambda>r. list_ex (\<lambda>j. ju_id j = jr_judging_id r \<and> ju_challenge_id j = i)
       (db_judgings d)) (db_judging_runs d)\<rparr>"

text \<open>The result carries the object keys deleted from the store.\<close>

definition delete_challenge :: "db \<Rightarrow> ident \<Rightarrow> ident \<Rightarrow> ident \<Rightarrow> string list outcome" where
  "delete_challenge d cid chid u =
     (case get_scoped_challenge d cid chid of
        Inl e \<Rightarrow> (Inl e, d, [])
      | Inr ch \<Rightarrow>
          (let keys = map at_object_key (filter (\<lambda>a. at_challenge_id a = chid) (db_attachments d));
               judge_key = Option.bind (find (\<lambda>p. jp_challenge_id p = chid \<and> jp_competition_id p = cid)
                 (db_judge_problems d)) jp_object_key;
               sources = map cs_source_object_key
                 (filter (\<lambda>c. cs_challenge_id c = chid \<and> cs_competition_id c = cid) (db_code_submissions d))
           in (Inr (keys @ (case judge_key of None \<Rightarrow> [] | Some k \<Rightarrow> if k = [] then [] else [k]) @ sources),
               cascade_challenge chid d,
               [challenge_event ''challenge.deleted'' cid chid u []])))"

definition reset_guesses ::
  "db \<Rightarrow> ident \<Rightarrow> ident \<Rightarrow> ident option \<Rightarrow> ident option \<Rightarrow> ident \<Rightarrow> time \<Rightarrow> unit outcome" where
  "reset_guesses d cid chid user team actor now =
     (case res_bind (get_scoped_challenge d cid chid) (\<lambda>ch.
        res_bind (ensure (ch_flag_type ch = Multiple_Choice) 400
          ''Guess resets only apply to multiple-choice challenges'') (\<lambda>_.
        res_bind (ensure (coalesce user [] = [] \<or> coalesce team [] = []) 400 ''Reset a team or a user, not both'') (\<lambda>_.
        res_bind (ensure (case team of None \<Rightarrow> True
            | Some t \<Rightarrow> list_ex (\<lambda>x. te_id x = t \<and> te_competition_id x = cid) (db_teams d)) 404 ''Team not found'') (\<lambda>_.
        ensure (case user of None \<Rightarrow> True | Some x \<Rightarrow> get_user d x \<noteq> None) 404 ''User not found'')))) of
        Inl e \<Rightarrow> (Inl e, d, [])
      | Inr _ \<Rightarrow> (Inr (), d\<lparr>db_guess_resets := db_guess_resets d @ [\<lparr>gr_competition_id = cid, gr_challenge_id = chid,
            gr_user_id = user, gr_team_id = team, gr_reset_by = Some actor, gr_created_at = now\<rparr>]\<rparr>,
          [Event ''challenge.guesses_reset''
            [(''competition_id'', PStr cid), (''challenge_id'', PStr chid), (''user_id'', pstr user),
             (''team_id'', pstr team), (''actor_user_id'', PStr actor)]]))"

end
