(* ===== verification/Challenge_Access.thy ===== *)
theory Challenge_Access
  imports Challenges
begin

text \<open>
  What the challenge routes promise: the list and the detail of a challenge agree, competitors see
  what is released and nothing of a locked challenge's infrastructure, and what authoring can leave
  behind.
\<close>

section \<open>The pieces of the two reads\<close>

lemma get_competition_id: "get_competition d cid = Some c \<Longrightarrow> co_id c = cid"
  unfolding get_competition_def by (drule find_Some_in) simp

lemma get_scoped_challenge_in:
  "get_scoped_challenge d cid chid = Inr ch \<Longrightarrow>
     ch \<in> set (db_challenges d) \<and> ch_competition_id ch = cid \<and> ch_id ch = chid"
  by (auto simp: get_scoped_challenge_def dest: find_Some_in split: option.splits)

lemma get_scoped_challenge_unique:
  assumes "distinct (map ch_id (db_challenges d))" "ch \<in> set (db_challenges d)" "ch_competition_id ch = cid"
  shows "get_scoped_challenge d cid (ch_id ch) = Inr ch"
proof (cases "get_scoped_challenge d cid (ch_id ch)")
  case (Inl e)
  with assms show ?thesis by (auto simp: get_scoped_challenge_def find_None_iff split: option.splits)
next
  case (Inr x)
  from get_scoped_challenge_in [OF this] assms have "x = ch" by (metis distinct_map inj_onD)
  with Inr show ?thesis by simp
qed

lemma solve_count_agrees:
  assumes "\<forall>r\<in>set (db_submissions d). su_challenge_id r = chid \<longrightarrow> su_competition_id r = cid"
  shows "coalesce (solve_counts d cid cutoff chid) 0 = int (count_where (\<lambda>r. awarded_on chid r
    \<and> (case cutoff of None \<Rightarrow> True | Some t \<Rightarrow> su_created_at r \<le> t)) (db_submissions d))"
  unfolding solve_counts_def group_count_coalesce count_where_filter
  using assms by (intro arg_cong [where f = int] count_where_cong) (auto simp: awarded_def)

lemma solved_agrees:
  assumes "\<forall>r\<in>set (db_submissions d). su_challenge_id r = chid \<longrightarrow> su_competition_id r = cid"
  shows "chid \<in> solved_challenge_ids d cid s \<longleftrightarrow> subject_has_solved d chid s"
  using assms by (auto simp: solved_challenge_ids_def subject_has_solved_def exists_where_iff)

lemma rating_agrees:
  assumes "\<forall>r\<in>set rs. cr_challenge_id r = k \<longrightarrow> cr_competition_id r = cid"
    and "distinct (map (\<lambda>r. (cr_challenge_id r, cr_user_id r)) rs)"
  shows "map_of (rev (map (\<lambda>r. (cr_challenge_id r, cr_rating r))
      (filter (\<lambda>r. cr_competition_id r = cid \<and> cr_user_id r = u) rs))) k =
    map_option cr_rating (find (\<lambda>r. cr_challenge_id r = k \<and> cr_user_id r = u) rs)"
proof -
  let ?mine = "filter (\<lambda>r. cr_competition_id r = cid \<and> cr_user_id r = u) rs"
  have "distinct (map cr_challenge_id ?mine)"
    using assms(2) by (induction rs) (auto simp: image_iff)
  then have "map_of (rev (map (\<lambda>r. (cr_challenge_id r, cr_rating r)) ?mine)) =
      map_of (map (\<lambda>r. (cr_challenge_id r, cr_rating r)) ?mine)"
    by (intro map_of_inject_set [THEN iffD2]) (simp_all add: comp_def rev_map [symmetric] distinct_rev)
  moreover have "map_of (map (\<lambda>r. (cr_challenge_id r, cr_rating r)) ?mine) k =
      map_option cr_rating (find (\<lambda>r. cr_challenge_id r = k \<and> cr_user_id r = u) rs)"
    using assms(1) by (induction rs) auto
  ultimately show ?thesis by simp
qed

lemma is_locked_none [simp]: "prereq_ids ch = [] \<Longrightarrow> \<not> is_locked ch ids"
  by (simp add: is_locked_def)

lemma redact_unlocked: "\<not> is_locked ch (coalesce ids {}) \<Longrightarrow> redact_for_competitor can_edit ids ch = ch"
  by (simp add: redact_for_competitor_def)

lemma redact_simps [simp]:
  "ch_id (redact_for_competitor can_edit ids ch) = ch_id ch"
  "ch_state (redact_for_competitor can_edit ids ch) = ch_state ch"
  "ch_release_at (redact_for_competitor can_edit ids ch) = ch_release_at ch"
  "prereq_ids (redact_for_competitor can_edit ids ch) = prereq_ids ch"
  "is_released now (redact_for_competitor can_edit ids ch) = is_released now ch"
  by (simp_all add: redact_for_competitor_def prereq_ids_def is_released_def)

lemma list_view_challenge [simp]:
  "cv_challenge (list_view can_edit s counts solved limit penalty attempts ratings instanced ch) =
     redact_for_competitor can_edit (if s \<noteq> None then Some solved else None) ch"
  by (simp add: list_view_def Let_def)

lemma listed:
  assumes c: "get_competition d cid = Some c" and v: "v \<in> set (list_challenges now d cid u)"
  obtains ch attempts ratings instanced where "ch \<in> set (db_challenges d)" "ch_competition_id ch = cid"
    and "user_has_permission d u ''challenge_edit'' (Some cid) \<or>
      is_playable c \<and> ch_state ch = Published \<and> is_released now ch"
    and "v = list_view (user_has_permission d u ''challenge_edit'' (Some cid)) (resolve_subject d c u)
      (solve_counts d cid (visible_solve_cutoff now d c u))
      (case resolve_subject d c u of None \<Rightarrow> {} | Some s \<Rightarrow> solved_challenge_ids d cid s)
      (co_mc_guess_limit c) (co_mc_penalty_pct c) attempts ratings instanced ch"
    and "attempts = (case resolve_subject d c u of None \<Rightarrow> (\<lambda>_. None)
      | Some s \<Rightarrow> if co_mc_guess_limit c \<noteq> None \<or> truthy (co_mc_penalty_pct c) then subject_attempt_counts d cid s
                else (\<lambda>_. None))"
    and "ratings = (if co_challenge_ratings_enabled c
      then map_of (rev (map (\<lambda>r. (cr_challenge_id r, cr_rating r))
        (filter (\<lambda>r. cr_competition_id r = cid \<and> cr_user_id r = u) (db_ratings d)))) else (\<lambda>_. None))"
    and "ch_id ch \<in> instanced \<longleftrightarrow>
      list_ex (\<lambda>r. cd_competition_id r = cid \<and> cd_challenge_id r = ch_id ch) (db_deployments d)"
proof -
  let ?edit = "user_has_permission d u ''challenge_edit'' (Some cid)"
  let ?shown = "filter (\<lambda>ch. ch_competition_id ch = cid \<and> (?edit \<or> ch_state ch = Published \<and> is_released now ch))
    (db_challenges d)"
  let ?instanced = "set (map cd_challenge_id (filter (\<lambda>r. cd_competition_id r = cid
    \<and> cd_challenge_id r \<in> ch_id ` set (sort_key ch_created_at ?shown)) (db_deployments d)))"
  have playable: "?edit \<or> is_playable c"
    using v c by (auto simp: list_challenges_def Let_def split: if_splits)
  let ?view = "list_view ?edit (resolve_subject d c u) (solve_counts d cid (visible_solve_cutoff now d c u))
      (case resolve_subject d c u of None \<Rightarrow> {} | Some s \<Rightarrow> solved_challenge_ids d cid s)
      (co_mc_guess_limit c) (co_mc_penalty_pct c)
      (case resolve_subject d c u of None \<Rightarrow> (\<lambda>_. None)
      | Some s \<Rightarrow> if co_mc_guess_limit c \<noteq> None \<or> truthy (co_mc_penalty_pct c) then subject_attempt_counts d cid s
                else (\<lambda>_. None))
      (if co_challenge_ratings_enabled c
      then map_of (rev (map (\<lambda>r. (cr_challenge_id r, cr_rating r))
        (filter (\<lambda>r. cr_competition_id r = cid \<and> cr_user_id r = u) (db_ratings d)))) else (\<lambda>_. None))
      ?instanced"
  have open_: "\<not> (\<not> ?edit \<and> \<not> is_playable c)" using playable by blast
  have "list_challenges now d cid u = map ?view (sort_key ch_created_at ?shown)"
    unfolding list_challenges_def Let_def c option.case Option.bind.simps if_not_P [OF open_] by (rule refl)
  with v have "v \<in> ?view ` set ?shown" by (simp only: set_map set_sort)
  then obtain ch where ch: "ch \<in> set ?shown" and veq: "v = ?view ch" by (elim imageE)
  show ?thesis
    by (rule that [OF _ _ _ veq refl refl])
      (use ch playable in \<open>auto simp: list_ex_iff image_iff\<close>)
qed

section \<open>The list and the detail\<close>

lemma penalised_value_none: "base \<le> penalised_value base pct 0"
  by (simp add: penalised_value_def Let_def)

text \<open>
  C28: The card of the challenge list and the detail page are computed by different queries, batched
  and single, and agree: every challenge any viewer is listed reads the same on the detail route, all
  annotations included (value, solves under the freeze, own solve, lock, remaining guesses, docked worth,
  own rating, instancing and the redacted connection info), but for one annotation of one kind of
  viewer: to somebody without a scoring subject (say an organiser in no team) the list reports the
  guess limit as their remaining guesses and the detail route reports none. The rows of the challenge
  carry its competition and one user rates a challenge once.\<close>

theorem card_agrees_with_detail:
  assumes c: "get_competition d cid = Some c"
    and v: "v \<in> set (list_challenges now d cid u)" and chid: "chid = ch_id (cv_challenge v)"
    and ids: "distinct (map ch_id (db_challenges d))"
    and rated_once: "distinct (map (\<lambda>r. (cr_challenge_id r, cr_user_id r)) (db_ratings d))"
    and scoped: "\<forall>r\<in>set (db_submissions d). su_challenge_id r = chid \<longrightarrow> su_competition_id r = cid"
      "\<forall>g\<in>set (db_guess_resets d). gr_challenge_id g = chid \<longrightarrow> gr_competition_id g = cid"
      "\<forall>r\<in>set (db_ratings d). cr_challenge_id r = chid \<longrightarrow> cr_competition_id r = cid"
  shows "get_challenge_route now d cid chid u =
    Inr (if resolve_subject d c u = None then v\<lparr>cv_attempts_remaining := None\<rparr> else v)"
proof -
  let ?edit = "user_has_permission d u ''challenge_edit'' (Some cid)" and ?subject = "resolve_subject d c u"
  let ?solved = "case ?subject of None \<Rightarrow> {} | Some s \<Rightarrow> solved_challenge_ids d cid s"
  obtain ch attempts ratings instanced where ch: "ch \<in> set (db_challenges d)" "ch_competition_id ch = cid"
      "?edit \<or> is_playable c \<and> ch_state ch = Published \<and> is_released now ch"
    and veq: "v = list_view ?edit ?subject (solve_counts d cid (visible_solve_cutoff now d c u))
      ?solved (co_mc_guess_limit c) (co_mc_penalty_pct c) attempts ratings instanced ch"
    and attempts: "attempts = (case ?subject of None \<Rightarrow> (\<lambda>_. None)
      | Some s \<Rightarrow> if co_mc_guess_limit c \<noteq> None \<or> truthy (co_mc_penalty_pct c) then subject_attempt_counts d cid s
                else (\<lambda>_. None))"
    and ratings: "ratings = (if co_challenge_ratings_enabled c
      then map_of (rev (map (\<lambda>r. (cr_challenge_id r, cr_rating r))
        (filter (\<lambda>r. cr_competition_id r = cid \<and> cr_user_id r = u) (db_ratings d)))) else (\<lambda>_. None))"
    and instanced: "ch_id ch \<in> instanced \<longleftrightarrow>
      list_ex (\<lambda>r. cd_competition_id r = cid \<and> cd_challenge_id r = ch_id ch) (db_deployments d)"
    by (rule listed [OF c v])
  have chid': "ch_id ch = chid" using chid by (simp add: veq)
  have open_: "require_playable d c u = Inr ()"
    using ch(3) get_competition_id [OF c] by (auto simp: require_playable_def)
  have load: "load_visible_challenge now d cid chid u = Inr ch"
    using get_scoped_challenge_unique [OF ids ch(1,2)] ch(3) by (auto simp: load_visible_challenge_def chid')
  note agree = solve_count_agrees [OF scoped(1), symmetric] solved_agrees [OF scoped(1), symmetric]
    attempt_counts_agree [OF scoped(1,2)] rating_agrees [OF scoped(3) rated_once]
  note detail = get_challenge_route_def c Let_def Option.bind.simps option.case open_ load res_bind.simps
  show ?thesis
  proof (cases ?subject)
    case None
    have redact: "redact_for_competitor (prereq_ids ch \<noteq> [] \<and> ?edit) None ch = redact_for_competitor ?edit None ch"
      by (auto simp: redact_for_competitor_def)
    show ?thesis
      unfolding detail agree veq list_view_def chid' None option.map if_cancel redact
      using penalised_value_none
      by (auto simp: attempts None ratings instanced [unfolded chid'] agree redact not_less)
  next
    case (Some s)
    have gate: "(if prereq_ids ch \<noteq> [] \<and> \<not> (prereq_ids ch \<noteq> [] \<and> ?edit) then Some (solved_challenge_ids d cid s)
        else None) = (if prereq_ids ch \<noteq> [] \<and> \<not> ?edit then Some (solved_challenge_ids d cid s) else None)"
      by simp
    have redact: "redact_for_competitor (prereq_ids ch \<noteq> [] \<and> ?edit)
        (if prereq_ids ch \<noteq> [] \<and> \<not> ?edit then Some (solved_challenge_ids d cid s) else None) ch =
      redact_for_competitor ?edit (Some (solved_challenge_ids d cid s)) ch"
      by (auto simp: redact_for_competitor_def)
    show ?thesis
      unfolding detail Some option.map
      unfolding agree gate redact veq list_view_def Let_def chid'
      by (auto simp: attempts Some ratings instanced [unfolded chid'] agree split: option.splits)
  qed
qed

section \<open>What competitors see\<close>

lemma redacted_connection:
  assumes "ch_connection_info (redact_for_competitor False ids ch) \<noteq> None" "p \<in> set (prereq_ids ch)"
  shows "\<exists>solved. ids = Some solved \<and> p \<in> solved"
  using assms by (cases ids) (auto simp: redact_for_competitor_def is_locked_def list_ex_iff split: if_splits)

lemma listed_challenge:
  assumes c: "get_competition d cid = Some c" and v: "v \<in> set (list_challenges now d cid u)"
    and no_edit: "\<not> user_has_permission d u ''challenge_edit'' (Some cid)"
  shows "is_playable c \<and> (\<exists>ch. ch_state ch = Published \<and> is_released now ch
    \<and> cv_challenge v = redact_for_competitor False (map_option (solved_challenge_ids d cid) (resolve_subject d c u)) ch)"
proof (rule listed [OF c v])
  fix ch attempts ratings instanced
  assume shown: "user_has_permission d u ''challenge_edit'' (Some cid) \<or>
      is_playable c \<and> ch_state ch = Published \<and> is_released now ch"
    and veq: "v = list_view (user_has_permission d u ''challenge_edit'' (Some cid)) (resolve_subject d c u)
      (solve_counts d cid (visible_solve_cutoff now d c u))
      (case resolve_subject d c u of None \<Rightarrow> {} | Some s \<Rightarrow> solved_challenge_ids d cid s)
      (co_mc_guess_limit c) (co_mc_penalty_pct c) attempts ratings instanced ch"
  have "cv_challenge v = redact_for_competitor False
      (map_option (solved_challenge_ids d cid) (resolve_subject d c u)) ch"
    unfolding veq using no_edit by (cases "resolve_subject d c u") simp_all
  with shown no_edit show ?thesis by blast
qed

lemma detail_view:
  assumes "get_challenge_route now d cid chid u = Inr v"
  shows "\<exists>ch. load_visible_challenge now d cid chid u = Inr ch \<and> cv_challenge v = redact_for_competitor
    (prereq_ids ch \<noteq> [] \<and> user_has_permission d u ''challenge_edit'' (Some cid))
    (if prereq_ids ch \<noteq> [] \<and> \<not> (prereq_ids ch \<noteq> [] \<and> user_has_permission d u ''challenge_edit'' (Some cid))
     then map_option (solved_challenge_ids d cid) (Option.bind (get_competition d cid) (\<lambda>c. resolve_subject d c u))
     else None) ch"
  using assms unfolding get_challenge_route_def Let_def res_bind_Inr_iff
  by (elim exE conjE) (intro exI conjI, assumption, drule sum.inject(2) [THEN iffD1], hypsubst,
      rule challenge_view.select_convs(1))

lemma detail_challenge:
  assumes v: "get_challenge_route now d cid chid u = Inr v"
    and no_edit: "\<not> user_has_permission d u ''challenge_edit'' (Some cid)"
    and c: "get_competition d cid = Some c"
  shows "is_playable c \<and> (\<exists>ch. load_visible_challenge now d cid chid u = Inr ch
    \<and> cv_challenge v = redact_for_competitor False (if prereq_ids ch \<noteq> []
        then map_option (solved_challenge_ids d cid) (resolve_subject d c u) else None) ch)"
proof
  show "is_playable c"
  proof (rule ccontr)
    assume "\<not> is_playable c"
    then have "\<exists>e. require_playable d c u = Inl e"
      using no_edit get_competition_id [OF c] by (simp add: require_playable_def)
    then show False using v unfolding get_challenge_route_def Let_def c option.case by auto
  qed
qed (use detail_view [OF v, unfolded c Option.bind.simps] no_edit in simp)

text \<open>
  C29: Nothing of a challenge reaches a competitor (anyone without the edit permission) too early, by
  the list or by the detail route: what either returns is published and released, in a competition
  that is running, and it carries the connection info only when the competitor's scoring subject has
  solved every prerequisite; a competitor without a subject never gets the info of a gated
  challenge.\<close>

theorem competitor_sees_unlocked_only:
  assumes c: "get_competition d cid = Some c"
    and no_edit: "\<not> user_has_permission d u ''challenge_edit'' (Some cid)"
    and v: "v \<in> set (list_challenges now d cid u) \<or> get_challenge_route now d cid chid u = Inr v"
  shows "is_playable c \<and> ch_state (cv_challenge v) = Published \<and> is_released now (cv_challenge v)
    \<and> (ch_connection_info (cv_challenge v) \<noteq> None \<longrightarrow> (\<forall>p\<in>set (prereq_ids (cv_challenge v)).
         \<exists>s. resolve_subject d c u = Some s \<and> p \<in> solved_challenge_ids d cid s))"
proof -
  obtain ch ids where ch: "is_playable c" "ch_state ch = Published" "is_released now ch"
    and view: "cv_challenge v = redact_for_competitor False ids ch"
    and ids: "\<And>p solved. p \<in> set (prereq_ids ch) \<Longrightarrow> ids = Some solved \<Longrightarrow>
      \<exists>s. resolve_subject d c u = Some s \<and> solved = solved_challenge_ids d cid s"
  proof (cases "v \<in> set (list_challenges now d cid u)")
    case True
    from listed_challenge [OF c True no_edit] obtain ch where "is_playable c" "ch_state ch = Published"
        "is_released now ch" "cv_challenge v = redact_for_competitor False
          (map_option (solved_challenge_ids d cid) (resolve_subject d c u)) ch" by blast
    then show ?thesis by (rule that) auto
  next
    case False
    with v detail_challenge [OF _ no_edit c] obtain ch where "is_playable c"
        "load_visible_challenge now d cid chid u = Inr ch"
        "cv_challenge v = redact_for_competitor False (if prereq_ids ch \<noteq> []
          then map_option (solved_challenge_ids d cid) (resolve_subject d c u) else None) ch" by blast
    with no_edit show ?thesis
      by (intro that) (auto simp: load_visible_challenge_def res_bind_Inr_iff Let_def split: if_splits)
  qed
  have "\<exists>s. resolve_subject d c u = Some s \<and> p \<in> solved_challenge_ids d cid s"
    if "ch_connection_info (cv_challenge v) \<noteq> None" "p \<in> set (prereq_ids (cv_challenge v))" for p
    using redacted_connection [of ids ch p] that ids [of p] by (auto simp: view)
  then show ?thesis using ch by (auto simp: view)
qed

section \<open>What authoring leaves behind\<close>

lemma validate_scoring_ok:
  "validate_scoring ch = Inr () \<longleftrightarrow> (ch_scoring_type ch = Dynamic_Scoring \<longrightarrow>
     (\<exists>m k. ch_min_points ch = Some m \<and> ch_decay ch = Some k \<and> 1 \<le> k \<and> m \<le> ch_points ch))"
  by (auto simp: validate_scoring_def res_bind_Inr_iff split: option.splits)

text \<open>
  The question whether re-typing a flag needs the flag again is asked of the new type: a
  challenge with a stored static flag, published or not, accepts an update that only makes it a regex
  challenge. Nothing changes but the type, so what was gradeable no longer has a flag, would not be
  publishable, and keeps its state.\<close>

theorem flag_type_switch_strands:
  assumes ch: "get_scoped_challenge d cid chid = Inr ch" and "ch_flag_type ch = Static_Flag"
    and "ch_flag_regex ch = None" "validate_scoring ch = Inr ()"
    and static: "deployment_flag_mode d cid chid \<noteq> Some Unique_Per_Instance"
  shows "\<exists>ch' d' evs. update_challenge sha salt d cid chid (no_changes\<lparr>up_flag_type := Some Regex_Flag\<rparr>) u =
      (Inr (ch', current_value d ch'), d', evs)
    \<and> ch_state ch' = ch_state ch \<and> \<not> has_flag ch'
    \<and> publishable mods d cid ch' = Inl (HTTPException 400 ''A challenge needs a flag before it can be published'')"
proof -
  let ?b = "no_changes\<lparr>up_flag_type := Some Regex_Flag\<rparr>"
  let ?ch = "ch\<lparr>ch_flag_type := Regex_Flag, ch_choices := None\<rparr>"
  have set_b: "set_fields ?b ch = ch\<lparr>ch_flag_type := Regex_Flag\<rparr>"
    by (simp add: set_fields_def no_changes_def)
  have "validate_scoring (ch\<lparr>ch_flag_type := Regex_Flag\<rparr>) = Inr ()"
    using assms(4) by (simp add: validate_scoring_ok)
  moreover have "\<not> has_flag ?ch" using assms(3) by (simp add: has_flag_def)
  ultimately have "checked_update sha salt d cid ?b ch = Inr ?ch"
    using assms(2) unfolding checked_update_def set_b
    by (simp add: no_changes_def update_choices_def update_flag_def)
  moreover have "ch_id ch = chid" using get_scoped_challenge_in [OF ch] by simp
  ultimately show ?thesis
    using ch assms(3) static by (simp add: update_challenge_def publishable_def has_flag_def)
qed

lemma solved_after_delete: "i \<notin> solved_challenge_ids (cascade_challenge i d) cid s"
  by (auto simp: solved_challenge_ids_def cascade_challenge_def delete_where_def)

text \<open>
  Deleting a challenge removes its submissions but not its id from the prerequisites of others:
  every challenge that required it stays locked, for every subject, those that had solved the deleted
  challenge included, so its submissions are refused until an author edits it.\<close>

theorem deleted_prerequisite_locks:
  assumes "delete_challenge d cid chid u = (Inr keys, d', evs)"
    and p: "p \<in> set (db_challenges d)" "ch_id p \<noteq> chid" "chid \<in> set (prereq_ids p)"
  shows "p \<in> set (db_challenges d') \<and> is_locked p (solved_challenge_ids d' cid s)"
proof -
  have d': "d' = cascade_challenge chid d"
    using assms(1) by (auto simp: delete_challenge_def Let_def split: sum.splits)
  have "p \<in> set (db_challenges d')" using p by (simp add: d' cascade_challenge_def delete_where_def)
  moreover have "is_locked p (solved_challenge_ids d' cid s)"
    unfolding is_locked_def list_ex_iff d' using p(3) solved_after_delete by blast
  ultimately show ?thesis by blast
qed

text \<open>Two challenges that require each other are both accepted.\<close>

definition cycle_db :: db where
  "cycle_db = empty_db\<lparr>db_competitions := [blank_competition ''A''],
     db_challenges := [blank_challenge ''A'' ''p'', (blank_challenge ''A'' ''q'')\<lparr>ch_prerequisites := Some [''p'']\<rparr>]\<rparr>"

lemma prerequisite_cycle_accepted:
  "map prereq_ids (db_challenges (fst (snd (update_challenge demo_sha ''s'' cycle_db ''A'' ''p''
     (no_changes\<lparr>up_prerequisites := Some (Some [''q''])\<rparr>) ''u'')))) = [[''q''], [''p'']]"
  by code_simp

section \<open>Concrete inputs\<close>

definition access_db :: db where
  "access_db = empty_db\<lparr>
     db_competitions := [(blank_competition ''A'')\<lparr>co_participation_mode := Individual_Mode, co_status := Running\<rparr>],
     db_challenges := [(blank_challenge ''A'' ''p'')\<lparr>ch_state := Published, ch_flag_hash := Some ''h''\<rparr>,
       (blank_challenge ''A'' ''q'')\<lparr>ch_state := Published, ch_prerequisites := Some [''p''],
          ch_connection_info := Some ''host''\<rparr>]\<rparr>"

text \<open>The same competition played in teams, with a guess limit and a choice; the viewer has no team.\<close>

definition teamless_db :: db where
  "teamless_db = access_db\<lparr>
     db_competitions := [(blank_competition ''A'')\<lparr>co_participation_mode := Team_Mode, co_status := Running,
       co_mc_guess_limit := Some 3\<rparr>],
     db_challenges := [(blank_challenge ''A'' ''p'')\<lparr>ch_state := Published, ch_flag_type := Multiple_Choice\<rparr>]\<rparr>"

lemma card_agrees_with_detail_witness:
  "get_challenge_route 1 access_db ''A'' ''q'' ''u'' = Inr (list_challenges 1 access_db ''A'' ''u'' ! 1)
   \<and> cv_attempts_remaining (list_challenges 1 teamless_db ''A'' ''u'' ! 0) = Some 3
   \<and> get_challenge_route 1 teamless_db ''A'' ''p'' ''u''
       = Inr ((list_challenges 1 teamless_db ''A'' ''u'' ! 0)\<lparr>cv_attempts_remaining := None\<rparr>)"
proof (intro conjI)
  let ?c = "(blank_competition ''A'')\<lparr>co_participation_mode := Individual_Mode, co_status := Running\<rparr>"
  have c: "get_competition access_db ''A'' = Some ?c" by code_simp
  have v: "list_challenges 1 access_db ''A'' ''u'' ! 1 \<in> set (list_challenges 1 access_db ''A'' ''u'')"
    by (rule nth_mem) code_simp
  have s: "resolve_subject access_db ?c ''u'' \<noteq> None" by code_simp
  have "get_challenge_route 1 access_db ''A'' ''q'' ''u'' = Inr (if resolve_subject access_db ?c ''u'' = None
      then (list_challenges 1 access_db ''A'' ''u'' ! 1)\<lparr>cv_attempts_remaining := None\<rparr>
      else list_challenges 1 access_db ''A'' ''u'' ! 1)"
    by (rule card_agrees_with_detail [OF c v]) code_simp+
  then show "get_challenge_route 1 access_db ''A'' ''q'' ''u'' = Inr (list_challenges 1 access_db ''A'' ''u'' ! 1)"
    using s by simp
next
  let ?c = "(blank_competition ''A'')\<lparr>co_participation_mode := Team_Mode, co_status := Running, co_mc_guess_limit := Some 3\<rparr>"
  have c: "get_competition teamless_db ''A'' = Some ?c" by code_simp
  have v: "list_challenges 1 teamless_db ''A'' ''u'' ! 0 \<in> set (list_challenges 1 teamless_db ''A'' ''u'')"
    by (rule nth_mem) code_simp
  have s: "resolve_subject teamless_db ?c ''u'' = None" by code_simp
  have "get_challenge_route 1 teamless_db ''A'' ''p'' ''u'' = Inr (if resolve_subject teamless_db ?c ''u'' = None
      then (list_challenges 1 teamless_db ''A'' ''u'' ! 0)\<lparr>cv_attempts_remaining := None\<rparr>
      else list_challenges 1 teamless_db ''A'' ''u'' ! 0)"
    by (rule card_agrees_with_detail [OF c v]) code_simp+
  then show "get_challenge_route 1 teamless_db ''A'' ''p'' ''u''
      = Inr ((list_challenges 1 teamless_db ''A'' ''u'' ! 0)\<lparr>cv_attempts_remaining := None\<rparr>)"
    using s by simp
  show "cv_attempts_remaining (list_challenges 1 teamless_db ''A'' ''u'' ! 0) = Some 3" by code_simp
qed

lemma competitor_sees_unlocked_only_witness:
  "ch_connection_info (cv_challenge (list_challenges 1 access_db ''A'' ''u'' ! 1)) = None"
proof (rule ccontr)
  let ?v = "list_challenges 1 access_db ''A'' ''u'' ! 1"
  let ?c = "(blank_competition ''A'')\<lparr>co_participation_mode := Individual_Mode, co_status := Running\<rparr>"
  assume info: "ch_connection_info (cv_challenge ?v) \<noteq> None"
  have "get_competition access_db ''A'' = Some ?c" by code_simp
  moreover have "\<not> user_has_permission access_db ''u'' ''challenge_edit'' (Some ''A'')" by code_simp
  moreover have "?v \<in> set (list_challenges 1 access_db ''A'' ''u'')" by (rule nth_mem) code_simp
  ultimately have "\<forall>p\<in>set (prereq_ids (cv_challenge ?v)). \<exists>s. resolve_subject access_db ?c ''u'' = Some s
      \<and> p \<in> solved_challenge_ids access_db ''A'' s"
    using competitor_sees_unlocked_only [of access_db "''A''" ?c "''u''" ?v 1] info by blast
  moreover have "''p'' \<in> set (prereq_ids (cv_challenge ?v))" by code_simp
  moreover have "''p'' \<notin> solved_challenge_ids access_db ''A'' s" for s
    by (simp add: solved_challenge_ids_def access_db_def empty_db_def)
  ultimately show False by blast
qed

lemma flag_type_switch_strands_witness:
  "\<exists>ch' d' evs. update_challenge demo_sha ''s'' access_db ''A'' ''p'' (no_changes\<lparr>up_flag_type := Some Regex_Flag\<rparr>) ''u''
     = (Inr (ch', current_value access_db ch'), d', evs) \<and> ch_state ch' = Published \<and> \<not> has_flag ch'"
proof -
  let ?p = "(blank_challenge ''A'' ''p'')\<lparr>ch_state := Published, ch_flag_hash := Some ''h''\<rparr>"
  have 1: "get_scoped_challenge access_db ''A'' ''p'' = Inr ?p" by code_simp
  have 2: "ch_flag_type ?p = Static_Flag" "ch_flag_regex ?p = None" "validate_scoring ?p = Inr ()" "ch_state ?p = Published"
    by code_simp+
  have 3: "deployment_flag_mode access_db ''A'' ''p'' \<noteq> Some Unique_Per_Instance" by code_simp
  show ?thesis
    using flag_type_switch_strands [OF 1 2(1-3) 3, of demo_sha "''s''" "''u''" "[]", unfolded 2(4)] by blast
qed

lemma deleted_prerequisite_locks_witness:
  "is_locked (db_challenges access_db ! 1)
     (solved_challenge_ids (fst (snd (delete_challenge access_db ''A'' ''p'' ''u''))) ''A''
       \<lparr>sj_kind = User_Kind, sj_id = ''u'', sj_team_id = None\<rparr>)"
proof -
  let ?r = "delete_challenge access_db ''A'' ''p'' ''u''"
  have 1: "delete_challenge access_db ''A'' ''p'' ''u'' = (Inr [], fst (snd ?r), snd (snd ?r))"
    by (simp add: access_db_def delete_challenge_def get_scoped_challenge_def blank_challenge_def empty_db_def)
  have 2: "db_challenges access_db ! 1 \<in> set (db_challenges access_db)" by (rule nth_mem) code_simp
  have 3: "ch_id (db_challenges access_db ! 1) \<noteq> ''p''" "''p'' \<in> set (prereq_ids (db_challenges access_db ! 1))"
    by code_simp+
  show ?thesis using deleted_prerequisite_locks [OF 1 2 3] by blast
qed

end
