(* ===== verification/Submit.thy ===== *)
theory Submit
  imports Challenges Rate_Limit Judge
begin

text \<open>
  Submitting a flag (\<open>routers/submissions.py\<close>) and submitting code (\<open>submit_code\<close> of
  \<open>routers/judge_submissions.py\<close>). The limiter is the in-memory one of \<open>Rate_Limit\<close>; its limit and
  window come from the settings. The reads of a call are taken from the state \<open>read\<close>, its insert
  goes to \<open>d\<close>: without a lock another session may commit in between. Under the subject's lock (the
  guess cap, the in-flight cap) the two are the same as far as that subject is concerned.
\<close>

section \<open>Guards\<close>

definition flag_matches :: "hasher \<Rightarrow> regex_engine \<Rightarrow> challenge \<Rightarrow> string \<Rightarrow> bool" where
  "flag_matches sha rx ch submitted =
     (if ch_flag_type ch = Regex_Flag
      then (case ch_flag_regex ch of None \<Rightarrow> False
            | Some p \<Rightarrow> verify_regex_flag rx submitted p (ch_case_insensitive ch))
      else (case (ch_flag_hash ch, ch_flag_salt ch) of
              (Some h, Some salt) \<Rightarrow> verify_static_flag sha submitted salt (ch_case_insensitive ch) h
            | _ \<Rightarrow> False))"

record submit_call =
  sc_competition_id :: ident
  sc_challenge_id :: ident
  sc_user_id :: ident
  sc_flag :: string
  sc_row_id :: ident
  sc_now :: time

definition paused_for :: "db \<Rightarrow> competition \<Rightarrow> ident \<Rightarrow> bool" where
  "paused_for d c u = (co_paused c \<and> \<not> user_has_permission d u ''challenge_edit'' (Some (co_id c)))"

definition unsolved_prerequisite :: "db \<Rightarrow> ident \<Rightarrow> subject \<Rightarrow> challenge \<Rightarrow> bool" where
  "unsolved_prerequisite d cid s ch = list_ex (\<lambda>p. p \<notin> solved_challenge_ids d cid s) (prereq_ids ch)"

text \<open>
  Everything checked before the limiter, in the code's order. A competition that is gone is an
  attribute error of the handler (500); the foreign key of the challenge rules it out.
\<close>

definition submit_guards :: "db \<Rightarrow> submit_call \<Rightarrow> (challenge \<times> competition \<times> subject \<times> bool) res" where
  "submit_guards d sc =
     (let cid = sc_competition_id sc; chid = sc_challenge_id sc; u = sc_user_id sc in
      res_bind (load_visible_challenge (sc_now sc) d cid chid u) (\<lambda>ch.
      res_bind (ensure (ch_flag_type ch \<noteq> Programming) 400
        ''Programming challenges are solved by submitting code, not a flag'') (\<lambda>_.
      let unique_mode = (deployment_flag_mode d cid chid = Some Unique_Per_Instance) in
      res_bind (ensure (has_flag ch \<or> unique_mode) 400 ''This challenge has no flag to submit against'') (\<lambda>_.
      case get_competition d cid of
        None \<Rightarrow> Inl (HTTPException 500 ''Internal Server Error'')
      | Some c \<Rightarrow>
          res_bind (require_playable d c u) (\<lambda>_.
          res_bind (ensure (\<not> paused_for d c u) 403 ''The competition is paused - submissions are closed'') (\<lambda>_.
          case resolve_subject d c u of
            None \<Rightarrow> Inl (HTTPException 400 ''Join a team before submitting flags'')
          | Some s \<Rightarrow>
              res_bind (ensure (\<not> unsolved_prerequisite d cid s ch) 403
                ''Solve this challenge's prerequisites first'') (\<lambda>_. Inr (ch, c, s, unique_mode))))))))"

definition subject_kind_name :: "subject_kind \<Rightarrow> string" where
  "subject_kind_name k = (case k of Team_Kind \<Rightarrow> ''team'' | User_Kind \<Rightarrow> ''user'')"

definition submission_key :: "ident \<Rightarrow> subject \<Rightarrow> string" where
  "submission_key cid s = ''submit:'' @ cid @ '':'' @ subject_kind_name (sj_kind s) @ '':'' @ sj_id s"

definition guesses_used_up :: "db \<Rightarrow> competition \<Rightarrow> challenge \<Rightarrow> subject \<Rightarrow> bool" where
  "guesses_used_up d c ch s =
     (ch_flag_type ch = Multiple_Choice
      \<and> (case co_mc_guess_limit c of None \<Rightarrow> False
         | Some l \<Rightarrow> \<not> subject_has_solved d (ch_id ch) s \<and> l \<le> subject_attempt_count d (ch_id ch) s))"

section \<open>Submitting a flag\<close>

record submit_result =
  sr_correct :: bool
  sr_already_solved :: bool
  sr_points_awarded :: "int option"
  sr_is_first_blood :: "bool option"
  sr_attempts_remaining :: "int option"
  sr_full_value :: "int option"
  sr_subject_value :: "int option"

definition flag_grade_call :: "submit_call \<Rightarrow> competition \<Rightarrow> challenge \<Rightarrow> subject \<Rightarrow> bool \<Rightarrow> grade_call" where
  "flag_grade_call sc c ch s correct =
     \<lparr>gc_competition = c, gc_challenge = ch, gc_subject = s, gc_user_id = sc_user_id sc,
      gc_value = sc_flag sc, gc_correct = correct, gc_created_at = None,
      gc_row_id = sc_row_id sc, gc_now = sc_now sc\<rparr>"

definition sharing_event :: "submit_call \<Rightarrow> subject \<Rightarrow> shared_flag_match \<Rightarrow> event" where
  "sharing_event sc s m = Event ''challenge.flag_shared_detected''
     [(''competition_id'', PStr (sc_competition_id sc)), (''challenge_id'', PStr (sc_challenge_id sc)),
      (''user_id'', PStr (sc_user_id sc)), (''team_id'', pstr (sj_team_id s)),
      (''matched_user_id'', PStr (sm_user_id m)), (''matched_team_id'', pstr (sm_team_id m)),
      (''instance_id'', PStr (sm_instance_id m))]"

text \<open>The response, computed from the grade and the state after its commit.\<close>

definition submit_response ::
  "db \<Rightarrow> submit_call \<Rightarrow> competition \<Rightarrow> challenge \<Rightarrow> subject \<Rightarrow> grade_outcome \<Rightarrow> submit_result" where
  "submit_response d sc c ch s g =
     (let chid = sc_challenge_id sc;
          cutoff = visible_solve_cutoff (sc_now sc) d c (sc_user_id sc);
          hidden = (cutoff \<noteq> None \<and> go_award g);
          worth_hidden = (hidden \<and> ch_scoring_type ch = Dynamic_Scoring);
          limit = co_mc_guess_limit c; penalty = co_mc_penalty_pct c;
          docking = (ch_flag_type ch = Multiple_Choice \<and> \<not> go_correct g \<and> (limit \<noteq> None \<or> truthy penalty));
          used = subject_attempt_count d chid s;
          count = (if ch_scoring_type ch = Dynamic_Scoring
            then int (count_where (\<lambda>r. awarded_on chid r
                   \<and> (case cutoff of None \<Rightarrow> True | Some t \<Rightarrow> su_created_at r \<le> t)) (db_submissions d))
            else 0);
          base_now = challenge_value ch count;
          reduced = penalised_value base_now penalty used
      in \<lparr>sr_correct = go_correct g, sr_already_solved = go_already_solved g,
          sr_points_awarded = (if worth_hidden then None else Some (go_points_awarded g)),
          sr_is_first_blood = (if hidden then None else Some (go_is_first_blood g)),
          sr_attempts_remaining = (if docking then map_option (\<lambda>l. max 0 (l - used)) limit else None),
          sr_full_value = (if go_mc_penalty g > 0 \<and> \<not> worth_hidden then Some (go_base_value g) else None),
          sr_subject_value = (if docking \<and> truthy penalty \<and> reduced < base_now then Some reduced else None)\<rparr>)"

definition submit_flag ::
  "hasher \<Rightarrow> regex_engine \<Rightarrow> int \<Rightarrow> time \<Rightarrow> submit_call \<Rightarrow> history \<Rightarrow> db \<Rightarrow> db \<Rightarrow>
     submit_result res \<times> history \<times> db \<times> event list" where
  "submit_flag sha rx limit window sc hits read d =
     (case submit_guards read sc of
        Inl e \<Rightarrow> (Inl e, hits, d, [])
      | Inr (ch, c, s, unique_mode) \<Rightarrow>
          (let (allowed, hits') = mem_hit limit window (sc_now sc) (submission_key (sc_competition_id sc) s) hits in
           if \<not> allowed
           then (Inl (HTTPException 429 ''Too many submissions - slow down and try again shortly''), hits', d, [])
           else if guesses_used_up read c ch s
           then (Inl (HTTPException 403 ''No guesses remaining for this question''), hits', d, [])
           else (let ug = grade_unique sha read (sc_competition_id sc) (sc_challenge_id sc) s (sc_flag sc) (sc_user_id sc);
                     correct = (if unique_mode then ug_correct ug else flag_matches sha rx ch (sc_flag sc));
                     shared = (if unique_mode then ug_shared_with ug else None);
                     (g, d1) = record_grade read d (flag_grade_call sc c ch s correct)
                 in (Inr (submit_response d1 sc c ch s g), hits', d1,
                     emit_grade g (sc_competition_id sc) (sc_challenge_id sc) (sc_user_id sc) (sj_team_id s)
                       @ (case shared of None \<Rightarrow> [] | Some m \<Rightarrow> [sharing_event sc s m])))))"

section \<open>Submitting code\<close>

definition MAX_SOURCE_BYTES :: int where "MAX_SOURCE_BYTES = 128 * 1024"

definition MAX_IN_FLIGHT :: nat where "MAX_IN_FLIGHT = 3"

definition available_language :: "db \<Rightarrow> judge_problem \<Rightarrow> string \<Rightarrow> judge_language res" where
  "available_language d p key =
     (case find (\<lambda>l. jl_key l = key \<and> jl_enabled l) (db_judge_languages d) of
        None \<Rightarrow> Inl (HTTPException 400 ''That language isn't available for this problem'')
      | Some l \<Rightarrow> res_bind (ensure (case jp_allowed_languages p of None \<Rightarrow> True | Some ks \<Rightarrow> key \<in> set ks) 400
          ''That language isn't available for this problem'') (\<lambda>_. Inr l))"

text \<open>The source is its UTF-8 bytes; \<open>bytes.strip\<close> strips ASCII whitespace.\<close>

definition byte_space :: "char \<Rightarrow> bool" where
  "byte_space b = (of_char b \<in> {9, 10, 11, 12, 13, 32 :: nat})"

definition checked_source :: "string \<Rightarrow> string res" where
  "checked_source source =
     res_bind (ensure (\<not> list_all byte_space source) 400 ''The source is empty'') (\<lambda>_.
     res_bind (ensure (int (length source) \<le> MAX_SOURCE_BYTES) 413 ''Source code is limited to 128 KB'') (\<lambda>_.
     Inr source))"

definition own_in_flight :: "ident \<Rightarrow> subject \<Rightarrow> judging \<Rightarrow> bool" where
  "own_in_flight cid s j =
     (ju_competition_id j = cid \<and> ju_status j \<in> set ACTIVE_JUDGING_STATUSES
      \<and> ju_origin j = Origin_Submission \<and> ju_kind j \<noteq> Reference_Kind
      \<and> (if sj_kind s = Team_Kind then ju_team_id j = sj_team_id s else ju_user_id j = sj_id s))"

record code_call =
  cc_competition_id :: ident
  cc_challenge_id :: ident
  cc_user_id :: ident
  cc_kind :: code_kind
  cc_language :: string
  cc_source :: string
  cc_object_key :: string
  cc_code_id :: ident
  cc_judging_id :: ident
  cc_now :: time

definition code_guards :: "loaded \<Rightarrow> db \<Rightarrow> code_call \<Rightarrow> (subject \<times> judge_language) res" where
  "code_guards mods d cc =
     (let cid = cc_competition_id cc; chid = cc_challenge_id cc; u = cc_user_id cc in
      res_bind (competition_with_judge mods d cid) (\<lambda>c.
      res_bind (load_visible_challenge (cc_now cc) d cid chid u) (\<lambda>ch.
      res_bind (ensure (ch_flag_type ch = Programming) 400 ''This challenge is solved with a flag, not code'') (\<lambda>_.
      res_bind (ensure (judge_on d \<noteq> None) 503 ''The code judge isn't running right now - try again shortly'') (\<lambda>_.
      res_bind (require_playable d c u) (\<lambda>_.
      res_bind (ensure (\<not> paused_for d c u) 403 ''The competition is paused - submissions are closed'') (\<lambda>_.
      case resolve_subject d c u of
        None \<Rightarrow> Inl (HTTPException 400 ''Join a team before submitting code'')
      | Some s \<Rightarrow>
          res_bind (ensure (\<not> unsolved_prerequisite d cid s ch) 403
            ''Solve this challenge's prerequisites first'') (\<lambda>_.
          case get_problem d cid chid of
            None \<Rightarrow> Inl (HTTPException 409 ''This problem has no test cases yet'')
          | Some p \<Rightarrow>
              res_bind (ensure (jp_testcases p \<noteq> []) 409 ''This problem has no test cases yet'') (\<lambda>_.
              res_bind (ensure (cc_kind cc = Run_Kind \<longrightarrow> list_ex id (jp_testcases p)) 400
                ''This problem has no examples to run against'') (\<lambda>_.
              res_bind (available_language d p (cc_language cc)) (\<lambda>l.
              res_bind (checked_source (cc_source cc)) (\<lambda>_. Inr (s, l)))))))))))))"

definition code_row :: "code_call \<Rightarrow> subject \<Rightarrow> judge_language \<Rightarrow> code_submission" where
  "code_row cc s l =
     \<lparr>cs_id = cc_code_id cc, cs_competition_id = cc_competition_id cc, cs_challenge_id = cc_challenge_id cc,
      cs_user_id = cc_user_id cc, cs_team_id = sj_team_id s, cs_kind = cc_kind cc,
      cs_language_key = jl_key l, cs_language_name = jl_name l, cs_source_object_key = cc_object_key cc,
      cs_source_bytes = int (length (cc_source cc)), cs_submission_id = None, cs_created_at = cc_now cc\<rparr>"

definition submit_code ::
  "loaded \<Rightarrow> int \<Rightarrow> time \<Rightarrow> code_call \<Rightarrow> history \<Rightarrow> db \<Rightarrow> judging res \<times> history \<times> db \<times> event list" where
  "submit_code mods limit window cc hits d =
     (case code_guards mods d cc of
        Inl e \<Rightarrow> (Inl e, hits, d, [])
      | Inr (s, l) \<Rightarrow>
          (let (allowed, hits') = mem_hit limit window (cc_now cc) (submission_key (cc_competition_id cc) s) hits in
           if \<not> allowed
           then (Inl (HTTPException 429 ''Too many submissions - slow down and try again shortly''), hits', d, [])
           else if MAX_IN_FLIGHT \<le> count_where (own_in_flight (cc_competition_id cc) s) (db_judgings d)
           then (Inl (HTTPException 429
                  ''You already have 3 submissions waiting to be judged - wait for a verdict first''), hits', d, [])
           else (let (j, d1, events) = queue_code (code_row cc s l) (cc_judging_id cc) (cc_now cc) d
                 in (Inr j, hits', d1, events))))"

end
