(* ===== verification/Submit_Safety.thy ===== *)
theory Submit_Safety
  imports Submit
begin

text \<open>
  What submitting promises: every graded attempt is logged, the guess and in-flight caps hold, the
  freeze hides later solves from a competitor's own result, and an authored flag grades as authored.
\<close>

section \<open>Frames\<close>

text \<open>What does not read the submissions.\<close>

lemma submissions_frame [simp]:
  "user_has_permission (d\<lparr>db_submissions := rows\<rparr>) = user_has_permission d"
  "get_competition (d\<lparr>db_submissions := rows\<rparr>) = get_competition d"
  "get_scoped_challenge (d\<lparr>db_submissions := rows\<rparr>) = get_scoped_challenge d"
  "deployment_flag_mode (d\<lparr>db_submissions := rows\<rparr>) = deployment_flag_mode d"
  "resolve_subject (d\<lparr>db_submissions := rows\<rparr>) = resolve_subject d"
  "gradeable_instances (d\<lparr>db_submissions := rows\<rparr>) = gradeable_instances d"
  "reset_cutoff (d\<lparr>db_submissions := rows\<rparr>) = reset_cutoff d"
  by (simp_all add: fun_eq_iff user_has_permission_def role_rows_def get_competition_def
      get_scoped_challenge_def deployment_flag_mode_def resolve_subject_def gradeable_instances_def
      reset_cutoff_def)

lemma submissions_frame_derived [simp]:
  "load_visible_challenge now (d\<lparr>db_submissions := rows\<rparr>) = load_visible_challenge now d"
  "require_playable (d\<lparr>db_submissions := rows\<rparr>) = require_playable d"
  "paused_for (d\<lparr>db_submissions := rows\<rparr>) = paused_for d"
  "visible_solve_cutoff now (d\<lparr>db_submissions := rows\<rparr>) = visible_solve_cutoff now d"
  "grade_unique sha (d\<lparr>db_submissions := rows\<rparr>) = grade_unique sha d"
  by (simp_all add: fun_eq_iff load_visible_challenge_def require_playable_def paused_for_def
      visible_solve_cutoff_def grade_unique_def split: option.split)

lemma record_grade_state:
  "snd (record_grade read d g) = d\<lparr>db_submissions := db_submissions (snd (record_grade read d g))\<rparr>"
  by (auto simp: record_grade_def Let_def split: prod.split)

section \<open>Every attempt is logged\<close>

text \<open>What the log keeps of a row whatever scoring does to it later.\<close>

definition attempt :: "submission \<Rightarrow> ident \<times> ident \<times> ident \<times> ident option \<times> string \<times> bool \<times> time" where
  "attempt r = (su_id r, su_challenge_id r, su_user_id r, su_team_id r, su_value r, su_is_correct r, su_created_at r)"

lemma attempt_revalue [simp]: "map attempt (revalue ch b rows) = map attempt rows"
  unfolding revalue_def by (rule map_update_where) (simp add: attempt_def Let_def)

lemma attempt_grade_row:
  "attempt (grade_row g dup points penalty) = (gc_row_id g, ch_id (gc_challenge g), gc_user_id g,
     sj_team_id (gc_subject g), gc_value g, gc_correct g,
     case gc_created_at g of Some t \<Rightarrow> t | None \<Rightarrow> gc_now g)"
  by (simp add: attempt_def grade_row_def)

lemma record_grade_attempts:
  "map attempt (db_submissions (snd (record_grade read d g))) =
     map attempt (db_submissions d) @ [attempt (grade_row g dup points penalty)]"
  by (auto simp: record_grade_def Let_def attempt_grade_row split: prod.split)

lemma record_grade_outcome [simp]: "go_correct (fst (record_grade read d g)) = gc_correct g"
  by (auto simp: record_grade_def Let_def split: prod.split)

lemma submit_guardsD:
  assumes "submit_guards d sc = Inr (ch, c, s, unique_mode)"
  shows "load_visible_challenge (sc_now sc) d (sc_competition_id sc) (sc_challenge_id sc) (sc_user_id sc) = Inr ch"
    "ch_id ch = sc_challenge_id sc" "ch_competition_id ch = sc_competition_id sc"
    "ch_flag_type ch \<noteq> Programming" "get_competition d (sc_competition_id sc) = Some c"
    "require_playable d c (sc_user_id sc) = Inr ()" "\<not> paused_for d c (sc_user_id sc)"
    "resolve_subject d c (sc_user_id sc) = Some s"
    "\<not> unsolved_prerequisite d (sc_competition_id sc) s ch"
    "unique_mode = (deployment_flag_mode d (sc_competition_id sc) (sc_challenge_id sc) = Some Unique_Per_Instance)"
    "has_flag ch \<or> unique_mode"
proof -
  show load: "load_visible_challenge (sc_now sc) d (sc_competition_id sc) (sc_challenge_id sc) (sc_user_id sc) = Inr ch"
    and "ch_flag_type ch \<noteq> Programming" "get_competition d (sc_competition_id sc) = Some c"
    "require_playable d c (sc_user_id sc) = Inr ()" "\<not> paused_for d c (sc_user_id sc)"
    "resolve_subject d c (sc_user_id sc) = Some s"
    "\<not> unsolved_prerequisite d (sc_competition_id sc) s ch"
    "unique_mode = (deployment_flag_mode d (sc_competition_id sc) (sc_challenge_id sc) = Some Unique_Per_Instance)"
    "has_flag ch \<or> unique_mode"
    using assms by (auto simp: submit_guards_def Let_def res_bind_Inr_iff split: option.splits)
  have "get_scoped_challenge d (sc_competition_id sc) (sc_challenge_id sc) = Inr ch"
    using load by (auto simp: load_visible_challenge_def res_bind_Inr_iff Let_def split: if_splits)
  then show "ch_id ch = sc_challenge_id sc" "ch_competition_id ch = sc_competition_id sc"
    by (auto simp: get_scoped_challenge_def dest: find_Some_in split: option.splits)
qed

lemma submit_flag_cases:
  obtains (refused) e hits' where "submit_flag sha rx limit window sc hits read d = (Inl e, hits', d, [])"
  | (graded) ch c s um hits' correct shared where "submit_guards read sc = Inr (ch, c, s, um)"
      "mem_hit limit window (sc_now sc) (submission_key (sc_competition_id sc) s) hits = (True, hits')"
      "\<not> guesses_used_up read c ch s"
      "correct = (if um then ug_correct (grade_unique sha read (sc_competition_id sc) (sc_challenge_id sc) s
          (sc_flag sc) (sc_user_id sc)) else flag_matches sha rx ch (sc_flag sc))"
      "submit_flag sha rx limit window sc hits read d =
        (let (g, d1) = record_grade read d (flag_grade_call sc c ch s correct) in
         (Inr (submit_response d1 sc c ch s g), hits', d1,
          emit_grade g (sc_competition_id sc) (sc_challenge_id sc) (sc_user_id sc) (sj_team_id s) @ shared))"
      "\<forall>e\<in>set shared. event_name e = ''challenge.flag_shared_detected''"
proof (cases "submit_guards read sc")
  case (Inl e)
  then show ?thesis by (intro refused) (simp add: submit_flag_def)
next
  case (Inr x)
  obtain ch c s um where x: "x = (ch, c, s, um)" by (cases x)
  obtain ok hits' where hit: "mem_hit limit window (sc_now sc) (submission_key (sc_competition_id sc) s) hits = (ok, hits')"
    by (cases "mem_hit limit window (sc_now sc) (submission_key (sc_competition_id sc) s) hits")
  let ?ug = "grade_unique sha read (sc_competition_id sc) (sc_challenge_id sc) s (sc_flag sc) (sc_user_id sc)"
  let ?shared = "case (if um then ug_shared_with ?ug else None) of None \<Rightarrow> [] | Some m \<Rightarrow> [sharing_event sc s m]"
  consider "\<not> ok" | "ok" "guesses_used_up read c ch s" | "ok" "\<not> guesses_used_up read c ch s" by blast
  then show ?thesis
  proof cases
    case 1
    then show ?thesis by (intro refused) (simp add: submit_flag_def Inr x hit)
  next
    case 2
    then show ?thesis by (intro refused) (simp add: submit_flag_def Inr x hit)
  next
    case 3
    show ?thesis
    proof (rule graded [OF Inr [unfolded x] _ 3(2) refl, where hits' = hits' and shared = ?shared])
      show "mem_hit limit window (sc_now sc) (submission_key (sc_competition_id sc) s) hits = (True, hits')"
        using hit 3(1) by simp
    qed (use 3 in \<open>auto simp: submit_flag_def Inr x hit Let_def sharing_event_def split: option.splits\<close>)
  qed
qed

text \<open>
  C40: A refused submission leaves the database as it is and emits nothing. A graded one, right or
  wrong, first or duplicate, appends exactly one row to the log with the submitter, the submitted
  text and the verdict the response reports, rewrites what is logged of no earlier row, touches no
  other table and emits exactly one attempted event.\<close>

theorem every_attempt_logged:
  "case submit_flag sha rx limit window sc hits read d of
     (Inl e, hits', d', evs) \<Rightarrow> d' = d \<and> evs = []
   | (Inr r, hits', d', evs) \<Rightarrow> d' = d\<lparr>db_submissions := db_submissions d'\<rparr>
       \<and> (\<exists>team. map attempt (db_submissions d') = map attempt (db_submissions d)
            @ [(sc_row_id sc, sc_challenge_id sc, sc_user_id sc, team, sc_flag sc, sr_correct r, sc_now sc)])
       \<and> length (filter (\<lambda>e. event_name e = ''challenge.attempted'') evs) = 1"
proof (cases rule: submit_flag_cases [of sha rx limit window sc hits read d])
  case refused
  then show ?thesis by simp
next
  case (graded ch c s um hits' correct shared)
  obtain g d1 where rg: "record_grade read d (flag_grade_call sc c ch s correct) = (g, d1)" by fastforce
  note id = submit_guardsD(2) [OF graded(1)]
  have "map attempt (db_submissions d1) = map attempt (db_submissions d)
      @ [(sc_row_id sc, sc_challenge_id sc, sc_user_id sc, sj_team_id s, sc_flag sc, correct, sc_now sc)]"
    using record_grade_attempts [of read d "flag_grade_call sc c ch s correct" False 0 0, unfolded rg snd_conv]
    by (simp add: attempt_grade_row flag_grade_call_def id)
  moreover have "d1 = d\<lparr>db_submissions := db_submissions d1\<rparr>"
    using record_grade_state [of read d "flag_grade_call sc c ch s correct", unfolded rg snd_conv] .
  moreover have "go_correct g = correct"
    using record_grade_outcome [of read d "flag_grade_call sc c ch s correct", unfolded rg fst_conv]
    by (simp add: flag_grade_call_def)
  moreover have "filter (\<lambda>e. event_name e = ''challenge.attempted'') shared = []"
    using graded(6) by (auto simp: filter_empty_conv)
  ultimately show ?thesis
    by (auto simp: graded(5) rg submit_response_def Let_def emit_grade_def)
qed

section \<open>The guess cap\<close>

lemma count_by_view:
  assumes "map f xs = map f ys" and P: "\<And>x y. f x = f y \<Longrightarrow> P x = P y"
  shows "count_where P xs = count_where P ys"
  using map_eq_imp_length_eq [OF assms(1)] assms(1)
proof (induction xs ys rule: list_induct2)
  case (Cons x xs y ys)
  then show ?case using P [of x y] by simp
qed simp

lemma attempts_by_rows:
  assumes "map attempt rows = map attempt (db_submissions d)"
  shows "subject_attempt_count (d\<lparr>db_submissions := rows\<rparr>) i s = subject_attempt_count d i s"
proof -
  have "count_where (\<lambda>r. su_challenge_id r = i \<and> subject_solve_filter s r) rows =
      count_where (\<lambda>r. su_challenge_id r = i \<and> subject_solve_filter s r) (db_submissions d)"
    by (rule count_by_view [OF assms]) (simp add: attempt_def subject_solve_filter_def)
  moreover have "count_where (\<lambda>r. su_challenge_id r = i \<and> subject_solve_filter s r \<and> t < su_created_at r) rows =
      count_where (\<lambda>r. su_challenge_id r = i \<and> subject_solve_filter s r \<and> t < su_created_at r) (db_submissions d)" for t
    by (rule count_by_view [OF assms]) (simp add: attempt_def subject_solve_filter_def)
  ultimately show ?thesis by (simp add: subject_attempt_count_def split: option.split)
qed

lemma attempt_count_snoc:
  "subject_attempt_count (d\<lparr>db_submissions := db_submissions d @ [r]\<rparr>) i s \<le> subject_attempt_count d i s + 1"
  by (simp add: subject_attempt_count_def split: option.split)

text \<open>
  The guess cap cannot be passed: a submission to an unsolved multiple-choice challenge of a
  competition with a cap is graded only while the subject has made fewer guesses than the cap since
  its last reset, and the log never holds more than the cap after it. (The subject's lock makes the
  state counted the state written to.)\<close>

theorem guess_cap_holds:
  assumes graded: "submit_flag sha rx limit window sc hits d d = (Inr r, hits', d', evs)"
    and c: "get_competition d (sc_competition_id sc) = Some c" "co_mc_guess_limit c = Some l"
    and s: "resolve_subject d c (sc_user_id sc) = Some s"
    and ch: "get_scoped_challenge d (sc_competition_id sc) (sc_challenge_id sc) = Inr ch"
      "ch_flag_type ch = Multiple_Choice" "\<not> subject_has_solved d (sc_challenge_id sc) s"
  shows "subject_attempt_count d (sc_challenge_id sc) s < l \<and> subject_attempt_count d' (sc_challenge_id sc) s \<le> l"
proof (cases rule: submit_flag_cases [of sha rx limit window sc hits d d])
  case (graded ch0 c0 s0 um hits0 correct shared)
  note D = submit_guardsD [OF graded(1)]
  have "get_scoped_challenge d (sc_competition_id sc) (sc_challenge_id sc) = Inr ch0"
    using D(1) by (auto simp: load_visible_challenge_def res_bind_Inr_iff Let_def split: if_splits)
  then have eq: "ch0 = ch" "c0 = c" "s0 = s" using ch(1) c(1) s D(5,8) by simp_all
  have below: "subject_attempt_count d (sc_challenge_id sc) s < l"
    using graded(3) c(2) ch(2,3) D(2) by (simp add: eq guesses_used_up_def)
  let ?G = "flag_grade_call sc c ch s correct"
  have d': "d' = snd (record_grade d d ?G)"
    using assms(1) graded(5) by (simp add: eq case_prod_unfold Let_def)
  have "subject_attempt_count d' (sc_challenge_id sc) s =
      subject_attempt_count (d\<lparr>db_submissions := db_submissions d @ [grade_row ?G False 0 0]\<rparr>) (sc_challenge_id sc) s"
    unfolding d' by (subst record_grade_state)
      (use attempts_by_rows [of "db_submissions (snd (record_grade d d ?G))"
          "d\<lparr>db_submissions := db_submissions d @ [grade_row ?G False 0 0]\<rparr>" "sc_challenge_id sc" s]
        record_grade_attempts [of d d ?G False 0 0] in simp)
  also have "\<dots> \<le> subject_attempt_count d (sc_challenge_id sc) s + 1" by (rule attempt_count_snoc)
  finally show ?thesis using below by simp
qed (use graded in simp)

section \<open>The freeze\<close>

lemma record_grade_wrong:
  "\<not> gc_correct g \<Longrightarrow> record_grade read d g =
     (\<lparr>go_correct = False, go_award = False, go_already_solved = False, go_is_first_blood = False,
       go_points_awarded = 0, go_base_value = 0, go_mc_penalty = 0, go_submission = grade_row g False 0 0\<rparr>,
      d\<lparr>db_submissions := db_submissions d @ [grade_row g False 0 0]\<rparr>)"
  by (simp add: record_grade_def Let_def)

lemma record_grade_again:
  "gc_correct g \<Longrightarrow> subject_has_solved read (ch_id (gc_challenge g)) (gc_subject g) \<Longrightarrow>
     fst (record_grade read d g) =
       \<lparr>go_correct = True, go_award = False, go_already_solved = True, go_is_first_blood = False,
        go_points_awarded = 0, go_base_value = 0, go_mc_penalty = 0, go_submission = grade_row g True 0 0\<rparr>"
  by (simp add: record_grade_def Let_def)

lemma record_grade_first:
  assumes "gc_correct g" "\<not> subject_has_solved read (ch_id (gc_challenge g)) (gc_subject g)"
    and "grade_figures read g = (fb, base, points, penalty)"
    and "\<not> index_conflict (db_submissions d) (grade_row g False points penalty)"
  shows "fst (record_grade read d g) =
    \<lparr>go_correct = True, go_award = True, go_already_solved = False, go_is_first_blood = fb,
     go_points_awarded = points, go_base_value = base, go_mc_penalty = penalty,
     go_submission = grade_row g False points penalty\<rparr>"
  using assms by (simp add: record_grade_def Let_def)

lemma filter_weaker:
  assumes "filter K xs = filter K ys" "\<And>x. P x \<Longrightarrow> K x"
  shows "filter P xs = filter P ys"
proof -
  have "filter P zs = filter P (filter K zs)" for zs
    using assms(2) by (auto intro: filter_cong)
  then show ?thesis using assms(1) by metis
qed

lemma count_where_weaker:
  "filter K xs = filter K ys \<Longrightarrow> (\<And>x. P x \<Longrightarrow> K x) \<Longrightarrow> count_where P xs = count_where P ys"
  unfolding count_where_def by (drule filter_weaker [where P = P]) simp_all

text \<open>Rows a frozen-out subject may know of: its own, and those up to the cutoff.\<close>

definition known_to :: "subject \<Rightarrow> time \<Rightarrow> submission \<Rightarrow> bool" where
  "known_to s t r = (subject_solve_filter s r \<or> su_created_at r \<le> t)"

lemma known_agree:
  assumes "filter (known_to s t) (db_submissions d) = filter (known_to s t) rows"
  shows "subject_attempt_count (d\<lparr>db_submissions := rows\<rparr>) i s = subject_attempt_count d i s"
    and "subject_has_solved (d\<lparr>db_submissions := rows\<rparr>) i s = subject_has_solved d i s"
    and "solved_challenge_ids (d\<lparr>db_submissions := rows\<rparr>) cid s = solved_challenge_ids d cid s"
    and "count_where (\<lambda>r. awarded_on i r \<and> su_created_at r \<le> t) rows =
      count_where (\<lambda>r. awarded_on i r \<and> su_created_at r \<le> t) (db_submissions d)"
proof -
  note weaker = filter_weaker [OF assms [symmetric]] and counts = count_where_weaker [OF assms [symmetric]]
  show "subject_attempt_count (d\<lparr>db_submissions := rows\<rparr>) i s = subject_attempt_count d i s"
    unfolding subject_attempt_count_def
    by (auto split: option.split intro!: counts simp: known_to_def)
  have ex: "(\<exists>r\<in>set rows. P r) \<longleftrightarrow> (\<exists>r\<in>set (db_submissions d). P r)" if "\<And>r. P r \<Longrightarrow> known_to s t r" for P
    using weaker [of P, OF that] by (metis (mono_tags, lifting) filter_empty_conv)
  show "subject_has_solved (d\<lparr>db_submissions := rows\<rparr>) i s = subject_has_solved d i s"
    using ex [of "\<lambda>r. su_challenge_id r = i \<and> su_is_correct r \<and> subject_solve_filter s r"]
    by (simp add: subject_has_solved_def exists_where_iff known_to_def)
  have "filter (\<lambda>r. su_competition_id r = cid \<and> su_is_correct r \<and> subject_solve_filter s r) rows =
      filter (\<lambda>r. su_competition_id r = cid \<and> su_is_correct r \<and> subject_solve_filter s r) (db_submissions d)"
    by (rule weaker) (simp add: known_to_def)
  then show "solved_challenge_ids (d\<lparr>db_submissions := rows\<rparr>) cid s = solved_challenge_ids d cid s"
    by (simp add: solved_challenge_ids_def)
  show "count_where (\<lambda>r. awarded_on i r \<and> su_created_at r \<le> t) rows =
      count_where (\<lambda>r. awarded_on i r \<and> su_created_at r \<le> t) (db_submissions d)"
    by (rule counts) (simp add: known_to_def)
qed

lemma no_conflict_unsolved:
  assumes "\<not> subject_has_solved d (ch_id ch) s" and wf: "wf_subject s" "sj_kind s = User_Kind \<Longrightarrow> u = sj_id s"
    and own: "\<And>r. r \<in> set (db_submissions d) \<Longrightarrow> coalesce (su_team_id r) (su_user_id r) = sj_id s \<Longrightarrow>
      subject_solve_filter s r"
    and g: "gc_challenge g = ch" "gc_subject g = s" "gc_user_id g = u"
  shows "\<not> index_conflict (db_submissions d) (grade_row g False points penalty)"
proof
  assume "index_conflict (db_submissions d) (grade_row g False points penalty)"
  then obtain r where r: "r \<in> set (db_submissions d)" "awarded r" "su_challenge_id r = ch_id ch"
      "coalesce (su_team_id r) (su_user_id r) = coalesce (sj_team_id s) u"
    by (auto simp: index_conflict_def exists_where_iff subject_key_def grade_row_def g)
  have "coalesce (sj_team_id s) u = sj_id s"
    using wf by (cases "sj_kind s") (auto simp: wf_subject_def)
  with own [OF r(1)] r(4) have "subject_solve_filter s r" by simp
  with r assms(1) show False by (auto simp: subject_has_solved_def exists_where_iff awarded_def)
qed

lemma resolved_user: "resolve_subject d c u = Some s \<Longrightarrow> sj_kind s = User_Kind \<Longrightarrow> u = sj_id s"
  by (auto simp: resolve_subject_def split: if_splits option.splits)

text \<open>
  The response to one graded text, over a log that is read and a log that is written, each agreeing
  with the log of \<open>d\<close> on what the subject may know.
\<close>

lemma frozen_responses:
  assumes frozen: "visible_solve_cutoff (sc_now sc) d c (sc_user_id sc) = Some t"
    and same: "filter (known_to s t) (db_submissions d) = filter (known_to s t) seen"
      "filter (known_to s t) (db_submissions d) = filter (known_to s t) stored"
    and own: "\<And>r. r \<in> set (db_submissions d) \<union> set stored \<Longrightarrow> coalesce (su_team_id r) (su_user_id r) = sj_id s
      \<Longrightarrow> subject_solve_filter s r"
    and s: "resolve_subject d c (sc_user_id sc) = Some s" and id: "ch_id ch = sc_challenge_id sc"
    and e: "e = record_grade (d\<lparr>db_submissions := seen\<rparr>) (d\<lparr>db_submissions := stored\<rparr>) G"
    and G: "G = flag_grade_call sc c ch s correct"
  shows "submit_response (snd e) sc c ch s (fst e) =
    submit_response (snd (record_grade d d G)) sc c ch s (fst (record_grade d d G))"
proof -
  let ?R = "d\<lparr>db_submissions := seen\<rparr>" and ?W = "d\<lparr>db_submissions := stored\<rparr>"
  note read = known_agree [OF same(1)] and written = known_agree [OF same(2)]
  have g: "gc_challenge G = ch" "gc_subject G = s" "gc_user_id G = sc_user_id sc" "gc_correct G = correct"
      "gc_competition G = c"
    by (simp_all add: G flag_grade_call_def)
  have cutoff: "visible_solve_cutoff (sc_now sc) (d\<lparr>db_submissions := x\<rparr>) c (sc_user_id sc) = Some t" for x
    using frozen by simp
  have state: "snd (record_grade d d G) = d\<lparr>db_submissions := db_submissions (snd (record_grade d d G))\<rparr>"
      "snd e = d\<lparr>db_submissions := db_submissions (snd e)\<rparr>"
    using record_grade_state [of d d G] record_grade_state [of ?R ?W G] by (simp_all add: e)
  have cut: "visible_solve_cutoff (sc_now sc) (snd (record_grade d d G)) c (sc_user_id sc) = Some t"
      "visible_solve_cutoff (sc_now sc) (snd e) c (sc_user_id sc) = Some t"
    using cutoff state by metis+
  show ?thesis
  proof (cases correct)
    case False
    let ?row = "grade_row G False 0 0"
    have rows': "filter (known_to s t) (db_submissions d @ [?row]) = filter (known_to s t) (stored @ [?row])"
      using same(2) by simp
    have wrong: "record_grade y x G = (\<lparr>go_correct = False, go_award = False, go_already_solved = False,
        go_is_first_blood = False, go_points_awarded = 0, go_base_value = 0, go_mc_penalty = 0,
        go_submission = ?row\<rparr>, x\<lparr>db_submissions := db_submissions x @ [?row]\<rparr>)" for x y
      using False g by (intro record_grade_wrong) simp
    have "subject_attempt_count (d\<lparr>db_submissions := stored @ [?row]\<rparr>) i s =
        subject_attempt_count (d\<lparr>db_submissions := db_submissions d @ [?row]\<rparr>) i s" for i
      using known_agree(1) [of s t "d\<lparr>db_submissions := db_submissions d @ [?row]\<rparr>" "stored @ [?row]" i] rows' by simp
    moreover have "count_where (\<lambda>r. awarded_on i r \<and> su_created_at r \<le> t) (stored @ [?row]) =
        count_where (\<lambda>r. awarded_on i r \<and> su_created_at r \<le> t) (db_submissions d @ [?row])" for i
      using known_agree(4) [of s t "d\<lparr>db_submissions := db_submissions d @ [?row]\<rparr>" "stored @ [?row]" i] rows' by simp
    ultimately show ?thesis
      unfolding e wrong submit_response_def Let_def fst_conv snd_conv by (simp add: frozen)
  next
    case True
    show ?thesis
    proof (cases "subject_has_solved d (ch_id ch) s")
      case solved: True
      then have "fst e = fst (record_grade d d G)"
        using True g read(2) by (simp add: record_grade_again e)
      moreover have "go_correct (fst (record_grade d d G))" "\<not> go_award (fst (record_grade d d G))"
        using True g solved by (simp_all add: record_grade_again)
      ultimately show ?thesis by (simp add: submit_response_def Let_def cut)
    next
      case unsolved: False
      have first: "fst (record_grade y x G) = \<lparr>go_correct = True, go_award = True, go_already_solved = False,
          go_is_first_blood = fst (grade_figures y G), go_points_awarded = fst (snd (snd (grade_figures y G))),
          go_base_value = fst (snd (grade_figures y G)), go_mc_penalty = snd (snd (snd (grade_figures y G))),
          go_submission = grade_row G False (fst (snd (snd (grade_figures y G)))) (snd (snd (snd (grade_figures y G))))\<rparr>"
        if "x = d \<and> y = d \<or> x = ?W \<and> y = ?R" for x y
      proof (rule record_grade_first)
        show "\<not> subject_has_solved y (ch_id (gc_challenge G)) (gc_subject G)"
          using that unsolved read(2) by (auto simp: g)
        have "\<not> subject_has_solved x (ch_id ch) s" using that unsolved written(2) by auto
        then show "\<not> index_conflict (db_submissions x) (grade_row G False
            (fst (snd (snd (grade_figures y G)))) (snd (snd (snd (grade_figures y G)))))"
          using that own resolve_subject_wf [OF s] resolved_user [OF s]
          by (intro no_conflict_unsolved [where ch = ch and s = s and u = "sc_user_id sc"]) (auto simp: g)
      qed (use True g in auto)
      have figures: "ch_scoring_type ch \<noteq> Dynamic_Scoring \<Longrightarrow>
          snd (grade_figures ?R G) = snd (grade_figures d G)"
        using read(1) by (simp add: grade_figures_def Let_def g challenge_value_def)
      show ?thesis
        using figures by (simp add: submit_response_def Let_def cut e [symmetric] first [OF disjI1 [OF conjI [OF refl refl]]]
            first [OF disjI2 [OF conjI [OF refl refl]], folded e])
    qed
  qed
qed

lemma frozen_against:
  assumes c: "get_competition d (sc_competition_id sc) = Some c"
    and s: "resolve_subject d c (sc_user_id sc) = Some s"
    and frozen: "visible_solve_cutoff (sc_now sc) d c (sc_user_id sc) = Some t"
    and same: "filter (known_to s t) (db_submissions d) = filter (known_to s t) seen"
      "filter (known_to s t) (db_submissions d) = filter (known_to s t) stored"
    and own: "\<And>r. r \<in> set (db_submissions d) \<union> set stored \<Longrightarrow> coalesce (su_team_id r) (su_user_id r) = sj_id s
      \<Longrightarrow> subject_solve_filter s r"
  shows "fst (submit_flag sha rx limit window sc hits (d\<lparr>db_submissions := seen\<rparr>) (d\<lparr>db_submissions := stored\<rparr>)) =
    fst (submit_flag sha rx limit window sc hits d d)"
proof -
  let ?R = "d\<lparr>db_submissions := seen\<rparr>"
  note agree = known_agree [OF same(1)]
  have guards: "submit_guards ?R sc = submit_guards d sc"
    using c s agree(3) by (simp add: submit_guards_def Let_def unsolved_prerequisite_def)
  show ?thesis
  proof (cases "submit_guards d sc")
    case (Inl e)
    then show ?thesis by (simp add: submit_flag_def guards)
  next
    case (Inr x)
    obtain ch um where x: "x = (ch, c, s, um)" using Inr c s submit_guardsD(5,8) by (cases x) fastforce
    note D = submit_guardsD [OF Inr [unfolded x]]
    have used: "guesses_used_up ?R c ch s = guesses_used_up d c ch s"
      unfolding guesses_used_up_def agree(1,2) by (rule refl)
    have response: "submit_response (snd (record_grade ?R (d\<lparr>db_submissions := stored\<rparr>) G)) sc c ch s
        (fst (record_grade ?R (d\<lparr>db_submissions := stored\<rparr>) G)) =
        submit_response (snd (record_grade d d G)) sc c ch s (fst (record_grade d d G))"
      if "G = flag_grade_call sc c ch s correct" for G correct
      by (rule frozen_responses [OF frozen same own D(8,2) refl that])
    show ?thesis
      unfolding submit_flag_def guards Inr x
      by (simp add: case_prod_unfold Let_def used response)
  qed
qed

text \<open>
  C30: A frozen board leaks nothing through a competitor's own submission. Take one call against two
  histories of the submission log, each history the log the call reads and the log it commits into, with
  whatever others solved since the freeze and whatever of it commits while the call runs. If the
  subject's own rows and every row up to the freeze are the same in all four logs (so no submission of
  the subject itself commits in between), the response is the same in every field, and so is the
  refusal when there is one. (Rows keyed by the subject's id are its own: ids of users and teams
  differ. \<open>lost_race_reveals_worth\<close> is the leak when a team mate's solve does commit in between.)\<close>

theorem frozen_result_hides_later_solves:
  assumes "get_competition d (sc_competition_id sc) = Some c"
    and "resolve_subject d c (sc_user_id sc) = Some s"
    and "visible_solve_cutoff (sc_now sc) d c (sc_user_id sc) = Some t"
    and same: "\<forall>rows\<in>{seen, stored, seen', stored'}. filter (known_to s t) rows = known"
    and own: "\<forall>r\<in>set stored \<union> set stored' \<union> set seen. coalesce (su_team_id r) (su_user_id r) = sj_id s
      \<longrightarrow> subject_solve_filter s r"
  shows "fst (submit_flag sha rx limit window sc hits (d\<lparr>db_submissions := seen\<rparr>) (d\<lparr>db_submissions := stored\<rparr>)) =
    fst (submit_flag sha rx limit window sc hits (d\<lparr>db_submissions := seen'\<rparr>) (d\<lparr>db_submissions := stored'\<rparr>))"
proof -
  let ?d = "d\<lparr>db_submissions := seen\<rparr>"
  have base: "get_competition ?d (sc_competition_id sc) = Some c" "resolve_subject ?d c (sc_user_id sc) = Some s"
      "visible_solve_cutoff (sc_now sc) ?d c (sc_user_id sc) = Some t"
    using assms(1-3) by simp_all
  have "fst (submit_flag sha rx limit window sc hits (?d\<lparr>db_submissions := x\<rparr>) (?d\<lparr>db_submissions := y\<rparr>)) =
      fst (submit_flag sha rx limit window sc hits ?d ?d)"
    if "x \<in> {seen, seen'}" "y \<in> {stored, stored'}" for x y
    by (rule frozen_against [OF base]) (use same own that in auto)
  from this [of seen stored] this [of seen' stored'] show ?thesis by simp
qed

section \<open>Authoring and submitting\<close>

lemma created_flag:
  assumes "checked_create mods sha salt d cid b i now = Inr ch" "cb_flag b = Some raw"
  shows "\<exists>ch1. ch = apply_flag sha salt raw ch1 \<and> ch_flag_type ch1 = cb_flag_type b
    \<and> ch_case_insensitive ch1 = cb_case_insensitive b"
proof -
  from assms obtain ch1 where ch1: "(if cb_flag_type b = Multiple_Choice \<and> cb_choices b \<noteq> None
      then validate_multiple_choice (cb_flag b) ((created_row b cid i now)\<lparr>ch_choices := cb_choices b\<rparr>)
      else Inr (created_row b cid i now)) = Inr ch1" and ch: "ch = apply_flag sha salt raw ch1"
    by (auto simp: checked_create_def Let_def res_bind_Inr_iff)
  have "ch_flag_type ch1 = cb_flag_type b" "ch_case_insensitive ch1 = cb_case_insensitive b"
    using ch1 by (auto simp: validate_multiple_choice_def Let_def res_bind_Inr_iff created_row_def split: if_splits)
  with ch show ?thesis by blast
qed

text \<open>
  What an author stores is what a competitor must submit. After a challenge is created with a
  flag, a submitted text is accepted for a regex challenge exactly when the engine matches the
  pattern on it, and otherwise exactly when it equals the authored flag up to surrounding space and,
  when the challenge ignores case, letter case (unless the hash collides on the two).\<close>

theorem authored_flag_roundtrip:
  assumes created: "create_challenge mods sha salt d cid b i now u = (Inr (ch, v), d', evs)"
    and raw: "cb_flag b = Some raw"
    and no_collision: "inj_on sha {salt @ '':'' @ normalize raw (cb_case_insensitive b),
      salt @ '':'' @ normalize submitted (cb_case_insensitive b)}"
  shows "flag_matches sha rx ch submitted \<longleftrightarrow>
    (if cb_flag_type b = Regex_Flag then rx raw (strip submitted) (cb_case_insensitive b) = Rx_Match
     else normalize submitted (cb_case_insensitive b) = normalize raw (cb_case_insensitive b))"
proof -
  have "checked_create mods sha salt d cid b i now = Inr ch"
    using created by (auto simp: create_challenge_def split: sum.splits)
  from created_flag [OF this raw] obtain ch1 where ch: "ch = apply_flag sha salt raw ch1"
      "ch_flag_type ch1 = cb_flag_type b" "ch_case_insensitive ch1 = cb_case_insensitive b" by blast
  have "sha (salt @ '':'' @ normalize submitted (cb_case_insensitive b)) =
      sha (salt @ '':'' @ normalize raw (cb_case_insensitive b)) \<longleftrightarrow>
    normalize submitted (cb_case_insensitive b) = normalize raw (cb_case_insensitive b)"
    using no_collision by (auto simp: inj_on_def)
  then show ?thesis
    by (auto simp: flag_matches_def ch apply_flag_def verify_static_flag_def hash_static_flag_def
        verify_regex_flag_def split: rx_result.split)
qed

section \<open>Code submissions in flight\<close>

text \<open>
  The in-flight cap cannot be passed: a code submission is queued only while its subject has fewer
  than three of its own unfinished scored or example judgings, and at most three after it; queueing
  adds one submission within the size limit and one judging, and a refusal changes nothing.\<close>

theorem in_flight_cap_holds:
  assumes "resolve_subject d c (cc_user_id cc) = Some s" "get_competition d (cc_competition_id cc) = Some c"
    and kind: "cc_kind cc \<noteq> Reference_Kind"
  shows "case submit_code mods limit window cc hits d of
     (Inl e, hits', d', evs) \<Rightarrow> d' = d \<and> evs = []
   | (Inr j, hits', d', evs) \<Rightarrow> int (length (cc_source cc)) \<le> MAX_SOURCE_BYTES
       \<and> count_where (own_in_flight (cc_competition_id cc) s) (db_judgings d') =
           count_where (own_in_flight (cc_competition_id cc) s) (db_judgings d) + 1
       \<and> count_where (own_in_flight (cc_competition_id cc) s) (db_judgings d') \<le> 3
       \<and> length (db_code_submissions d') = length (db_code_submissions d) + 1"
proof (cases "code_guards mods d cc")
  case (Inl e)
  then show ?thesis by (simp add: submit_code_def)
next
  case (Inr x)
  obtain s' l where x: "x = (s', l)" by (cases x)
  have "competition_with_judge mods d (cc_competition_id cc) = Inr c0 \<Longrightarrow> c0 = c" for c0
    using assms(2) by (auto simp: competition_with_judge_def split: option.splits if_splits)
  then have s': "s' = s" and size: "int (length (cc_source cc)) \<le> MAX_SOURCE_BYTES"
    using Inr assms(1) unfolding x code_guards_def Let_def res_bind_Inr_iff checked_source_def
    by (auto simp: res_bind_Inr_iff split: option.splits)
  have wf: "wf_subject s" using assms(1) by (rule resolve_subject_wf)
  have user: "sj_kind s \<noteq> Team_Kind \<Longrightarrow> cc_user_id cc = sj_id s"
    using assms(1) by (auto simp: resolve_subject_def split: if_splits option.splits)
  let ?j = "new_judging (cc_judging_id cc) (code_row cc s l) (cs_kind (code_row cc s l)) Origin_Submission None (cc_now cc)"
  have own: "own_in_flight (cc_competition_id cc) s ?j"
    using kind user by (simp add: own_in_flight_def new_judging_def code_row_def ACTIVE_JUDGING_STATUSES_def)
  show ?thesis
    using own size
    by (auto simp: submit_code_def Inr x s' case_prod_unfold Let_def queue_code_def MAX_IN_FLIGHT_def)
qed

section \<open>A race under the freeze\<close>

text \<open>
  A team in a frozen competition with a wrong-guess penalty and no guess cap, on a dynamic
  multiple-choice challenge: one wrong guess before the freeze, then both members submit the right
  answer at once.
\<close>

definition race_row :: "ident \<Rightarrow> ident \<Rightarrow> ident \<Rightarrow> bool \<Rightarrow> time \<Rightarrow> submission" where
  "race_row i team u correct t = \<lparr>su_id = i, su_competition_id = ''A'', su_challenge_id = ''q'', su_user_id = u,
     su_team_id = Some team, su_value = ''x'', su_is_correct = correct, su_is_duplicate = False,
     su_points_awarded = 0, su_mc_penalty = 0, su_created_at = t\<rparr>"

definition race_db :: "submission list \<Rightarrow> db" where
  "race_db later = empty_db\<lparr>
     db_competitions := [(blank_competition ''A'')\<lparr>co_participation_mode := Team_Mode, co_status := Running,
       co_scoreboard_frozen_at := Some 5, co_mc_penalty_pct := Some 50\<rparr>],
     db_challenges := [(blank_challenge ''A'' ''q'')\<lparr>ch_state := Published, ch_flag_type := Multiple_Choice,
       ch_scoring_type := Dynamic_Scoring, ch_points := 500, ch_min_points := Some 100, ch_decay := Some 10,
       ch_choices := Some [''x'', ''y''], ch_flag_salt := Some ''s'',
       ch_flag_hash := Some (hash_static_flag demo_sha ''y'' ''s'' False)\<rparr>],
     db_memberships := [\<lparr>tm_competition_id = ''A'', tm_team_id = ''t'', tm_user_id = ''u'', tm_is_captain = True,
       tm_created_at = 0\<rparr>],
     db_submissions := race_row ''s1'' ''t'' ''u'' False 1 # later\<rparr>"

definition race_call :: submit_call where
  "race_call = \<lparr>sc_competition_id = ''A'', sc_challenge_id = ''q'', sc_user_id = ''u'', sc_flag = ''y'',
     sc_row_id = ''s9'', sc_now = 20\<rparr>"

definition race_result :: "submission list \<Rightarrow> submission list \<Rightarrow> (int option \<times> int option) option" where
  "race_result later committed =
     (case fst (submit_flag demo_sha (\<lambda>_ _ _. Rx_No_Match) 10 30 race_call (\<lambda>_. []) (race_db later)
        (race_db (later @ committed))) of
        Inl e \<Rightarrow> None | Inr r \<Rightarrow> Some (sr_points_awarded r, sr_full_value r))"

text \<open>
  The one leak the freeze leaves: when a teammate's solve commits between the reads of a correct
  submission and its insert, the response is a duplicate worth nothing but still carries the base
  value the lost award would have had. On a frozen dynamic challenge it tells how many others have
  solved it since the freeze (496 points if nobody, 484 if one), which the same response without the
  race withholds, and it contradicts the schema, where the full value is set only when a penalty
  lowered the award.\<close>

theorem lost_race_reveals_worth:
  "race_result [] [race_row ''s2'' ''t'' ''w'' True 19] = Some (Some 0, Some 496)
   \<and> race_result [race_row ''s3'' ''o'' ''x'' True 10] [race_row ''s2'' ''t'' ''w'' True 19] = Some (Some 0, Some 484)
   \<and> race_result [] [] = Some (None, None)
   \<and> race_result [race_row ''s3'' ''o'' ''x'' True 10] [] = Some (None, None)"
  by code_simp

section \<open>Witnesses\<close>

definition no_regex :: regex_engine where "no_regex p v ci = Rx_No_Match"

definition capped_db :: db where
  "capped_db = (race_db [])\<lparr>db_competitions := [(blank_competition ''A'')\<lparr>co_participation_mode := Team_Mode,
     co_status := Running, co_mc_guess_limit := Some 2\<rparr>]\<rparr>"

lemma guess_cap_holds_witness:
  "subject_attempt_count (fst (snd (snd (submit_flag demo_sha no_regex 10 30 race_call (\<lambda>_. []) capped_db capped_db))))
     ''q'' (team_credit ''t'') \<le> 2"
proof -
  let ?r = "submit_flag demo_sha no_regex 10 30 race_call (\<lambda>_. []) capped_db capped_db"
  obtain r hits d' evs where eq: "?r = (Inr r, hits, d', evs)"
  proof -
    have "is_ok (fst ?r)" by code_simp
    then have "\<exists>r. fst ?r = Inr r" by (cases "fst ?r") simp_all
    then show ?thesis using that by (metis prod.collapse)
  qed
  let ?c = "(blank_competition ''A'')\<lparr>co_participation_mode := Team_Mode, co_status := Running,
    co_mc_guess_limit := Some 2\<rparr>"
  have 1: "get_competition capped_db (sc_competition_id race_call) = Some ?c" by code_simp
  have 2: "co_mc_guess_limit ?c = Some 2" by code_simp
  have 3: "resolve_subject capped_db ?c (sc_user_id race_call) = Some (team_credit ''t'')" by code_simp
  have 4: "get_scoped_challenge capped_db (sc_competition_id race_call) (sc_challenge_id race_call) =
      Inr (hd (db_challenges capped_db))" by code_simp
  have 5: "ch_flag_type (hd (db_challenges capped_db)) = Multiple_Choice" by code_simp
  have 6: "\<not> subject_has_solved capped_db (sc_challenge_id race_call) (team_credit ''t'')" by code_simp
  have "sc_challenge_id race_call = ''q''" by code_simp
  then show ?thesis
    unfolding eq fst_conv snd_conv using guess_cap_holds [OF eq 1 2 3 4 5 6] by simp
qed

text \<open>Nobody else solves it, or one did since the freeze and another does while the call runs.\<close>

lemma frozen_result_hides_later_solves_witness:
  "let own = race_row ''s1'' ''t'' ''u'' False 1; before = race_row ''s3'' ''o'' ''x'' True 10;
       during = race_row ''s4'' ''k'' ''y'' True 19;
       result = (\<lambda>seen stored. fst (submit_flag demo_sha no_regex 10 30 race_call (\<lambda>_. [])
         ((race_db [])\<lparr>db_submissions := seen\<rparr>) ((race_db [])\<lparr>db_submissions := stored\<rparr>)))
   in result [own] [own] = result [own, before] [own, before, during]"
proof -
  let ?own = "race_row ''s1'' ''t'' ''u'' False 1" and ?before = "race_row ''s3'' ''o'' ''x'' True 10"
    and ?during = "race_row ''s4'' ''k'' ''y'' True 19"
  let ?c = "(blank_competition ''A'')\<lparr>co_participation_mode := Team_Mode, co_status := Running,
       co_scoreboard_frozen_at := Some 5, co_mc_penalty_pct := Some 50\<rparr>"
  have 1: "get_competition (race_db []) (sc_competition_id race_call) = Some ?c" by code_simp
  have 2: "resolve_subject (race_db []) ?c (sc_user_id race_call) = Some (team_credit ''t'')" by code_simp
  have 3: "visible_solve_cutoff (sc_now race_call) (race_db []) ?c (sc_user_id race_call) = Some 5" by code_simp
  have 4: "\<forall>rows\<in>{[?own], [?own], [?own, ?before], [?own, ?before, ?during]}.
      filter (known_to (team_credit ''t'') 5) rows = [?own]"
    by (simp add: known_to_def race_row_def subject_solve_filter_def team_credit_def)
  have 5: "\<forall>r\<in>set [?own] \<union> set [?own, ?before, ?during] \<union> set [?own].
      coalesce (su_team_id r) (su_user_id r) = sj_id (team_credit ''t'') \<longrightarrow> subject_solve_filter (team_credit ''t'') r"
    by (simp add: race_row_def subject_solve_filter_def team_credit_def coalesce_def)
  show ?thesis unfolding Let_def by (rule frozen_result_hides_later_solves [OF 1 2 3 4 5])
qed

definition demo_body :: challenge_create where
  "demo_body = \<lparr>cb_title = ''t'', cb_description = PNone, cb_category_id = None, cb_points = 100,
     cb_scoring_type = Static_Scoring, cb_min_points = None, cb_decay = None, cb_release_at = None,
     cb_prerequisites = [], cb_tags = [], cb_difficulty = None, cb_connection_info = None,
     cb_flag_type = Static_Flag, cb_case_insensitive = True, cb_flag = Some ''Flag '', cb_choices = None\<rparr>"

lemma authored_flag_roundtrip_witness:
  "flag_matches demo_sha no_regex (fst (projr (fst (create_challenge [] demo_sha ''s'' empty_db ''A'' demo_body ''q'' 1 ''u''))))
     '' fLAG''"
proof -
  let ?r = "create_challenge [] demo_sha ''s'' empty_db ''A'' demo_body ''q'' 1 ''u''"
  have "is_ok (fst ?r)" by code_simp
  then obtain x where x: "fst ?r = Inr x" by (cases "fst ?r") simp_all
  have r: "?r = (Inr (fst x, snd x), fst (snd ?r), snd (snd ?r))"
    unfolding prod.collapse x [symmetric] by (rule refl)
  have 1: "cb_flag demo_body = Some ''Flag ''" by code_simp
  have 2: "inj_on demo_sha A" for A using inj_demo_sha by (rule inj_on_subset) simp
  have "cb_flag_type demo_body \<noteq> Regex_Flag" by code_simp
  moreover have "normalize '' fLAG'' (cb_case_insensitive demo_body) = normalize ''Flag '' (cb_case_insensitive demo_body)"
    by code_simp
  ultimately show ?thesis using authored_flag_roundtrip [OF r 1 2, of no_regex "'' fLAG''"] by (simp add: x)
qed

definition code_db :: db where
  "code_db = empty_db\<lparr>
     db_competitions := [(blank_competition ''A'')\<lparr>co_participation_mode := Individual_Mode, co_status := Running\<rparr>],
     db_challenges := [(blank_challenge ''A'' ''q'')\<lparr>ch_state := Published, ch_flag_type := Programming\<rparr>],
     db_judge_settings := Some \<lparr>js_enabled = True, js_max_concurrent_judgings = 1\<rparr>,
     db_judge_languages := [\<lparr>jl_key = ''py'', jl_name = ''Python'', jl_enabled = True\<rparr>],
     db_judge_problems := [\<lparr>jp_competition_id = ''A'', jp_challenge_id = ''q'', jp_allowed_languages = None,
       jp_object_key = None, jp_testcases = [True]\<rparr>]\<rparr>"

definition demo_code_call :: code_call where
  "demo_code_call = \<lparr>cc_competition_id = ''A'', cc_challenge_id = ''q'', cc_user_id = ''u'', cc_kind = Submit_Kind,
     cc_language = ''py'', cc_source = ''x'', cc_object_key = ''k'', cc_code_id = ''c1'', cc_judging_id = ''j1'', cc_now = 1\<rparr>"

lemma in_flight_cap_holds_witness:
  "count_where (own_in_flight ''A'' (user_credit ''u''))
     (db_judgings (fst (snd (snd (submit_code [judge_module] 10 30 demo_code_call (\<lambda>_. []) code_db))))) \<le> 3"
proof -
  let ?c = "(blank_competition ''A'')\<lparr>co_participation_mode := Individual_Mode, co_status := Running\<rparr>"
  let ?r = "submit_code [judge_module] 10 30 demo_code_call (\<lambda>_. []) code_db"
  have 1: "resolve_subject code_db ?c (cc_user_id demo_code_call) = Some (user_credit ''u'')" by code_simp
  have 2: "get_competition code_db (cc_competition_id demo_code_call) = Some ?c" by code_simp
  have 3: "cc_kind demo_code_call \<noteq> Reference_Kind" by code_simp
  have "is_ok (fst ?r)" by code_simp
  then show ?thesis
    using in_flight_cap_holds [OF 1 2 3, of "[judge_module]" 10 30 "\<lambda>_. []"]
    by (cases ?r; cases "fst ?r") (simp_all add: demo_code_call_def)
qed

end
