(* ===== verification/Identity.thy ===== *)
theory Identity
  imports Permissions
begin

text \<open>
  Accounts as the other components see them: lookup by login identifier (\<open>auth/identity.py\<close>), the
  count of administrators (\<open>auth/setup.py\<close>), what acting on an account confers
  (\<open>auth/containment.py\<close>), and which competitions a user may see (\<open>utils/competitions.py\<close>,
  the listing and detail of \<open>routers/competitions.py\<close>).
\<close>

section \<open>Login identifiers\<close>

definition normalize_identifier :: "string \<Rightarrow> string" where
  "normalize_identifier s = lower (strip s)"

definition find_by_identifier :: "db \<Rightarrow> string \<Rightarrow> user option" where
  "find_by_identifier d s =
     (let i = normalize_identifier s in
      case find (\<lambda>u. map_option lower (us_email u) = Some i) (db_users d) of
        Some u \<Rightarrow> Some u
      | None \<Rightarrow> find (\<lambda>u. lower (us_display_name u) = i) (db_users d))"

definition display_name_taken :: "db \<Rightarrow> string \<Rightarrow> ident option \<Rightarrow> bool" where
  "display_name_taken d name exclude_id =
     exists_where (\<lambda>u. lower (us_display_name u) = lower (strip name) \<and> Some (us_id u) \<noteq> exclude_id)
       (db_users d)"

definition email_taken :: "db \<Rightarrow> string \<Rightarrow> ident option \<Rightarrow> bool" where
  "email_taken d email exclude_id =
     exists_where (\<lambda>u. map_option lower (us_email u) = Some (lower (strip email))
         \<and> Some (us_id u) \<noteq> exclude_id) (db_users d)"

section \<open>Administrators\<close>

definition ADMINISTRATOR_ROLE_NAME :: string where
  "ADMINISTRATOR_ROLE_NAME = ''Administrator''"

text \<open>The join of assignments, roles and users, one entry per matching triple.\<close>

definition active_global_admins :: "db \<Rightarrow> ident option \<Rightarrow> (role_assignment \<times> role \<times> user) list" where
  "active_global_admins d exclude_user_id =
     [(a, r, u). a \<leftarrow> db_assignments d, r \<leftarrow> db_roles d, u \<leftarrow> db_users d,
        ro_id r = ra_role_id a \<and> us_id u = ra_user_id a
        \<and> ro_name r = ADMINISTRATOR_ROLE_NAME \<and> ra_competition_id a = None \<and> us_is_active u
        \<and> Some (ra_user_id a) \<noteq> exclude_user_id]"

definition active_global_admin_count :: "db \<Rightarrow> ident option \<Rightarrow> nat" where
  "active_global_admin_count d exclude_user_id = length (active_global_admins d exclude_user_id)"

definition instance_needs_setup :: "db \<Rightarrow> bool" where
  "instance_needs_setup d = (active_global_admin_count d None = 0)"

section \<open>Acting on an account\<close>

definition global_set :: "db \<Rightarrow> ident \<Rightarrow> string list" where
  "global_set d u = fst (effective_permissions d u)"

text \<open>
  Every permission above the Participant floor that some competition of the user gives, and every
  site-wide one, unknown keys left out. The competitions are those of the user's assignments.
\<close>

definition privileged_permissions :: "db \<Rightarrow> ident \<Rightarrow> string set" where
  "privileged_permissions d u =
     (let (g, m) = effective_permissions d u;
          comps = List.map_filter ra_competition_id (filter (\<lambda>a. ra_user_id a = u) (db_assignments d))
      in {k \<in> set g \<union> (\<Union>c\<in>set comps. set (coalesce (m c) []) - set PARTICIPANT_PERMISSIONS). is_known k})"

definition holds_every_permission :: "db \<Rightarrow> ident \<Rightarrow> bool" where
  "holds_every_permission d u = list_all (\<lambda>p. pm_key p \<in> set (global_set d u)) PERMISSIONS"

definition assert_may_manage_account :: "db \<Rightarrow> ident \<Rightarrow> ident \<Rightarrow> unit res" where
  "assert_may_manage_account d actor target =
     (if actor = target then Inr ()
      else ensure (privileged_permissions d target \<subseteq> set (global_set d actor)) 403
        ''You can't manage an account holding permissions you don't hold yourself'')"

lemma global_set_iff: "k \<in> set (global_set d u) \<longleftrightarrow> user_has_permission d u k None"
  unfolding global_set_def by (rule effective_global_holds)

lemma privileged_permissions_iff:
  "k \<in> privileged_permissions d u \<longleftrightarrow> is_known k
     \<and> (user_has_permission d u k None
        \<or> k \<notin> set PARTICIPANT_PERMISSIONS \<and> (\<exists>c. user_has_permission d u k (Some c)))"
proof -
  have scoped: "(\<exists>c\<in>set (List.map_filter ra_competition_id (filter (\<lambda>a. ra_user_id a = u) (db_assignments d))).
        k \<in> set (coalesce (snd (effective_permissions d u) c) []))
      \<longleftrightarrow> (\<exists>c. list_ex (scoped_grant k c) (role_rows d u))"
    unfolding effective_scoped_iff
    by (auto simp: role_rows_ex map_filter_def) force
  have "user_has_permission d u k (Some c) \<longleftrightarrow>
      user_has_permission d u k None \<or> list_ex (scoped_grant k c) (role_rows d u)" for c
    unfolding user_has_permission_def check_rows_iff list_ex_iff using grants_split [of k "Some c"]
    by blast
  then show ?thesis
    using scoped effective_global_holds [of k d u]
    by (auto simp: privileged_permissions_def split_beta)
qed

section \<open>Which competitions a user may see\<close>

definition is_competition_active :: "competition \<Rightarrow> bool" where
  "is_competition_active c =
     (if co_archived_at c \<noteq> None \<or> co_paused c then False else co_status c = Running)"

definition can_see_competition :: "db \<Rightarrow> competition \<Rightarrow> ident \<Rightarrow> bool" where
  "can_see_competition d c u =
     (if co_visibility c = Public then True
      else if sees_every_competition d u then True
      else co_id c \<in> member_competition_ids d u)"

text \<open>The same rule as a condition of a query over many competitions.\<close>

definition visible_competitions_clause :: "db \<Rightarrow> ident \<Rightarrow> competition \<Rightarrow> bool" where
  "visible_competitions_clause d u =
     (if sees_every_competition d u then (\<lambda>c. True)
      else (\<lambda>c. co_visibility c = Public \<or> co_id c \<in> member_competition_ids d u))"

definition get_visible_competition :: "db \<Rightarrow> ident \<Rightarrow> ident \<Rightarrow> competition option" where
  "get_visible_competition d cid u =
     (case get_competition d cid of
        None \<Rightarrow> None
      | Some c \<Rightarrow> if can_see_competition d c u then Some c else None)"

definition list_competitions :: "db \<Rightarrow> ident \<Rightarrow> competition list" where
  "list_competitions d u =
     sort_key co_created_at (filter (visible_competitions_clause d u) (db_competitions d))"

definition get_competition_route :: "db \<Rightarrow> ident \<Rightarrow> ident \<Rightarrow> competition res" where
  "get_competition_route d cid u =
     (case get_visible_competition d cid u of
        None \<Rightarrow> Inl (HTTPException 404 ''Competition not found'')
      | Some c \<Rightarrow> Inr c)"

lemma visible_clause_iff: "visible_competitions_clause d u c \<longleftrightarrow> can_see_competition d c u"
  by (auto simp: visible_competitions_clause_def can_see_competition_def)

lemma member_competition_ids_iff:
  "c \<in> member_competition_ids d u \<longleftrightarrow>
     (\<exists>a\<in>set (db_assignments d). ra_user_id a = u \<and> ra_competition_id a = Some c)"
  by (auto simp: member_competition_ids_def map_filter_def) force

text \<open>The listing and the detail route agree on every competition.\<close>

lemma listing_agrees_with_detail:
  assumes "distinct (map co_id (db_competitions d))"
  shows "c \<in> set (list_competitions d u) \<longleftrightarrow> get_competition_route d (co_id c) u = Inr c"
proof -
  have "get_competition d (co_id c) = Some c \<longleftrightarrow> c \<in> set (db_competitions d)"
  proof
    show "get_competition d (co_id c) = Some c \<Longrightarrow> c \<in> set (db_competitions d)"
      by (auto simp: get_competition_def dest: find_Some_in)
    assume c: "c \<in> set (db_competitions d)"
    then obtain c' where c': "get_competition d (co_id c) = Some c'"
      unfolding get_competition_def using find_None_all by fastforce
    then have "c' \<in> set (db_competitions d) \<and> co_id c' = co_id c"
      by (auto simp: get_competition_def dest: find_Some_in)
    with c assms have "c' = c" by (metis (no_types) distinct_map inj_onD)
    with c' show "get_competition d (co_id c) = Some c" by simp
  qed
  then show ?thesis
    by (cases "get_competition d (co_id c)")
      (auto simp: list_competitions_def get_competition_route_def get_visible_competition_def
        visible_clause_iff get_competition_def dest: find_Some_in)
qed

end
