(* ===== verification/Roles.thy ===== *)
theory Roles
  imports Identity
begin

text \<open>
  The roles admin API (\<open>routers/roles.py\<close>). Every route is gated on the global permission
  \<open>manage_roles\<close>; \<open>gated\<close> is that dependency. A fresh row id is an argument.
\<close>

section \<open>Checks\<close>

definition gated :: "string \<Rightarrow> db \<Rightarrow> ident \<Rightarrow> 'a outcome \<Rightarrow> 'a outcome" where
  "gated k d u handler =
     (if user_has_permission d u k None then handler
      else (Inl (HTTPException 403 (''Missing permission: '' @ k)), d, []))"

definition assert_may_grant :: "db \<Rightarrow> ident \<Rightarrow> string list \<Rightarrow> string list \<Rightarrow> unit res" where
  "assert_may_grant d actor permissions already_granted =
     (let added = set permissions - set already_granted in
      if added = {} then Inr ()
      else let missing = sorted_list_of_set (added - set (global_set d actor)) in
        ensure (missing = []) 403
          (''You can't grant permissions you don't hold yourself: '' @ join_with '', '' missing))"

definition assert_may_revoke :: "db \<Rightarrow> ident \<Rightarrow> string set \<Rightarrow> unit res" where
  "assert_may_revoke d actor permissions =
     (let known = {k \<in> permissions. is_known k} in
      if known = {} then Inr ()
      else let missing = sorted_list_of_set (known - set (global_set d actor)) in
        ensure (missing = []) 403
          (''You can't remove permissions you don't hold yourself: '' @ join_with '', '' missing))"

definition validate_permission_keys :: "string list \<Rightarrow> unit res" where
  "validate_permission_keys keys =
     (let unknown = sort (filter (\<lambda>k. \<not> is_known k) keys) in
      ensure (unknown = []) 422 (''Unknown permission keys: '' @ join_with '', '' unknown))"

definition name_taken :: "db \<Rightarrow> string \<Rightarrow> ident option \<Rightarrow> bool" where
  "name_taken d name exclude_id =
     exists_where (\<lambda>r. ro_name r = name \<and> Some (ro_id r) \<noteq> exclude_id) (db_roles d)"

section \<open>Roles\<close>

definition list_roles :: "db \<Rightarrow> role list" where
  "list_roles d = sort_key (\<lambda>r. (\<not> ro_is_system r, ro_name r)) (db_roles d)"

definition permission_catalog :: "(string \<times> string \<times> role_scope \<times> bool) list" where
  "permission_catalog = map (\<lambda>p. (pm_key p, pm_category p, pm_scope p, pm_reserved p)) PERMISSIONS"

text \<open>\<open>RoleCreate\<close>: \<open>None\<close> for scope and permissions is a field that was not sent.\<close>

record role_create =
  rc_name :: string
  rc_description :: string
  rc_scope :: "role_scope option"
  rc_permissions :: "string list option"
  rc_clone_from :: "ident option"

definition scope_name :: "role_scope \<Rightarrow> string" where
  "scope_name s = (case s of Global_Scope \<Rightarrow> ''global'' | Competition_Scope \<Rightarrow> ''competition'')"

text \<open>Scope and permissions of the new role: the source's when cloning, what the body sends on top.\<close>

definition seeded_role :: "db \<Rightarrow> role_create \<Rightarrow> (role_scope \<times> string list) res" where
  "seeded_role d b =
     (case rc_clone_from b of
        None \<Rightarrow> Inr (coalesce (rc_scope b) Competition_Scope, coalesce (rc_permissions b) [])
      | Some i \<Rightarrow>
          (case get_role d i of
             None \<Rightarrow> Inl (HTTPException 404 ''Source role not found'')
           | Some source \<Rightarrow> Inr (coalesce (rc_scope b) (ro_scope source),
                                coalesce (rc_permissions b) (ro_permissions source))))"

definition checked_role :: "db \<Rightarrow> ident \<Rightarrow> role_create \<Rightarrow> (role_scope \<times> string list) res" where
  "checked_role d actor b =
     res_bind (seeded_role d b) (\<lambda>(scope, permissions).
     res_bind (ensure (\<not> name_taken d (rc_name b) None) 409 ''A role with that name already exists'') (\<lambda>_.
     res_bind (validate_permission_keys permissions) (\<lambda>_.
     res_bind (assert_may_grant d actor permissions []) (\<lambda>_. Inr (scope, permissions)))))"

definition create_role :: "ident \<Rightarrow> db \<Rightarrow> ident \<Rightarrow> role_create \<Rightarrow> role outcome" where
  "create_role new_id d actor b = gated ''manage_roles'' d actor
     (case checked_role d actor b of
        Inl e \<Rightarrow> (Inl e, d, [])
      | Inr (scope, permissions) \<Rightarrow>
          (let role = \<lparr>ro_id = new_id, ro_name = rc_name b, ro_description = rc_description b,
                 ro_is_system = False, ro_scope = scope, ro_permissions = permissions\<rparr>
           in (Inr role, d\<lparr>db_roles := db_roles d @ [role]\<rparr>,
               [Event ''role.created''
                  [(''user_id'', PStr actor), (''role_id'', PStr new_id), (''name'', PStr (rc_name b)),
                   (''scope'', PStr (scope_name scope)), (''cloned_from'', pstr (rc_clone_from b))]])))"

record role_update =
  ru_name :: "string option"
  ru_description :: "string option"
  ru_permissions :: "string list option"

definition editable_role :: "db \<Rightarrow> ident \<Rightarrow> string \<Rightarrow> role res" where
  "editable_role d i msg =
     (case get_role d i of
        None \<Rightarrow> Inl (HTTPException 404 ''Role not found'')
      | Some role \<Rightarrow> res_bind (ensure (\<not> ro_is_system role) 409 msg) (\<lambda>_. Inr role))"

definition checked_role_update :: "db \<Rightarrow> ident \<Rightarrow> role_update \<Rightarrow> role \<Rightarrow> role res" where
  "checked_role_update d actor b role =
     res_bind (case ru_name b of
         None \<Rightarrow> Inr role
       | Some n \<Rightarrow> if n = ro_name role then Inr role
           else res_bind (ensure (\<not> name_taken d n (Some (ro_id role))) 409
                  ''A role with that name already exists'') (\<lambda>_. Inr (role\<lparr>ro_name := n\<rparr>))) (\<lambda>r1.
     let r2 = (case ru_description b of None \<Rightarrow> r1 | Some t \<Rightarrow> r1\<lparr>ro_description := t\<rparr>) in
     case ru_permissions b of
       None \<Rightarrow> Inr r2
     | Some ks \<Rightarrow>
         res_bind (validate_permission_keys ks) (\<lambda>_.
         res_bind (assert_may_grant d actor ks (ro_permissions r2)) (\<lambda>_.
         res_bind (assert_may_revoke d actor (set (ro_permissions r2) - set ks)) (\<lambda>_.
         Inr (r2\<lparr>ro_permissions := ks\<rparr>)))))"

definition put_role :: "role \<Rightarrow> db \<Rightarrow> db" where
  "put_role role d = d\<lparr>db_roles := update_where (\<lambda>r. ro_id r = ro_id role) (\<lambda>_. role) (db_roles d)\<rparr>"

text \<open>The holders whose access may have changed, told to the socket layer.\<close>

definition affected_user_ids :: "db \<Rightarrow> ident \<Rightarrow> role_update \<Rightarrow> role \<Rightarrow> ident list" where
  "affected_user_ids d i b role =
     (case ru_permissions b of
        None \<Rightarrow> []
      | Some ks \<Rightarrow>
          if set ks \<noteq> set (ro_permissions role)
          then remdups (map ra_user_id (filter (\<lambda>a. ra_role_id a = i) (db_assignments d))) else [])"

definition update_role :: "db \<Rightarrow> ident \<Rightarrow> ident \<Rightarrow> role_update \<Rightarrow> role outcome" where
  "update_role d actor i b = gated ''manage_roles'' d actor
     (case editable_role d i ''System roles are read-only - clone to customize (7.3)'' of
        Inl e \<Rightarrow> (Inl e, d, [])
      | Inr role \<Rightarrow>
          (case checked_role_update d actor b role of
             Inl e \<Rightarrow> (Inl e, d, [])
           | Inr role1 \<Rightarrow>
               (let affected = affected_user_ids d i b role in
                (Inr role1, put_role role1 d,
                 [Event ''role.updated''
                    ([(''user_id'', PStr actor), (''role_id'', PStr i), (''name'', PStr (ro_name role1))]
                     @ (if affected \<noteq> [] then [(''affected_user_ids'', PList (map PStr affected))] else []))]))))"

definition delete_role :: "db \<Rightarrow> ident \<Rightarrow> ident \<Rightarrow> unit outcome" where
  "delete_role d actor i = gated ''manage_roles'' d actor
     (case res_bind (editable_role d i ''System roles can't be deleted'') (\<lambda>role.
         let assigned = count_where (\<lambda>a. ra_role_id a = i) (db_assignments d) in
         res_bind (ensure (assigned = 0) 409
           (''Role is assigned to '' @ nat_str assigned @ '' user(s); unassign before deleting''))
           (\<lambda>_. Inr role)) of
        Inl e \<Rightarrow> (Inl e, d, [])
      | Inr role \<Rightarrow>
          (Inr (), d\<lparr>db_roles := delete_where (\<lambda>r. ro_id r = i) (db_roles d)\<rparr>,
           [Event ''role.deleted''
              [(''user_id'', PStr actor), (''role_id'', PStr i), (''name'', PStr (ro_name role))]]))"

section \<open>Assignments\<close>

record assignment_create =
  an_email :: "string option"
  an_user_id :: "ident option"
  an_role_id :: ident
  an_competition_id :: "ident option"

text \<open>
  \<open>AssignmentOut\<close>: the assignment, its user, role and competition. The rows are ordered by role
  name and e-mail, an account without one first.
\<close>

type_synonym assignment_out = "role_assignment \<times> user \<times> role \<times> competition option"

definition list_assignments ::
  "db \<Rightarrow> ident \<Rightarrow> ident option \<Rightarrow> ident option \<Rightarrow> assignment_out list outcome" where
  "list_assignments d actor role_id competition_id = gated ''manage_roles'' d actor
     (Inr (sort_key (\<lambda>(a, u, r, c). (ro_name r, case us_email u of None \<Rightarrow> [] | Some e \<Rightarrow> [e]))
        [(a, u, r, Option.bind (ra_competition_id a) (get_competition d)).
           a \<leftarrow> db_assignments d, u \<leftarrow> db_users d, r \<leftarrow> db_roles d,
           us_id u = ra_user_id a \<and> ro_id r = ra_role_id a
           \<and> (case ra_competition_id a of
                None \<Rightarrow> True
              | Some i \<Rightarrow> (case get_competition d i of
                    None \<Rightarrow> False | Some c \<Rightarrow> visible_competitions_clause d actor c))
           \<and> (role_id = None \<or> Some (ra_role_id a) = role_id)
           \<and> (competition_id = None \<or> ra_competition_id a = competition_id)]), d, [])"

text \<open>Assignment scope must match the role's: the competition it goes to, \<open>None\<close> for site-wide.\<close>

definition assignment_scope ::
  "db \<Rightarrow> ident \<Rightarrow> role \<Rightarrow> ident option \<Rightarrow> competition option res" where
  "assignment_scope d actor role target =
     (if ro_scope role = Global_Scope
      then res_bind (ensure (target = None) 400
             ''A global role is assigned site-wide, not to a competition'') (\<lambda>_. Inr None)
      else (case target of
              None \<Rightarrow> Inl (HTTPException 400 ''A competition-scoped role needs a competition'')
            | Some cid \<Rightarrow>
                (case get_visible_competition d cid actor of
                   None \<Rightarrow> Inl (HTTPException 404 ''Competition not found'')
                 | Some c \<Rightarrow> Inr (Some c))))"

definition checked_assignment ::
  "db \<Rightarrow> ident \<Rightarrow> assignment_create \<Rightarrow> (user \<times> role \<times> competition option) res" where
  "checked_assignment d actor b =
     (case (case an_user_id b of
              Some i \<Rightarrow> get_user d i
            | None \<Rightarrow> find_by_identifier d (coalesce (an_email b) '''')) of
        None \<Rightarrow> Inl (HTTPException 404 ''No user with that email or username'')
      | Some user \<Rightarrow>
          (case get_role d (an_role_id b) of
             None \<Rightarrow> Inl (HTTPException 404 ''Role not found'')
           | Some role \<Rightarrow>
               res_bind (assert_may_grant d actor (ro_permissions role) []) (\<lambda>_.
               res_bind (assignment_scope d actor role (an_competition_id b)) (\<lambda>c.
               res_bind (ensure (\<not> exists_where (\<lambda>a. ra_user_id a = us_id user
                    \<and> ra_competition_id a = an_competition_id b \<and> ra_role_id a = ro_id role)
                    (db_assignments d)) 409 ''That user already holds this role in this scope'') (\<lambda>_.
               Inr (user, role, c))))))"

definition assign_role ::
  "ident \<Rightarrow> db \<Rightarrow> ident \<Rightarrow> assignment_create \<Rightarrow> assignment_out outcome" where
  "assign_role new_id d actor b = gated ''manage_roles'' d actor
     (case checked_assignment d actor b of
        Inl e \<Rightarrow> (Inl e, d, [])
      | Inr (user, role, c) \<Rightarrow>
          (let a = \<lparr>ra_id = new_id, ra_user_id = us_id user, ra_competition_id = an_competition_id b,
                 ra_role_id = ro_id role\<rparr>
           in (Inr (a, user, role, c), d\<lparr>db_assignments := db_assignments d @ [a]\<rparr>,
               [Event ''role.assigned''
                  [(''user_id'', PStr actor), (''subject_user_id'', PStr (us_id user)),
                   (''role_id'', PStr (ro_id role)), (''role_name'', PStr (ro_name role)),
                   (''competition_id'', pstr (an_competition_id b))]])))"

definition get_assignment :: "db \<Rightarrow> ident \<Rightarrow> role_assignment option" where
  "get_assignment d i = find (\<lambda>a. ra_id a = i) (db_assignments d)"

text \<open>What unassigning checks once the assignment is found; a role that is gone is not checked.\<close>

definition checked_unassign :: "db \<Rightarrow> ident \<Rightarrow> role_assignment \<Rightarrow> unit res" where
  "checked_unassign d actor a =
     (case get_role d (ra_role_id a) of
        None \<Rightarrow> Inr ()
      | Some role \<Rightarrow>
          res_bind (assert_may_revoke d actor (set (ro_permissions role))) (\<lambda>_.
          ensure (\<not> (ro_name role = ADMINISTRATOR_ROLE_NAME \<and> ro_is_system role
                     \<and> ra_competition_id a = None
                     \<and> active_global_admin_count d (Some (ra_user_id a)) = 0)) 409
            ''Can't remove the last administrator''))"

definition unassign_role :: "db \<Rightarrow> ident \<Rightarrow> ident \<Rightarrow> unit outcome" where
  "unassign_role d actor i = gated ''manage_roles'' d actor
     (case get_assignment d i of
        None \<Rightarrow> raise d 404 ''Assignment not found''
      | Some a \<Rightarrow>
          if (case ra_competition_id a of
                None \<Rightarrow> False | Some cid \<Rightarrow> get_visible_competition d cid actor = None)
          then raise d 404 ''Assignment not found''
          else (case checked_unassign d actor a of
                  Inl e \<Rightarrow> (Inl e, d, [])
                | Inr _ \<Rightarrow>
                    (Inr (), d\<lparr>db_assignments := delete_where (\<lambda>x. ra_id x = i) (db_assignments d)\<rparr>,
                     [Event ''role.unassigned''
                        [(''user_id'', PStr actor), (''subject_user_id'', PStr (ra_user_id a)),
                         (''role_id'', PStr (ra_role_id a)),
                         (''competition_id'', pstr (ra_competition_id a))]])))"

end
