(* ===== verification/User_Admin.thy ===== *)
theory User_Admin
  imports Roles
begin

text \<open>
  Account administration (\<open>routers/users.py\<close>, \<open>utils/api_tokens.py\<close>): create, edit, ban, restore
  and delete an account. Reads are gated on \<open>view_all_users\<close>, writes on \<open>manage_users\<close>. The password
  hash is a parameter. The CSV import is not modelled.
\<close>

section \<open>Helpers\<close>

definition admin_user_ids :: "db \<Rightarrow> ident set" where
  "admin_user_ids d = set [ra_user_id a. a \<leftarrow> db_assignments d, r \<leftarrow> db_roles d,
     ro_id r = ra_role_id a \<and> ro_name r = ADMINISTRATOR_ROLE_NAME]"

definition get_user_or_404 :: "db \<Rightarrow> ident \<Rightarrow> user res" where
  "get_user_or_404 d i =
     (case get_user d i of None \<Rightarrow> Inl (HTTPException 404 ''User not found'') | Some u \<Rightarrow> Inr u)"

definition live_session_of :: "ident \<Rightarrow> refresh_session \<Rightarrow> bool" where
  "live_session_of u s = (rs_user_id s = u \<and> rs_revoked_at s = None)"

definition revoke_sessions :: "time \<Rightarrow> ident \<Rightarrow> db \<Rightarrow> db" where
  "revoke_sessions now u d = d\<lparr>db_sessions :=
     update_where (live_session_of u) (\<lambda>s. s\<lparr>rs_revoked_at := Some now\<rparr>) (db_sessions d)\<rparr>"

definition live_token_of :: "ident \<Rightarrow> api_token \<Rightarrow> bool" where
  "live_token_of u t = (at_user_id t = u \<and> at_revoked_at t = None)"

definition revoke_user_api_tokens :: "time \<Rightarrow> ident \<Rightarrow> db \<Rightarrow> ident list \<times> db" where
  "revoke_user_api_tokens now u d =
     (map at_id (filter (live_token_of u) (db_api_tokens d)),
      d\<lparr>db_api_tokens :=
        update_where (live_token_of u) (\<lambda>t. t\<lparr>at_revoked_at := Some now\<rparr>) (db_api_tokens d)\<rparr>)"

definition emit_revoked :: "ident list \<Rightarrow> ident \<Rightarrow> ident \<Rightarrow> event list" where
  "emit_revoked ids u actor = map (\<lambda>i. Event ''api_token.revoked''
     [(''api_token_id'', PStr i), (''user_id'', PStr u), (''actor_user_id'', PStr actor)]) ids"

definition guard_not_last_admin :: "db \<Rightarrow> ident \<Rightarrow> string \<Rightarrow> unit res" where
  "guard_not_last_admin d target action =
     (if target \<notin> admin_user_ids d then Inr ()
      else ensure (exists_where (\<lambda>u. us_id u \<in> admin_user_ids d \<and> us_id u \<noteq> target \<and> us_is_active u)
             (db_users d)) 409 (''Can't '' @ action @ '' the last administrator''))"

definition vouched_at :: "time \<Rightarrow> db \<Rightarrow> ident \<Rightarrow> time option" where
  "vouched_at now d actor = (if holds_every_permission d actor then Some now else None)"

definition put_user :: "user \<Rightarrow> db \<Rightarrow> db" where
  "put_user u d = d\<lparr>db_users := update_where (\<lambda>x. us_id x = us_id u) (\<lambda>_. u) (db_users d)\<rparr>"

definition account_event :: "string \<Rightarrow> ident \<Rightarrow> ident \<Rightarrow> event" where
  "account_event name u actor = Event name [(''user_id'', PStr u), (''actor_user_id'', PStr actor)]"

section \<open>Creating and editing\<close>

record user_create =
  uc_display_name :: string
  uc_password :: string
  uc_email :: "string option"

definition create_user ::
  "(string \<Rightarrow> string) \<Rightarrow> ident \<Rightarrow> time \<Rightarrow> db \<Rightarrow> ident \<Rightarrow> user_create \<Rightarrow> user outcome" where
  "create_user hash_password new_id now d actor b = gated ''manage_users'' d actor
     (if display_name_taken d (uc_display_name b) None
      then raise d 409 ''That display name is already taken''
      else if (case uc_email b of None \<Rightarrow> False | Some e \<Rightarrow> email_taken d e None)
      then raise d 409 ''Email already registered''
      else (let u = \<lparr>us_id = new_id, us_email = uc_email b,
                 us_password_hash = hash_password (uc_password b),
                 us_display_name = uc_display_name b, us_is_active = True,
                 us_email_verified_at = vouched_at now d actor,
                 us_username_changed_at = None, us_created_at = now\<rparr>
            in (Inr u, d\<lparr>db_users := db_users d @ [u]\<rparr>,
                [Event ''user.created'' [(''user_id'', PStr new_id), (''email'', pstr (uc_email b)),
                   (''actor_user_id'', PStr actor)]])))"

record user_update =
  uu_display_name :: "string option"
  uu_email :: "string option"
  uu_password :: "string option"

definition drop_mail_tokens :: "ident \<Rightarrow> db \<Rightarrow> db" where
  "drop_mail_tokens u d = d\<lparr>
     db_verification_tokens := delete_where (\<lambda>t. mt_user_id t = u) (db_verification_tokens d),
     db_reset_tokens := delete_where (\<lambda>t. mt_user_id t = u) (db_reset_tokens d)\<rparr>"

text \<open>
  The e-mail part of an edit. A new address takes the editor's word for it or none and kills the
  links mailed to the old one; a change of letter case alone keeps both.
\<close>

definition update_user_email ::
  "time \<Rightarrow> db \<Rightarrow> ident \<Rightarrow> user_update \<Rightarrow> user \<Rightarrow> (user \<times> db) res" where
  "update_user_email now d actor b u =
     (case uu_email b of
        None \<Rightarrow> Inr (u, d)
      | Some e \<Rightarrow>
          if Some e = us_email u then Inr (u, d)
          else res_bind (ensure (\<not> email_taken d e (Some (us_id u))) 409 ''Email already registered'') (\<lambda>_.
            if lower (coalesce (us_email u) '''') \<noteq> lower e
            then Inr (u\<lparr>us_email := Some e, us_email_verified_at := vouched_at now d actor\<rparr>,
                      drop_mail_tokens (us_id u) d)
            else Inr (u\<lparr>us_email := Some e\<rparr>, d)))"

definition update_user_name :: "time \<Rightarrow> db \<Rightarrow> user_update \<Rightarrow> user \<Rightarrow> (user \<times> string option) res" where
  "update_user_name now d b u =
     (case uu_display_name b of
        None \<Rightarrow> Inr (u, None)
      | Some n \<Rightarrow>
          if n = us_display_name u then Inr (u, None)
          else res_bind (ensure (\<not> display_name_taken d n (Some (us_id u))) 409
                 ''That display name is already taken'') (\<lambda>_.
            Inr (u\<lparr>us_display_name := n, us_username_changed_at := Some now\<rparr>, Some (us_display_name u))))"

definition checked_user_update ::
  "time \<Rightarrow> db \<Rightarrow> ident \<Rightarrow> ident \<Rightarrow> user_update \<Rightarrow> (user \<times> string option \<times> db) res" where
  "checked_user_update now d actor i b =
     res_bind (get_user_or_404 d i) (\<lambda>u.
     res_bind (assert_may_manage_account d actor i) (\<lambda>_.
     res_bind (update_user_email now d actor b u) (\<lambda>(u1, d1).
     res_bind (update_user_name now d1 b u1) (\<lambda>(u2, renamed). Inr (u2, renamed, d1)))))"

definition update_user ::
  "(string \<Rightarrow> string) \<Rightarrow> time \<Rightarrow> db \<Rightarrow> ident \<Rightarrow> ident \<Rightarrow> user_update \<Rightarrow> user outcome" where
  "update_user hash_password now d actor i b = gated ''manage_users'' d actor
     (case checked_user_update now d actor i b of
        Inl e \<Rightarrow> (Inl e, d, [])
      | Inr (u, renamed, d1) \<Rightarrow>
          (let (u1, revoked, d2) = (case uu_password b of
                 None \<Rightarrow> (u, [], d1)
               | Some p \<Rightarrow> (let (ids, d') = revoke_user_api_tokens now i (revoke_sessions now i d1)
                           in (u\<lparr>us_password_hash := hash_password p\<rparr>, ids, d')))
           in (Inr u1, put_user u1 d2,
               [account_event ''user.updated'' i actor]
               @ (case renamed of None \<Rightarrow> []
                  | Some old \<Rightarrow> [Event ''user.renamed'' [(''user_id'', PStr i), (''old_name'', PStr old),
                      (''new_name'', PStr (us_display_name u1)), (''actor_user_id'', PStr actor)]])
               @ emit_revoked revoked i actor)))"

section \<open>Banning and restoring\<close>

definition ban_user :: "time \<Rightarrow> db \<Rightarrow> ident \<Rightarrow> ident \<Rightarrow> user outcome" where
  "ban_user now d actor i = gated ''manage_users'' d actor
     (case res_bind (get_user_or_404 d i) (\<lambda>u.
         res_bind (assert_may_manage_account d actor i) (\<lambda>_.
         res_bind (ensure (i \<noteq> actor) 409 ''You can't ban yourself'') (\<lambda>_.
         res_bind (guard_not_last_admin d i ''ban'') (\<lambda>_. Inr u)))) of
        Inl e \<Rightarrow> (Inl e, d, [])
      | Inr u \<Rightarrow>
          (let u1 = u\<lparr>us_is_active := False\<rparr>;
               (ids, d1) = revoke_user_api_tokens now i (revoke_sessions now i (put_user u1 d))
           in (Inr u1, d1, account_event ''user.banned'' i actor # emit_revoked ids i actor)))"

definition unban_user :: "db \<Rightarrow> ident \<Rightarrow> ident \<Rightarrow> user outcome" where
  "unban_user d actor i = gated ''manage_users'' d actor
     (case res_bind (get_user_or_404 d i) (\<lambda>u.
         res_bind (assert_may_manage_account d actor i) (\<lambda>_. Inr u)) of
        Inl e \<Rightarrow> (Inl e, d, [])
      | Inr u \<Rightarrow> (let u1 = u\<lparr>us_is_active := True\<rparr> in
          (Inr u1, put_user u1 d, [account_event ''user.unbanned'' i actor])))"

section \<open>Deleting\<close>

text \<open>
  The rows that go with an account (\<open>ON DELETE CASCADE\<close>), and the references that become NULL
  (\<open>ON DELETE SET NULL\<close>).
\<close>

definition unless_is :: "ident \<Rightarrow> ident option \<Rightarrow> ident option" where
  "unless_is i x = (if x = Some i then None else x)"

definition cascade_user :: "ident \<Rightarrow> db \<Rightarrow> db" where
  "cascade_user i d =
     (let gone_submissions = map su_id (filter (\<lambda>r. su_user_id r = i) (db_submissions d));
          gone_code = map cs_id (filter (\<lambda>r. cs_user_id r = i) (db_code_submissions d));
          gone_judging = (\<lambda>j. ju_user_id j = i \<or> ju_code_submission_id j \<in> set gone_code);
          unlink = (\<lambda>x. case x of None \<Rightarrow> None | Some s \<Rightarrow> if s \<in> set gone_submissions then None else Some s)
      in d\<lparr>
     db_users := delete_where (\<lambda>r. us_id r = i) (db_users d),
     db_assignments := delete_where (\<lambda>r. ra_user_id r = i) (db_assignments d),
     db_api_tokens := delete_where (\<lambda>r. at_user_id r = i) (db_api_tokens d),
     db_sessions := delete_where (\<lambda>r. rs_user_id r = i) (db_sessions d),
     db_verification_tokens := delete_where (\<lambda>r. mt_user_id r = i) (db_verification_tokens d),
     db_reset_tokens := delete_where (\<lambda>r. mt_user_id r = i) (db_reset_tokens d),
     db_rules_acceptances := delete_where (\<lambda>r. rx_user_id r = i) (db_rules_acceptances d),
     db_memberships := delete_where (\<lambda>r. tm_user_id r = i) (db_memberships d),
     db_applications := delete_where (\<lambda>r. ta_user_id r = i) (db_applications d),
     db_submissions := delete_where (\<lambda>r. su_user_id r = i) (db_submissions d),
     db_guess_resets := map (\<lambda>r. r\<lparr>gr_reset_by := unless_is i (gr_reset_by r)\<rparr>)
       (delete_where (\<lambda>r. gr_user_id r = Some i) (db_guess_resets d)),
     db_hint_reveals := delete_where (\<lambda>r. hr_user_id r = i) (db_hint_reveals d),
     db_adjustments := delete_where (\<lambda>r. sa_user_id r = Some i) (db_adjustments d),
     db_achievements := map (\<lambda>r. r\<lparr>ac_awarded_by_user_id := unless_is i (ac_awarded_by_user_id r)\<rparr>)
       (delete_where (\<lambda>r. ac_user_id r = Some i) (db_achievements d)),
     db_invite_links := map (\<lambda>r. r\<lparr>il_created_by := unless_is i (il_created_by r)\<rparr>) (db_invite_links d),
     db_ratings := delete_where (\<lambda>r. cr_user_id r = i) (db_ratings d),
     db_instances := delete_where (\<lambda>r. ci_user_id r = i) (db_instances d),
     db_code_submissions := map (\<lambda>r. r\<lparr>cs_submission_id := unlink (cs_submission_id r)\<rparr>)
       (delete_where (\<lambda>r. cs_user_id r = i) (db_code_submissions d)),
     db_judgings := map (\<lambda>r. r\<lparr>ju_requested_by_user_id := unless_is i (ju_requested_by_user_id r),
                               ju_submission_id := unlink (ju_submission_id r)\<rparr>)
       (delete_where gone_judging (db_judgings d)),
     db_judging_runs := delete_where
       (\<lambda>r. list_ex (\<lambda>j. ju_id j = jr_judging_id r \<and> gone_judging j) (db_judgings d)) (db_judging_runs d)\<rparr>)"

text \<open>The result carries the object keys deleted from the store.\<close>

definition delete_user :: "db \<Rightarrow> ident \<Rightarrow> ident \<Rightarrow> string list outcome" where
  "delete_user d actor i = gated ''manage_users'' d actor
     (case res_bind (get_user_or_404 d i) (\<lambda>u.
         res_bind (assert_may_manage_account d actor i) (\<lambda>_.
         res_bind (ensure (i \<noteq> actor) 409 ''You can't delete yourself'') (\<lambda>_.
         guard_not_last_admin d i ''delete''))) of
        Inl e \<Rightarrow> (Inl e, d, [])
      | Inr _ \<Rightarrow>
          (Inr (map cs_source_object_key (filter (\<lambda>c. cs_user_id c = i) (db_code_submissions d))),
           cascade_user i d, [account_event ''user.deleted'' i actor]))"

section \<open>The directory\<close>

text \<open>Accounts whose e-mail or name contains the text searched for; LIKE's wildcards in it are not modelled.\<close>

definition like_contains :: "string \<Rightarrow> string \<Rightarrow> bool" where
  "like_contains needle s = sublist needle (lower s)"

definition list_users :: "db \<Rightarrow> ident \<Rightarrow> string option \<Rightarrow> (user \<times> bool) list outcome" where
  "list_users d actor q = gated ''view_all_users'' d actor
     (let rows = sort_key us_created_at (db_users d);
          needle = lower (strip (coalesce q ''''));
          rows1 = (if coalesce q '''' = [] then rows
                   else filter (\<lambda>u. (case us_email u of None \<Rightarrow> False | Some e \<Rightarrow> like_contains needle e)
                                    \<or> like_contains needle (us_display_name u)) rows)
      in (Inr (map (\<lambda>u. (u, us_id u \<in> admin_user_ids d)) rows1), d, []))"

end
