(* ===== verification/Delegation.thy ===== *)
theory Delegation
  imports User_Admin
begin

text \<open>
  What a delegate of role or account management can and cannot do. Any sequence of calls of the
  routes of \<open>Roles\<close> and \<open>User_Admin\<close>, by any group of users, moves only permissions that some member
  of the group held site-wide at the start; and it never leaves the platform without an active
  administrator.
\<close>

section \<open>What the checks let through\<close>

lemma assert_may_grant_iff:
  "assert_may_grant d actor ks granted = Inr x \<longleftrightarrow>
     (\<forall>k\<in>set ks. k \<notin> set granted \<longrightarrow> k \<in> set (global_set d actor))"
  by (auto simp: assert_may_grant_def Let_def)

lemma assert_may_revoke_iff:
  assumes "finite ks"
  shows "assert_may_revoke d actor ks = Inr x \<longleftrightarrow>
     (\<forall>k\<in>ks. is_known k \<longrightarrow> k \<in> set (global_set d actor))"
  using assms by (auto simp: assert_may_revoke_def Let_def)

lemma assert_may_manage_iff:
  "assert_may_manage_account d actor i = Inr x \<longleftrightarrow>
     actor = i \<or> privileged_permissions d i \<subseteq> set (global_set d actor)"
  by (simp add: assert_may_manage_account_def)

lemma gated_cases:
  assumes "gated k d u handler = (r, d', ev)"
  shows "d' = d \<or> handler = (r, d', ev)"
  using assms by (auto simp: gated_def split: if_splits)

section \<open>What each route changes\<close>

lemma create_role_effect:
  assumes "create_role i d actor b = (r, d', ev)"
  shows "d' = d \<or> (\<exists>role. d' = d\<lparr>db_roles := db_roles d @ [role]\<rparr> \<and> ro_id role = i
     \<and> \<not> ro_is_system role \<and> \<not> name_taken d (ro_name role) None
     \<and> set (ro_permissions role) \<subseteq> set (global_set d actor))"
proof (cases "user_has_permission d actor ''manage_roles'' None \<and> is_ok (checked_role d actor b)")
  case True
  then obtain sc ks where checked: "checked_role d actor b = Inr (sc, ks)"
    by (cases "checked_role d actor b") auto
  let ?role = "\<lparr>ro_id = i, ro_name = rc_name b, ro_description = rc_description b,
    ro_is_system = False, ro_scope = sc, ro_permissions = ks\<rparr>"
  have "d' = d\<lparr>db_roles := db_roles d @ [?role]\<rparr>"
    using assms True checked by (simp add: create_role_def gated_def Let_def)
  moreover have "\<not> name_taken d (rc_name b) None" "set ks \<subseteq> set (global_set d actor)"
    using checked by (auto simp: checked_role_def res_bind_Inr_iff assert_may_grant_iff)
  ultimately show ?thesis by (intro disjI2 exI [of _ ?role]) simp
next
  case False
  then show ?thesis
    using assms by (cases "checked_role d actor b") (auto simp: create_role_def gated_def split: if_splits)
qed

lemma checked_role_update_effect:
  assumes "checked_role_update d actor b role = Inr role1"
  shows "ro_id role1 = ro_id role \<and> ro_scope role1 = ro_scope role
     \<and> ro_is_system role1 = ro_is_system role
     \<and> (ro_name role1 = ro_name role \<or> \<not> name_taken d (ro_name role1) (Some (ro_id role)))
     \<and> set (ro_permissions role1) - set (ro_permissions role) \<subseteq> set (global_set d actor)
     \<and> {k \<in> set (ro_permissions role) - set (ro_permissions role1). is_known k} \<subseteq> set (global_set d actor)"
  using assms unfolding checked_role_update_def
  by (auto simp: res_bind_Inr_iff assert_may_grant_iff assert_may_revoke_iff Let_def
      split: option.splits if_splits) (blast+)

lemma get_role_SomeD: "get_role d i = Some r \<Longrightarrow> r \<in> set (db_roles d) \<and> ro_id r = i"
  by (auto simp: get_role_def dest: find_Some_in)

lemma update_role_effect:
  assumes "update_role d actor i b = (r, d', ev)"
  shows "d' = d \<or> (\<exists>role role1. role \<in> set (db_roles d) \<and> ro_id role = i \<and> \<not> ro_is_system role
     \<and> d' = put_role role1 d \<and> checked_role_update d actor b role = Inr role1)"
proof -
  have "d' = d \<or> (\<exists>role role1. editable_role d i
      ''System roles are read-only - clone to customize (7.3)'' = Inr role
      \<and> d' = put_role role1 d \<and> checked_role_update d actor b role = Inr role1)"
    using assms unfolding update_role_def gated_def Let_def by (auto split: if_splits sum.splits)
  then show ?thesis
    by (auto simp: editable_role_def split: option.splits dest!: get_role_SomeD simp: res_bind_Inr_iff)
qed

lemma delete_role_effect:
  assumes "delete_role d actor i = (r, d', ev)"
  shows "d' = d \<or> (\<exists>role. role \<in> set (db_roles d) \<and> ro_id role = i \<and> \<not> ro_is_system role
     \<and> (\<forall>a\<in>set (db_assignments d). ra_role_id a \<noteq> i)
     \<and> d' = d\<lparr>db_roles := delete_where (\<lambda>r. ro_id r = i) (db_roles d)\<rparr>)"
  using assms unfolding delete_role_def
  by (auto simp: gated_def editable_role_def res_bind_Inr_iff Let_def count_where_0_iff
      dest!: get_role_SomeD split: if_splits sum.splits option.splits)

lemma assign_role_effect:
  assumes "assign_role i d actor b = (r, d', ev)"
  shows "d' = d \<or> (\<exists>role a u. role \<in> set (db_roles d) \<and> u \<in> set (db_users d)
     \<and> a = \<lparr>ra_id = i, ra_user_id = us_id u, ra_competition_id = an_competition_id b, ra_role_id = ro_id role\<rparr>
     \<and> (ro_scope role = Global_Scope \<longleftrightarrow> ra_competition_id a = None)
     \<and> set (ro_permissions role) \<subseteq> set (global_set d actor)
     \<and> d' = d\<lparr>db_assignments := db_assignments d @ [a]\<rparr>)"
  using assms unfolding assign_role_def
  by (auto simp: gated_def checked_assignment_def assignment_scope_def res_bind_Inr_iff Let_def
      assert_may_grant_iff find_by_identifier_def dest!: get_role_SomeD get_user_SomeD find_Some_in
      split: if_splits sum.splits option.splits)

lemma unassign_role_effect:
  assumes "unassign_role d actor i = (r, d', ev)"
  shows "d' = d \<or> (\<exists>a. a \<in> set (db_assignments d) \<and> ra_id a = i \<and> checked_unassign d actor a = Inr ()
     \<and> d' = d\<lparr>db_assignments := delete_where (\<lambda>x. ra_id x = i) (db_assignments d)\<rparr>)"
  using assms unfolding unassign_role_def
  by (auto simp: gated_def raise_def get_assignment_def dest!: find_Some_in
      split: if_splits sum.splits option.splits)

text \<open>Account routes leave roles alone, and only deleting an account touches assignments.\<close>

definition same_access :: "db \<Rightarrow> db \<Rightarrow> bool" where
  "same_access d d' = (db_roles d' = db_roles d \<and> db_assignments d' = db_assignments d)"

lemma same_access_simps [simp]:
  "same_access d d" "same_access d (put_user v d') = same_access d d'"
  "same_access d (revoke_sessions now u d') = same_access d d'"
  "same_access d (snd (revoke_user_api_tokens now u d')) = same_access d d'"
  "same_access d (drop_mail_tokens u d') = same_access d d'"
  by (simp_all add: same_access_def put_user_def revoke_sessions_def revoke_user_api_tokens_def
      drop_mail_tokens_def)

text \<open>One account may have changed, in every column but its id; the others are as before.\<close>

definition only_account :: "ident \<Rightarrow> db \<Rightarrow> db \<Rightarrow> bool" where
  "only_account i d d' = (\<exists>u. us_id u = i \<and> db_users d' = update_where (\<lambda>x. us_id x = i) (\<lambda>_. u) (db_users d))"

lemma only_account_put: "us_id u = i \<Longrightarrow> db_users d' = db_users d \<Longrightarrow> only_account i d (put_user u d')"
  by (auto simp: only_account_def put_user_def)

lemma db_users_simps [simp]:
  "db_users (revoke_sessions now u d) = db_users d"
  "db_users (snd (revoke_user_api_tokens now u d)) = db_users d"
  "db_users (drop_mail_tokens u d) = db_users d"
  by (simp_all add: revoke_sessions_def revoke_user_api_tokens_def drop_mail_tokens_def)

lemma create_user_effect:
  assumes "create_user hp i now d actor b = (r, d', ev)"
  shows "d' = d \<or> (same_access d d' \<and> (\<exists>u. us_id u = i \<and> us_is_active u \<and> db_users d' = db_users d @ [u]))"
  using assms unfolding create_user_def gated_def Let_def raise_def
  by (auto simp: same_access_def split: if_splits)

lemma update_user_email_effect:
  assumes "update_user_email now d actor b u = Inr (u1, d1)"
  shows "us_id u1 = us_id u \<and> us_is_active u1 = us_is_active u \<and> same_access d d1 \<and> db_users d1 = db_users d"
  using assms unfolding update_user_email_def
  by (auto simp: res_bind_Inr_iff split: option.splits if_splits)

lemma update_user_name_effect:
  assumes "update_user_name now d b u = Inr (u1, x)"
  shows "us_id u1 = us_id u \<and> us_is_active u1 = us_is_active u"
  using assms unfolding update_user_name_def
  by (auto simp: res_bind_Inr_iff split: option.splits if_splits)

lemma checked_user_update_effect:
  assumes "checked_user_update now d actor i b = Inr (u2, renamed, d1)"
  shows "\<exists>u. get_user d i = Some u \<and> us_id u2 = i \<and> us_is_active u2 = us_is_active u
     \<and> same_access d d1 \<and> db_users d1 = db_users d \<and> assert_may_manage_account d actor i = Inr ()"
proof -
  obtain u u1 where u: "get_user_or_404 d i = Inr u" and m: "assert_may_manage_account d actor i = Inr ()"
    and e: "update_user_email now d actor b u = Inr (u1, d1)"
    and n: "update_user_name now d1 b u1 = Inr (u2, renamed)"
    using assms unfolding checked_user_update_def by (auto simp: res_bind_Inr_iff)
  have "get_user d i = Some u" using u by (auto simp: get_user_or_404_def split: option.splits)
  then show ?thesis
    using update_user_email_effect [OF e] update_user_name_effect [OF n] m get_user_SomeD by auto
qed

lemma revoke_pair:
  "revoke_user_api_tokens now u d = (ids, d') \<Longrightarrow> d' = snd (revoke_user_api_tokens now u d)"
  by simp

lemma update_user_effect:
  assumes "update_user hp now d actor i b = (r, d', ev)"
  shows "d' = d \<or> (same_access d d' \<and> assert_may_manage_account d actor i = Inr ()
     \<and> (\<exists>u u'. get_user d i = Some u \<and> us_id u' = i \<and> us_is_active u' = us_is_active u
          \<and> db_users d' = update_where (\<lambda>x. us_id x = i) (\<lambda>_. u') (db_users d)))"
proof (cases "checked_user_update now d actor i b")
  case (Inl e)
  then show ?thesis using assms by (auto simp: update_user_def gated_def split: if_splits)
next
  case (Inr x)
  obtain u renamed d1 where x: "x = (u, renamed, d1)" by (cases x) auto
  note eff = checked_user_update_effect [OF Inr [unfolded x]]
  show ?thesis
  proof (cases "user_has_permission d actor ''manage_users'' None")
    case True
    obtain u1 d2 where out: "d' = put_user u1 d2" and u1: "us_id u1 = us_id u" "us_is_active u1 = us_is_active u"
      and d2: "same_access d d2" "db_users d2 = db_users d"
    proof (cases "uu_password b")
      case None
      have "d' = put_user u d1" using assms True Inr x None by (simp add: update_user_def gated_def Let_def)
      then show ?thesis using that eff by blast
    next
      case (Some p)
      let ?d2 = "snd (revoke_user_api_tokens now i (revoke_sessions now i d1))"
      have "d' = put_user (u\<lparr>us_password_hash := hp p\<rparr>) ?d2"
        using assms True Inr x Some by (auto simp: update_user_def gated_def Let_def split: prod.splits)
      then show ?thesis using that [of "u\<lparr>us_password_hash := hp p\<rparr>" ?d2] eff by auto
    qed
    then show ?thesis using eff u1 by (auto simp: put_user_def same_access_def)
  next
    case False
    then show ?thesis using assms by (auto simp: update_user_def gated_def)
  qed
qed

lemma ban_user_effect:
  assumes "ban_user now d actor i = (r, d', ev)"
  shows "d' = d \<or> (\<exists>u. get_user d i = Some u \<and> assert_may_manage_account d actor i = Inr ()
     \<and> guard_not_last_admin d i ''ban'' = Inr () \<and> same_access d d'
     \<and> db_users d' = update_where (\<lambda>x. us_id x = i) (\<lambda>_. u\<lparr>us_is_active := False\<rparr>) (db_users d))"
  using assms unfolding ban_user_def gated_def Let_def
  by (auto simp: res_bind_Inr_iff get_user_or_404_def put_user_def same_access_def
      revoke_user_api_tokens_def revoke_sessions_def dest: get_user_SomeD
      split: if_splits sum.splits option.splits)

lemma unban_user_effect:
  assumes "unban_user d actor i = (r, d', ev)"
  shows "d' = d \<or> (\<exists>u. get_user d i = Some u \<and> assert_may_manage_account d actor i = Inr ()
     \<and> same_access d d'
     \<and> db_users d' = update_where (\<lambda>x. us_id x = i) (\<lambda>_. u\<lparr>us_is_active := True\<rparr>) (db_users d))"
  using assms unfolding unban_user_def gated_def Let_def
  by (auto simp: res_bind_Inr_iff get_user_or_404_def put_user_def same_access_def
      dest: get_user_SomeD split: if_splits sum.splits option.splits)

lemma cascade_user_access [simp]:
  "db_roles (cascade_user i d) = db_roles d"
  "db_assignments (cascade_user i d) = delete_where (\<lambda>a. ra_user_id a = i) (db_assignments d)"
  "db_users (cascade_user i d) = delete_where (\<lambda>u. us_id u = i) (db_users d)"
  by (simp_all add: cascade_user_def Let_def)

lemma delete_user_effect:
  assumes "delete_user d actor i = (r, d', ev)"
  shows "d' = d \<or> (assert_may_manage_account d actor i = Inr () \<and> i \<noteq> actor
     \<and> guard_not_last_admin d i ''delete'' = Inr () \<and> d' = cascade_user i d)"
  using assms unfolding delete_user_def gated_def Let_def
  by (auto simp: res_bind_Inr_iff split: if_splits sum.splits)

section \<open>Runs\<close>

text \<open>
  One call of a route by an actor. Row ids are fresh; a call that is refused leaves the state alone
  and is a step too.
\<close>

inductive admin_step :: "(string \<Rightarrow> string) \<Rightarrow> ident \<Rightarrow> db \<Rightarrow> db \<Rightarrow> bool"
  for hp :: "string \<Rightarrow> string" and actor :: ident
where
  create_role: "i \<notin> ro_id ` set (db_roles d) \<Longrightarrow> create_role i d actor rc = (r, d', ev) \<Longrightarrow> admin_step hp actor d d'"
| update_role: "update_role d actor i ru = (r, d', ev) \<Longrightarrow> admin_step hp actor d d'"
| delete_role: "delete_role d actor i = (x, d', ev) \<Longrightarrow> admin_step hp actor d d'"
| assign_role: "i \<notin> ra_id ` set (db_assignments d) \<Longrightarrow> assign_role i d actor an = (y, d', ev)
    \<Longrightarrow> admin_step hp actor d d'"
| unassign_role: "unassign_role d actor i = (x, d', ev) \<Longrightarrow> admin_step hp actor d d'"
| create_user: "i \<notin> us_id ` set (db_users d) \<Longrightarrow> create_user hp i now d actor uc = (z, d', ev)
    \<Longrightarrow> admin_step hp actor d d'"
| update_user: "update_user hp now d actor i uu = (z, d', ev) \<Longrightarrow> admin_step hp actor d d'"
| ban_user: "ban_user now d actor i = (z, d', ev) \<Longrightarrow> admin_step hp actor d d'"
| unban_user: "unban_user d actor i = (z, d', ev) \<Longrightarrow> admin_step hp actor d d'"
| delete_user: "delete_user d actor i = (w, d', ev) \<Longrightarrow> admin_step hp actor d d'"

inductive admin_run :: "(string \<Rightarrow> string) \<Rightarrow> ident set \<Rightarrow> db \<Rightarrow> db \<Rightarrow> bool"
  for hp :: "string \<Rightarrow> string" and actors :: "ident set"
where
  start: "admin_run hp actors d d"
| step: "admin_run hp actors d d1 \<Longrightarrow> actor \<in> actors \<Longrightarrow> admin_step hp actor d1 d2 \<Longrightarrow> admin_run hp actors d d2"

text \<open>Primary keys are unique and assignments refer to rows that exist.\<close>

definition accounts_wf :: "db \<Rightarrow> bool" where
  "accounts_wf d = (distinct (map ro_id (db_roles d)) \<and> distinct (map us_id (db_users d))
     \<and> distinct (map ra_id (db_assignments d))
     \<and> (\<forall>a\<in>set (db_assignments d). ra_role_id a \<in> ro_id ` set (db_roles d)
          \<and> ra_user_id a \<in> us_id ` set (db_users d)))"

text \<open>
  What a step may do to roles, assignments and accounts, in one statement for all ten routes:
  \<open>actor\<close>'s site-wide set bounds what is conferred and what is taken away.
\<close>

definition known_beyond :: "string set \<Rightarrow> string set" where
  "known_beyond K = {k. is_known k \<and> k \<notin> K \<and> k \<notin> set PARTICIPANT_PERMISSIONS}"

definition contained_step :: "string set \<Rightarrow> ident set \<Rightarrow> db \<Rightarrow> db \<Rightarrow> bool" where
  "contained_step K U d d' =
     ((\<forall>v k c. k \<notin> K \<longrightarrow> user_has_permission d' v k c \<longrightarrow> user_has_permission d v k c)
      \<and> (\<forall>v k c. k \<in> known_beyond K \<longrightarrow> user_has_permission d v k c \<longrightarrow>
           user_has_permission d' v k c \<and> (v \<notin> U \<longrightarrow> get_user d' v = get_user d v)))"

lemma contained_refl: "contained_step K U d d"
  by (simp add: contained_step_def)

lemma contained_trans:
  "contained_step K U d d1 \<Longrightarrow> contained_step K U d1 d2 \<Longrightarrow> contained_step K U d d2"
  unfolding contained_step_def by metis

lemma contained_mono:
  assumes "contained_step G {actor} d d'" "G \<subseteq> K" "actor \<in> U"
  shows "contained_step K U d d'"
proof -
  have "known_beyond K \<subseteq> known_beyond G" using assms(2) by (auto simp: known_beyond_def)
  moreover have "v \<notin> {actor}" if "v \<notin> U" for v using assms(3) that by blast
  ultimately show ?thesis
    using assms(1,2) unfolding contained_step_def by (metis subsetD)
qed

lemma user_has_permission_confers_cong:
  assumes "same_access d d'"
  shows "user_has_permission d' = user_has_permission d"
  using assms by (intro user_has_permission_cong) (simp_all add: same_access_def)

lemma get_user_update_other:
  assumes "db_users d' = update_where (\<lambda>x. us_id x = i) (\<lambda>_. u) (db_users d)" "us_id u = i" "v \<noteq> i"
  shows "get_user d' v = get_user d v"
proof -
  have "find (\<lambda>r. us_id r = v) (update_where (\<lambda>x. us_id x = i) (\<lambda>_. u) us) = find (\<lambda>r. us_id r = v) us" for us
    using assms(2,3) by (induction us) auto
  then show ?thesis by (simp add: get_user_def assms(1))
qed

lemma get_user_append:
  assumes "v \<noteq> us_id u" "db_users d' = db_users d @ [u]"
  shows "get_user d' v = get_user d v"
proof -
  have "find (\<lambda>r. us_id r = v) (us @ [u]) = find (\<lambda>r. us_id r = v) us" for us
    using assms(1) by (induction us) auto
  then show ?thesis by (simp add: get_user_def assms(2))
qed

lemma get_user_delete_other:
  "db_users d' = delete_where (\<lambda>u. us_id u = i) (db_users d) \<Longrightarrow> v \<noteq> i \<Longrightarrow> get_user d' v = get_user d v"
proof -
  assume "v \<noteq> i"
  then have "find (\<lambda>r. us_id r = v) (delete_where (\<lambda>u. us_id u = i) us) = find (\<lambda>r. us_id r = v) us" for us
    by (induction us) (auto simp: delete_where_def)
  then show "db_users d' = delete_where (\<lambda>u. us_id u = i) (db_users d) \<Longrightarrow> ?thesis"
    by (simp add: get_user_def)
qed

text \<open>An account holding privilege beyond the actor's own cannot be the target of the account routes.\<close>

lemma managed_not_beyond:
  assumes "assert_may_manage_account d actor i = Inr ()" "i \<noteq> actor"
    and "k \<in> known_beyond (set (global_set d actor))"
  shows "\<not> user_has_permission d i k c"
proof
  assume has: "user_has_permission d i k c"
  have "k \<in> privileged_permissions d i"
    using has assms(3) unfolding privileged_permissions_iff known_beyond_def by (cases c) auto
  then show False
    using assms by (auto simp: assert_may_manage_iff known_beyond_def)
qed

section \<open>Roles and assignments under a step\<close>

lemma has_permission_user_exists:
  "accounts_wf d \<Longrightarrow> user_has_permission d v k c \<Longrightarrow> v \<in> us_id ` set (db_users d)"
  unfolding accounts_wf_def user_has_permission_iff by blast

text \<open>\<open>same_access\<close> steps: only the accounts matter.\<close>

lemma contained_accounts:
  assumes "same_access d d'"
    and "\<And>v k c. k \<in> known_beyond G \<Longrightarrow> user_has_permission d v k c \<Longrightarrow> v \<noteq> actor \<Longrightarrow>
           get_user d' v = get_user d v"
  shows "contained_step G {actor} d d'"
  using assms(2) by (simp add: contained_step_def user_has_permission_confers_cong [OF assms(1)])

lemma contained_roles:
  assumes "db_users d' = db_users d"
    and "\<And>v k c. k \<notin> G \<Longrightarrow> user_has_permission d' v k c \<Longrightarrow> user_has_permission d v k c"
    and "\<And>v k c. k \<in> known_beyond G \<Longrightarrow> user_has_permission d v k c \<Longrightarrow> user_has_permission d' v k c"
  shows "contained_step G {actor} d d'"
  using assms by (simp add: contained_step_def get_user_def)

lemma create_role_contained:
  assumes wf: "accounts_wf d" and i: "ro_id role = i" "i \<notin> ro_id ` set (db_roles d)"
  shows "contained_step G {actor} d (d\<lparr>db_roles := db_roles d @ [role]\<rparr>)"
proof -
  have "confers (db_roles d @ [role]) a k c = confers (db_roles d) a k c"
    if "a \<in> set (db_assignments d)" for a k c
  proof -
    have "ra_role_id a \<noteq> ro_id role" using wf i that unfolding accounts_wf_def by metis
    then show ?thesis by (auto simp: confers_def)
  qed
  then have "user_has_permission (d\<lparr>db_roles := db_roles d @ [role]\<rparr>) v k c = user_has_permission d v k c" for v k c
    unfolding user_has_permission_confers by auto
  then show ?thesis by (intro contained_roles) auto
qed

lemma delete_role_contained:
  assumes "\<forall>a\<in>set (db_assignments d). ra_role_id a \<noteq> i"
  shows "contained_step G {actor} d (d\<lparr>db_roles := delete_where (\<lambda>r. ro_id r = i) (db_roles d)\<rparr>)"
proof -
  have "user_has_permission (d\<lparr>db_roles := delete_where (\<lambda>r. ro_id r = i) (db_roles d)\<rparr>) v k c
      = user_has_permission d v k c" for v k c
    using assms unfolding user_has_permission_iff delete_where_def by auto
  then show ?thesis by (intro contained_roles) auto
qed

lemma put_role_contained:
  assumes wf: "accounts_wf d" and role: "role \<in> set (db_roles d)"
    and u: "checked_role_update d actor b role = Inr role1"
  shows "contained_step (set (global_set d actor)) {actor} d (put_role role1 d)"
proof -
  note eff = checked_role_update_effect [OF u]
  have same: "ro_id role1 = ro_id role" "ro_scope role1 = ro_scope role" using eff by auto
  have gain: "k \<in> set (global_set d actor)"
    if "k \<in> set (ro_permissions role1)" "k \<notin> set (ro_permissions role)" for k using eff that by blast
  have lose: "k \<in> set (global_set d actor)"
    if "k \<in> set (ro_permissions role)" "k \<notin> set (ro_permissions role1)" "is_known k" for k using eff that by blast
  have uniq: "r = role" if "r \<in> set (db_roles d)" "ro_id r = ro_id role" for r
    using wf role that unfolding accounts_wf_def by (metis (no_types) distinct_map inj_onD)
  have roles: "set (db_roles (put_role role1 d))
      = {r \<in> set (db_roles d). ro_id r \<noteq> ro_id role} \<union> {role1}"
    using role by (auto simp: put_role_def set_update_where same)
  have conf: "confers (db_roles (put_role role1 d)) a k c \<longleftrightarrow>
      (if ra_role_id a = ro_id role
       then k \<in> set (ro_permissions role1) \<and>
          (ra_competition_id a = None \<and> ro_scope role = Global_Scope
           \<or> ra_competition_id a \<noteq> None \<and> ra_competition_id a = c)
       else confers (db_roles d) a k c)" for a k c
  proof (cases "ra_role_id a = ro_id role")
    case True
    then have "confers (db_roles (put_role role1 d)) a k c \<longleftrightarrow> k \<in> set (ro_permissions role1) \<and>
          (ra_competition_id a = None \<and> ro_scope role1 = Global_Scope
           \<or> ra_competition_id a \<noteq> None \<and> ra_competition_id a = c)"
      unfolding confers_def roles by (auto simp: same(1))
    with True show ?thesis by (simp add: same(2))
  next
    case False
    then show ?thesis unfolding confers_def roles by (auto simp: same(1))
  qed
  have conf0: "confers (db_roles d) a k c \<longleftrightarrow> k \<in> set (ro_permissions role) \<and>
          (ra_competition_id a = None \<and> ro_scope role = Global_Scope
           \<or> ra_competition_id a \<noteq> None \<and> ra_competition_id a = c)" if "ra_role_id a = ro_id role" for a k c
    using role that by (auto simp: confers_def dest: uniq [OF _ sym])
  have assignments: "db_assignments (put_role role1 d) = db_assignments d"
    by (simp add: put_role_def)
  show ?thesis
  proof (rule contained_roles)
    show "db_users (put_role role1 d) = db_users d" by (simp add: put_role_def)
    fix v k c
    show "user_has_permission d v k c" if k: "k \<notin> set (global_set d actor)"
        and has: "user_has_permission (put_role role1 d) v k c"
    proof -
      obtain a where a: "a \<in> set (db_assignments d)" "ra_user_id a = v"
          "confers (db_roles (put_role role1 d)) a k c"
        using has unfolding user_has_permission_confers assignments by blast
      have "confers (db_roles d) a k c"
        using a(3) k gain [of k] conf [of a k c] conf0 [of a k c]
        by (cases "ra_role_id a = ro_id role") auto
      then show ?thesis using a unfolding user_has_permission_confers by blast
    qed
    show "user_has_permission (put_role role1 d) v k c"
      if k: "k \<in> known_beyond (set (global_set d actor))" and has: "user_has_permission d v k c"
    proof -
      obtain a where a: "a \<in> set (db_assignments d)" "ra_user_id a = v" "confers (db_roles d) a k c"
        using has unfolding user_has_permission_confers by blast
      have "confers (db_roles (put_role role1 d)) a k c"
        using a(3) k lose [of k] conf [of a k c] conf0 [of a k c]
        by (cases "ra_role_id a = ro_id role") (auto simp: known_beyond_def)
      then show ?thesis using a unfolding user_has_permission_confers assignments by blast
    qed
  qed
qed

lemma assign_contained:
  assumes wf: "accounts_wf d" and role: "role \<in> set (db_roles d)" "ra_role_id a = ro_id role"
    and g: "set (ro_permissions role) \<subseteq> G"
  shows "contained_step G {actor} d (d\<lparr>db_assignments := db_assignments d @ [a]\<rparr>)"
proof -
  have "k \<in> G" if c: "confers (db_roles d) a k c" for k c
  proof -
    obtain r where "r \<in> set (db_roles d)" "ra_role_id a = ro_id r" "k \<in> set (ro_permissions r)"
      using c by (auto simp: confers_def)
    moreover from this have "r = role"
      using wf role unfolding accounts_wf_def by (metis (no_types) distinct_map inj_onD)
    ultimately show ?thesis using g by auto
  qed
  then show ?thesis
    by (intro contained_roles) (auto simp: user_has_permission_confers)
qed

lemma unassign_contained:
  assumes wf: "accounts_wf d" and a: "a \<in> set (db_assignments d)"
    and ok: "checked_unassign d actor a = Inr ()"
  shows "contained_step (set (global_set d actor)) {actor} d
     (d\<lparr>db_assignments := delete_where (\<lambda>x. ra_id x = ra_id a) (db_assignments d)\<rparr>)"
proof -
  have uniq: "x = a" if "x \<in> set (db_assignments d)" "ra_id x = ra_id a" for x
    using wf a that unfolding accounts_wf_def by (metis (no_types) distinct_map inj_onD)
  have lost: "k \<in> set (global_set d actor)" if c: "confers (db_roles d) a k c" "is_known k" for k c
  proof -
    obtain r where r: "r \<in> set (db_roles d)" "ra_role_id a = ro_id r" "k \<in> set (ro_permissions r)"
      using c(1) by (auto simp: confers_def)
    obtain r' where r': "get_role d (ra_role_id a) = Some r'"
      using r find_None_all [of "\<lambda>x. ro_id x = ra_role_id a" "db_roles d" r]
      by (cases "get_role d (ra_role_id a)") (auto simp: get_role_def)
    then have "r' = r"
      using r get_role_SomeD [OF r'] wf unfolding accounts_wf_def
      by (metis (no_types) distinct_map inj_onD)
    then show ?thesis
      using ok r r' c(2) by (auto simp: checked_unassign_def res_bind_Inr_iff assert_may_revoke_iff)
  qed
  show ?thesis
  proof (rule contained_roles)
    fix v k c
    show "user_has_permission d v k c"
      if "user_has_permission (d\<lparr>db_assignments := delete_where (\<lambda>x. ra_id x = ra_id a) (db_assignments d)\<rparr>) v k c"
      using that by (auto simp: user_has_permission_confers delete_where_def)
    show "user_has_permission (d\<lparr>db_assignments := delete_where (\<lambda>x. ra_id x = ra_id a) (db_assignments d)\<rparr>) v k c"
      if k: "k \<in> known_beyond (set (global_set d actor))" and has: "user_has_permission d v k c"
    proof -
      obtain x where x: "x \<in> set (db_assignments d)" "ra_user_id x = v" "confers (db_roles d) x k c"
        using has by (auto simp: user_has_permission_confers)
      have "x \<noteq> a" using x(3) k lost [of k c] by (auto simp: known_beyond_def)
      then show ?thesis
        using x uniq by (auto simp: user_has_permission_confers delete_where_def)
    qed
  qed simp
qed

lemma delete_user_contained:
  assumes m: "assert_may_manage_account d actor i = Inr ()" "i \<noteq> actor"
  shows "contained_step (set (global_set d actor)) {actor} d (cascade_user i d)"
  unfolding contained_step_def
proof (intro conjI allI impI)
  fix v k c
  show "user_has_permission d v k c" if "user_has_permission (cascade_user i d) v k c"
    using that by (auto simp: user_has_permission_confers delete_where_def)
  assume k: "k \<in> known_beyond (set (global_set d actor))" and has: "user_has_permission d v k c"
  have v: "v \<noteq> i" using managed_not_beyond [OF m k] has by blast
  show "user_has_permission (cascade_user i d) v k c"
    using has v by (auto simp: user_has_permission_confers delete_where_def)
  show "get_user (cascade_user i d) v = get_user d v"
    using v by (intro get_user_delete_other) simp_all
qed

section \<open>Every step is contained\<close>

lemma account_step_contained:
  assumes m: "assert_may_manage_account d actor i = Inr ()" and same: "same_access d d'"
    and u: "db_users d' = update_where (\<lambda>x. us_id x = i) (\<lambda>_. u) (db_users d)" "us_id u = i"
  shows "contained_step (set (global_set d actor)) {actor} d d'"
proof (rule contained_accounts [OF same])
  fix v k c
  assume k: "k \<in> known_beyond (set (global_set d actor))" and has: "user_has_permission d v k c"
    and v: "v \<noteq> actor"
  have "v \<noteq> i" using managed_not_beyond [OF m _ k] has v by blast
  then show "get_user d' v = get_user d v" by (rule get_user_update_other [OF u])
qed

lemma admin_step_contained:
  assumes "admin_step hp actor d d'" and wf: "accounts_wf d"
  shows "contained_step (set (global_set d actor)) {actor} d d'"
  using assms(1)
proof cases
  case (create_role i rc r ev)
  from create_role_effect [OF this(2)] show ?thesis
  proof (elim disjE exE conjE)
    fix role
    assume "d' = d\<lparr>db_roles := db_roles d @ [role]\<rparr>" "ro_id role = i"
    then show ?thesis using create_role_contained [OF wf] create_role(1) by simp
  qed (simp add: contained_refl)
next
  case (update_role i ru r ev)
  from update_role_effect [OF this] show ?thesis
    using put_role_contained [OF wf] contained_refl by blast
next
  case (delete_role i x ev)
  from delete_role_effect [OF this] show ?thesis
    using delete_role_contained contained_refl by blast
next
  case (assign_role i an y ev)
  from assign_role_effect [OF this(2)] show ?thesis
  proof (elim disjE exE conjE)
    fix role a u
    assume "role \<in> set (db_roles d)" "set (ro_permissions role) \<subseteq> set (global_set d actor)"
      and a: "a = \<lparr>ra_id = i, ra_user_id = us_id u, ra_competition_id = an_competition_id an,
                   ra_role_id = ro_id role\<rparr>"
      and d': "d' = d\<lparr>db_assignments := db_assignments d @ [a]\<rparr>"
    then show ?thesis unfolding d' by (intro assign_contained [OF wf]) simp_all
  qed (simp add: contained_refl)
next
  case (unassign_role i x ev)
  from unassign_role_effect [OF this] show ?thesis
    using unassign_contained [OF wf] contained_refl by blast
next
  case (create_user i now uc z ev)
  from create_user_effect [OF this(2)] show ?thesis
  proof (elim disjE exE conjE)
    fix u
    assume same: "same_access d d'" and u: "us_id u = i" "db_users d' = db_users d @ [u]"
    show ?thesis
    proof (rule contained_accounts [OF same])
      fix v k c
      assume "user_has_permission d v k c"
      then have "v \<noteq> us_id u" using has_permission_user_exists [OF wf] create_user(1) u(1) by metis
      then show "get_user d' v = get_user d v" using u(2) by (rule get_user_append)
    qed
  qed (simp add: contained_refl)
next
  case (update_user now i uu z ev)
  from update_user_effect [OF this] show ?thesis
  proof (elim disjE exE conjE)
    fix u u'
    assume "same_access d d'" "assert_may_manage_account d actor i = Inr ()" "us_id u' = i"
      "db_users d' = update_where (\<lambda>x. us_id x = i) (\<lambda>_. u') (db_users d)"
    then show ?thesis by (intro account_step_contained)
  qed (simp add: contained_refl)
next
  case (ban_user now i z ev)
  from ban_user_effect [OF this] show ?thesis
  proof (elim disjE exE conjE)
    fix u
    assume u: "get_user d i = Some u" and m: "assert_may_manage_account d actor i = Inr ()"
      and same: "same_access d d'"
      and users: "db_users d' = update_where (\<lambda>x. us_id x = i) (\<lambda>_. u\<lparr>us_is_active := False\<rparr>) (db_users d)"
    show ?thesis using get_user_SomeD [OF u] by (intro account_step_contained [OF m same users]) simp
  qed (simp add: contained_refl)
next
  case (unban_user i z ev)
  from unban_user_effect [OF this] show ?thesis
  proof (elim disjE exE conjE)
    fix u
    assume u: "get_user d i = Some u" and m: "assert_may_manage_account d actor i = Inr ()"
      and same: "same_access d d'"
      and users: "db_users d' = update_where (\<lambda>x. us_id x = i) (\<lambda>_. u\<lparr>us_is_active := True\<rparr>) (db_users d)"
    show ?thesis using get_user_SomeD [OF u] by (intro account_step_contained [OF m same users]) simp
  qed (simp add: contained_refl)
next
  case (delete_user i w ev)
  from delete_user_effect [OF this] show ?thesis
    using delete_user_contained contained_refl by blast
qed

section \<open>Keys stay keys\<close>

lemma distinct_map_delete: "distinct (map f xs) \<Longrightarrow> distinct (map f (delete_where P xs))"
  by (simp add: delete_where_def distinct_map inj_on_def)

lemma map_eq_image: "map f xs = map f ys \<Longrightarrow> f ` set xs = f ` set ys"
  by (metis image_set)

lemma update_user_ids:
  "us_id u = i \<Longrightarrow> map us_id (update_where (\<lambda>x. us_id x = i) (\<lambda>_. u) us) = map us_id us"
  by (rule map_update_where) simp

lemma accounts_wf_users:
  assumes "accounts_wf d" "same_access d d'" "distinct (map us_id (db_users d'))"
    "us_id ` set (db_users d) \<subseteq> us_id ` set (db_users d')"
  shows "accounts_wf d'"
  using assms unfolding accounts_wf_def same_access_def by (metis subsetD)

lemma accounts_wf_update_user:
  assumes "accounts_wf d" "same_access d d'"
    and u: "db_users d' = update_where (\<lambda>x. us_id x = i) (\<lambda>_. u) (db_users d)" "us_id u = i"
  shows "accounts_wf d'"
proof -
  have ids: "map us_id (db_users d') = map us_id (db_users d)" unfolding u(1) by (rule update_user_ids [OF u(2)])
  show ?thesis
    using assms(1) map_eq_image [OF ids] ids
    by (intro accounts_wf_users [OF assms(1,2)]) (simp_all add: accounts_wf_def)
qed

lemma admin_step_wf:
  assumes "admin_step hp actor d d'" and wf: "accounts_wf d"
  shows "accounts_wf d'"
  using assms(1)
proof cases
  case (create_role i rc r ev)
  from create_role_effect [OF this(2)] show ?thesis
    using wf create_role(1) by (auto simp: accounts_wf_def)
next
  case (update_role i ru r ev)
  from update_role_effect [OF this] show ?thesis
  proof (elim disjE exE conjE)
    fix role role1
    assume d': "d' = put_role role1 d" and u: "checked_role_update d actor ru role = Inr role1"
    have ids: "map ro_id (db_roles d') = map ro_id (db_roles d)"
      using checked_role_update_effect [OF u] by (simp add: d' put_role_def map_update_where)
    then have "distinct (map ro_id (db_roles d'))" "ro_id ` set (db_roles d') = ro_id ` set (db_roles d)"
      using wf map_eq_image [OF ids] by (simp_all add: accounts_wf_def)
    then show ?thesis using wf by (simp add: accounts_wf_def d' put_role_def)
  qed (simp add: wf)
next
  case (delete_role i x ev)
  from delete_role_effect [OF this] show ?thesis
  proof (elim disjE exE conjE)
    assume i: "\<forall>a\<in>set (db_assignments d). ra_role_id a \<noteq> i"
      and d': "d' = d\<lparr>db_roles := delete_where (\<lambda>r. ro_id r = i) (db_roles d)\<rparr>"
    have "ra_role_id a \<in> ro_id ` set (delete_where (\<lambda>r. ro_id r = i) (db_roles d))"
      if "a \<in> set (db_assignments d)" for a
    proof -
      have "ra_role_id a \<in> ro_id ` set (db_roles d)" "ra_role_id a \<noteq> i"
        using wf i that by (simp_all add: accounts_wf_def)
      then show ?thesis by (auto simp: delete_where_def)
    qed
    then show ?thesis
      using wf unfolding accounts_wf_def d' by (simp add: distinct_map_delete)
  qed (simp add: wf)
next
  case (assign_role i an y ev)
  from assign_role_effect [OF this(2)] show ?thesis
    using wf assign_role(1) by (auto simp: accounts_wf_def)
next
  case (unassign_role i x ev)
  from unassign_role_effect [OF this] show ?thesis
  proof (elim disjE exE conjE)
    fix a
    assume d': "d' = d\<lparr>db_assignments := delete_where (\<lambda>x. ra_id x = i) (db_assignments d)\<rparr>"
    then show ?thesis using wf unfolding accounts_wf_def d' by (simp add: distinct_map_delete) (simp add: delete_where_def)
  qed (simp add: wf)
next
  case (create_user i now uc z ev)
  from create_user_effect [OF this(2)] show ?thesis
    using wf create_user(1) by (elim disjE exE conjE)
      (simp_all add: accounts_wf_users [OF wf] accounts_wf_def [of d] subset_insertI)
next
  case (update_user now i uu z ev)
  from update_user_effect [OF this] show ?thesis
    using accounts_wf_update_user [OF wf] wf by blast
next
  case (ban_user now i z ev)
  from ban_user_effect [OF this] show ?thesis
  proof (elim disjE exE conjE)
    fix u
    assume u: "get_user d i = Some u" and same: "same_access d d'"
      and users: "db_users d' = update_where (\<lambda>x. us_id x = i) (\<lambda>_. u\<lparr>us_is_active := False\<rparr>) (db_users d)"
    show ?thesis using get_user_SomeD [OF u] by (intro accounts_wf_update_user [OF wf same users]) simp
  qed (simp add: wf)
next
  case (unban_user i z ev)
  from unban_user_effect [OF this] show ?thesis
  proof (elim disjE exE conjE)
    fix u
    assume u: "get_user d i = Some u" and same: "same_access d d'"
      and users: "db_users d' = update_where (\<lambda>x. us_id x = i) (\<lambda>_. u\<lparr>us_is_active := True\<rparr>) (db_users d)"
    show ?thesis using get_user_SomeD [OF u] by (intro accounts_wf_update_user [OF wf same users]) simp
  qed (simp add: wf)
next
  case (delete_user i w ev)
  from delete_user_effect [OF this] show ?thesis
  proof (elim disjE exE conjE)
    assume d': "d' = cascade_user i d"
    show ?thesis using wf unfolding accounts_wf_def d'
      by (simp add: distinct_map_delete) (auto simp: delete_where_def)
  qed (simp add: wf)
qed

section \<open>The group cannot escalate\<close>

lemma contained_global:
  assumes "contained_step K U d d'" "set (global_set d v) \<subseteq> K"
  shows "set (global_set d' v) \<subseteq> K"
proof
  fix k
  assume "k \<in> set (global_set d' v)"
  then have "k \<in> K \<or> user_has_permission d v k None"
    using assms(1) unfolding contained_step_def global_set_iff by blast
  then show "k \<in> K" using assms(2) global_set_iff by blast
qed

lemma admin_run_contained:
  assumes "admin_run hp actors d d'" and "accounts_wf d"
    and "\<forall>u\<in>actors. set (global_set d u) \<subseteq> K"
  shows "accounts_wf d' \<and> contained_step K actors d d'"
  using assms
proof induction
  case (start d)
  then show ?case by (simp add: contained_refl)
next
  case (step d d1 actor d2)
  then have IH: "accounts_wf d1" "contained_step K actors d d1" by simp_all
  have "set (global_set d1 actor) \<subseteq> K"
    using contained_global [OF IH(2)] step.prems(2) step.hyps(2) by blast
  then have "contained_step K actors d1 d2"
    using admin_step_contained [OF step.hyps(3) IH(1)] step.hyps(2) contained_mono by blast
  then show ?case
    using IH admin_step_wf [OF step.hyps(3)] contained_trans by blast
qed


section \<open>There is always an administrator\<close>

definition admin_assignment :: "db \<Rightarrow> role_assignment \<Rightarrow> bool" where
  "admin_assignment d a = (\<exists>r\<in>set (db_roles d). ro_id r = ra_role_id a \<and> ro_name r = ADMINISTRATOR_ROLE_NAME)"

lemma set_active_global_admins:
  "set (active_global_admins d x) = {(a, r, u). a \<in> set (db_assignments d) \<and> r \<in> set (db_roles d)
     \<and> u \<in> set (db_users d) \<and> ro_id r = ra_role_id a \<and> us_id u = ra_user_id a
     \<and> ro_name r = ADMINISTRATOR_ROLE_NAME \<and> ra_competition_id a = None \<and> us_is_active u
     \<and> Some (ra_user_id a) \<noteq> x}"
  by (auto simp: active_global_admins_def)

lemma active_admins_iff:
  "0 < active_global_admin_count d x \<longleftrightarrow>
     (\<exists>a\<in>set (db_assignments d). admin_assignment d a \<and> ra_competition_id a = None
        \<and> Some (ra_user_id a) \<noteq> x \<and> (\<exists>u\<in>set (db_users d). us_id u = ra_user_id a \<and> us_is_active u))"
proof -
  have "0 < active_global_admin_count d x \<longleftrightarrow> (\<exists>y. y \<in> set (active_global_admins d x))"
    by (cases "active_global_admins d x") (auto simp: active_global_admin_count_def)
  then show ?thesis
    unfolding set_active_global_admins admin_assignment_def by blast
qed

text \<open>
  What the seed sets up: the Administrator role is a global system role, and every assignment of it
  is site-wide.
\<close>

definition administered :: "db \<Rightarrow> bool" where
  "administered d =
     ((\<forall>r\<in>set (db_roles d). ro_name r = ADMINISTRATOR_ROLE_NAME \<longrightarrow> ro_is_system r \<and> ro_scope r = Global_Scope)
      \<and> (\<forall>a\<in>set (db_assignments d). admin_assignment d a \<longrightarrow> ra_competition_id a = None)
      \<and> 0 < active_global_admin_count d None)"

definition seated :: "db \<Rightarrow> role_assignment \<Rightarrow> bool" where
  "seated d a = (a \<in> set (db_assignments d) \<and> admin_assignment d a \<and> ra_competition_id a = None
     \<and> (\<exists>u\<in>set (db_users d). us_id u = ra_user_id a \<and> us_is_active u))"

lemma administered_seated: "0 < active_global_admin_count d None \<longleftrightarrow> (\<exists>a. seated d a)"
  unfolding active_admins_iff seated_def by auto

lemma administered_roles:
  assumes "administered d" "db_assignments d' = db_assignments d" "db_users d' = db_users d"
    and "\<And>a. a \<in> set (db_assignments d) \<Longrightarrow> admin_assignment d' a = admin_assignment d a"
    and "\<And>r. r \<in> set (db_roles d') \<Longrightarrow> ro_name r = ADMINISTRATOR_ROLE_NAME \<Longrightarrow> r \<in> set (db_roles d)"
  shows "administered d'"
  using assms unfolding administered_def active_admins_iff by auto

lemma administered_accounts:
  assumes "administered d" "same_access d d'"
    and "\<exists>a. seated d a \<and> (\<exists>u\<in>set (db_users d'). us_id u = ra_user_id a \<and> us_is_active u)"
  shows "administered d'"
proof -
  have "admin_assignment d' = admin_assignment d"
    using assms(2) by (simp add: fun_eq_iff admin_assignment_def same_access_def)
  moreover from this have "\<exists>a. seated d' a"
    using assms(2,3) by (auto simp: seated_def same_access_def)
  ultimately show ?thesis
    using assms(1,2) unfolding administered_def administered_seated by (auto simp: same_access_def)
qed

lemma create_role_administered:
  assumes ad: "administered d" and wf: "accounts_wf d" and i: "ro_id role \<notin> ro_id ` set (db_roles d)"
    and n: "\<not> name_taken d (ro_name role) None"
  shows "administered (d\<lparr>db_roles := db_roles d @ [role]\<rparr>)"
proof (rule administered_roles [OF ad])
  have "ro_name role \<noteq> ADMINISTRATOR_ROLE_NAME"
    using ad n unfolding administered_def active_admins_iff admin_assignment_def
    by (auto simp: name_taken_def exists_where_iff)
  then show "r \<in> set (db_roles d)"
    if "r \<in> set (db_roles (d\<lparr>db_roles := db_roles d @ [role]\<rparr>))" "ro_name r = ADMINISTRATOR_ROLE_NAME" for r
    using that by auto
  show "admin_assignment (d\<lparr>db_roles := db_roles d @ [role]\<rparr>) a = admin_assignment d a"
    if "a \<in> set (db_assignments d)" for a
    using \<open>ro_name role \<noteq> ADMINISTRATOR_ROLE_NAME\<close> by (auto simp: admin_assignment_def)
qed simp_all

lemma put_role_administered:
  assumes ad: "administered d" and wf: "accounts_wf d"
    and role: "role \<in> set (db_roles d)" "\<not> ro_is_system role"
    and u: "checked_role_update d actor b role = Inr role1"
  shows "administered (put_role role1 d)"
proof -
  have same: "ro_id role1 = ro_id role" using checked_role_update_effect [OF u] by blast
  obtain r0 where r0: "r0 \<in> set (db_roles d)" "ro_name r0 = ADMINISTRATOR_ROLE_NAME" "ro_is_system r0"
    using ad unfolding administered_def active_admins_iff admin_assignment_def by blast
  have "ro_name role \<noteq> ADMINISTRATOR_ROLE_NAME" using ad role by (auto simp: administered_def)
  moreover have "ro_id r0 \<noteq> ro_id role"
    using wf role r0 unfolding accounts_wf_def by (metis (no_types) distinct_map inj_onD)
  ultimately have n1: "ro_name role1 \<noteq> ADMINISTRATOR_ROLE_NAME"
    using checked_role_update_effect [OF u] r0(1,2) by (auto simp: name_taken_def exists_where_iff)
  have uniq: "r = role" if "r \<in> set (db_roles d)" "ro_id r = ro_id role" for r
    using wf role(1) that unfolding accounts_wf_def by (metis (no_types) distinct_map inj_onD)
  have roles: "r \<in> set (db_roles (put_role role1 d)) \<longleftrightarrow>
      r \<in> set (db_roles d) \<and> ro_id r \<noteq> ro_id role \<or> r = role1" for r
    using role(1) by (auto simp: put_role_def set_update_where same)
  have admins: "r \<in> set (db_roles (put_role role1 d)) \<and> ro_name r = ADMINISTRATOR_ROLE_NAME \<longleftrightarrow>
      r \<in> set (db_roles d) \<and> ro_name r = ADMINISTRATOR_ROLE_NAME" for r
    using roles [of r] n1 \<open>ro_name role \<noteq> ADMINISTRATOR_ROLE_NAME\<close> uniq [of r] by blast
  show ?thesis
  proof (rule administered_roles [OF ad])
    show "admin_assignment (put_role role1 d) a = admin_assignment d a" for a
      unfolding admin_assignment_def using admins by blast
  qed (use admins in \<open>auto simp: put_role_def\<close>)
qed

lemma delete_role_administered:
  assumes ad: "administered d" and wf: "accounts_wf d"
    and role: "role \<in> set (db_roles d)" "ro_id role = i" "\<not> ro_is_system role"
  shows "administered (d\<lparr>db_roles := delete_where (\<lambda>r. ro_id r = i) (db_roles d)\<rparr>)"
proof (rule administered_roles [OF ad])
  have "ro_id r \<noteq> i" if "r \<in> set (db_roles d)" "ro_name r = ADMINISTRATOR_ROLE_NAME" for r
  proof
    assume "ro_id r = i"
    then have "r = role"
      using wf role(1,2) that(1) unfolding accounts_wf_def by (metis (no_types) distinct_map inj_onD)
    then show False using ad that role(3) by (auto simp: administered_def)
  qed
  then show "admin_assignment (d\<lparr>db_roles := delete_where (\<lambda>r. ro_id r = i) (db_roles d)\<rparr>) a
      = admin_assignment d a" for a
    by (auto simp: admin_assignment_def delete_where_def)
qed (simp_all add: delete_where_def)

lemma assign_administered:
  assumes ad: "administered d" and wf: "accounts_wf d"
    and role: "role \<in> set (db_roles d)" "ra_role_id a = ro_id role"
    and sc: "ro_scope role = Global_Scope \<longleftrightarrow> ra_competition_id a = None"
  shows "administered (d\<lparr>db_assignments := db_assignments d @ [a]\<rparr>)"
proof -
  have "ra_competition_id a = None" if adm: "admin_assignment d a"
  proof -
    obtain r where r: "r \<in> set (db_roles d)" "ro_id r = ra_role_id a" "ro_name r = ADMINISTRATOR_ROLE_NAME"
      using adm by (auto simp: admin_assignment_def)
    then have "r = role" using wf role unfolding accounts_wf_def by (metis (no_types) distinct_map inj_onD)
    then show ?thesis using ad r sc by (auto simp: administered_def)
  qed
  then show ?thesis
    using ad unfolding administered_def active_admins_iff by (auto simp: admin_assignment_def)
qed

lemma unassign_administered:
  assumes ad: "administered d" and wf: "accounts_wf d" and a: "a \<in> set (db_assignments d)"
    and ok: "checked_unassign d actor a = Inr ()"
  shows "administered (d\<lparr>db_assignments := delete_where (\<lambda>x. ra_id x = ra_id a) (db_assignments d)\<rparr>)"
proof -
  obtain x where x: "seated d x" "x \<noteq> a"
  proof (cases "admin_assignment d a")
    case True
    then obtain r where r: "r \<in> set (db_roles d)" "ro_id r = ra_role_id a" "ro_name r = ADMINISTRATOR_ROLE_NAME"
      by (auto simp: admin_assignment_def)
    obtain r' where r': "get_role d (ra_role_id a) = Some r'"
      using r find_None_all [of "\<lambda>x. ro_id x = ra_role_id a" "db_roles d" r]
      by (cases "get_role d (ra_role_id a)") (auto simp: get_role_def)
    then have "r' = r"
      using r get_role_SomeD [OF r'] wf unfolding accounts_wf_def
      by (metis (no_types) distinct_map inj_onD)
    then have "0 < active_global_admin_count d (Some (ra_user_id a))"
      using ok r r' ad True a by (auto simp: checked_unassign_def res_bind_Inr_iff administered_def)
    then obtain y where "seated d y" "ra_user_id y \<noteq> ra_user_id a"
      unfolding active_admins_iff seated_def by auto
    then show ?thesis using that by blast
  next
    case False
    obtain y where "seated d y" using ad unfolding administered_def administered_seated by blast
    moreover have "y \<noteq> a" using False calculation by (auto simp: seated_def)
    ultimately show ?thesis using that by blast
  qed
  have "ra_id x \<noteq> ra_id a"
    using wf a x unfolding accounts_wf_def seated_def by (metis (no_types) distinct_map inj_onD)
  then show ?thesis
    using ad x(1) unfolding administered_def active_admins_iff seated_def admin_assignment_def delete_where_def
    by auto
qed

lemma admin_user_ids_iff:
  "u \<in> admin_user_ids d \<longleftrightarrow> (\<exists>a\<in>set (db_assignments d). ra_user_id a = u \<and> admin_assignment d a)"
  unfolding admin_user_ids_def admin_assignment_def by (auto intro: rev_bexI)

text \<open>Banning and deleting: somebody else sits in an administrator's seat.\<close>

lemma guard_leaves_seat:
  assumes ad: "administered d" and g: "guard_not_last_admin d i action = Inr ()"
  obtains a where "seated d a" "ra_user_id a \<noteq> i"
proof (cases "i \<in> admin_user_ids d")
  case True
  then obtain u where u: "u \<in> set (db_users d)" "us_id u \<in> admin_user_ids d" "us_id u \<noteq> i" "us_is_active u"
    using g by (auto simp: guard_not_last_admin_def exists_where_iff)
  then obtain a where "a \<in> set (db_assignments d)" "admin_assignment d a" "ra_user_id a = us_id u"
    unfolding admin_user_ids_iff by blast
  then show ?thesis
    using that [of a] u ad unfolding administered_def seated_def by auto
next
  case False
  obtain a where a: "seated d a" using ad unfolding administered_def administered_seated by blast
  then have "ra_user_id a \<in> admin_user_ids d"
    unfolding admin_user_ids_iff seated_def by blast
  then show ?thesis using False a that by metis
qed

lemma seat_kept:
  assumes "seated d a" "db_users d' = update_where (\<lambda>x. us_id x = i) (\<lambda>_. u) (db_users d)"
    and "us_id u = i" "ra_user_id a = i \<Longrightarrow> us_is_active u"
  shows "\<exists>u\<in>set (db_users d'). us_id u = ra_user_id a \<and> us_is_active u"
proof -
  obtain v where v: "v \<in> set (db_users d)" "us_id v = ra_user_id a" "us_is_active v"
    using assms(1) by (auto simp: seated_def)
  have "(if us_id v = i then u else v) \<in> set (db_users d')"
    unfolding assms(2) set_update_where by (rule image_eqI [OF _ v(1)]) simp
  then show ?thesis using v assms(3,4) by (cases "us_id v = i") auto
qed

lemma administered_update:
  assumes ad: "administered d" and same: "same_access d d'"
    and users: "db_users d' = update_where (\<lambda>x. us_id x = i) (\<lambda>_. u') (db_users d)" "us_id u' = i"
    and act: "\<And>u. u \<in> set (db_users d) \<Longrightarrow> us_id u = i \<Longrightarrow> us_is_active u \<Longrightarrow> us_is_active u'"
  shows "administered d'"
proof -
  obtain a where a: "seated d a" using ad unfolding administered_def administered_seated by blast
  show ?thesis
    by (rule administered_accounts [OF ad same])
      (use a act in \<open>blast intro: seat_kept [OF a users] elim: seated_def [THEN iffD1, elim_format]\<close>)
qed

lemma admin_step_administered:
  assumes "admin_step hp actor d d'" and wf: "accounts_wf d" and ad: "administered d"
  shows "administered d'"
  using assms(1)
proof cases
  case (create_role i rc r ev)
  from create_role_effect [OF this(2)] show ?thesis
  proof (elim disjE exE conjE)
    fix role
    assume "d' = d\<lparr>db_roles := db_roles d @ [role]\<rparr>" "ro_id role = i" "\<not> name_taken d (ro_name role) None"
    then show ?thesis using create_role_administered [OF ad wf] create_role(1) by simp
  qed (simp add: ad)
next
  case (update_role i ru r ev)
  from update_role_effect [OF this] show ?thesis
    using put_role_administered [OF ad wf] ad by blast
next
  case (delete_role i x ev)
  from delete_role_effect [OF this] show ?thesis
    using delete_role_administered [OF ad wf] ad by blast
next
  case (assign_role i an y ev)
  from assign_role_effect [OF this(2)] show ?thesis
  proof (elim disjE exE conjE)
    fix role a u
    assume role: "role \<in> set (db_roles d)" and sc: "ro_scope role = Global_Scope \<longleftrightarrow> ra_competition_id a = None"
      and a: "a = \<lparr>ra_id = i, ra_user_id = us_id u, ra_competition_id = an_competition_id an,
                   ra_role_id = ro_id role\<rparr>"
      and d': "d' = d\<lparr>db_assignments := db_assignments d @ [a]\<rparr>"
    show ?thesis unfolding d' by (rule assign_administered [OF ad wf role _ sc]) (simp add: a)
  qed (simp add: ad)
next
  case (unassign_role i x ev)
  from unassign_role_effect [OF this] show ?thesis
    using unassign_administered [OF ad wf] ad by blast
next
  case (create_user i now uc z ev)
  from create_user_effect [OF this(2)] show ?thesis
  proof (elim disjE exE conjE)
    fix u
    assume same: "same_access d d'" and u: "db_users d' = db_users d @ [u]"
    show ?thesis
      using ad by (intro administered_accounts [OF ad same])
        (auto simp: u administered_def administered_seated seated_def)
  qed (simp add: ad)
next
  case (update_user now i uu z ev)
  from update_user_effect [OF this] show ?thesis
  proof (elim disjE exE conjE)
    fix u u'
    assume same: "same_access d d'" and u: "get_user d i = Some u" "us_is_active u' = us_is_active u"
      and users: "db_users d' = update_where (\<lambda>x. us_id x = i) (\<lambda>_. u') (db_users d)" "us_id u' = i"
    show ?thesis
    proof (rule administered_update [OF ad same users])
      fix v
      assume "v \<in> set (db_users d)" "us_id v = i" "us_is_active v"
      moreover have "v = u"
        using calculation get_user_SomeD [OF u(1)] wf unfolding accounts_wf_def
        by (metis (no_types) distinct_map inj_onD)
      ultimately show "us_is_active u'" using u(2) by simp
    qed
  qed (simp add: ad)
next
  case (ban_user now i z ev)
  from ban_user_effect [OF this] show ?thesis
  proof (elim disjE exE conjE)
    fix u
    assume u: "get_user d i = Some u" and same: "same_access d d'"
      and g: "guard_not_last_admin d i ''ban'' = Inr ()"
      and users: "db_users d' = update_where (\<lambda>x. us_id x = i) (\<lambda>_. u\<lparr>us_is_active := False\<rparr>) (db_users d)"
    obtain a where a: "seated d a" "ra_user_id a \<noteq> i" by (rule guard_leaves_seat [OF ad g])
    have "\<exists>u\<in>set (db_users d'). us_id u = ra_user_id a \<and> us_is_active u"
      using get_user_SomeD [OF u] a(2) by (intro seat_kept [OF a(1) users]) simp_all
    then show ?thesis using a(1) administered_accounts [OF ad same] by blast
  qed (simp add: ad)
next
  case (unban_user i z ev)
  from unban_user_effect [OF this] show ?thesis
  proof (elim disjE exE conjE)
    fix u
    assume u: "get_user d i = Some u" and same: "same_access d d'"
      and users: "db_users d' = update_where (\<lambda>x. us_id x = i) (\<lambda>_. u\<lparr>us_is_active := True\<rparr>) (db_users d)"
    show ?thesis using get_user_SomeD [OF u] by (intro administered_update [OF ad same users]) simp_all
  qed (simp add: ad)
next
  case (delete_user i w ev)
  from delete_user_effect [OF this] show ?thesis
  proof (elim disjE exE conjE)
    assume g: "guard_not_last_admin d i ''delete'' = Inr ()" and d': "d' = cascade_user i d"
    obtain a where a: "seated d a" "ra_user_id a \<noteq> i" by (rule guard_leaves_seat [OF ad g])
    then have "seated d' a"
      unfolding d' seated_def by (auto simp: delete_where_def admin_assignment_def)
    then have "\<exists>a. seated d' a" by blast
    then show ?thesis
      using ad unfolding administered_def administered_seated
      by (auto simp: d' delete_where_def admin_assignment_def)
  qed (simp add: ad)
qed

lemma admin_run_administered:
  assumes "admin_run hp actors d d'" "accounts_wf d" "administered d"
  shows "accounts_wf d' \<and> administered d'"
  using assms by induction (auto dest: admin_step_wf admin_step_administered)

text \<open>
  C6: The platform cannot be locked out of its own administration. As long as the seeded
  Administrator role is a global system role whose assignments are site-wide, no sequence of role
  and account calls by anybody, administrators acting on each other and on themselves included,
  ends without an active user who holds the Administrator role site-wide.
\<close>

theorem administrator_never_lost:
  assumes "accounts_wf d" "administered d" "admin_run hp actors d d'"
  shows "0 < active_global_admin_count d' None \<and> \<not> instance_needs_setup d'"
  using admin_run_administered [OF assms(3,1,2)] by (simp add: administered_def instance_needs_setup_def)

section \<open>A platform with an administrator and a role manager\<close>

definition staff_db :: db where
  "staff_db = empty_db\<lparr>
     db_users := [blank_user ''a'', blank_user ''m'', blank_user ''v''],
     db_roles := [\<lparr>ro_id = ''r0'', ro_name = ADMINISTRATOR_ROLE_NAME, ro_description = '''',
                   ro_is_system = True, ro_scope = Global_Scope,
                   ro_permissions = ADMINISTRATOR_PERMISSIONS\<rparr>,
                  \<lparr>ro_id = ''r1'', ro_name = ''Role manager'', ro_description = '''',
                   ro_is_system = False, ro_scope = Global_Scope,
                   ro_permissions = [''manage_roles'']\<rparr>],
     db_assignments := [\<lparr>ra_id = ''s0'', ra_user_id = ''a'', ra_competition_id = None, ra_role_id = ''r0''\<rparr>,
                        \<lparr>ra_id = ''s1'', ra_user_id = ''m'', ra_competition_id = None, ra_role_id = ''r1''\<rparr>]\<rparr>"

definition staff_db2 :: db where
  "staff_db2 = staff_db\<lparr>db_assignments := db_assignments staff_db
     @ [\<lparr>ra_id = ''s2'', ra_user_id = ''v'', ra_competition_id = None, ra_role_id = ''r1''\<rparr>]\<rparr>"

lemma staff_has:
  "user_has_permission staff_db ''m'' k None \<longleftrightarrow> k = ''manage_roles''"
  "user_has_permission staff_db ''a'' k None \<longleftrightarrow> k \<in> set ADMINISTRATOR_PERMISSIONS"
  "\<not> user_has_permission staff_db ''v'' k None"
  by (auto simp: user_has_permission_iff staff_db_def empty_db_def)

lemma staff_wf: "accounts_wf staff_db"
  by (simp add: accounts_wf_def staff_db_def empty_db_def blank_user_def)

lemma staff_administered: "administered staff_db"
  unfolding administered_def active_admins_iff
  by (auto simp: admin_assignment_def staff_db_def empty_db_def blank_user_def ADMINISTRATOR_ROLE_NAME_def)

text \<open>The role manager passes their own role on.\<close>

lemma staff_assign:
  "\<exists>r ev. assign_role ''s2'' staff_db ''m''
     \<lparr>an_email = None, an_user_id = Some ''v'', an_role_id = ''r1'', an_competition_id = None\<rparr>
   = (r, staff_db2, ev)"
proof -
  have "assert_may_grant staff_db ''m'' [''manage_roles''] [] = Inr ()"
    by (simp add: assert_may_grant_iff global_set_iff staff_has)
  moreover have "get_user staff_db ''v'' = Some (blank_user ''v'')"
    "get_role staff_db ''r1'' = Some (db_roles staff_db ! 1)"
    by (simp_all add: get_user_def get_role_def staff_db_def empty_db_def blank_user_def)
  moreover have "ro_permissions (db_roles staff_db ! 1) = [''manage_roles'']"
    "ro_scope (db_roles staff_db ! 1) = Global_Scope" "ro_id (db_roles staff_db ! 1) = ''r1''"
    "\<not> exists_where (\<lambda>a. ra_user_id a = ''v'' \<and> ra_competition_id a = None \<and> ra_role_id a = ''r1'')
      (db_assignments staff_db)"
    by (simp_all add: staff_db_def empty_db_def exists_where_iff)
  ultimately show ?thesis
    by (simp add: assign_role_def gated_def staff_has checked_assignment_def assignment_scope_def
        staff_db2_def blank_user_def Let_def)
qed

lemma staff_run: "admin_run id {''m''} staff_db staff_db2"
proof -
  obtain r ev where "assign_role ''s2'' staff_db ''m''
     \<lparr>an_email = None, an_user_id = Some ''v'', an_role_id = ''r1'', an_competition_id = None\<rparr>
   = (r, staff_db2, ev)" using staff_assign by blast
  then have "admin_step id ''m'' staff_db staff_db2"
    by (intro admin_step.assign_role [of "''s2''"]) (simp add: staff_db_def empty_db_def)
  then show ?thesis by (intro admin_run.step [OF admin_run.start]) simp_all
qed


theorem administrator_never_lost_witness:
  "0 < active_global_admin_count staff_db2 None"
  using administrator_never_lost [OF staff_wf staff_administered staff_run] by simp

end
