(* ===== verification/Timeline.thy ===== *)
theory Timeline
  imports Scoreboard Py_Float
begin

text \<open>
  The points-over-time chart (\<open>utils/scoreboard_timeline.py\<close>): per subject the running total of
  the four point sources, as of the cutoff of the board beside it, cut down to a bounded number of
  points. A timestamp becomes a float as Python's \<open>datetime.timestamp()\<close> makes it.
\<close>

definition TIMELINE_SUBJECTS :: int where "TIMELINE_SUBJECTS = 10"
definition MAX_TIMELINE_SUBJECTS :: int where "MAX_TIMELINE_SUBJECTS = 25"
definition TIMELINE_MAX_POINTS :: nat where "TIMELINE_MAX_POINTS = 400"

section \<open>Events\<close>

text \<open>\<open>(challenge, subject, when, value)\<close> of every awarded solve, live or as of a cutoff.\<close>

type_synonym solve = "ident \<times> ident option \<times> time \<times> int"

definition awarded_solves :: "db \<Rightarrow> competition \<Rightarrow> bool \<Rightarrow> time option \<Rightarrow> solve list" where
  "awarded_solves d c team_mode as_of =
     (let rows = filter (\<lambda>r. up_to as_of (su_created_at r)) (base_rows d c team_mode) in
      case as_of of
        None \<Rightarrow> map (\<lambda>r. (su_challenge_id r, solve_col team_mode r, su_created_at r, su_points_awarded r)) rows
      | Some _ \<Rightarrow>
          (let counts = count_solves rows in
           map (\<lambda>r. (su_challenge_id r, solve_col team_mode r, su_created_at r, frozen_value d c counts r)) rows))"

type_synonym point_event = "time \<times> int"

text \<open>The other three sources, as \<open>(subject, when, signed value)\<close>.\<close>

definition cost_rows :: "db \<Rightarrow> ident \<Rightarrow> bool \<Rightarrow> time option \<Rightarrow> (ident option \<times> point_event) list" where
  "cost_rows d cid team_mode as_of =
     map (\<lambda>r. (group_col team_mode (hr_team_id r) (Some (hr_user_id r)), hr_created_at r, - hr_cost_charged r))
       (filter (\<lambda>r. hr_competition_id r = cid \<and> in_scope team_mode (hr_team_id r)
                    \<and> up_to as_of (hr_created_at r)) (db_hint_reveals d))
     @ map (\<lambda>r. (group_col team_mode (sa_team_id r) (sa_user_id r), sa_created_at r, sa_points r))
       (filter (\<lambda>r. sa_competition_id r = cid \<and> in_scope team_mode (sa_team_id r)
                    \<and> up_to as_of (sa_created_at r)) (db_adjustments d))
     @ map (\<lambda>r. (group_col team_mode (ac_team_id r) (ac_user_id r), ac_created_at r, ac_points r))
       (filter (\<lambda>r. ac_competition_id r = cid \<and> in_scope team_mode (ac_team_id r)
                    \<and> up_to as_of (ac_created_at r)) (db_achievements d))"

text \<open>The dictionary of event lists for the wanted subjects, each sorted by time (a stable sort).\<close>

definition point_events ::
  "db \<Rightarrow> competition \<Rightarrow> bool \<Rightarrow> time option \<Rightarrow> solve list \<Rightarrow> ident set \<Rightarrow> ident \<Rightarrow> point_event list option" where
  "point_events d c team_mode as_of solves wanted sid =
     (if sid \<notin> wanted then None
      else Some (sort_key fst
        (map (\<lambda>(_, _, ts, v). (ts, v)) (filter (\<lambda>(_, s, _, _). s = Some sid) solves)
         @ map snd (filter (\<lambda>(s, _). s = Some sid) (cost_rows d (co_id c) team_mode as_of)))))"

section \<open>Series\<close>

text \<open>\<open>int()\<close> of a float: truncation towards zero.\<close>

definition trunc :: "rat \<Rightarrow> int" where
  "trunc x = (if 0 \<le> x then \<lfloor>x\<rfloor> else - \<lfloor>- x\<rfloor>)"

definition timestamp :: "time \<Rightarrow> rat" where
  "timestamp t = fl (of_int t / 1000000)"

text \<open>The slice of a point: \<open>int((when - t0) / span * buckets)\<close>, clamped from above.\<close>

definition bucket :: "rat \<Rightarrow> rat \<Rightarrow> int \<Rightarrow> time \<Rightarrow> int" where
  "bucket t0 width buckets t =
     (let i = trunc (fl (fl (fl (timestamp t - t0) / width) * of_int buckets)) in
      if buckets \<le> i then buckets - 1 else i)"

definition downsample :: "point_event list \<Rightarrow> nat \<Rightarrow> point_event list" where
  "downsample raw max_points =
     (if length raw \<le> max_points then raw
      else let a = hd raw; z = last raw in
        if max_points < 3 then [a, z]
        else let t0 = timestamp (fst a); width = fl (timestamp (fst z) - t0) in
          if width \<le> 0 then [a, z]
          else let buckets = int max_points - 2;
                   interior = map (\<lambda>p. (bucket t0 width buckets (fst p), p)) (butlast (tl raw));
                   kept = map_of (rev interior)
            in a # map (\<lambda>i. the (kept i)) (sorted_list_of_set (set (map fst interior))) @ [z])"

fun running :: "int \<Rightarrow> point_event list \<Rightarrow> point_event list" where
  "running total_so_far [] = []"
| "running total_so_far ((t, delta) # evs) =
     (t, max 0 (total_so_far + delta)) # running (total_so_far + delta) evs"

definition series_points :: "point_event list \<Rightarrow> time \<Rightarrow> nat option \<Rightarrow> point_event list" where
  "series_points evs start max_points =
     (let raw = (start, 0) # running 0 evs in
      case max_points of None \<Rightarrow> raw | Some m \<Rightarrow> downsample raw m)"

text \<open>\<open>_solve_time_reference\<close>: the scheduled start, else the creation; never missing.\<close>

definition solve_time_reference :: "competition \<Rightarrow> time" where
  "solve_time_reference c = coalesce (co_start_at c) (co_created_at c)"

section \<open>The timeline\<close>

record timeline_series =
  ts_subject_id :: ident
  ts_name :: string
  ts_points :: "point_event list"

record timeline =
  tl_start :: time
  tl_end :: time
  tl_series :: "timeline_series list"

definition build_timeline ::
  "time \<Rightarrow> db \<Rightarrow> competition \<Rightarrow> bool \<Rightarrow> time option \<Rightarrow> solve list \<Rightarrow> board_entry list \<Rightarrow> nat
   \<Rightarrow> nat option \<Rightarrow> timeline" where
  "build_timeline now d c team_mode as_of solves entries top_n max_points =
     (let top = take top_n entries;
          wanted = set (map be_subject_id top);
          start = solve_time_reference c;
          evs = (if wanted = {} then (\<lambda>_. None) else point_events d c team_mode as_of solves wanted)
      in \<lparr>tl_start = start, tl_end = coalesce as_of now,
          tl_series = map (\<lambda>e. \<lparr>ts_subject_id = be_subject_id e, ts_name = be_name e,
             ts_points = series_points (coalesce (evs (be_subject_id e)) []) start max_points\<rparr>) top\<rparr>)"

definition clamp_top :: "int \<Rightarrow> nat" where
  "clamp_top n = nat (max 1 (min n MAX_TIMELINE_SUBJECTS))"

definition fresh_timeline ::
  "time \<Rightarrow> db \<Rightarrow> competition \<Rightarrow> bool \<Rightarrow> string option \<Rightarrow> int \<Rightarrow> nat option \<Rightarrow> timeline" where
  "fresh_timeline now d c live bracket top_n max_points =
     (let team_mode = (co_participation_mode c = Team_Mode);
          as_of = (if live then None else freeze_cutoff now c);
          board = compute_scoreboard now d c live bracket;
          solves = awarded_solves d c team_mode as_of
      in build_timeline now d c team_mode as_of solves (bo_entries board) (clamp_top top_n) max_points)"

type_synonym timeline_cache =
  "ident \<Rightarrow> bool \<times> string option \<times> nat \<times> nat option \<Rightarrow> (time \<times> timeline) option"

definition invalidate_timeline :: "ident \<Rightarrow> timeline_cache \<Rightarrow> timeline_cache" where
  "invalidate_timeline cid cache = cache(cid := \<lambda>_. None)"

text \<open>\<open>clock\<close> is the monotonic clock; a lifetime that is not positive turns the cache off.\<close>

definition compute_timeline ::
  "time \<Rightarrow> time \<Rightarrow> time \<Rightarrow> db \<Rightarrow> competition \<Rightarrow> bool \<Rightarrow> string option \<Rightarrow> int \<Rightarrow> nat option
   \<Rightarrow> timeline_cache \<Rightarrow> timeline \<times> timeline_cache" where
  "compute_timeline ttl clock now d c live bracket top_n max_points cache =
     (let key = (live, bracket, clamp_top top_n, max_points);
          fresh = fresh_timeline now d c live bracket top_n max_points;
          stored = (if 0 < ttl then cache(co_id c := (cache (co_id c))(key \<mapsto> (clock + ttl, fresh))) else cache)
      in case cache (co_id c) key of
           Some (expiry, t) \<Rightarrow> if 0 < ttl \<and> clock < expiry then (t, cache) else (fresh, stored)
         | None \<Rightarrow> (fresh, stored))"

section \<open>A series ends on the total\<close>

definition final_points :: "point_event list \<Rightarrow> int" where
  "final_points ps = (if ps = [] then 0 else snd (last ps))"

lemma running_Nil_iff [simp]: "running a evs = [] \<longleftrightarrow> evs = []"
  by (cases evs) auto

lemma running_last: "evs \<noteq> [] \<Longrightarrow> snd (last (running a evs)) = max 0 (a + sum_list (map snd evs))"
proof (induction evs arbitrary: a)
  case Nil
  then show ?case by simp
next
  case (Cons p evs)
  then show ?case by (cases p; cases "evs = []") auto
qed

lemma map_fst_running: "map fst (running a evs) = map fst evs"
  by (induction a evs rule: running.induct) auto

lemma length_running [simp]: "length (running a evs) = length evs"
  by (induction a evs rule: running.induct) auto

lemma downsample_last: "raw \<noteq> [] \<Longrightarrow> last (downsample raw m) = last raw"
  by (simp add: downsample_def Let_def)

lemma downsample_Nil_iff: "raw \<noteq> [] \<Longrightarrow> downsample raw m \<noteq> []"
  by (simp add: downsample_def Let_def)

lemma series_final: "final_points (series_points evs start m) = max 0 (sum_list (map snd evs))"
proof -
  have "snd (last ((start, 0) # running 0 evs)) = max 0 (sum_list (map snd evs))"
    using running_last [of evs 0] by (cases "evs = []") auto
  then show ?thesis
    by (cases m) (simp_all add: final_points_def series_points_def downsample_last downsample_Nil_iff Let_def)
qed

lemma sum_list_sort_key: "sum_list (map f (sort_key k xs)) = sum_list (map f xs :: 'a::comm_monoid_add list)"
  by (metis mset_map mset_sort sum_mset_sum_list)

section \<open>The four sources add up to the board's total\<close>

lemma sum_solves:
  "fst (coalesce (awarded_by_subject d c tm as_of (Some sid)) (0, 0))
   = sum_list (map (\<lambda>(_, _, _, v). v) (filter (\<lambda>(_, s, _, _). s = Some sid) (awarded_solves d c tm as_of)))"
proof -
  have totals: "fst (coalesce (totals_of f tm rows (Some sid)) (0, 0))
      = sum_list (map f (filter (\<lambda>r. solve_col tm r = Some sid) rows))" for f rows
    by (simp add: totals_of_def Let_def)
  have picked: "map (\<lambda>(_, _, _, v). v) (filter (\<lambda>(_, s, _, _). s = Some sid)
      (map (\<lambda>r. (su_challenge_id r, solve_col tm r, su_created_at r, f r)) rows))
      = map f (filter (\<lambda>r. solve_col tm r = Some sid) rows)" for f :: "submission \<Rightarrow> int" and rows
    by (induction rows) auto
  show ?thesis
  proof (cases as_of)
    case None
    then show ?thesis
      by (simp add: awarded_by_subject_def live_totals_of totals awarded_solves_def up_to_def picked)
  next
    case (Some cutoff)
    then show ?thesis
      by (simp add: awarded_by_subject_def frozen_totals_of totals awarded_solves_def up_to_def picked
          Let_def)
  qed
qed

lemma sum_group:
  "sum_list (map (\<lambda>p. snd (snd p)) (filter (\<lambda>(s, _). s = k) (map (\<lambda>r. (col r, at_time r, f r)) rows)))
   = group_sum col f rows k"
  unfolding group_sum_def by (induction rows) auto

lemma group_sum_neg: "group_sum col (\<lambda>r. - f r) rows k = - group_sum col f rows k"
  unfolding group_sum_def by (induction rows) auto

lemma sum_costs:
  "sum_list (map (\<lambda>p. snd (snd p)) (filter (\<lambda>(s, _). s = Some sid) (cost_rows d cid tm as_of)))
   = - hint_costs_by_subject d cid tm as_of (Some sid) + adjustments_by_subject d cid tm as_of (Some sid)
     + award_points_by_subject d cid tm as_of (Some sid)"
  unfolding cost_rows_def filter_append map_append sum_list_append sum_group group_sum_neg
    hint_costs_by_subject_def adjustments_by_subject_def award_points_by_subject_def
  by simp

lemma point_events_total:
  assumes "sid \<in> wanted"
  shows "max 0 (sum_list (map snd
      (coalesce (point_events d c tm as_of (awarded_solves d c tm as_of) wanted sid) [])))
    = net_points d c tm as_of sid"
proof -
  have 1: "map snd (map (\<lambda>(_, _, ts, v). (ts, v)) xs) = map (\<lambda>(_, _, _, v). v) xs"
    for xs :: "solve list"
    by (induction xs) auto
  have 2: "map snd (map snd xs) = map (\<lambda>p. snd (snd p)) xs" for xs :: "(ident option \<times> point_event) list"
    by simp
  show ?thesis
    using assms
    unfolding point_events_def net_points_def sum_solves
    by (simp only: if_False not_True_eq_False coalesce_simps sum_list_sort_key map_append sum_list_append 1 2 sum_costs)
qed

lemma point_events_times:
  assumes "p \<in> set (coalesce (point_events d c tm as_of (awarded_solves d c tm as_of) wanted sid) [])"
  shows "up_to as_of (fst p)"
proof -
  have solves: "up_to as_of t" if "(a, b, t, v) \<in> set (awarded_solves d c tm as_of)" for a b t v
    using that by (cases as_of) (auto simp: awarded_solves_def Let_def)
  have costs: "up_to as_of t" if "(a, t, v) \<in> set (cost_rows d (co_id c) tm as_of)" for a t v
    using that by (auto simp: cost_rows_def)
  show ?thesis
    using assms by (auto simp: point_events_def dest: solves costs split: if_splits)
qed

text \<open>Downsampling picks points of the series, keeping both ends.\<close>

lemma kept_in:
  assumes "i \<in> set (map fst xs)"
  shows "the (map_of (rev xs) i) \<in> snd ` set xs"
proof -
  have "map_of (rev xs) i \<noteq> None" using assms by (simp add: map_of_eq_None_iff)
  then obtain v where v: "map_of (rev xs) i = Some v" by auto
  then have "(i, v) \<in> set xs" using map_of_SomeD by fastforce
  then show ?thesis using v by force
qed

lemma set_downsample: "raw \<noteq> [] \<Longrightarrow> set (downsample raw m) \<subseteq> set raw"
proof (cases "length raw \<le> m")
  case False
  assume raw: "raw \<noteq> []"
  let ?I = "map (\<lambda>p. (bucket (timestamp (fst (hd raw)))
     (fl (timestamp (fst (last raw)) - timestamp (fst (hd raw)))) (int m - 2) (fst p), p)) (butlast (tl raw))"
  have "snd ` set ?I \<subseteq> set raw"
    using raw by (auto dest!: in_set_butlastD list.set_sel(2))
  then have "(\<lambda>i. the (map_of (rev ?I) i)) ` set (map fst ?I) \<subseteq> set raw"
    using kept_in [of _ ?I] by blast
  then have "set (map (\<lambda>i. the (map_of (rev ?I) i)) (sorted_list_of_set (set (map fst ?I)))) \<subseteq> set raw"
    by (simp only: set_map set_sorted_list_of_set finite_set finite_imageI)
  then show ?thesis using False raw unfolding downsample_def Let_def by auto
qed (simp add: downsample_def)

lemma running_times: "p \<in> set (running a evs) \<Longrightarrow> \<exists>q\<in>set evs. fst q = fst p"
proof -
  assume "p \<in> set (running a evs)"
  then have "fst p \<in> set (map fst (running a evs))" by simp
  then show ?thesis unfolding map_fst_running by (metis imageE list.set_map)
qed

lemma series_times:
  assumes "p \<in> set (series_points evs start m)" "\<And>q. q \<in> set evs \<Longrightarrow> P (fst q)"
  shows "p = (start, 0) \<or> P (fst p)"
proof -
  have "set (series_points evs start m) \<subseteq> set ((start, 0) # running 0 evs)"
    using set_downsample [of "(start, 0) # running 0 evs"] by (cases m) (auto simp: series_points_def Let_def)
  then show ?thesis using assms running_times [of p 0 evs] by fastforce
qed

text \<open>
  C8: Chart and table agree: the timeline plots exactly the top of the board computed beside it, in
  its order, every line ends on that subject's total of the board (live, frozen or filtered to a
  division; downsampled or not), and under a freeze no line has a point after the cutoff but its
  baseline.
\<close>

theorem timeline_agrees_with_board:
  "list_all2 (\<lambda>s e. ts_subject_id s = be_subject_id e \<and> ts_name s = be_name e
       \<and> final_points (ts_points s) = be_points e
       \<and> list_all (\<lambda>p. p = (solve_time_reference c, 0)
            \<or> up_to (if live then None else freeze_cutoff now c) (fst p)) (ts_points s))
     (tl_series (fresh_timeline now d c live bracket top_n max_points))
     (take (clamp_top top_n) (bo_entries (compute_scoreboard now d c live bracket)))"
proof -
  define tm where "tm = (co_participation_mode c = Team_Mode)"
  define as_of where "as_of = (if live then None else freeze_cutoff now c)"
  define es where "es = take (clamp_top top_n) (bo_entries (compute_scoreboard now d c live bracket))"
  let ?ev = "\<lambda>sid. coalesce (point_events d c tm as_of (awarded_solves d c tm as_of) (set (map be_subject_id es)) sid) []"
  have series: "tl_series (fresh_timeline now d c live bracket top_n max_points)
      = map (\<lambda>e. \<lparr>ts_subject_id = be_subject_id e, ts_name = be_name e,
          ts_points = series_points (?ev (be_subject_id e)) (solve_time_reference c) max_points\<rparr>) es"
    unfolding fresh_timeline_def build_timeline_def Let_def tm_def [symmetric] as_of_def [symmetric]
      es_def [symmetric]
    by (cases "es = []") simp_all
  have points: "be_points e = net_points d c tm as_of (be_subject_id e)" if "e \<in> set es" for e
  proof -
    have "e \<in> set (bo_entries (compute_scoreboard now d c live bracket))"
      using that in_set_takeD unfolding es_def by metis
    then show ?thesis
      by (auto simp: compute_scoreboard_def Let_def simp flip: tm_def as_of_def)
  qed
  have line: "final_points (series_points (?ev (be_subject_id e)) st m) = be_points e" if "e \<in> set es" for e st m
    unfolding series_final points [OF that] using that by (intro point_events_total) simp
  have times: "list_all (\<lambda>p. p = (st, 0) \<or> up_to as_of (fst p)) (series_points (?ev sid) st m)" for sid st m
    using series_times [of _ "?ev sid" st m "up_to as_of"] point_events_times
    unfolding list_all_iff by blast
  show ?thesis
    unfolding series es_def [symmetric] as_of_def [symmetric] list_all2_map1
    by (rule list.rel_refl_strong) (use line times in simp)
qed

section \<open>The cap\<close>

lemma fl_nonneg: "0 \<le> x \<Longrightarrow> 0 \<le> fl x"
  using fl_mono [of 0 x] by simp

lemma timestamp_mono: "s \<le> t \<Longrightarrow> timestamp s \<le> timestamp t"
  unfolding timestamp_def by (intro fl_mono) (simp add: divide_right_mono)

lemma bucket_bounds:
  assumes "s \<le> t" "0 < width" "0 < buckets"
  shows "0 \<le> bucket (timestamp s) width buckets t \<and> bucket (timestamp s) width buckets t < buckets"
proof -
  have "0 \<le> fl (fl (fl (timestamp t - timestamp s) / width) * of_int buckets)"
    using timestamp_mono [OF assms(1)] assms(2,3)
    by (intro fl_nonneg mult_nonneg_nonneg divide_nonneg_pos) simp_all
  then show ?thesis using assms(3) by (auto simp: bucket_def trunc_def Let_def)
qed

lemma downsample_length:
  assumes after: "\<forall>p\<in>set raw. fst (hd raw) \<le> fst p" and m: "2 \<le> m"
  shows "length (downsample raw m) \<le> m"
proof (cases "length raw \<le> m \<or> m < 3 \<or> fl (timestamp (fst (last raw)) - timestamp (fst (hd raw))) \<le> 0")
  case True
  then show ?thesis using m by (auto simp: downsample_def Let_def)
next
  case False
  define w where "w = fl (timestamp (fst (last raw)) - timestamp (fst (hd raw)))"
  define B where "B = (\<lambda>p. bucket (timestamp (fst (hd raw))) w (int m - 2) (fst p)) ` set (butlast (tl raw))"
  have len: "length (downsample raw m) = 2 + card B"
    using False by (simp add: downsample_def Let_def w_def B_def image_image)
  have "B \<subseteq> {0..<int m - 2}"
  proof
    fix i
    assume "i \<in> B"
    then obtain p where p: "p \<in> set (butlast (tl raw))"
        "i = bucket (timestamp (fst (hd raw))) w (int m - 2) (fst p)"
      by (auto simp: B_def)
    have "p \<in> set raw" using p(1) by (cases raw) (auto dest: in_set_butlastD)
    then show "i \<in> {0..<int m - 2}"
      using bucket_bounds [of "fst (hd raw)" "fst p" w "int m - 2"] after False p(2) by (auto simp: w_def)
  qed
  then have "card B \<le> card {0..<int m - 2}" by (intro card_mono) simp_all
  then have "card B \<le> m - 2" by simp
  then show ?thesis using False len by linarith
qed

text \<open>The buckets come in time order, so the chart's line never runs backwards.\<close>

lemma bucket_mono:
  assumes "s \<le> t" "0 < width" "0 \<le> buckets"
  shows "bucket t0 width buckets s \<le> bucket t0 width buckets t"
proof -
  have "fl (fl (fl (timestamp s - t0) / width) * of_int buckets)
      \<le> fl (fl (fl (timestamp t - t0) / width) * of_int buckets)"
    using timestamp_mono [OF assms(1)] assms(2,3)
    by (intro fl_mono mult_right_mono divide_right_mono) (simp_all add: fl_mono divide_right_mono)
  then have "trunc (fl (fl (fl (timestamp s - t0) / width) * of_int buckets))
      \<le> trunc (fl (fl (fl (timestamp t - t0) / width) * of_int buckets))"
    by (auto simp: trunc_def floor_mono)
      (metis floor_mono le_minus_iff neg_le_iff_le neg_0_le_iff_le zero_le_floor linear order_trans)
  then show ?thesis by (auto simp: bucket_def Let_def)
qed

lemma kept_bucket:
  assumes "i \<in> set (map fst (map (\<lambda>p. (f p, p)) xs))"
  shows "the (map_of (rev (map (\<lambda>p. (f p, p)) xs)) i) \<in> set xs
    \<and> f (the (map_of (rev (map (\<lambda>p. (f p, p)) xs)) i)) = i"
proof -
  have "map_of (rev (map (\<lambda>p. (f p, p)) xs)) i \<noteq> None"
    using assms by (simp only: map_of_eq_None_iff) (simp add: rev_map image_image)
  then obtain v where v: "map_of (rev (map (\<lambda>p. (f p, p)) xs)) i = Some v" by auto
  then have "(i, v) \<in> set (rev (map (\<lambda>p. (f p, p)) xs))" by (rule map_of_SomeD)
  then show ?thesis using v by auto
qed

lemma sorted_between:
  fixes lo hi :: int
  assumes "sorted (map t ks)" "\<And>i. i \<in> set ks \<Longrightarrow> lo \<le> t i \<and> t i \<le> hi" "lo \<le> hi"
  shows "sorted (lo # map t ks @ [hi])"
  using assms by (auto simp: sorted_append)

lemma downsample_sorted:
  assumes srt: "sorted (map fst raw)"
  shows "sorted (map fst (downsample raw m))"
proof (cases "length raw \<le> m")
  case True
  then show ?thesis using srt by (simp add: downsample_def)
next
  case False
  then obtain a rest where raw: "raw = a # rest" by (cases raw) auto
  show ?thesis
  proof (cases "rest = []")
    case True
    then show ?thesis using False srt by (auto simp: raw downsample_def Let_def)
  next
    case rest: False
    let ?z = "last rest"
    have ends: "fst a \<le> fst ?z" using srt rest by (simp add: raw)
    define w where "w = fl (timestamp (fst ?z) - timestamp (fst a))"
    define f where "f = (\<lambda>p::point_event. bucket (timestamp (fst a)) w (int m - 2) (fst p))"
    let ?I = "map (\<lambda>p. (f p, p)) (butlast rest)"
    let ?k = "\<lambda>i. the (map_of (rev ?I) i)"
    let ?ks = "sorted_list_of_set (set (map fst ?I))"
    show ?thesis
    proof (cases "m < 3 \<or> w \<le> 0")
      case True
      then show ?thesis using False rest ends by (auto simp: raw downsample_def Let_def w_def)
    next
      case wide: False
      have mem: "?k i \<in> set (butlast rest) \<and> f (?k i) = i" if "i \<in> set ?ks" for i
        using kept_bucket [of i f "butlast rest"] that by (simp only: set_sorted_list_of_set finite_set)
      have between: "fst a \<le> fst p \<and> fst p \<le> fst ?z" if "p \<in> set (butlast rest)" for p
      proof -
        have "rest = butlast rest @ [?z]" using rest by simp
        then have "sorted (map fst (butlast rest) @ [fst ?z])" "\<forall>p\<in>set rest. fst a \<le> fst p"
          using srt by (simp_all add: raw) (metis list.simps(8,9) map_append)
        then show ?thesis using that in_set_butlastD by (fastforce simp: sorted_append)
      qed
      have "sorted_wrt (\<lambda>i j. fst (?k i) \<le> fst (?k j)) ?ks"
      proof (rule sorted_wrt_mono_rel)
        show "sorted_wrt (<) ?ks" by (rule strict_sorted_list_of_set)
        fix i j
        assume ij: "i \<in> set ?ks" "j \<in> set ?ks" "i < j"
        show "fst (?k i) \<le> fst (?k j)"
        proof (rule ccontr)
          assume "\<not> fst (?k i) \<le> fst (?k j)"
          then have "f (?k j) \<le> f (?k i)"
            unfolding f_def using wide by (intro bucket_mono) auto
          then show False using mem [OF ij(1)] mem [OF ij(2)] ij(3) by simp
        qed
      qed
      then have mid: "sorted (map (\<lambda>i. fst (?k i)) ?ks)" by (simp add: sorted_wrt_map)
      have "downsample raw m = a # map ?k ?ks @ [?z]"
        using False wide rest by (simp add: raw downsample_def Let_def w_def f_def del: map_map)
      moreover have "map fst (a # map ?k ?ks @ [?z]) = fst a # map (\<lambda>i. fst (?k i)) ?ks @ [fst ?z]"
        by simp
      moreover have "sorted (fst a # map (\<lambda>i. fst (?k i)) ?ks @ [fst ?z])"
        using mem between ends by (intro sorted_between [OF mid]) blast+
      ultimately show ?thesis by (simp only:)
    qed
  qed
qed

lemma running_sorted: "sorted (map fst evs) \<Longrightarrow> sorted (map fst (running a evs))"
  by (simp add: map_fst_running)

text \<open>
  The chart is bounded and never misleads: a series of events none of which precedes the start
  is sent as at most \<open>max_points\<close> points (from two on), in time order, every one of them a true
  running total, from the zero baseline to the exact final total.
\<close>

theorem chart_bounded:
  assumes "sorted (map fst evs)" "\<forall>p\<in>set evs. start \<le> fst p" "2 \<le> m"
  shows "length (series_points evs start (Some m)) \<le> m
    \<and> sorted (map fst (series_points evs start (Some m)))
    \<and> set (series_points evs start (Some m)) \<subseteq> set (series_points evs start None)
    \<and> hd (series_points evs start (Some m)) = (start, 0)
    \<and> last (series_points evs start (Some m)) = last (series_points evs start None)"
proof -
  let ?raw = "(start, 0) # running 0 evs"
  have after: "\<forall>p\<in>set ?raw. fst (hd ?raw) \<le> fst p"
    using running_times [of _ 0 evs] assms(2) by fastforce
  have srt: "sorted (map fst ?raw)"
    using running_sorted [OF assms(1), of 0] after by auto
  show ?thesis
    using downsample_length [OF after assms(3)] downsample_sorted [OF srt, of m]
      set_downsample [of ?raw m] downsample_last [of ?raw m]
    by (simp add: series_points_def Let_def) (simp add: downsample_def Let_def)
qed

theorem chart_bounded_witness:
  "length (series_points [(10, 5), (20, 5), (30, -3), (40, 7)] 0 (Some 3)) \<le> 3"
  using chart_bounded [of "[(10, 5), (20, 5), (30, -3), (40, 7)]" 0 3] by simp

text \<open>
  With events before the start (a staff member's solve, a start moved later) buckets are negative,
  which only their upper end is clamped for: the cap is missed.
\<close>

lemma chart_cap_missed:
  "length (series_points [(0, 5), (10000000, 5), (20000000, 5)] 10000000 (Some 3)) = 4"
proof -
  have ts: "timestamp 0 = 0" "timestamp 10000000 = 10" "timestamp 20000000 = 20"
    using fl_int [of 10] fl_int [of 20] by (simp_all add: timestamp_def)
  have fl: "fl 10 = 10" "fl (- 1) = - 1" "fl (- 10) = - 10"
    using fl_int [of 10] fl_int [of "- 1"] fl_int [of "- 10"] by simp_all
  show ?thesis
    by (simp add: series_points_def downsample_def bucket_def trunc_def ts fl Let_def numeral_3_eq_3)
qed

end
