(* ===== verification/Insights.thy ===== *)
theory Insights
  imports Timeline "HOL-Library.AList"
begin

text \<open>
  The spectator insights and the recent-activity feed (\<open>utils/public_insights.py\<close>), the
  subject count they share with the staff analytics (\<open>utils/analytics.py\<close>), and the routes
  that serve them (\<open>routers/public_scoreboard.py\<close>, the timeline route of
  \<open>routers/scoreboard.py\<close>). A Python dictionary whose order is observable is an association
  list updated in place by \<open>AList.update\<close>.
\<close>

section \<open>Shared figures\<close>

definition subject_count :: "db \<Rightarrow> competition \<Rightarrow> nat" where
  "subject_count d c =
     (if co_participation_mode c = Team_Mode
      then count_where (\<lambda>t. te_competition_id t = co_id c) (db_teams d)
      else card (set (map ra_user_id (filter (\<lambda>a. ra_competition_id a = Some (co_id c)
              \<and> exists_where (\<lambda>r. ro_id r = ra_role_id a \<and> ro_name r = ''Participant'') (db_roles d))
            (db_assignments d)))))"

text \<open>\<open>(id, title, category name)\<close> of the challenges a spectator may know about, as of now.\<close>

type_synonym visible_row = "ident \<times> string \<times> string option"

definition visible_rows :: "time \<Rightarrow> db \<Rightarrow> ident \<Rightarrow> visible_row list" where
  "visible_rows now d cid =
     map (\<lambda>ch. (ch_id ch, ch_title ch,
           Option.bind (ch_category_id ch)
             (\<lambda>k. map_option ca_name (find (\<lambda>ca. ca_id ca = k) (db_categories d)))))
       (filter (\<lambda>ch. ch_competition_id ch = cid \<and> ch_state ch = Published
                    \<and> (case ch_release_at ch of None \<Rightarrow> True | Some t \<Rightarrow> t \<le> now)) (db_challenges d))"

definition visible_challenges :: "time \<Rightarrow> db \<Rightarrow> ident \<Rightarrow> (ident \<times> string) list" where
  "visible_challenges now d cid = map (\<lambda>(i, t, _). (i, t)) (visible_rows now d cid)"

text \<open>\<open>dict(pairs)\<close> read by key: the last pair of a key counts.\<close>

definition dict_of :: "('k \<times> 'v) list \<Rightarrow> 'k \<Rightarrow> 'v option" where
  "dict_of ps = map_of (rev ps)"

definition first_solvers ::
  "solve list \<Rightarrow> (ident \<Rightarrow> string option) \<Rightarrow> (ident \<times> time \<times> ident option) list" where
  "first_solvers solves titles =
     fold (\<lambda>(cid, sid, ts, _) first.
        if titles cid = None then first
        else (case map_of first cid of
            None \<Rightarrow> AList.update cid (ts, sid) first
          | Some (t, _) \<Rightarrow> if ts < t then AList.update cid (ts, sid) first else first))
       solves []"

text \<open>\<open>counts[k] = counts.get(k, 0) + 1\<close> over a list of keys.\<close>

definition tally :: "'k list \<Rightarrow> ('k \<times> nat) list" where
  "tally ks = fold (\<lambda>k counts. AList.update k (coalesce (map_of counts k) 0 + 1) counts) ks []"

text \<open>\<open>max(items, key=..., default=None)\<close>: the first item with the greatest count.\<close>

fun best_item :: "('k \<times> nat) list \<Rightarrow> ('k \<times> nat) option" where
  "best_item [] = None"
| "best_item (p # ps) =
     (case best_item ps of None \<Rightarrow> Some p | Some q \<Rightarrow> if snd p < snd q then Some q else Some p)"

section \<open>Categories\<close>

record category_row =
  cb_name :: "string option"
  cb_challenges :: nat
  cb_solved :: nat
  cb_solves :: nat

text \<open>
  The rows keyed by category, with the ids counted as solved: one pass over the visible
  challenges, one over the solves, and the sort by name with the uncategorised row last.
\<close>

definition category_entry ::
  "visible_row \<Rightarrow> (string option \<times> category_row) list \<Rightarrow> (string option \<times> category_row) list" where
  "category_entry v rows =
     (let (_, _, k) = v;
          row = coalesce (map_of rows k) \<lparr>cb_name = k, cb_challenges = 0, cb_solved = 0, cb_solves = 0\<rparr>
      in AList.update k (row\<lparr>cb_challenges := cb_challenges row + 1\<rparr>) rows)"

definition category_inventory :: "visible_row list \<Rightarrow> (string option \<times> category_row) list" where
  "category_inventory visible = fold category_entry visible []"

definition category_solve ::
  "(ident \<Rightarrow> string option option) \<Rightarrow> solve \<Rightarrow> (string option \<times> category_row) list \<times> ident list
   \<Rightarrow> (string option \<times> category_row) list \<times> ident list" where
  "category_solve category_of s state =
     (let (rows, solved) = state; (cid, _, _, _) = s in
      case category_of cid of
        None \<Rightarrow> (rows, solved)
      | Some k \<Rightarrow>
          (let row = the (map_of rows k); row1 = row\<lparr>cb_solves := cb_solves row + 1\<rparr> in
           if cid \<in> set solved then (AList.update k row1 rows, solved)
           else (AList.update k (row1\<lparr>cb_solved := cb_solved row1 + 1\<rparr>) rows, cid # solved)))"

definition categories :: "visible_row list \<Rightarrow> solve list \<Rightarrow> category_row list" where
  "categories visible solves =
     (let category_of = dict_of (map (\<lambda>(i, _, k). (i, k)) visible);
          rows = fst (fold (category_solve category_of) solves (category_inventory visible, []))
      in sort_key (\<lambda>r. (if cb_name r = None then (1::nat) else 0, coalesce (cb_name r) []))
           (map snd rows))"

section \<open>Highlights\<close>

record highlights =
  hl_most_solved :: "(string \<times> nat) option"
  hl_most_attempted :: "(string \<times> nat) option"
  hl_first_blood_leader :: "(string \<times> nat) option"
  hl_fastest_solve :: "(string \<times> string \<times> rat) option"

text \<open>\<open>names.get(sid, ...)\<close> with the dash the code falls back to; seconds are a float.\<close>

definition name_of :: "(ident \<Rightarrow> string option) \<Rightarrow> ident option \<Rightarrow> string" where
  "name_of names sid = coalesce (Option.bind sid names) ''-''"

definition solve_seconds :: "time \<Rightarrow> time \<Rightarrow> rat" where
  "solve_seconds reference ts = max 0 (fl (of_int (ts - reference) / 1000000))"

definition highlights_of ::
  "solve list \<Rightarrow> (ident \<times> nat) list \<Rightarrow> (ident \<Rightarrow> string option) \<Rightarrow> (ident \<Rightarrow> string option)
   \<Rightarrow> time \<Rightarrow> highlights" where
  "highlights_of solves attempts titles names reference =
     (let shown = filter (\<lambda>(cid, _). titles cid \<noteq> None) solves;
          most_solved = best_item (tally (map fst shown));
          most_attempted = best_item (filter (\<lambda>(cid, _). titles cid \<noteq> None) attempts);
          leader = best_item (tally (map (\<lambda>(_, _, sid). sid) (first_solvers solves titles)));
          fastest = fold (\<lambda>(cid, sid, ts, _) best.
              let s = solve_seconds reference ts in
              case best of
                None \<Rightarrow> Some (the (titles cid), name_of names sid, s)
              | Some (_, _, b) \<Rightarrow>
                  if s < b then Some (the (titles cid), name_of names sid, s) else best) shown None
      in \<lparr>hl_most_solved = map_option (\<lambda>(k, n). (the (titles k), n)) most_solved,
          hl_most_attempted = map_option (\<lambda>(k, n). (the (titles k), n)) most_attempted,
          hl_first_blood_leader = map_option (\<lambda>(sid, n). (name_of names sid, n)) leader,
          hl_fastest_solve = fastest\<rparr>)"

section \<open>The two payloads\<close>

record insights =
  in_frozen :: bool
  in_frozen_at :: "time option"
  in_participants :: nat
  in_solves :: nat
  in_challenges :: nat
  in_unsolved :: int
  in_highlights :: highlights
  in_categories :: "category_row list"
  in_timeline :: timeline

text \<open>
  \<open>SELECT challenge_id, COUNT(id) ... GROUP BY challenge_id\<close>; the order of the groups is
  the database's, the parameter \<open>order\<close>.
\<close>

definition attempt_counts ::
  "(ident list \<Rightarrow> ident list) \<Rightarrow> db \<Rightarrow> ident \<Rightarrow> time option \<Rightarrow> (ident \<times> nat) list" where
  "attempt_counts order d cid as_of =
     (let rows = filter (\<lambda>r. su_competition_id r = cid \<and> up_to as_of (su_created_at r)) (db_submissions d)
      in map (\<lambda>k. (k, count_where (\<lambda>r. su_challenge_id r = k) rows))
           (order (remdups (map su_challenge_id rows))))"

definition fresh_insights ::
  "(ident list \<Rightarrow> ident list) \<Rightarrow> time \<Rightarrow> db \<Rightarrow> competition \<Rightarrow> insights" where
  "fresh_insights order now d c =
     (let team_mode = (co_participation_mode c = Team_Mode);
          as_of = freeze_cutoff now c;
          board = compute_scoreboard now d c False None;
          rows = visible_rows now d (co_id c);
          titles = dict_of (map (\<lambda>(i, t, _). (i, t)) rows);
          names = dict_of (map (\<lambda>e. (be_subject_id e, be_name e)) (bo_entries board));
          solves = awarded_solves d c team_mode as_of;
          shown = filter (\<lambda>(cid, _). titles cid \<noteq> None) solves
      in \<lparr>in_frozen = bo_frozen board, in_frozen_at = bo_frozen_at board,
          in_participants = subject_count d c, in_solves = length shown,
          in_challenges = length rows,
          in_unsolved = int (length rows) - int (card (set (map fst shown))),
          in_highlights = highlights_of solves (attempt_counts order d (co_id c) as_of) titles names
             (solve_time_reference c),
          in_categories = categories rows solves,
          in_timeline = build_timeline now d c team_mode as_of solves (bo_entries board)
             (nat TIMELINE_SUBJECTS) (Some TIMELINE_MAX_POINTS)\<rparr>)"

record activity_row =
  av_challenge_id :: ident
  av_title :: string
  av_subject_name :: string
  av_solved_at :: time
  av_points :: int
  av_is_first_blood :: bool

definition fresh_activity :: "time \<Rightarrow> db \<Rightarrow> competition \<Rightarrow> nat \<Rightarrow> activity_row list" where
  "fresh_activity now d c limit =
     (let team_mode = (co_participation_mode c = Team_Mode);
          as_of = freeze_cutoff now c;
          board = compute_scoreboard now d c False None;
          names = dict_of (map (\<lambda>e. (be_subject_id e, be_name e)) (bo_entries board));
          titles = dict_of (visible_challenges now d (co_id c));
          solves = awarded_solves d c team_mode as_of;
          first = first_solvers solves titles;
          recent = take limit (sort_key (\<lambda>(_, _, ts, _). - ts)
             (filter (\<lambda>(cid, _). titles cid \<noteq> None) solves))
      in map (\<lambda>(cid, sid, ts, v).
           \<lparr>av_challenge_id = cid, av_title = the (titles cid), av_subject_name = name_of names sid,
            av_solved_at = ts, av_points = v,
            av_is_first_blood = (map_of first cid = Some (ts, sid))\<rparr>) recent)"

text \<open>The memo both endpoints keep per competition; a lifetime that is not positive turns it off.\<close>

type_synonym 'a memo = "ident \<Rightarrow> (time \<times> 'a) option"

definition memoised :: "time \<Rightarrow> time \<Rightarrow> ident \<Rightarrow> 'a \<Rightarrow> 'a memo \<Rightarrow> 'a \<times> 'a memo" where
  "memoised ttl clock cid fresh memo =
     (if 0 < ttl
      then (case memo cid of
              Some (expiry, p) \<Rightarrow> if clock < expiry then (p, memo) else (fresh, memo(cid \<mapsto> (clock + ttl, fresh)))
            | None \<Rightarrow> (fresh, memo(cid \<mapsto> (clock + ttl, fresh))))
      else (fresh, memo))"

definition public_insights ::
  "(ident list \<Rightarrow> ident list) \<Rightarrow> time \<Rightarrow> time \<Rightarrow> time \<Rightarrow> db \<Rightarrow> competition \<Rightarrow> insights memo
   \<Rightarrow> insights \<times> insights memo" where
  "public_insights order ttl clock now d c memo =
     memoised ttl clock (co_id c) (fresh_insights order now d c) memo"

definition recent_activity ::
  "time \<Rightarrow> time \<Rightarrow> time \<Rightarrow> db \<Rightarrow> competition \<Rightarrow> nat \<Rightarrow> activity_row list memo
   \<Rightarrow> activity_row list \<times> activity_row list memo" where
  "recent_activity ttl clock now d c limit memo =
     memoised ttl clock (co_id c) (fresh_activity now d c limit) memo"

section \<open>Routes\<close>

definition public_competition_insights ::
  "(ident list \<Rightarrow> ident list) \<Rightarrow> time \<Rightarrow> time \<Rightarrow> time \<Rightarrow> db \<Rightarrow> ident \<Rightarrow> insights memo
   \<Rightarrow> insights res \<times> insights memo" where
  "public_competition_insights order ttl clock now d cid memo =
     (case load_public_competition d cid of
        Inl e \<Rightarrow> (Inl e, memo)
      | Inr c \<Rightarrow> (let (p, memo') = public_insights order ttl clock now d c memo in (Inr p, memo')))"

definition public_competition_activity ::
  "time \<Rightarrow> time \<Rightarrow> time \<Rightarrow> db \<Rightarrow> ident \<Rightarrow> activity_row list memo
   \<Rightarrow> activity_row list res \<times> activity_row list memo" where
  "public_competition_activity ttl clock now d cid memo =
     (case load_public_competition d cid of
        Inl e \<Rightarrow> (Inl e, memo)
      | Inr c \<Rightarrow> (let (p, memo') = recent_activity ttl clock now d c 25 memo in (Inr p, memo')))"

definition public_competitions :: "db \<Rightarrow> competition list" where
  "public_competitions d =
     sort_key (\<lambda>c. case co_start_at c of None \<Rightarrow> (1::int, 0) | Some t \<Rightarrow> (0, - t))
       (filter (\<lambda>c. co_public_scoreboard c \<and> co_archived_at c = None) (db_competitions d))"

definition get_scoreboard_timeline ::
  "time \<Rightarrow> time \<Rightarrow> time \<Rightarrow> db \<Rightarrow> ident \<Rightarrow> ident \<Rightarrow> bool \<Rightarrow> string option \<Rightarrow> int \<Rightarrow> timeline_cache
   \<Rightarrow> timeline res \<times> timeline_cache" where
  "get_scoreboard_timeline ttl clock now d u cid live bracket top_n cache =
     (case get_competition d cid of
        None \<Rightarrow> (Inl (HTTPException 404 ''Competition not found''), cache)
      | Some c \<Rightarrow>
          (case require_started d c u of
             Inl e \<Rightarrow> (Inl e, cache)
           | Inr _ \<Rightarrow>
               (let allow_live = live \<and> user_has_permission d u ''scoreboard_freeze'' (Some cid);
                    (t, cache') = compute_timeline ttl clock now d c allow_live
                       (if coalesce bracket [] = [] then None else bracket) top_n
                       (Some TIMELINE_MAX_POINTS) cache
                in (Inr t, cache'))))"


section \<open>The freeze is absolute\<close>

text \<open>
  The second database differs from the first only by what was recorded after the cutoff, and by
  the points stored on solves (a later solve re-values the earlier ones).
\<close>

definition same_until :: "time \<Rightarrow> db \<Rightarrow> db \<Rightarrow> bool" where
  "same_until cutoff d e \<longleftrightarrow>
     e = d\<lparr>db_submissions := db_submissions e, db_hint_reveals := db_hint_reveals e,
          db_adjustments := db_adjustments e, db_achievements := db_achievements e\<rparr>
     \<and> seen_at cutoff (db_submissions e) = seen_at cutoff (db_submissions d)
     \<and> filter (\<lambda>r. hr_created_at r \<le> cutoff) (db_hint_reveals e)
         = filter (\<lambda>r. hr_created_at r \<le> cutoff) (db_hint_reveals d)
     \<and> filter (\<lambda>r. sa_created_at r \<le> cutoff) (db_adjustments e)
         = filter (\<lambda>r. sa_created_at r \<le> cutoff) (db_adjustments d)
     \<and> filter (\<lambda>r. ac_created_at r \<le> cutoff) (db_achievements e)
         = filter (\<lambda>r. ac_created_at r \<le> cutoff) (db_achievements d)"

lemma same_until_frame:
  assumes "same_until cutoff d e"
  shows "db_challenges e = db_challenges d" "db_teams e = db_teams d" "db_users e = db_users d"
    "db_roles e = db_roles d" "db_assignments e = db_assignments d" "db_categories e = db_categories d"
    "db_brackets e = db_brackets d"
proof -
  from assms obtain s h a w where "e = d\<lparr>db_submissions := s, db_hint_reveals := h,
      db_adjustments := a, db_achievements := w\<rparr>"
    unfolding same_until_def by blast
  then show "db_challenges e = db_challenges d" "db_teams e = db_teams d" "db_users e = db_users d"
    "db_roles e = db_roles d" "db_assignments e = db_assignments d" "db_categories e = db_categories d"
    "db_brackets e = db_brackets d"
    by simp_all
qed

lemma same_until_parts:
  assumes "same_until cutoff d e"
  shows "seen_at cutoff (db_submissions e) = seen_at cutoff (db_submissions d)"
    "filter (\<lambda>r. hr_created_at r \<le> cutoff) (db_hint_reveals e)
       = filter (\<lambda>r. hr_created_at r \<le> cutoff) (db_hint_reveals d)"
    "filter (\<lambda>r. sa_created_at r \<le> cutoff) (db_adjustments e)
       = filter (\<lambda>r. sa_created_at r \<le> cutoff) (db_adjustments d)"
    "filter (\<lambda>r. ac_created_at r \<le> cutoff) (db_achievements e)
       = filter (\<lambda>r. ac_created_at r \<le> cutoff) (db_achievements d)"
  using assms unfolding same_until_def by blast+

lemma same_until_rows:
  assumes "same_until cutoff d e"
  shows "filter (\<lambda>r. P r \<and> Q r \<and> up_to (Some cutoff) (hr_created_at r)) (db_hint_reveals e)
      = filter (\<lambda>r. P r \<and> Q r \<and> up_to (Some cutoff) (hr_created_at r)) (db_hint_reveals d)"
    and "filter (\<lambda>r. P' r \<and> Q' r \<and> up_to (Some cutoff) (sa_created_at r)) (db_adjustments e)
      = filter (\<lambda>r. P' r \<and> Q' r \<and> up_to (Some cutoff) (sa_created_at r)) (db_adjustments d)"
    and "filter (\<lambda>r. P'' r \<and> Q'' r \<and> up_to (Some cutoff) (ac_created_at r)) (db_achievements e)
      = filter (\<lambda>r. P'' r \<and> Q'' r \<and> up_to (Some cutoff) (ac_created_at r)) (db_achievements d)"
proof -
  have split: "filter (\<lambda>r. A r \<and> B r \<and> C r) xs = filter A (filter B (filter C xs))"
    for A B C and xs :: "'r list"
    by (induction xs) auto
  show "filter (\<lambda>r. P r \<and> Q r \<and> up_to (Some cutoff) (hr_created_at r)) (db_hint_reveals e)
      = filter (\<lambda>r. P r \<and> Q r \<and> up_to (Some cutoff) (hr_created_at r)) (db_hint_reveals d)"
    unfolding split by (simp only: up_to_def option.case same_until_parts [OF assms])
  show "filter (\<lambda>r. P' r \<and> Q' r \<and> up_to (Some cutoff) (sa_created_at r)) (db_adjustments e)
      = filter (\<lambda>r. P' r \<and> Q' r \<and> up_to (Some cutoff) (sa_created_at r)) (db_adjustments d)"
    unfolding split by (simp only: up_to_def option.case same_until_parts [OF assms])
  show "filter (\<lambda>r. P'' r \<and> Q'' r \<and> up_to (Some cutoff) (ac_created_at r)) (db_achievements e)
      = filter (\<lambda>r. P'' r \<and> Q'' r \<and> up_to (Some cutoff) (ac_created_at r)) (db_achievements d)"
    unfolding split by (simp only: up_to_def option.case same_until_parts [OF assms])
qed

lemma frozen_value_frame: "db_challenges e = db_challenges d \<Longrightarrow> frozen_value e c = frozen_value d c"
  by (intro ext) (simp add: frozen_value_def)

lemma same_until_awarded:
  assumes "same_until cutoff d e"
  shows "awarded_by_subject e c tm (Some cutoff) = awarded_by_subject d c tm (Some cutoff)"
  by (rule ext) (simp only: awarded_by_subject_def option.case frozen_totals_seen Let_def
      frozen_value_frame [OF same_until_frame(1) [OF assms]] same_until_parts(1) [OF assms])

lemma same_until_costs:
  assumes "same_until cutoff d e"
  shows "hint_costs_by_subject e cid tm (Some cutoff) = hint_costs_by_subject d cid tm (Some cutoff)"
    "adjustments_by_subject e cid tm (Some cutoff) = adjustments_by_subject d cid tm (Some cutoff)"
    "award_points_by_subject e cid tm (Some cutoff) = award_points_by_subject d cid tm (Some cutoff)"
    "cost_rows e cid tm (Some cutoff) = cost_rows d cid tm (Some cutoff)"
  by (simp_all add: hint_costs_by_subject_def [abs_def] adjustments_by_subject_def [abs_def]
      award_points_by_subject_def [abs_def] cost_rows_def same_until_rows [OF assms])

lemma same_until_board:
  assumes "same_until cutoff d e" and "freeze_cutoff now c = Some cutoff"
  shows "compute_scoreboard now e c False bracket = compute_scoreboard now d c False bracket"
proof -
  have net: "net_points e c tm (Some cutoff) = net_points d c tm (Some cutoff)" for tm
    by (rule ext)
      (simp only: net_points_def same_until_awarded [OF assms(1)] same_until_costs [OF assms(1)])
  have last_at: "last_solve e c tm (Some cutoff) = last_solve d c tm (Some cutoff)" for tm
    by (rule ext) (simp only: last_solve_def same_until_awarded [OF assms(1)])
  have key: "board_key e c tm (Some cutoff) = board_key d c tm (Some cutoff)" for tm
    by (rule ext) (simp only: board_key_def net last_at)
  have rest: "board_subjects e c = board_subjects d c"
      "brackets_by_subject e (co_id c) = brackets_by_subject d (co_id c)"
    by (simp_all add: board_subjects_def brackets_by_subject_def same_until_frame [OF assms(1)])
  show ?thesis by (simp only: compute_scoreboard_def Let_def assms(2) if_False net last_at key rest)
qed

lemma same_until_solves:
  assumes "same_until cutoff d e"
  shows "awarded_solves e c tm (Some cutoff) = awarded_solves d c tm (Some cutoff)"
proof -
  let ?rows = "\<lambda>d. filter (\<lambda>r. su_created_at r \<le> cutoff) (base_rows d c tm)"
  have seen: "map pointless (?rows e) = map pointless (?rows d)"
    unfolding base_rows_def
    by (subst (1 2) filter_seen_at) (simp_all add: same_until_parts(1) [OF assms])
  have "awarded_solves x c tm (Some cutoff)
      = map (\<lambda>r. (su_challenge_id r, solve_col tm r, su_created_at r,
          frozen_value x c (count_solves (map pointless (?rows x))) r)) (map pointless (?rows x))" for x
    by (simp add: awarded_solves_def up_to_def Let_def count_solves_pointless frozen_value_pointless
        solve_col_def comp_def)
  then show ?thesis
    by (simp only: seen frozen_value_frame [OF same_until_frame(1) [OF assms]])
qed

lemma same_until_attempts:
  assumes "same_until cutoff d e"
  shows "attempt_counts order e cid (Some cutoff) = attempt_counts order d cid (Some cutoff)"
proof -
  let ?rows = "\<lambda>d. filter (\<lambda>r. su_competition_id r = cid \<and> su_created_at r \<le> cutoff) (db_submissions d)"
  have old: "map pointless (?rows x)
      = filter (\<lambda>r. su_competition_id r = cid) (seen_at cutoff (db_submissions x))" for x
    using filter_seen_at [of "\<lambda>r. su_competition_id r = cid" cutoff "db_submissions x"]
    by (simp add: conj_commute)
  have seen: "map pointless (?rows e) = map pointless (?rows d)"
    by (simp only: old same_until_parts(1) [OF assms])
  have "map su_challenge_id (map pointless rows) = map su_challenge_id rows" for rows
    by simp
  from arg_cong [OF seen, of "map su_challenge_id", unfolded this]
  have ids: "map su_challenge_id (?rows e) = map su_challenge_id (?rows d)" .
  have count: "count_where (\<lambda>r. su_challenge_id r = k) (map pointless rows)
      = count_where (\<lambda>r. su_challenge_id r = k) rows" for k rows
    by (induction rows) simp_all
  have counts: "count_where (\<lambda>r. su_challenge_id r = k) (?rows e)
      = count_where (\<lambda>r. su_challenge_id r = k) (?rows d)" for k
    using arg_cong [OF seen, of "count_where (\<lambda>r. su_challenge_id r = k)"] by (simp only: count)
  show ?thesis
    by (simp only: attempt_counts_def Let_def up_to_def option.case ids counts)
qed

text \<open>
  C7: The freeze is absolute for score movement: while a freeze is in effect, no submission (right or
  wrong), no re-valuation of an award, no hint reveal, no adjustment and no achievement after the cutoff
  changes the spectator page (stats, highlights, categories, chart) or the recent-activity feed in any
  figure. Two databases that differ only in such rows, in any number, give the same page and the same
  feed. (The participants and the released challenges are read live, on purpose, so both databases have
  the same; \<open>late_joiner_counts\<close>.)
\<close>

theorem spectators_see_nothing_new:
  assumes "freeze_cutoff now c = Some cutoff" and "same_until cutoff d e"
  shows "fresh_insights order now e c = fresh_insights order now d c
    \<and> fresh_activity now e c limit = fresh_activity now d c limit"
proof -
  have rows: "visible_rows now e cid = visible_rows now d cid" for cid
    by (simp add: visible_rows_def same_until_frame [OF assms(2)])
  have count: "subject_count e c = subject_count d c"
    by (simp add: subject_count_def same_until_frame [OF assms(2)])
  have line: "build_timeline now e c tm (Some cutoff) = build_timeline now d c tm (Some cutoff)" for tm
    by (intro ext)
      (simp add: build_timeline_def point_events_def [abs_def] same_until_costs [OF assms(2)] Let_def)
  show ?thesis
    by (simp only: fresh_insights_def fresh_activity_def visible_challenges_def Let_def assms(1) rows
        count line same_until_board [OF assms(2,1)] same_until_solves [OF assms(2)]
        same_until_attempts [OF assms(2)])
qed


section \<open>The figures agree\<close>

lemma keys_update: "fst ` set (AList.update k v rows) = insert k (fst ` set rows)"
  by (simp only: dom_map_of_conv_image_fst [symmetric] update_conv') simp

lemma distinct_keys_update: "distinct (map fst rows) \<Longrightarrow> distinct (map fst (AList.update k v rows))"
  by (rule distinct_update)

text \<open>Replacing one row of a keyed list moves a sum over the rows by the difference.\<close>

lemma sum_update:
  fixes f :: "'v \<Rightarrow> nat"
  assumes "distinct (map fst rows)"
  shows "sum_list (map (f \<circ> snd) (AList.update k v rows))
      + (case map_of rows k of None \<Rightarrow> 0 | Some w \<Rightarrow> f w)
    = sum_list (map (f \<circ> snd) rows) + f v"
  using assms
proof (induction rows)
  case Nil
  then show ?case by simp
next
  case (Cons p rows)
  show ?case
  proof (cases "fst p = k")
    case True
    with Cons.prems have "map_of rows k = None" by (auto simp: map_of_eq_None_iff)
    with True show ?thesis by (cases p) simp
  next
    case False
    with Cons show ?thesis by (cases p) (auto split: option.splits)
  qed
qed

definition row_sum :: "(category_row \<Rightarrow> nat) \<Rightarrow> (string option \<times> category_row) list \<Rightarrow> nat" where
  "row_sum f rows = sum_list (map (f \<circ> snd) rows)"

lemma row_sum_update:
  assumes "distinct (map fst rows)" and "map_of rows k = Some w"
  shows "row_sum f (AList.update k v rows) + f w = row_sum f rows + f v"
  using sum_update [OF assms(1), of f k v] assms(2) by (simp add: row_sum_def)

lemma row_sum_insert:
  assumes "distinct (map fst rows)" and "map_of rows k = None"
  shows "row_sum f (AList.update k v rows) = row_sum f rows + f v"
  using sum_update [OF assms(1), of f k v] assms(2) by (simp add: row_sum_def)

lemma inventory_sums:
  "distinct (map fst (category_inventory visible))
   \<and> fst ` set (category_inventory visible) = (\<lambda>(_, _, k). k) ` set visible
   \<and> row_sum cb_challenges (category_inventory visible) = length visible
   \<and> row_sum cb_solved (category_inventory visible) = 0
   \<and> row_sum cb_solves (category_inventory visible) = 0"
proof (induction visible rule: rev_induct)
  case Nil
  then show ?case by (simp add: category_inventory_def row_sum_def)
next
  case (snoc v visible)
  obtain i t k where v: "v = (i, t, k)" by (cases v)
  define rows where "rows = category_inventory visible"
  define row where "row = coalesce (map_of rows k) \<lparr>cb_name = k, cb_challenges = 0, cb_solved = 0, cb_solves = 0\<rparr>"
  let ?v = "row\<lparr>cb_challenges := cb_challenges row + 1\<rparr>"
  have step: "category_inventory (visible @ [v]) = AList.update k ?v rows"
    by (simp add: category_inventory_def category_entry_def v rows_def row_def Let_def)
  have dist: "distinct (map fst rows)" using snoc by (simp add: rows_def)
  have "row_sum cb_challenges (AList.update k ?v rows) = row_sum cb_challenges rows + 1
      \<and> row_sum cb_solved (AList.update k ?v rows) = row_sum cb_solved rows
      \<and> row_sum cb_solves (AList.update k ?v rows) = row_sum cb_solves rows"
  proof (cases "map_of rows k")
    case None
    then show ?thesis by (simp add: row_sum_insert [OF dist None] row_def)
  next
    case (Some w)
    show ?thesis
      using row_sum_update [OF dist Some, of cb_challenges ?v]
        row_sum_update [OF dist Some, of cb_solved ?v] row_sum_update [OF dist Some, of cb_solves ?v]
      by (simp add: row_def Some)
  qed
  then show ?case
    using snoc distinct_keys_update [OF dist, of k ?v]
    unfolding step keys_update rows_def [symmetric] by (simp add: v)
qed

lemma category_solve_sums:
  assumes dist: "distinct (map fst rows)"
    and known: "\<And>cid k. category_of cid = Some k \<Longrightarrow> k \<in> fst ` set rows"
    and fold: "fold (category_solve category_of) solves (rows, []) = (rows', solved)"
  shows "distinct (map fst rows') \<and> fst ` set rows' = fst ` set rows \<and> distinct solved
     \<and> set solved = fst ` set (filter (\<lambda>(cid, _). category_of cid \<noteq> None) solves)
     \<and> row_sum cb_challenges rows' = row_sum cb_challenges rows
     \<and> row_sum cb_solves rows' = row_sum cb_solves rows
         + length (filter (\<lambda>(cid, _). category_of cid \<noteq> None) solves)
     \<and> row_sum cb_solved rows' = row_sum cb_solved rows + length solved"
  using fold
proof (induction solves arbitrary: rows' solved rule: rev_induct)
  case Nil
  then show ?case using dist by simp
next
  case (snoc s solves)
  obtain cid sid ts v where s: "s = (cid, sid, ts, v)" by (cases s)
  obtain rows1 solved1 where before: "fold (category_solve category_of) solves (rows, []) = (rows1, solved1)"
    by fastforce
  note IH = snoc.IH [OF before]
  have step: "category_solve category_of s (rows1, solved1) = (rows', solved)"
    using snoc.prems before by simp
  show ?case
  proof (cases "category_of cid")
    case None
    then show ?thesis using IH step by (simp add: s category_solve_def)
  next
    case (Some k)
    then obtain w where w: "map_of rows1 k = Some w"
      using known IH by (metis domD dom_map_of_conv_image_fst)
    let ?row = "w\<lparr>cb_solves := cb_solves w + 1,
        cb_solved := cb_solved w + (if cid \<in> set solved1 then 0 else 1)\<rparr>"
    have new: "rows' = AList.update k ?row rows1"
        "solved = (if cid \<in> set solved1 then solved1 else cid # solved1)"
      using step by (auto simp: category_solve_def s Some w Let_def)
    have dist1: "distinct (map fst rows1)" using IH by simp
    have "fst ` set rows' = fst ` set rows1 \<and> distinct (map fst rows')"
      unfolding new keys_update using known [OF Some] IH dist1 by (auto simp: distinct_keys_update)
    moreover have "row_sum cb_challenges rows' = row_sum cb_challenges rows1
        \<and> row_sum cb_solves rows' = row_sum cb_solves rows1 + 1
        \<and> row_sum cb_solved rows' + length solved1 = row_sum cb_solved rows1 + length solved"
      using row_sum_update [OF dist1 w, of cb_challenges ?row]
        row_sum_update [OF dist1 w, of cb_solves ?row] row_sum_update [OF dist1 w, of cb_solved ?row]
      by (simp add: new split: if_splits)
    moreover have "distinct solved \<and> set solved = insert cid (set solved1)"
      using IH by (auto simp: new(2))
    ultimately show ?thesis using IH Some by (simp add: s) 
  qed
qed

lemma dict_of_None_iff: "dict_of ps k = None \<longleftrightarrow> k \<notin> fst ` set ps"
  by (simp add: dict_of_def map_of_eq_None_iff)

lemma categories_sum:
  "sum_list (map cb_challenges (categories visible solves)) = length visible
   \<and> sum_list (map cb_solves (categories visible solves))
       = length (filter (\<lambda>(cid, _). cid \<in> fst ` set visible) solves)
   \<and> sum_list (map cb_solved (categories visible solves))
       = card (fst ` set (filter (\<lambda>(cid, _). cid \<in> fst ` set visible) solves))"
proof -
  define category_of where "category_of = dict_of (map (\<lambda>(i, _, k). (i, k)) visible)"
  define rows where "rows = category_inventory visible"
  obtain rows' solved where final: "fold (category_solve category_of) solves (rows, []) = (rows', solved)"
    by fastforce
  note inv = inventory_sums [of visible, folded rows_def]
  have dist: "distinct (map fst rows)" using inv by blast
  have known: "k \<in> fst ` set rows" if "category_of cid = Some k" for cid k
  proof -
    have "(cid, k) \<in> set (rev (map (\<lambda>(i, _, k). (i, k)) visible))"
      using that unfolding category_of_def dict_of_def by (rule map_of_SomeD)
    then have "k \<in> (\<lambda>(_, _, k). k) ` set visible" by force
    then show ?thesis using inv by blast
  qed
  have "(category_of cid \<noteq> None) = (cid \<in> fst ` set visible)" for cid
    unfolding category_of_def dict_of_None_iff by force
  then have shown: "(\<lambda>(cid, _). category_of cid \<noteq> None) = (\<lambda>(cid, _ :: ident option \<times> time \<times> int). cid \<in> fst ` set visible)"
    by (simp only:)
  have "sum_list (map f (categories visible solves)) = row_sum f rows'" for f
    unfolding categories_def Let_def category_of_def [symmetric] rows_def [symmetric] final fst_conv
      sum_list_sort_key row_sum_def
    by simp
  moreover note category_solve_sums [OF dist known final, unfolded shown]
  ultimately show ?thesis using inv by (metis add_0 distinct_card)
qed

text \<open>
  The spectator page adds up: the category bars together show exactly the headline figures, i.e.
  their challenges are the visible challenges, their solves the solves, and their solved challenges
  those that are not unsolved.
\<close>

theorem spectator_figures_agree:
  "let p = fresh_insights order now d c in
     sum_list (map cb_challenges (in_categories p)) = in_challenges p
     \<and> sum_list (map cb_solves (in_categories p)) = in_solves p
     \<and> int (sum_list (map cb_solved (in_categories p))) = int (in_challenges p) - in_unsolved p"
proof -
  have "(dict_of (map (\<lambda>(i, t, _). (i, t)) rows) cid \<noteq> None) = (cid \<in> fst ` set rows)"
    for rows :: "visible_row list" and cid
    unfolding dict_of_None_iff by force
  then have same: "(\<lambda>(cid, _). dict_of (map (\<lambda>(i, t, _). (i, t)) rows) cid \<noteq> None)
      = (\<lambda>(cid, _ :: ident option \<times> time \<times> int). cid \<in> fst ` set rows)" for rows :: "visible_row list"
    by (simp only:)
  show ?thesis
    using categories_sum [of "visible_rows now d (co_id c)"]
    unfolding fresh_insights_def Let_def insights.simps same set_map by simp
qed


section \<open>A concrete freeze\<close>

text \<open>An adjustment granted after the cutoff of a frozen competition.\<close>

definition adjusted_db :: db where
  "adjusted_db = orphan_db\<lparr>db_adjustments := [\<lparr>sa_competition_id = ''A'', sa_points = 50,
     sa_reason = ''late'', sa_user_id = None, sa_team_id = Some ''T'', sa_rule_id = None,
     sa_created_at = 7\<rparr>]\<rparr>"

text \<open>A team that registers after the cutoff is counted at once.\<close>

lemma participants_live: "in_participants (fresh_insights order now d c) = subject_count d c"
  by (simp add: fresh_insights_def Let_def)

lemma late_joiner_counts:
  "let d = orphan_db\<lparr>db_teams := [red_team, red_team\<lparr>te_id := ''N'', te_created_at := 8\<rparr>]\<rparr>
   in in_participants (fresh_insights rev 9 orphan_db frozen_competition) = 1
      \<and> in_participants (fresh_insights rev 9 d frozen_competition) = 2"
  unfolding participants_live Let_def by code_simp

lemma spectators_see_nothing_new_witness:
  "fresh_insights rev 9 adjusted_db frozen_competition = fresh_insights rev 9 orphan_db frozen_competition
   \<and> compute_scoreboard 9 adjusted_db frozen_competition True None
       \<noteq> compute_scoreboard 9 orphan_db frozen_competition True None"
proof -
  have 1: "freeze_cutoff 9 frozen_competition = Some 5" by code_simp
  have 2: "same_until 5 orphan_db adjusted_db" by code_simp
  have 3: "compute_scoreboard 9 adjusted_db frozen_competition True None
      \<noteq> compute_scoreboard 9 orphan_db frozen_competition True None" by code_simp
  show ?thesis using spectators_see_nothing_new [OF 1 2, of rev 0] 3 by blast
qed

end
