(* ===== verification/Hints.thy ===== *)
theory Hints
  imports Submit Scoreboard
begin

text \<open>
  Hints (\<open>routers/hints.py\<close>, \<open>schemas/hint.py\<close>, the hint part of
  \<open>utils/automation_scheduler.py\<close>): authoring, listing, revealing for points, scheduled
  publication. The bodies of the routes follow their \<open>require_permission\<close> dependency, as in the
  other route theories.
\<close>

section \<open>Requests and responses\<close>

record hint_create =
  hn_body :: string
  hn_cost :: int
  hn_hidden :: bool
  hn_release_at :: "time option"

text \<open>An edit: \<open>None\<close> is a field not sent (or sent as null, which changes nothing); the schedule
  can be sent as null.\<close>

record hint_update =
  hp_body :: "string option"
  hp_cost :: "int option"
  hp_hidden :: "bool option"
  hp_release_at :: "time option option"

text \<open>\<open>HintRevealOut\<close>.\<close>

record hint_view =
  hv_id :: ident
  hv_challenge_id :: ident
  hv_cost :: int
  hv_revealed :: bool
  hv_body :: "string option"
  hv_hidden :: bool
  hv_release_at :: "time option"

definition get_scoped_hint :: "db \<Rightarrow> ident \<Rightarrow> ident \<Rightarrow> ident \<Rightarrow> hint res" where
  "get_scoped_hint d cid chid hid =
     (case find (\<lambda>h. hi_id h = hid \<and> hi_competition_id h = cid \<and> hi_challenge_id h = chid) (db_hints d) of
        None \<Rightarrow> Inl (HTTPException 404 ''Hint not found'')
      | Some h \<Rightarrow> Inr h)"

section \<open>Listing\<close>

definition editor_view :: "hint \<Rightarrow> hint_view" where
  "editor_view h = \<lparr>hv_id = hi_id h, hv_challenge_id = hi_challenge_id h, hv_cost = hi_cost h,
     hv_revealed = True, hv_body = Some (hi_body h), hv_hidden = hi_hidden h,
     hv_release_at = hi_release_at h\<rparr>"

definition competitor_view :: "ident set \<Rightarrow> hint \<Rightarrow> hint_view" where
  "competitor_view revealed h = \<lparr>hv_id = hi_id h, hv_challenge_id = hi_challenge_id h,
     hv_cost = hi_cost h, hv_revealed = (hi_id h \<in> revealed),
     hv_body = (if hi_id h \<in> revealed then Some (hi_body h) else None),
     hv_hidden = False, hv_release_at = None\<rparr>"

definition revealed_to :: "db \<Rightarrow> competition \<Rightarrow> ident \<Rightarrow> ident \<Rightarrow> ident set" where
  "revealed_to d c chid u =
     (case resolve_subject d c u of None \<Rightarrow> {} | Some s \<Rightarrow> revealed_hint_ids d chid s)"

definition list_hints :: "time \<Rightarrow> db \<Rightarrow> ident \<Rightarrow> ident \<Rightarrow> ident \<Rightarrow> hint_view list res" where
  "list_hints now d cid chid u =
     res_bind (load_visible_challenge now d cid chid u) (\<lambda>_.
     case get_competition d cid of
       None \<Rightarrow> Inl (HTTPException 500 ''Internal Server Error'')
     | Some c \<Rightarrow>
         res_bind (require_playable d c u) (\<lambda>_.
         let hints = sort_key hi_created_at
               (filter (\<lambda>h. hi_competition_id h = cid \<and> hi_challenge_id h = chid) (db_hints d))
         in if user_has_permission d u ''challenge_edit'' (Some cid)
            then Inr (map editor_view hints)
            else Inr (map (competitor_view (revealed_to d c chid u)) (filter (\<lambda>h. \<not> hi_hidden h) hints))))"

section \<open>Authoring\<close>

definition challenge_updated :: "ident \<Rightarrow> ident \<Rightarrow> event" where
  "challenge_updated cid chid =
     Event ''challenge.updated'' [(''competition_id'', PStr cid), (''challenge_id'', PStr chid)]"

definition hint_published :: "ident \<Rightarrow> ident \<Rightarrow> ident \<Rightarrow> event" where
  "hint_published cid chid hid = Event ''hint.published''
     [(''competition_id'', PStr cid), (''challenge_id'', PStr chid), (''hint_id'', PStr hid)]"

definition create_hint ::
  "ident \<Rightarrow> time \<Rightarrow> db \<Rightarrow> ident \<Rightarrow> ident \<Rightarrow> ident \<Rightarrow> hint_create \<Rightarrow> hint outcome" where
  "create_hint new_id now d cid chid u b =
     (case load_visible_challenge now d cid chid u of
        Inl e \<Rightarrow> (Inl e, d, [])
      | Inr _ \<Rightarrow>
          (let h = \<lparr>hi_id = new_id, hi_competition_id = cid, hi_challenge_id = chid, hi_body = hn_body b,
                 hi_cost = hn_cost b, hi_hidden = hn_hidden b, hi_release_at = hn_release_at b,
                 hi_created_at = now\<rparr>
           in (Inr h, d\<lparr>db_hints := db_hints d @ [h]\<rparr>, [challenge_updated cid chid])))"

definition edited_hint :: "hint_update \<Rightarrow> hint \<Rightarrow> hint" where
  "edited_hint b h = h\<lparr>hi_body := coalesce (hp_body b) (hi_body h), hi_cost := coalesce (hp_cost b) (hi_cost h),
     hi_hidden := coalesce (hp_hidden b) (hi_hidden h),
     hi_release_at := coalesce (hp_release_at b) (hi_release_at h)\<rparr>"

definition update_hint ::
  "db \<Rightarrow> ident \<Rightarrow> ident \<Rightarrow> ident \<Rightarrow> hint_update \<Rightarrow> hint outcome" where
  "update_hint d cid chid hid b =
     (case get_scoped_hint d cid chid hid of
        Inl e \<Rightarrow> (Inl e, d, [])
      | Inr h \<Rightarrow>
          (let h1 = edited_hint b h in
           (Inr h1, d\<lparr>db_hints := update_where (\<lambda>x. hi_id x = hid) (\<lambda>_. h1) (db_hints d)\<rparr>,
            challenge_updated cid chid
            # (if hi_hidden h \<and> \<not> hi_hidden h1 then [hint_published cid chid hid] else []))))"

text \<open>The reveals of a deleted hint go with it (\<open>ON DELETE CASCADE\<close>), and so do their costs.\<close>

definition delete_hint :: "db \<Rightarrow> ident \<Rightarrow> ident \<Rightarrow> ident \<Rightarrow> unit outcome" where
  "delete_hint d cid chid hid =
     (case get_scoped_hint d cid chid hid of
        Inl e \<Rightarrow> (Inl e, d, [])
      | Inr _ \<Rightarrow>
          (Inr (), d\<lparr>db_hints := delete_where (\<lambda>h. hi_id h = hid) (db_hints d),
                    db_hint_reveals := delete_where (\<lambda>r. hr_hint_id r = hid) (db_hint_reveals d)\<rparr>,
           [challenge_updated cid chid]))"

section \<open>Revealing\<close>

definition reveal_checks ::
  "time \<Rightarrow> db \<Rightarrow> ident \<Rightarrow> ident \<Rightarrow> ident \<Rightarrow> ident \<Rightarrow> (hint \<times> subject) res" where
  "reveal_checks now d cid chid hid u =
     res_bind (load_visible_challenge now d cid chid u) (\<lambda>_.
     res_bind (get_scoped_hint d cid chid hid) (\<lambda>h.
     res_bind (ensure (\<not> hi_hidden h) 404 ''Hint not found'') (\<lambda>_.
     case get_competition d cid of
       None \<Rightarrow> Inl (HTTPException 500 ''Internal Server Error'')
     | Some c \<Rightarrow>
         res_bind (require_playable d c u) (\<lambda>_.
         res_bind (ensure (\<not> paused_for d c u) 403 ''The competition is paused - hints are closed'') (\<lambda>_.
         case resolve_subject d c u of
           None \<Rightarrow> Inl (HTTPException 400 ''Join a team before revealing hints'')
         | Some s \<Rightarrow> Inr (h, s))))))"

definition reveal_row :: "time \<Rightarrow> ident \<Rightarrow> ident \<Rightarrow> ident \<Rightarrow> subject \<Rightarrow> hint \<Rightarrow> hint_reveal" where
  "reveal_row now cid chid u s h = \<lparr>hr_competition_id = cid, hr_hint_id = hi_id h, hr_challenge_id = chid,
     hr_user_id = u, hr_team_id = sj_team_id s, hr_cost_charged = hi_cost h, hr_created_at = now\<rparr>"

text \<open>
  \<open>read\<close> is the database the checks see, \<open>d\<close> the one the insert commits to: no constraint and
  no lock ties them together.
\<close>

definition reveal_hint ::
  "time \<Rightarrow> db \<Rightarrow> db \<Rightarrow> ident \<Rightarrow> ident \<Rightarrow> ident \<Rightarrow> ident \<Rightarrow> hint_view outcome" where
  "reveal_hint now read d cid chid hid u =
     (case reveal_checks now read cid chid hid u of
        Inl e \<Rightarrow> (Inl e, d, [])
      | Inr (h, s) \<Rightarrow>
          (let shown = \<lparr>hv_id = hi_id h, hv_challenge_id = hi_challenge_id h, hv_cost = hi_cost h,
                 hv_revealed = True, hv_body = Some (hi_body h), hv_hidden = False, hv_release_at = None\<rparr>
           in if subject_has_revealed read hid s then (Inr shown, d, [])
              else (Inr shown, d\<lparr>db_hint_reveals := db_hint_reveals d @ [reveal_row now cid chid u s h]\<rparr>,
                    [Event ''challenge.hint_requested''
                       [(''competition_id'', PStr cid), (''challenge_id'', PStr chid), (''hint_id'', PStr hid),
                        (''user_id'', PStr u), (''team_id'', pstr (sj_team_id s)), (''cost'', PInt (hi_cost h))]])))"

section \<open>Scheduled publication\<close>

definition hint_due :: "time \<Rightarrow> hint \<Rightarrow> bool" where
  "hint_due now h = (hi_hidden h \<and> (case hi_release_at h of None \<Rightarrow> False | Some t \<Rightarrow> t \<le> now))"

definition publish_scheduled_hints :: "time \<Rightarrow> db \<Rightarrow> db \<times> event list" where
  "publish_scheduled_hints now d =
     (d\<lparr>db_hints := update_where (hint_due now) (\<lambda>h. h\<lparr>hi_hidden := False\<rparr>) (db_hints d)\<rparr>,
      map (\<lambda>h. hint_published (hi_competition_id h) (hi_challenge_id h) (hi_id h))
        (filter (hint_due now) (db_hints d)))"

section \<open>Bodies stay confidential\<close>

lemma hints_frame [simp]:
  "user_has_permission (d\<lparr>db_hints := hs\<rparr>) = user_has_permission d"
  "get_competition (d\<lparr>db_hints := hs\<rparr>) = get_competition d"
  "load_visible_challenge now (d\<lparr>db_hints := hs\<rparr>) = load_visible_challenge now d"
  "require_playable (d\<lparr>db_hints := hs\<rparr>) = require_playable d"
  "resolve_subject (d\<lparr>db_hints := hs\<rparr>) = resolve_subject d"
  "paused_for (d\<lparr>db_hints := hs\<rparr>) = paused_for d"
  "subject_has_revealed (d\<lparr>db_hints := hs\<rparr>) = subject_has_revealed d"
  "revealed_to (d\<lparr>db_hints := hs\<rparr>) = revealed_to d"
proof -
  show *: "user_has_permission (d\<lparr>db_hints := hs\<rparr>) = user_has_permission d"
    by (intro ext user_has_permission_cong) simp_all
  show "get_competition (d\<lparr>db_hints := hs\<rparr>) = get_competition d"
    by (intro ext) (simp add: get_competition_def)
  show "load_visible_challenge now (d\<lparr>db_hints := hs\<rparr>) = load_visible_challenge now d"
    by (intro ext) (simp add: load_visible_challenge_def get_scoped_challenge_def * Let_def)
  show "require_playable (d\<lparr>db_hints := hs\<rparr>) = require_playable d"
    by (intro ext) (simp add: require_playable_def *)
  show "resolve_subject (d\<lparr>db_hints := hs\<rparr>) = resolve_subject d"
    by (intro ext) (simp add: resolve_subject_def)
  then show "revealed_to (d\<lparr>db_hints := hs\<rparr>) = revealed_to d"
    by (intro ext) (simp add: revealed_to_def revealed_hint_ids_def cong: option.case_cong)
  show "paused_for (d\<lparr>db_hints := hs\<rparr>) = paused_for d"
    by (intro ext) (simp add: paused_for_def *)
  show "subject_has_revealed (d\<lparr>db_hints := hs\<rparr>) = subject_has_revealed d"
    by (intro ext) (simp add: subject_has_revealed_def)
qed

text \<open>The database with every body the viewer's subject has not revealed replaced by another text.\<close>

definition rewrite_unrevealed :: "(hint \<Rightarrow> string) \<Rightarrow> ident \<Rightarrow> ident \<Rightarrow> ident \<Rightarrow> db \<Rightarrow> db" where
  "rewrite_unrevealed other cid chid u d =
     (let known = (case get_competition d cid of None \<Rightarrow> {} | Some c \<Rightarrow> revealed_to d c chid u) in
      d\<lparr>db_hints := map (\<lambda>h. if hi_id h \<in> known \<and> \<not> hi_hidden h then h else h\<lparr>hi_body := other h\<rparr>) (db_hints d)\<rparr>)"

lemma sort_key_map_same:
  assumes "\<And>x. k (f x) = k x"
  shows "sort_key k (map f xs) = map f (sort_key k xs)"
proof -
  have "insort_key k (f x) (map f ys) = map f (insort_key k x ys)" for x ys
    by (induction ys) (simp_all add: assms)
  then show ?thesis by (induction xs) simp_all
qed

lemma filter_map_same:
  assumes "\<And>x. P (f x) = P x"
  shows "filter P (map f xs) = map f (filter P xs)"
  by (induction xs) (simp_all add: assms)

lemma reveal_checks_ok:
  assumes "reveal_checks now d cid chid hid u = Inr (h, s)"
  shows "h \<in> set (db_hints d) \<and> hi_id h = hid \<and> \<not> hi_hidden h \<and> wf_subject s
    \<and> (\<exists>c. get_competition d cid = Some c \<and> resolve_subject d c u = Some s)"
  using assms resolve_subject_wf
  by (auto simp: reveal_checks_def get_scoped_hint_def res_bind_Inr_iff dest!: find_Some_in
      split: option.splits)

lemma revealed_filter_row:
  assumes "wf_subject s" "resolve_subject d c u = Some s" "hi_id h = hid"
  shows "subject_reveal_filter s (reveal_row now cid chid u s h)"
  using assms
  by (auto simp: subject_reveal_filter_def reveal_row_def resolve_subject_def split: if_splits option.splits)

text \<open>
  C37: Hint bodies are confidential: what a competitor gets from the list is the same whatever the
  bodies of the hints their subject has not revealed (and of every hidden hint) are, and the reveal
  route hands out a body only of a published hint and only with the reveal on record for the
  caller's subject.
\<close>

theorem hint_bodies_confidential:
  assumes "\<not> user_has_permission d u ''challenge_edit'' (Some cid)"
  shows "list_hints now (rewrite_unrevealed other cid chid u d) cid chid u = list_hints now d cid chid u
    \<and> (case reveal_hint now d d cid chid hid u of
         (Inl _, d', _) \<Rightarrow> d' = d
       | (Inr v, d', _) \<Rightarrow>
           list_ex (\<lambda>h. hi_id h = hid \<and> \<not> hi_hidden h \<and> hv_body v = Some (hi_body h)) (db_hints d)
           \<and> (case get_competition d cid of
                None \<Rightarrow> False
              | Some c \<Rightarrow> (case resolve_subject d c u of
                   None \<Rightarrow> False
                 | Some s \<Rightarrow> subject_has_revealed d' hid s)))"
proof -
  define known where "known = (case get_competition d cid of None \<Rightarrow> {} | Some c \<Rightarrow> revealed_to d c chid u)"
  define f where "f = (\<lambda>h. if hi_id h \<in> known \<and> \<not> hi_hidden h then h else h\<lparr>hi_body := other h\<rparr>)"
  have f: "hi_created_at (f h) = hi_created_at h" "hi_competition_id (f h) = hi_competition_id h"
    "hi_challenge_id (f h) = hi_challenge_id h" "hi_hidden (f h) = hi_hidden h" "hi_id (f h) = hi_id h"
    "hi_cost (f h) = hi_cost h" for h
    by (simp_all add: f_def)
  have rewritten: "rewrite_unrevealed other cid chid u d = d\<lparr>db_hints := map f (db_hints d)\<rparr>"
    by (simp only: rewrite_unrevealed_def Let_def known_def f_def)
  have written: "db_hints (d\<lparr>db_hints := hs\<rparr>) = hs" for hs
    by simp
  have views: "map (competitor_view known) (filter (\<lambda>h. \<not> hi_hidden h) (map f hs))
      = map (competitor_view known) (filter (\<lambda>h. \<not> hi_hidden h) hs)" for hs
    by (induction hs) (simp_all add: f competitor_view_def, simp add: f_def)
  have listed: "sort_key hi_created_at (filter (\<lambda>h. hi_competition_id h = cid \<and> hi_challenge_id h = chid)
        (map f (db_hints d)))
      = map f (sort_key hi_created_at
          (filter (\<lambda>h. hi_competition_id h = cid \<and> hi_challenge_id h = chid) (db_hints d)))"
    by (simp add: filter_map_same sort_key_map_same f)
  have "list_hints now (rewrite_unrevealed other cid chid u d) cid chid u = list_hints now d cid chid u"
  proof (cases "get_competition d cid")
    case None
    then show ?thesis by (simp add: rewritten list_hints_def)
  next
    case (Some c)
    then have "revealed_to d c chid u = known" by (simp add: known_def)
    then show ?thesis
      using assms
      by (simp only: rewritten list_hints_def hints_frame written listed views Let_def Some option.case if_False)
  qed
  moreover have "case reveal_hint now d d cid chid hid u of
         (Inl _, d', _) \<Rightarrow> d' = d
       | (Inr v, d', _) \<Rightarrow>
           list_ex (\<lambda>h. hi_id h = hid \<and> \<not> hi_hidden h \<and> hv_body v = Some (hi_body h)) (db_hints d)
           \<and> (case get_competition d cid of None \<Rightarrow> False
              | Some c \<Rightarrow> (case resolve_subject d c u of None \<Rightarrow> False
                 | Some s \<Rightarrow> subject_has_revealed d' hid s))"
  proof (cases "reveal_checks now d cid chid hid u")
    case (Inl e)
    then show ?thesis by (simp add: reveal_hint_def)
  next
    case (Inr p)
    then obtain h s where ok: "reveal_checks now d cid chid hid u = Inr (h, s)" by (cases p) simp
    from reveal_checks_ok [OF ok] obtain c where c: "get_competition d cid = Some c"
        "resolve_subject d c u = Some s" and h: "h \<in> set (db_hints d)" "hi_id h = hid" "\<not> hi_hidden h"
        and wf: "wf_subject s"
      by blast
    have ex: "list_ex (\<lambda>x. hi_id x = hid \<and> \<not> hi_hidden x \<and> hi_body h = hi_body x) (db_hints d)"
      using h unfolding list_ex_iff by blast
    have "subject_has_revealed (d\<lparr>db_hint_reveals := db_hint_reveals d @ [reveal_row now cid chid u s h]\<rparr>) hid s"
      using revealed_filter_row [OF wf c(2) h(2)] h(2)
      by (simp add: subject_has_revealed_def exists_where_def) (simp add: reveal_row_def)
    then show ?thesis using ex by (simp add: reveal_hint_def ok c Let_def)
  qed
  ultimately show ?thesis by blast
qed

section \<open>Paid once\<close>

text \<open>The hint and the subject a reveal is charged to: the team, or the user without one.\<close>

definition reveal_key :: "hint_reveal \<Rightarrow> ident \<times> ident option \<times> ident option" where
  "reveal_key r = (hr_hint_id r, hr_team_id r, if hr_team_id r = None then Some (hr_user_id r) else None)"

definition hint_ledger :: "db \<Rightarrow> bool" where
  "hint_ledger d = distinct (map reveal_key (db_hint_reveals d))"

datatype hint_op =
    Reveal time ident ident ident ident
  | Create_Hint ident time ident ident ident hint_create
  | Update_Hint ident ident ident hint_update
  | Delete_Hint ident ident ident
  | Publish_Tick time
  | Regroup "team_membership list"

fun hint_step :: "db \<Rightarrow> hint_op \<Rightarrow> db" where
  "hint_step d (Reveal now cid chid hid u) = fst (snd (reveal_hint now d d cid chid hid u))"
| "hint_step d (Create_Hint new_id now cid chid u b) = fst (snd (create_hint new_id now d cid chid u b))"
| "hint_step d (Update_Hint cid chid hid b) = fst (snd (update_hint d cid chid hid b))"
| "hint_step d (Delete_Hint cid chid hid) = fst (snd (delete_hint d cid chid hid))"
| "hint_step d (Publish_Tick now) = fst (publish_scheduled_hints now d)"
| "hint_step d (Regroup ms) = d\<lparr>db_memberships := ms\<rparr>"

lemma subject_filter_key:
  assumes "wf_subject s"
  shows "hr_hint_id r = hid \<and> subject_reveal_filter s r
    \<longleftrightarrow> reveal_key r = (hid, sj_team_id s, if sj_team_id s = None then Some (sj_id s) else None)"
  using assms by (auto simp: subject_reveal_filter_def reveal_key_def wf_subject_def)

lemma reveal_row_key:
  assumes "wf_subject s" "resolve_subject d c u = Some s"
  shows "reveal_key (reveal_row now cid chid u s h)
    = (hi_id h, sj_team_id s, if sj_team_id s = None then Some (sj_id s) else None)"
  using revealed_filter_row [OF assms refl, of now cid chid h]
  by (subst subject_filter_key [OF assms(1), symmetric]) (simp add: reveal_row_def)

lemma reveal_ledger:
  assumes "hint_ledger d"
  shows "hint_ledger (fst (snd (reveal_hint now d d cid chid hid u)))"
proof (cases "reveal_checks now d cid chid hid u")
  case (Inl e)
  then show ?thesis using assms by (simp add: reveal_hint_def)
next
  case (Inr p)
  then obtain h s where ok: "reveal_checks now d cid chid hid u = Inr (h, s)" by (cases p) simp
  from reveal_checks_ok [OF ok] obtain c where c: "resolve_subject d c u = Some s"
      and h: "hi_id h = hid" and wf: "wf_subject s"
    by blast
  have "reveal_key (reveal_row now cid chid u s h) \<notin> reveal_key ` set (db_hint_reveals d)"
    if "\<not> subject_has_revealed d hid s"
    using that unfolding subject_has_revealed_def exists_where_iff subject_filter_key [OF wf]
      reveal_row_key [OF wf c] h
    by auto
  then show ?thesis
    using assms by (auto simp: reveal_hint_def ok Let_def hint_ledger_def)
qed

lemma distinct_map_delete_where: "distinct (map f rows) \<Longrightarrow> distinct (map f (delete_where P rows))"
  unfolding delete_where_def by (rule distinct_map_filter)

interpretation hint_machine: invariant_machine hint_step hint_ledger
proof
  fix d op
  assume inv: "hint_ledger d"
  show "hint_ledger (hint_step d op)"
  proof (cases op)
    case (Reveal now cid chid hid u)
    then show ?thesis using reveal_ledger [OF inv] by simp
  next
    case (Delete_Hint cid chid hid)
    then show ?thesis using inv
      by (auto simp: delete_hint_def hint_ledger_def distinct_map_delete_where split: sum.split)
  qed (use inv in \<open>auto simp: create_hint_def update_hint_def publish_scheduled_hints_def hint_ledger_def
         Let_def split: sum.split\<close>)
qed

text \<open>
  C36: A hint is paid for once: whatever sequence of reveals, edits, deletions, scheduled publications
  and changes of team membership is served one after the other, no subject (team, or solo competitor) is ever charged
  twice for one hint, whoever of them asks and however often.
\<close>

theorem hint_paid_once:
  assumes "hint_ledger d" and "wf_subject s"
  shows "count_where (\<lambda>r. hr_hint_id r = hid \<and> subject_reveal_filter s r)
    (db_hint_reveals (foldl hint_step d ops)) \<le> 1"
proof -
  let ?k = "(hid, sj_team_id s, if sj_team_id s = None then Some (sj_id s) else None)"
  have "count_where (\<lambda>r. reveal_key r = k) rows \<le> 1" if "distinct (map reveal_key rows)" for k rows
    using that by (induction rows) (auto simp: count_where_0_iff, metis image_eqI)
  then show ?thesis
    using hint_machine.run_inv [OF assms(1), of ops]
    unfolding hint_ledger_def subject_filter_key [OF assms(2)] by blast
qed

section \<open>Concrete hints\<close>

definition hint_db :: db where
  "hint_db = empty_db\<lparr>
     db_competitions := [(blank_competition ''A'')\<lparr>co_status := Running\<rparr>],
     db_challenges := [(blank_challenge ''A'' ''q'')\<lparr>ch_state := Published\<rparr>],
     db_memberships := [\<lparr>tm_competition_id = ''A'', tm_team_id = ''T'', tm_user_id = ''u'', tm_is_captain = True, tm_created_at = 0\<rparr>,
                        \<lparr>tm_competition_id = ''A'', tm_team_id = ''T'', tm_user_id = ''v'', tm_is_captain = False, tm_created_at = 1\<rparr>],
     db_hints := [\<lparr>hi_id = ''h'', hi_competition_id = ''A'', hi_challenge_id = ''q'', hi_body = ''look'',
                   hi_cost = 10, hi_hidden = False, hi_release_at = None, hi_created_at = 0\<rparr>,
                  \<lparr>hi_id = ''i'', hi_competition_id = ''A'', hi_challenge_id = ''q'', hi_body = ''later'',
                   hi_cost = 5, hi_hidden = True, hi_release_at = Some 9, hi_created_at = 1\<rparr>]\<rparr>"

text \<open>Two team mates whose requests read before either commits are both charged.\<close>

lemma concurrent_reveals_charge_twice:
  "let d1 = fst (snd (reveal_hint 5 hint_db hint_db ''A'' ''q'' ''h'' ''u''));
       d2 = fst (snd (reveal_hint 5 hint_db d1 ''A'' ''q'' ''h'' ''v''))
   in hint_costs_by_subject d2 ''A'' True None (Some ''T'') = 20"
  by code_simp

lemma hint_bodies_confidential_witness:
  "list_hints 5 (rewrite_unrevealed (\<lambda>_. ''?'') ''A'' ''q'' ''u'' hint_db) ''A'' ''q'' ''u''
     = Inr [\<lparr>hv_id = ''h'', hv_challenge_id = ''q'', hv_cost = 10, hv_revealed = False, hv_body = None,
             hv_hidden = False, hv_release_at = None\<rparr>]"
proof -
  have 1: "\<not> user_has_permission hint_db ''u'' ''challenge_edit'' (Some ''A'')" by code_simp
  have 2: "list_hints 5 hint_db ''A'' ''q'' ''u''
     = Inr [\<lparr>hv_id = ''h'', hv_challenge_id = ''q'', hv_cost = 10, hv_revealed = False, hv_body = None,
             hv_hidden = False, hv_release_at = None\<rparr>]" by code_simp
  show ?thesis using hint_bodies_confidential [OF 1, of 5 "\<lambda>_. ''?''" "''q''" "''h''"] 2 by simp
qed

lemma hint_paid_once_witness:
  "count_where (\<lambda>r. hr_hint_id r = ''h''
       \<and> subject_reveal_filter \<lparr>sj_kind = Team_Kind, sj_id = ''T'', sj_team_id = Some ''T''\<rparr> r)
     (db_hint_reveals (foldl hint_step hint_db
        [Reveal 5 ''A'' ''q'' ''h'' ''u'', Reveal 6 ''A'' ''q'' ''h'' ''v'', Publish_Tick 9])) \<le> 1"
  by (rule hint_paid_once) code_simp+

end
