(* ===== verification/Registration.thy ===== *)
theory Registration
  imports Identity Flags "HOL-Library.AList"
begin

text \<open>
  What a competition asks of those who enter it: the rules document and its acceptance
  (\<open>utils/rules.py\<close>, \<open>routers/rules.py\<close>) and the custom registration fields
  (\<open>utils/registration_fields.py\<close>, \<open>routers/registration_fields.py\<close>). A rich-text document
  is a JSON value; a Python dictionary that is built key by key is an association list updated by
  \<open>AList.update\<close>.
\<close>

section \<open>Site settings\<close>

text \<open>\<open>get_or_create_settings\<close>: the row with its column defaults when there is none yet.\<close>

definition default_settings :: site_settings where
  "default_settings = \<lparr>ss_registration_open = True, ss_email_domain_allowlist_enabled = False,
     ss_allowed_email_domains = [], ss_email_verification_enabled = False,
     ss_username_changes_enabled = True, ss_rules_text = None, ss_rules_display_only = False,
     ss_setup_completed_at = None\<rparr>"

definition get_or_create_settings :: "db \<Rightarrow> site_settings" where
  "get_or_create_settings d = coalesce (db_site_settings d) default_settings"

section \<open>Rules\<close>

lemma map_of_size: "map_of kvs k = Some v \<Longrightarrow> size v < Suc (size_list (size_prod (\<lambda>_. 0) size) kvs)"
  by (induction kvs) (auto split: if_splits)

text \<open>Whether a rich-text node says anything: a non-blank text in it or below it.\<close>

function walk :: "pyval \<Rightarrow> bool" where
  "walk (PDict kvs) =
     ((case map_of kvs ''text'' of Some (PStr s) \<Rightarrow> strip s \<noteq> [] | _ \<Rightarrow> False)
      \<or> (\<exists>child \<in> (case map_of kvs ''content'' of Some (PList xs) \<Rightarrow> set xs | _ \<Rightarrow> {}). walk child))"
| "walk PNone = False"
| "walk (PBool b) = False"
| "walk (PInt i) = False"
| "walk (PStr s) = False"
| "walk (PTime t) = False"
| "walk (PList xs) = False"
  by pat_completeness auto

termination
proof (relation "measure size")
  fix kvs child
  assume "child \<in> (case map_of kvs ''content'' of Some (PList xs) \<Rightarrow> set xs | _ \<Rightarrow> {})"
  then obtain xs where xs: "map_of kvs ''content'' = Some (PList xs)" "child \<in> set xs"
    by (auto split: option.splits pyval.splits)
  have "size child < size (PList xs)"
    using xs(2) by (simp add: size_list_estimation' less_Suc_eq_le)
  also have "\<dots> < size (PDict kvs)" using map_of_size [OF xs(1)] by simp
  finally show "(child, PDict kvs) \<in> measure size" by simp
qed simp

definition has_rules_text :: "pyval option \<Rightarrow> bool" where
  "has_rules_text doc = (case doc of None \<Rightarrow> False | Some x \<Rightarrow> walk x)"

definition effective_rules :: "db \<Rightarrow> competition \<Rightarrow> pyval option \<times> bool" where
  "effective_rules d c =
     (let site = get_or_create_settings d in
      if has_rules_text (co_rules_override c) then (co_rules_override c, co_rules_display_only c)
      else if has_rules_text (ss_rules_text site) then (ss_rules_text site, ss_rules_display_only site)
      else (None, False))"

definition has_accepted :: "db \<Rightarrow> ident \<Rightarrow> ident \<Rightarrow> bool" where
  "has_accepted d cid u =
     exists_where (\<lambda>r. rx_competition_id r = cid \<and> rx_user_id r = u) (db_rules_acceptances d)"

definition is_rules_exempt :: "db \<Rightarrow> ident \<Rightarrow> ident \<Rightarrow> bool" where
  "is_rules_exempt d cid u = user_has_permission d u ''edit_competition'' (Some cid)"

record rules_state =
  st_rules :: "pyval option"
  st_display_only :: bool
  st_accepted :: bool
  st_exempt :: bool

definition rules_state_of :: "db \<Rightarrow> competition \<Rightarrow> ident \<Rightarrow> rules_state" where
  "rules_state_of d c u =
     (let (doc, display_only) = effective_rules d c in
      \<lparr>st_rules = doc, st_display_only = display_only, st_accepted = has_accepted d (co_id c) u,
       st_exempt = is_rules_exempt d (co_id c) u\<rparr>)"

definition require_rules_accepted :: "db \<Rightarrow> competition \<Rightarrow> ident \<Rightarrow> unit res" where
  "require_rules_accepted d c u =
     (let (doc, display_only) = effective_rules d c in
      case doc of
        None \<Rightarrow> Inr ()
      | Some rules \<Rightarrow>
          if display_only then Inr ()
          else if is_rules_exempt d (co_id c) u then Inr ()
          else if has_accepted d (co_id c) u then Inr ()
          else Inl (HTTPException_Object 403
            [(''code'', PStr ''rules_not_accepted''), (''competition_id'', PStr (co_id c)),
             (''rules'', rules), (''message'', PStr ''You must accept the competition rules before joining'')]))"

text \<open>
  \<open>read\<close> is the state the existence check saw; the unique constraint settles a lost race as
  already accepted.
\<close>

definition accept_rules :: "time \<Rightarrow> db \<Rightarrow> ident \<Rightarrow> ident \<Rightarrow> db \<Rightarrow> bool \<times> db \<times> event list" where
  "accept_rules now read cid u d =
     (if has_accepted read cid u then (False, d, [])
      else if has_accepted d cid u then (False, d, [])
      else (True, d\<lparr>db_rules_acceptances := db_rules_acceptances d
              @ [\<lparr>rx_competition_id = cid, rx_user_id = u, rx_accepted_at = now\<rparr>]\<rparr>,
            [Event ''competition.rules_accepted'' [(''competition_id'', PStr cid), (''user_id'', PStr u)]]))"

text \<open>\<open>RulesOut\<close>: the state, and whether the in-app gate must ask.\<close>

type_synonym rules_out = "rules_state \<times> bool"

definition rules_out_of :: "db \<Rightarrow> competition \<Rightarrow> ident \<Rightarrow> rules_out" where
  "rules_out_of d c u =
     (let s = rules_state_of d c u in
      (s, st_rules s \<noteq> None \<and> \<not> st_display_only s \<and> \<not> st_accepted s \<and> \<not> st_exempt s
          \<and> co_id c \<in> member_competition_ids d u))"

definition read_rules :: "db \<Rightarrow> ident \<Rightarrow> ident \<Rightarrow> rules_out res" where
  "read_rules d cid u =
     (case get_visible_competition d cid u of
        None \<Rightarrow> Inl (HTTPException 404 ''Competition not found'')
      | Some c \<Rightarrow> Inr (rules_out_of d c u))"

definition accept_competition_rules :: "time \<Rightarrow> db \<Rightarrow> ident \<Rightarrow> ident \<Rightarrow> rules_out outcome" where
  "accept_competition_rules now d cid u =
     (case get_visible_competition d cid u of
        None \<Rightarrow> raise d 404 ''Competition not found''
      | Some c \<Rightarrow>
          if st_rules (rules_state_of d c u) = None
          then raise d 400 ''This competition has no rules to accept''
          else (let (_, d1, evs) = accept_rules now d (co_id c) u d in (Inr (rules_out_of d1 c u), d1, evs)))"

section \<open>Registration fields\<close>

definition MAX_VALUE_LENGTH :: nat where "MAX_VALUE_LENGTH = 2000"

definition list_fields :: "db \<Rightarrow> ident \<Rightarrow> registration_field list" where
  "list_fields d cid =
     sort_key (\<lambda>f. (rf_position f, rf_key f))
       (filter (\<lambda>f. rf_competition_id f = cid) (db_registration_fields d))"

record field_spec =
  fs_key :: string
  fs_label :: string
  fs_field_type :: field_type
  fs_options :: "string list option"
  fs_required :: bool
  fs_position :: int

text \<open>The new rows get fresh ids, one per specification.\<close>

definition replace_fields :: "ident list \<Rightarrow> ident \<Rightarrow> field_spec list \<Rightarrow> db \<Rightarrow> registration_field list \<times> db" where
  "replace_fields new_ids cid specs d =
     (let created = map (\<lambda>(i, s). \<lparr>rf_id = i, rf_competition_id = cid, rf_key = fs_key s,
            rf_label = fs_label s, rf_field_type = fs_field_type s,
            rf_options = (if coalesce (fs_options s) [] = [] then None else fs_options s),
            rf_required = fs_required s, rf_position = fs_position s\<rparr>) (zip new_ids specs)
      in (created, d\<lparr>db_registration_fields :=
            delete_where (\<lambda>f. rf_competition_id f = cid) (db_registration_fields d) @ created\<rparr>))"

text \<open>
  \<open>str()\<close> and \<open>bool()\<close> of a JSON value; the text of a list or object is the parameter
  \<open>repr\<close>.
\<close>

definition py_str :: "(pyval \<Rightarrow> string) \<Rightarrow> pyval \<Rightarrow> string" where
  "py_str repr v =
     (case v of
        PStr s \<Rightarrow> s
      | PBool b \<Rightarrow> if b then ''True'' else ''False''
      | PInt i \<Rightarrow> int_str i
      | PNone \<Rightarrow> ''None''
      | _ \<Rightarrow> repr v)"

definition py_bool :: "pyval \<Rightarrow> bool" where
  "py_bool v =
     (case v of
        PNone \<Rightarrow> False
      | PBool b \<Rightarrow> b
      | PInt i \<Rightarrow> i \<noteq> 0
      | PStr s \<Rightarrow> s \<noteq> []
      | PTime _ \<Rightarrow> True
      | PList xs \<Rightarrow> xs \<noteq> []
      | PDict kvs \<Rightarrow> kvs \<noteq> [])"

definition coerce :: "(pyval \<Rightarrow> string) \<Rightarrow> registration_field \<Rightarrow> pyval \<Rightarrow> pyval res" where
  "coerce repr f raw =
     (if rf_field_type f = Checkbox_Field
      then Inr (PBool (case raw of
          PStr s \<Rightarrow> lower (strip s) \<in> {''true'', ''1'', ''yes'', ''on''}
        | _ \<Rightarrow> py_bool raw))
      else (let v = strip (py_str repr raw) in
        if MAX_VALUE_LENGTH < length v
        then Inl (HTTPException 422 ([CHR 0x27] @ rf_label f @ [CHR 0x27] @ '' is too long''))
        else if rf_field_type f = Select_Field \<and> v \<notin> set (coalesce (rf_options f) [])
        then Inl (HTTPException 422 ([CHR 0x27] @ v @ [CHR 0x27] @ '' is not a valid choice for ''
               @ [CHR 0x27] @ rf_label f @ [CHR 0x27]))
        else Inr (PStr v)))"

text \<open>An answer counts as given unless it is missing, null or blank text.\<close>

definition answered :: "payload \<Rightarrow> registration_field \<Rightarrow> pyval option" where
  "answered submitted f =
     (case map_of submitted (rf_key f) of
        None \<Rightarrow> None
      | Some PNone \<Rightarrow> None
      | Some (PStr s) \<Rightarrow> if strip s = [] then None else Some (PStr s)
      | Some v \<Rightarrow> Some v)"

fun validate_values ::
  "(pyval \<Rightarrow> string) \<Rightarrow> bool \<Rightarrow> payload \<Rightarrow> registration_field list \<Rightarrow> payload \<Rightarrow> payload res" where
  "validate_values repr require_required submitted [] cleaned = Inr cleaned"
| "validate_values repr require_required submitted (f # fs) cleaned =
     (case answered submitted f of
        None \<Rightarrow>
          if rf_required f \<and> require_required
          then Inl (HTTPException 422 ([CHR 0x27] @ rf_label f @ [CHR 0x27] @ '' is required''))
          else validate_values repr require_required submitted fs cleaned
      | Some raw \<Rightarrow>
          res_bind (coerce repr f raw) (\<lambda>v.
            validate_values repr require_required submitted fs (AList.update (rf_key f) v cleaned)))"

definition get_values :: "db \<Rightarrow> ident \<Rightarrow> ident \<Rightarrow> payload" where
  "get_values d cid sid =
     (case find (\<lambda>r. rv_competition_id r = cid \<and> rv_subject_id r = sid) (db_registration_values d) of
        None \<Rightarrow> [] | Some r \<Rightarrow> rv_values r)"

definition set_values :: "ident \<Rightarrow> ident \<Rightarrow> payload \<Rightarrow> db \<Rightarrow> db" where
  "set_values cid sid cleaned d =
     (let hit = (\<lambda>r. rv_competition_id r = cid \<and> rv_subject_id r = sid) in
      if \<not> exists_where hit (db_registration_values d)
      then (if cleaned = [] then d
            else d\<lparr>db_registration_values := db_registration_values d
                   @ [\<lparr>rv_competition_id = cid, rv_subject_id = sid, rv_values = cleaned\<rparr>]\<rparr>)
      else d\<lparr>db_registration_values :=
             update_where hit (\<lambda>r. r\<lparr>rv_values := cleaned\<rparr>) (db_registration_values d)\<rparr>)"

section \<open>Field routes\<close>

definition value_set_event :: "ident \<Rightarrow> ident \<Rightarrow> event" where
  "value_set_event cid sid = Event ''registration_field.value_set''
     [(''competition_id'', PStr cid), (''subject_id'', PStr sid)]"

definition get_fields :: "db \<Rightarrow> ident \<Rightarrow> ident \<Rightarrow> registration_field list res" where
  "get_fields d cid u =
     (case get_visible_competition d cid u of
        None \<Rightarrow> Inl (HTTPException 404 ''Competition not found'')
      | Some _ \<Rightarrow> Inr (list_fields d cid))"

definition put_fields :: "ident list \<Rightarrow> db \<Rightarrow> ident \<Rightarrow> field_spec list \<Rightarrow> registration_field list outcome" where
  "put_fields new_ids d cid specs =
     (case get_competition d cid of
        None \<Rightarrow> raise d 404 ''Competition not found''
      | Some _ \<Rightarrow>
          (let (created, d1) = replace_fields new_ids cid specs d in
           (Inr created, d1, [Event ''registration_field.updated''
              [(''competition_id'', PStr cid), (''count'', PInt (int (length created)))]])))"

definition individual_competition :: "db \<Rightarrow> ident \<Rightarrow> competition res" where
  "individual_competition d cid =
     (case get_competition d cid of
        None \<Rightarrow> Inl (HTTPException 404 ''Competition not found'')
      | Some c \<Rightarrow>
          res_bind (ensure (co_participation_mode c = Individual_Mode) 400
            ''Team-mode custom fields are edited through the team'') (\<lambda>_. Inr c))"

definition get_my_values :: "db \<Rightarrow> ident \<Rightarrow> ident \<Rightarrow> payload res" where
  "get_my_values d cid u = res_bind (individual_competition d cid) (\<lambda>_. Inr (get_values d cid u))"

definition put_my_values :: "(pyval \<Rightarrow> string) \<Rightarrow> db \<Rightarrow> ident \<Rightarrow> ident \<Rightarrow> payload \<Rightarrow> payload outcome" where
  "put_my_values repr d cid u submitted =
     (case res_bind (individual_competition d cid) (\<lambda>_.
         validate_values repr True submitted (list_fields d cid) []) of
        Inl e \<Rightarrow> (Inl e, d, [])
      | Inr cleaned \<Rightarrow> (Inr cleaned, set_values cid u cleaned d, [value_set_event cid u]))"

section \<open>Stored answers are stable\<close>

text \<open>What validation stores: per answered field, in form order, its coerced answer.\<close>

definition stored_answer :: "(pyval \<Rightarrow> string) \<Rightarrow> payload \<Rightarrow> registration_field \<Rightarrow> (string \<times> pyval) option" where
  "stored_answer repr submitted f =
     Option.bind (answered submitted f) (\<lambda>raw.
       case coerce repr f raw of Inl _ \<Rightarrow> None | Inr v \<Rightarrow> Some (rf_key f, v))"

definition acceptable :: "(pyval \<Rightarrow> string) \<Rightarrow> bool \<Rightarrow> payload \<Rightarrow> registration_field \<Rightarrow> bool" where
  "acceptable repr require_required submitted f =
     (case answered submitted f of
        None \<Rightarrow> \<not> (rf_required f \<and> require_required)
      | Some raw \<Rightarrow> is_ok (coerce repr f raw))"

lemma update_new: "k \<notin> fst ` set al \<Longrightarrow> AList.update k v al = al @ [(k, v)]"
  by (induction al) auto

lemma validate_ok_iff:
  assumes "distinct (map rf_key fs)" "fst ` set acc \<inter> rf_key ` set fs = {}"
  shows "validate_values repr req submitted fs acc = Inr cleaned
    \<longleftrightarrow> cleaned = acc @ List.map_filter (stored_answer repr submitted) fs
        \<and> list_all (acceptable repr req submitted) fs"
  using assms
proof (induction fs arbitrary: acc)
  case Nil
  then show ?case by (auto simp: List.map_filter_def)
next
  case (Cons f fs)
  show ?case
  proof (cases "answered submitted f")
    case None
    then show ?thesis
      using Cons by (simp add: acceptable_def stored_answer_def List.map_filter_simps)
  next
    case (Some raw)
    show ?thesis
    proof (cases "coerce repr f raw")
      case (Inl e)
      then show ?thesis using Some by (simp add: acceptable_def)
    next
      case (Inr v)
      have "rf_key f \<notin> fst ` set acc" "fst ` set (acc @ [(rf_key f, v)]) \<inter> rf_key ` set fs = {}"
        using Cons.prems by auto
      then show ?thesis
        using Cons.IH [of "acc @ [(rf_key f, v)]"] Cons.prems(1) Some Inr
        by (simp add: acceptable_def stored_answer_def List.map_filter_simps update_new)
    qed
  qed
qed

lemma stored_keys: "fst ` set (List.map_filter (stored_answer repr submitted) fs) \<subseteq> rf_key ` set fs"
  by (induction fs)
    (auto simp: List.map_filter_simps stored_answer_def split: option.splits sum.splits Option.bind_splits)

lemma map_of_stored:
  assumes "distinct (map rf_key fs)" "f \<in> set fs"
  shows "map_of (List.map_filter (stored_answer repr submitted) fs) (rf_key f)
    = map_option snd (stored_answer repr submitted f)"
  using assms
proof (induction fs)
  case Nil
  then show ?case by simp
next
  case (Cons g fs)
  have key: "k = rf_key g" if "stored_answer repr submitted g = Some (k, v)" for k v
    using that by (auto simp: stored_answer_def split: option.splits sum.splits Option.bind_splits)
  show ?case
  proof (cases "f = g")
    case True
    then have "rf_key f \<notin> fst ` set (List.map_filter (stored_answer repr submitted) fs)"
      using Cons.prems stored_keys [of repr submitted fs] by auto
    then have "map_of (List.map_filter (stored_answer repr submitted) fs) (rf_key f) = None"
      by (simp add: map_of_eq_None_iff)
    with True key show ?thesis by (auto simp: List.map_filter_simps split: option.split)
  next
    case False
    then have f: "f \<in> set fs" using Cons.prems by simp
    then have "rf_key f \<in> rf_key ` set fs" by (rule imageI)
    then have "rf_key f \<noteq> rf_key g" using Cons.prems by auto
    then show ?thesis
      using Cons f key by (auto simp: List.map_filter_simps split: option.split)
  qed
qed

lemma strip_Nil_iff: "strip s = [] \<longleftrightarrow> list_all is_space s"
proof -
  let ?t = "dropWhile is_space s"
  have "(\<forall>x\<in>set ?t. is_space x) \<longleftrightarrow> ?t = []"
    by (metis hd_dropWhile hd_in_set list.set_cases dropWhile_eq_Nil_conv set_dropWhileD)
  then show ?thesis by (simp add: strip_def list_all_iff)
qed

lemma int_str_not_blank: "strip (int_str i) \<noteq> []"
proof -
  have digit: "\<not> is_space (char_of (48 + m))" if "m < 10" for m :: nat
  proof -
    have "m = 0 \<or> m = 1 \<or> m = 2 \<or> m = 3 \<or> m = 4 \<or> m = 5 \<or> m = 6 \<or> m = 7 \<or> m = 8 \<or> m = 9"
      using that by presburger
    then show ?thesis by (elim disjE) (simp_all add: is_space_def Let_def)
  qed
  have "\<not> list_all is_space (nat_str n)" for n
    by (induction n rule: nat_str.induct) (subst nat_str.simps, simp add: digit)
  then show ?thesis by (simp add: strip_Nil_iff int_str_def)
qed

text \<open>A coerced answer is read back as given, and coerces to itself.\<close>

lemma coerce_stable:
  assumes blank: "\<And>v. strip (repr v) \<noteq> []" and raw: "answered submitted f = Some raw"
    and v: "coerce repr f raw = Inr v" and stored: "map_of cleaned (rf_key f) = Some v"
  shows "answered cleaned f = Some v \<and> coerce repr f v = Inr v"
proof (cases "rf_field_type f = Checkbox_Field")
  case True
  then obtain b where "v = PBool b" using v by (auto simp: coerce_def)
  then show ?thesis using stored True by (simp add: answered_def coerce_def py_bool_def)
next
  case False
  then have v': "v = PStr (strip (py_str repr raw))"
    using v by (auto simp: coerce_def Let_def split: if_splits)
  have "raw \<noteq> PNone" "\<And>s. raw = PStr s \<Longrightarrow> strip s \<noteq> []"
    using raw by (auto simp: answered_def split: option.splits pyval.splits if_splits)
  then have "strip (py_str repr raw) \<noteq> []"
    using blank int_str_not_blank
    by (cases raw) (auto simp: py_str_def strip_Nil_iff is_space_def Let_def)
  then show ?thesis
    using False v stored by (auto simp: v' answered_def coerce_def py_str_def Let_def strip_idem split: if_splits)
qed


definition entry_form :: "registration_field list" where
  "entry_form =
     [\<lparr>rf_id = ''1'', rf_competition_id = ''A'', rf_key = ''school'', rf_label = ''School'',
       rf_field_type = Text_Field, rf_options = None, rf_required = True, rf_position = 0\<rparr>,
      \<lparr>rf_id = ''2'', rf_competition_id = ''A'', rf_key = ''size'', rf_label = ''Shirt'',
       rf_field_type = Select_Field, rf_options = Some [''S'', ''M''], rf_required = False, rf_position = 1\<rparr>,
      \<lparr>rf_id = ''3'', rf_competition_id = ''A'', rf_key = ''adult'', rf_label = ''Adult'',
       rf_field_type = Checkbox_Field, rf_options = None, rf_required = True, rf_position = 2\<rparr>]"


end
