(* ===== verification/Entry.thy ===== *)
theory Entry
  imports Registration
begin

text \<open>
  How a user enters a competition: the shared join with its gates and its two routes
  (\<open>routers/competitions.py\<close>), the e-mail gate (\<open>utils/competitions.py\<close>) and the invite links
  (\<open>utils/invite_links.py\<close>, \<open>routers/invite_links.py\<close>). The organiser routes of the links follow
  their \<open>require_permission\<close> dependency.
\<close>

section \<open>Gates\<close>

definition email_unverified :: "user \<Rightarrow> bool" where
  "email_unverified us = (us_email us = None \<or> us_email_verified_at us = None)"

definition assert_email_verified_to_join :: "db \<Rightarrow> competition \<Rightarrow> user \<Rightarrow> unit res" where
  "assert_email_verified_to_join d c us =
     (if co_id c \<in> member_competition_ids d (us_id us) then Inr ()
      else ensure (\<not> (ss_email_verification_enabled (get_or_create_settings d) \<and> email_unverified us)) 403
        ''Verify your email address before joining a competition'')"

section \<open>The shared join\<close>

definition join_answers ::
  "(pyval \<Rightarrow> string) \<Rightarrow> db \<Rightarrow> competition \<Rightarrow> bool \<Rightarrow> payload option \<Rightarrow> bool \<Rightarrow> payload res" where
  "join_answers repr d c already_member field_values require_fields =
     (if \<not> already_member \<and> co_participation_mode c = Individual_Mode
      then (let form = list_fields d (co_id c) in
            if form = [] then Inr []
            else validate_values repr require_fields (coalesce field_values []) form [])
      else Inr [])"

definition join_checks ::
  "(pyval \<Rightarrow> string) \<Rightarrow> db \<Rightarrow> competition \<Rightarrow> user \<Rightarrow> payload option \<Rightarrow> bool \<Rightarrow> payload res" where
  "join_checks repr d c us field_values require_fields =
     (let already_member = (co_id c \<in> member_competition_ids d (us_id us)); site = get_or_create_settings d in
      res_bind (ensure (\<not> (\<not> already_member \<and> ss_email_verification_enabled site \<and> email_unverified us)) 403
        ''Verify your email address before joining a competition'') (\<lambda>_.
      res_bind (require_rules_accepted d c (us_id us)) (\<lambda>_.
      join_answers repr d c already_member field_values require_fields)))"

definition join ::
  "(pyval \<Rightarrow> string) \<Rightarrow> ident \<Rightarrow> db \<Rightarrow> competition \<Rightarrow> user \<Rightarrow> payload option \<Rightarrow> bool \<Rightarrow> competition outcome" where
  "join repr new_id d c us field_values require_fields =
     (case join_checks repr d c us field_values require_fields of
        Inl e \<Rightarrow> (Inl e, d, [])
      | Inr cleaned \<Rightarrow>
          (let (newly_joined, d1) = ensure_participant_role new_id d (co_id c) (us_id us);
               d2 = (if cleaned \<noteq> [] then set_values (co_id c) (us_id us) cleaned d1 else d1)
           in (Inr c, d2,
               (if newly_joined then [Event ''competition.member_joined''
                  [(''competition_id'', PStr (co_id c)), (''user_id'', PStr (us_id us))]] else [])
               @ (if cleaned \<noteq> [] then [value_set_event (co_id c) (us_id us)] else []))))"

record join_request =
  jq_invite_code :: string
  jq_accept_rules :: bool
  jq_field_values :: "payload option"

text \<open>Acceptance that rides on a join is committed on its own, before the join's own checks.\<close>

definition accept_with_join :: "time \<Rightarrow> bool \<Rightarrow> db \<Rightarrow> competition \<Rightarrow> ident \<Rightarrow> db \<times> event list" where
  "accept_with_join now accept d c u =
     (if accept \<and> fst (effective_rules d c) \<noteq> None
      then (let (_, d1, evs) = accept_rules now d (co_id c) u d in (d1, evs)) else (d, []))"

definition join_by_code ::
  "(pyval \<Rightarrow> string) \<Rightarrow> ident \<Rightarrow> time \<Rightarrow> db \<Rightarrow> user \<Rightarrow> join_request \<Rightarrow> competition outcome" where
  "join_by_code repr new_id now d us b =
     (case find (\<lambda>c. co_invite_code c = jq_invite_code b) (db_competitions d) of
        None \<Rightarrow> raise d 404 ''Invalid invite code''
      | Some c \<Rightarrow>
          (let (d1, evs) = accept_with_join now (jq_accept_rules b) d c (us_id us);
               (r, d2, evs') = join repr new_id d1 c us (jq_field_values b) False
           in (r, d2, evs @ evs')))"

definition join_competition ::
  "(pyval \<Rightarrow> string) \<Rightarrow> ident \<Rightarrow> db \<Rightarrow> ident \<Rightarrow> user \<Rightarrow> payload option \<Rightarrow> competition outcome" where
  "join_competition repr new_id d cid us field_values =
     (case get_competition d cid of
        None \<Rightarrow> raise d 404 ''Competition not found''
      | Some c \<Rightarrow>
          if co_visibility c \<noteq> Public
          then raise d 403 ''This competition is invite-only - join with an invite code''
          else join repr new_id d c us field_values True)"

section \<open>Invite links\<close>

definition is_active :: "time \<Rightarrow> invite_link \<Rightarrow> bool" where
  "is_active now l =
     (if il_revoked_at l \<noteq> None then False
      else if (case il_expires_at l of None \<Rightarrow> False | Some t \<Rightarrow> t \<le> now) then False
      else if (case il_max_uses l of None \<Rightarrow> False | Some m \<Rightarrow> m \<le> il_use_count l) then False
      else True)"

definition registration_window_open :: "time \<Rightarrow> competition \<Rightarrow> bool" where
  "registration_window_open now c =
     (if (case co_registration_opens_at c of None \<Rightarrow> False | Some t \<Rightarrow> now < t) then False
      else if (case co_registration_closes_at c of None \<Rightarrow> False | Some t \<Rightarrow> t \<le> now) then False
      else True)"

definition join_blocked_reason :: "time \<Rightarrow> competition \<Rightarrow> string option" where
  "join_blocked_reason now c =
     (if co_status c = Ended then Some ''ended''
      else if (case co_registration_opens_at c of None \<Rightarrow> False | Some t \<Rightarrow> now < t)
      then Some ''registration_not_open''
      else if (case co_registration_closes_at c of None \<Rightarrow> False | Some t \<Rightarrow> t \<le> now)
      then Some ''registration_closed''
      else None)"

definition view_available :: "competition \<Rightarrow> bool" where
  "view_available c = (co_visibility c = Public \<and> co_public_scoreboard c \<and> co_archived_at c = None)"

definition is_resolvable :: "time \<Rightarrow> invite_link \<Rightarrow> competition \<Rightarrow> bool" where
  "is_resolvable now l c =
     (if \<not> is_active now l then False
      else if co_archived_at c \<noteq> None then False
      else if il_capability l = View_Link \<and> \<not> view_available c then False
      else True)"

record link_create =
  lk_capability :: link_capability
  lk_label :: "string option"
  lk_expires_at :: "time option"
  lk_max_uses :: "int option"

definition capability_name :: "link_capability \<Rightarrow> string" where
  "capability_name k = (case k of Join_Link \<Rightarrow> ''join'' | View_Link \<Rightarrow> ''view'')"

definition link_event :: "string \<Rightarrow> ident \<Rightarrow> invite_link \<Rightarrow> event" where
  "link_event name cid l = Event name [(''competition_id'', PStr cid), (''invite_link_id'', PStr (il_id l)),
     (''capability'', PStr (capability_name (il_capability l)))]"

definition create_invite_link ::
  "ident \<Rightarrow> string \<Rightarrow> time \<Rightarrow> db \<Rightarrow> ident \<Rightarrow> ident \<Rightarrow> link_create \<Rightarrow> (invite_link \<times> bool) outcome" where
  "create_invite_link new_id token now d u cid b =
     (case get_competition d cid of
        None \<Rightarrow> raise d 404 ''Competition not found''
      | Some c \<Rightarrow>
          if lk_capability b = View_Link \<and> co_visibility c \<noteq> Public
          then raise d 422 ''A view link can only be created for a public competition''
          else if (case lk_expires_at b of None \<Rightarrow> False | Some t \<Rightarrow> t \<le> now)
          then raise d 422 ''expires_at must be in the future''
          else (let l = \<lparr>il_id = new_id, il_competition_id = cid, il_token = token,
                   il_capability = lk_capability b, il_label = lk_label b, il_expires_at = lk_expires_at b,
                   il_max_uses = lk_max_uses b, il_use_count = 0, il_last_used_at = None,
                   il_revoked_at = None, il_created_by = Some u, il_created_at = now\<rparr>
                in (Inr (l, is_active now l), d\<lparr>db_invite_links := db_invite_links d @ [l]\<rparr>,
                    [link_event ''invite_link.created'' cid l])))"

definition list_invite_links :: "time \<Rightarrow> db \<Rightarrow> ident \<Rightarrow> (invite_link \<times> bool) list res" where
  "list_invite_links now d cid =
     (case get_competition d cid of
        None \<Rightarrow> Inl (HTTPException 404 ''Competition not found'')
      | Some _ \<Rightarrow>
          Inr (map (\<lambda>l. (l, is_active now l))
            (sort_key (\<lambda>l. - il_created_at l) (filter (\<lambda>l. il_competition_id l = cid) (db_invite_links d)))))"

definition put_link :: "invite_link \<Rightarrow> db \<Rightarrow> db" where
  "put_link l d = d\<lparr>db_invite_links := update_where (\<lambda>x. il_id x = il_id l) (\<lambda>_. l) (db_invite_links d)\<rparr>"

text \<open>The revoked row keeps the use count the database has: only the changed column is written.\<close>

definition revoke_invite_link :: "time \<Rightarrow> db \<Rightarrow> ident \<Rightarrow> ident \<Rightarrow> (invite_link \<times> bool) outcome" where
  "revoke_invite_link now d cid lid =
     (case find (\<lambda>l. il_id l = lid) (db_invite_links d) of
        None \<Rightarrow> raise d 404 ''Invite link not found''
      | Some l \<Rightarrow>
          if il_competition_id l \<noteq> cid then raise d 404 ''Invite link not found''
          else if il_revoked_at l = None
          then (let l1 = l\<lparr>il_revoked_at := Some now\<rparr> in
                (Inr (l1, is_active now l1), put_link l1 d, [link_event ''invite_link.revoked'' cid l1]))
          else (Inr (l, is_active now l), d, []))"

definition link_by_token :: "db \<Rightarrow> string \<Rightarrow> invite_link option" where
  "link_by_token d token = find (\<lambda>l. il_token l = token) (db_invite_links d)"

record link_resolved =
  lr_capability :: link_capability
  lr_competition :: competition
  lr_actionable :: bool
  lr_reason :: "string option"
  lr_requires_login :: bool

definition resolve_invite_link :: "time \<Rightarrow> db \<Rightarrow> string \<Rightarrow> link_resolved res" where
  "resolve_invite_link now d token =
     (case link_by_token d token of
        None \<Rightarrow> Inl (HTTPException 404 ''Invite link not found'')
      | Some l \<Rightarrow>
          (case get_competition d (il_competition_id l) of
             None \<Rightarrow> Inl (HTTPException 404 ''Invite link not found'')
           | Some c \<Rightarrow>
               if \<not> is_resolvable now l c then Inl (HTTPException 404 ''Invite link not found'')
               else (let reason = (if il_capability l = Join_Link then join_blocked_reason now c else None)
                     in Inr \<lparr>lr_capability = il_capability l, lr_competition = c,
                          lr_actionable = (if il_capability l = Join_Link then reason = None else view_available c),
                          lr_reason = reason, lr_requires_login = (il_capability l = Join_Link)\<rparr>)))"

definition blocked_detail :: "string \<Rightarrow> string" where
  "blocked_detail reason =
     (if reason = ''ended'' then ''This competition has ended''
      else if reason = ''registration_not_open'' then ''Registration hasn't opened yet for this competition''
      else ''Registration has closed for this competition'')"

definition usable_join_link :: "time \<Rightarrow> db \<Rightarrow> string \<Rightarrow> (invite_link \<times> competition) res" where
  "usable_join_link now d token =
     (case link_by_token d token of
        None \<Rightarrow> Inl (HTTPException 404 ''Invite link not found'')
      | Some l \<Rightarrow>
          if il_capability l \<noteq> Join_Link then Inl (HTTPException 404 ''Invite link not found'')
          else (case get_competition d (il_competition_id l) of
             None \<Rightarrow> Inl (HTTPException 404 ''Invite link not found'')
           | Some c \<Rightarrow>
               if co_archived_at c \<noteq> None \<or> \<not> is_active now l
               then Inl (HTTPException 404 ''Invite link not found'')
               else (case join_blocked_reason now c of
                  Some reason \<Rightarrow> Inl (HTTPException 403 (blocked_detail reason))
                | None \<Rightarrow> Inr (l, c))))"

text \<open>
  The reservation of a use: \<open>UPDATE ... WHERE id = ? AND use_count < max_uses\<close>, \<open>None\<close> when no
  row is updated. NULL compares as false.
\<close>

definition reserve_use :: "time \<Rightarrow> ident \<Rightarrow> db \<Rightarrow> db option" where
  "reserve_use now lid d =
     (let free = (\<lambda>l. il_id l = lid \<and> (case il_max_uses l of None \<Rightarrow> False | Some m \<Rightarrow> il_use_count l < m)) in
      if \<not> exists_where free (db_invite_links d) then None
      else Some (d\<lparr>db_invite_links := update_where free
             (\<lambda>l. l\<lparr>il_use_count := il_use_count l + 1, il_last_used_at := Some now\<rparr>) (db_invite_links d)\<rparr>))"

definition count_plain_use :: "time \<Rightarrow> invite_link \<Rightarrow> db \<Rightarrow> db" where
  "count_plain_use now l d = d\<lparr>db_invite_links := update_where (\<lambda>x. il_id x = il_id l)
     (\<lambda>x. x\<lparr>il_use_count := il_use_count l + 1, il_last_used_at := Some now\<rparr>) (db_invite_links d)\<rparr>"

record link_join_request =
  lj_token :: string
  lj_accept_rules :: bool
  lj_field_values :: "payload option"

text \<open>
  \<open>read\<close> is the state in which the link, the competition and the membership are looked up, \<open>d\<close>
  the one the transaction writes to. A join gate that raises rolls the reservation back; the
  acceptance was committed before.
\<close>

definition join_via_invite_link ::
  "(pyval \<Rightarrow> string) \<Rightarrow> ident \<Rightarrow> time \<Rightarrow> db \<Rightarrow> db \<Rightarrow> user \<Rightarrow> link_join_request \<Rightarrow> competition outcome" where
  "join_via_invite_link repr new_id now read d us b =
     (case usable_join_link now read (lj_token b) of
        Inl e \<Rightarrow> (Inl e, d, [])
      | Inr (l, c) \<Rightarrow>
          (let (d1, evs) = accept_with_join now (lj_accept_rules b) d c (us_id us);
               already_member = (co_id c \<in> member_competition_ids read (us_id us));
               reserve = (\<not> already_member \<and> il_max_uses l \<noteq> None)
           in case (if reserve then reserve_use now (il_id l) d1 else Some d1) of
                None \<Rightarrow> (Inl (HTTPException 404 ''Invite link not found''), d1, evs)
              | Some d2 \<Rightarrow>
                  (case join repr new_id d2 c us (lj_field_values b) False of
                     (Inl e, _, _) \<Rightarrow> (Inl e, d1, evs)
                   | (Inr _, d3, evs') \<Rightarrow>
                       if already_member then (Inr c, d3, evs @ evs')
                       else (Inr c, if il_max_uses l = None then count_plain_use now l d3 else d3,
                         evs @ evs' @ [Event ''invite_link.used''
                           [(''competition_id'', PStr (co_id c)), (''invite_link_id'', PStr (il_id l)),
                            (''user_id'', PStr (us_id us))]]))))"

section \<open>The cap of a link\<close>

text \<open>Cap and use count of the rows of a link, and how often the log says it admitted somebody.\<close>

definition link_uses :: "ident \<Rightarrow> db \<Rightarrow> (int option \<times> int) list" where
  "link_uses lid d = map (\<lambda>l. (il_max_uses l, il_use_count l)) (filter (\<lambda>l. il_id l = lid) (db_invite_links d))"

definition is_use :: "ident \<Rightarrow> event \<Rightarrow> bool" where
  "is_use lid ev \<longleftrightarrow> event_name ev = ''invite_link.used''
     \<and> map_of (event_payload ev) ''invite_link_id'' = Some (PStr lid)"

lemma ensure_participant_links [simp]:
  "db_invite_links (snd (ensure_participant_role i d c u)) = db_invite_links d"
  by (simp add: ensure_participant_role_def split: option.split)

lemma set_values_links [simp]: "db_invite_links (set_values cid sid cleaned d) = db_invite_links d"
  by (simp add: set_values_def Let_def)

lemma accept_with_join_links [simp]:
  "db_invite_links (fst (accept_with_join now accept d c u)) = db_invite_links d"
  by (simp add: accept_with_join_def accept_rules_def)

lemma join_links [simp]:
  "db_invite_links (fst (snd (join repr new_id d c us fv req))) = db_invite_links d"
proof (cases "join_checks repr d c us fv req")
  case (Inr cleaned)
  obtain b d1 where e: "ensure_participant_role new_id d (co_id c) (us_id us) = (b, d1)" by fastforce
  then have "db_invite_links d1 = db_invite_links d"
    using ensure_participant_links [of new_id d "co_id c" "us_id us"] by simp
  then show ?thesis by (simp add: join_def Inr e)
qed (simp add: join_def)

lemma accept_with_join_no_use: "count_where (is_use lid) (snd (accept_with_join now accept d c u)) = 0"
  by (simp add: accept_with_join_def accept_rules_def is_use_def)

lemma join_no_use: "count_where (is_use lid) (snd (snd (join repr new_id d c us fv req))) = 0"
  by (simp add: join_def is_use_def value_set_event_def Let_def split: sum.split prod.split)

lemma link_uses_cong: "db_invite_links e = db_invite_links d \<Longrightarrow> link_uses lid e = link_uses lid d"
  by (simp add: link_uses_def)

lemma link_uses_update_other:
  assumes "\<And>l. P l \<Longrightarrow> il_id l \<noteq> lid" "\<And>l. P l \<Longrightarrow> il_id (f l) \<noteq> lid"
  shows "link_uses lid (d\<lparr>db_invite_links := update_where P f (db_invite_links d)\<rparr>) = link_uses lid d"
proof -
  have "filter (\<lambda>l. il_id l = lid) (update_where P f ls) = filter (\<lambda>l. il_id l = lid) ls" for ls
    using assms by (induction ls) auto
  then show ?thesis by (simp add: link_uses_def)
qed

lemma reserve_use_effect:
  assumes "reserve_use now i d = Some e" "link_uses lid d = [(Some m, k)]"
  shows "link_uses lid e = (if i = lid then [(Some m, k + 1)] else [(Some m, k)]) \<and> (i = lid \<longrightarrow> k < m)"
proof -
  let ?free = "\<lambda>l. il_id l = i \<and> (case il_max_uses l of None \<Rightarrow> False | Some m \<Rightarrow> il_use_count l < m)"
  let ?f = "\<lambda>l. l\<lparr>il_use_count := il_use_count l + 1, il_last_used_at := Some now\<rparr>"
  have e: "e = d\<lparr>db_invite_links := update_where ?free ?f (db_invite_links d)\<rparr>"
      and ex: "\<exists>l\<in>set (db_invite_links d). ?free l"
    using assms(1) by (auto simp: reserve_use_def Let_def exists_where_iff split: if_splits)
  show ?thesis
  proof (cases "i = lid")
    case True
    obtain l where l: "filter (\<lambda>l. il_id l = lid) (db_invite_links d) = [l]"
        "il_max_uses l = Some m" "il_use_count l = k"
      using assms(2) by (auto simp: link_uses_def map_eq_Cons_conv)
    from ex obtain x where x: "x \<in> set (db_invite_links d)" "?free x" by blast
    with True have "x \<in> set (filter (\<lambda>l. il_id l = lid) (db_invite_links d))" by simp
    with l have "x = l" by simp
    with x l have less: "k < m" by simp
    have "link_uses lid e = map (\<lambda>l. (il_max_uses l, il_use_count l))
        (update_where ?free ?f (filter (\<lambda>l. il_id l = lid) (db_invite_links d)))"
      unfolding e link_uses_def by (subst filter_update_where [symmetric]) simp_all
    then have "link_uses lid e = [(Some m, k + 1)]"
      unfolding l using l less True \<open>x = l\<close> x by simp
    then show ?thesis using True less by simp
  next
    case False
    then have "link_uses lid e = link_uses lid d" unfolding e by (intro link_uses_update_other) auto
    then show ?thesis using False assms(2) by simp
  qed
qed

lemma usable_join_link_in:
  assumes "usable_join_link now d token = Inr (l, c)"
  shows "l \<in> set (db_invite_links d)"
  using assms by (auto simp: usable_join_link_def link_by_token_def dest: find_Some_in split: option.splits if_splits)

lemma link_uses_member: "l \<in> set (db_invite_links d) \<Longrightarrow> link_uses (il_id l) d = [(Some m, k)] \<Longrightarrow> il_max_uses l = Some m"
proof -
  assume "l \<in> set (db_invite_links d)" "link_uses (il_id l) d = [(Some m, k)]"
  moreover from this(1) have "(il_max_uses l, il_use_count l) \<in> set (link_uses (il_id l) d)"
    unfolding link_uses_def set_map by (intro image_eqI [of _ _ l]) simp_all
  ultimately show ?thesis by simp
qed

text \<open>What one request through a link does to a capped link and to the count of its admissions.\<close>

lemma link_join_effect:
  assumes d: "link_uses lid d = [(Some m, k)]" and read: "\<exists>r. link_uses lid read = [(Some m, r)]"
    and call: "join_via_invite_link repr new_id now read d us b = (r, e, evs)"
  shows "\<exists>k'. link_uses lid e = [(Some m, k')] \<and> k' = k + int (count_where (is_use lid) evs) \<and> (k \<le> m \<longrightarrow> k' \<le> m)"
proof (cases "usable_join_link now read (lj_token b)")
  case (Inl x)
  then have "e = d \<and> evs = []" using call unfolding join_via_invite_link_def by simp
  then show ?thesis using d by (intro exI [of _ k]) simp
next
  case (Inr p)
  obtain l c where p: "usable_join_link now read (lj_token b) = Inr (l, c)" using Inr by (cases p) simp
  obtain d1 evs1 where a: "accept_with_join now (lj_accept_rules b) d c (us_id us) = (d1, evs1)" by fastforce
  have "db_invite_links d1 = db_invite_links d"
    using accept_with_join_links [of now "lj_accept_rules b" d c "us_id us"] by (simp add: a)
  from link_uses_cong [OF this] have d1: "link_uses lid d1 = [(Some m, k)]" by (simp only: d)
  have evs1: "count_where (is_use lid) evs1 = 0"
    using accept_with_join_no_use [of lid now "lj_accept_rules b" d c "us_id us"] by (simp add: a)
  have capped: "il_id l = lid \<Longrightarrow> il_max_uses l = Some m"
    using read link_uses_member usable_join_link_in [OF p] by blast
  define member where "member = (co_id c \<in> member_competition_ids read (us_id us))"
  define reserve where "reserve = (\<not> member \<and> il_max_uses l \<noteq> None)"
  show ?thesis
  proof (cases "if reserve then reserve_use now (il_id l) d1 else Some d1")
    case None
    then have "e = d1" "evs = evs1"
      using call by (simp_all add: join_via_invite_link_def p a member_def reserve_def)
    then show ?thesis using d1 evs1 by (intro exI [of _ k]) simp
  next
    case (Some d2)
    obtain r3 d3 evs3 where j: "join repr new_id d2 c us (lj_field_values b) False = (r3, d3, evs3)"
      by (metis prod_cases3)
    have "db_invite_links d3 = db_invite_links d2"
      using join_links [of repr new_id d2 c us "lj_field_values b" False] by (simp add: j)
    then have d3: "link_uses lid d3 = link_uses lid d2" by (rule link_uses_cong)
    have evs3: "count_where (is_use lid) evs3 = 0"
      using join_no_use [of lid repr new_id d2 c us "lj_field_values b" False] by (simp add: j)
    have d2: "link_uses lid d2 = (if reserve \<and> il_id l = lid then [(Some m, k + 1)] else [(Some m, k)])
        \<and> (reserve \<and> il_id l = lid \<longrightarrow> k < m)"
      using Some d1 reserve_use_effect [of now "il_id l" d1 d2 lid m k] by (auto split: if_splits)
    show ?thesis
    proof (cases r3)
      case (Inl x)
      then have "e = d1" "evs = evs1"
        using call Some j by (simp_all add: join_via_invite_link_def p a member_def reserve_def)
      then show ?thesis using d1 evs1 by (intro exI [of _ k]) simp
    next
      case (Inr c')
      let ?used = "Event ''invite_link.used'' [(''competition_id'', PStr (co_id c)),
          (''invite_link_id'', PStr (il_id l)), (''user_id'', PStr (us_id us))]"
      have out: "e = (if member then d3 else if il_max_uses l = None then count_plain_use now l d3 else d3)"
          "evs = (if member then evs1 @ evs3 else evs1 @ evs3 @ [?used])"
        using call Some j Inr by (auto simp: join_via_invite_link_def p a member_def reserve_def split: if_splits)
      have plain: "link_uses lid (count_plain_use now l d3) = link_uses lid d3" if "il_id l \<noteq> lid"
        unfolding count_plain_use_def using that by (intro link_uses_update_other) auto
      have used: "is_use lid ?used \<longleftrightarrow> il_id l = lid" by (simp add: is_use_def)
      show ?thesis
        using d2 d3 evs1 evs3 capped plain used by (auto simp: out reserve_def)
    qed
  qed
qed

text \<open>
  Requests served one after another, each reading any earlier state (the newest first in the
  history) and writing to the newest: joins through links, joins by the competition's code, and
  revocations.
\<close>

datatype link_op =
    Link_Join nat ident time user link_join_request
  | Code_Join ident time user join_request
  | Link_Revoke time ident ident

fun link_step :: "(pyval \<Rightarrow> string) \<Rightarrow> db list \<times> event list \<Rightarrow> link_op \<Rightarrow> db list \<times> event list" where
  "link_step repr (hist, trail) (Link_Join i new_id now us b) =
     (let (_, e, evs) = join_via_invite_link repr new_id now (hist ! (i mod length hist)) (hd hist) us b
      in (e # hist, trail @ evs))"
| "link_step repr (hist, trail) (Code_Join new_id now us b) =
     (let (_, e, evs) = join_by_code repr new_id now (hd hist) us b in (e # hist, trail @ evs))"
| "link_step repr (hist, trail) (Link_Revoke now cid lid) =
     (let (_, e, evs) = revoke_invite_link now (hd hist) cid lid in (e # hist, trail @ evs))"

definition link_inv :: "ident \<Rightarrow> int \<Rightarrow> int \<Rightarrow> db list \<times> event list \<Rightarrow> bool" where
  "link_inv lid m n st \<longleftrightarrow> fst st \<noteq> [] \<and> (\<forall>e\<in>set (fst st). \<exists>k. link_uses lid e = [(Some m, k)])
     \<and> (\<exists>k. link_uses lid (hd (fst st)) = [(Some m, k)] \<and> k \<le> m \<and> k = n + int (count_where (is_use lid) (snd st)))"

lemma code_join_links:
  assumes "join_by_code repr new_id now d us b = (r, e, evs)"
  shows "db_invite_links e = db_invite_links d \<and> count_where (is_use lid) evs = 0"
proof (cases "find (\<lambda>c. co_invite_code c = jq_invite_code b) (db_competitions d)")
  case None
  then show ?thesis using assms by (auto simp: join_by_code_def raise_def)
next
  case (Some c)
  obtain d1 evs1 where a: "accept_with_join now (jq_accept_rules b) d c (us_id us) = (d1, evs1)" by fastforce
  obtain r2 d2 evs2 where j: "join repr new_id d1 c us (jq_field_values b) False = (r2, d2, evs2)"
    by (metis prod_cases3)
  show ?thesis
    using assms accept_with_join_links [of now "jq_accept_rules b" d c "us_id us"]
      accept_with_join_no_use [of lid now "jq_accept_rules b" d c "us_id us"]
      join_links [of repr new_id d1 c us "jq_field_values b" False]
      join_no_use [of lid repr new_id d1 c us "jq_field_values b" False]
    by (auto simp: join_by_code_def Some a j)
qed

lemma revoke_uses:
  assumes "revoke_invite_link now d cid i = (r, e, evs)"
  shows "(link_uses lid d = [(Some m, k)] \<longrightarrow> link_uses lid e = [(Some m, k)]) \<and> count_where (is_use lid) evs = 0"
proof (cases "find (\<lambda>l. il_id l = i) (db_invite_links d)")
  case None
  then show ?thesis using assms by (auto simp: revoke_invite_link_def raise_def)
next
  case (Some l)
  then have l: "l \<in> set (db_invite_links d)" "il_id l = i" by (auto dest: find_Some_in)
  have "link_uses lid (put_link (l\<lparr>il_revoked_at := Some now\<rparr>) d) = link_uses lid d" if uses: "link_uses lid d = [(Some m, k)]"
  proof (cases "i = lid")
    case True
    obtain x where x: "filter (\<lambda>l. il_id l = lid) (db_invite_links d) = [x]"
      using uses by (auto simp: link_uses_def map_eq_Cons_conv)
    have "l \<in> set (filter (\<lambda>l. il_id l = lid) (db_invite_links d))" using l True by simp
    with x have "x = l" by simp
    have "link_uses lid (put_link (l\<lparr>il_revoked_at := Some now\<rparr>) d) = map (\<lambda>l. (il_max_uses l, il_use_count l))
        (update_where (\<lambda>y. il_id y = il_id l) (\<lambda>_. l\<lparr>il_revoked_at := Some now\<rparr>)
          (filter (\<lambda>l. il_id l = lid) (db_invite_links d)))"
      unfolding put_link_def link_uses_def using l True by (subst filter_update_where [symmetric]) simp_all
    then show ?thesis unfolding x using x \<open>x = l\<close> by (simp add: link_uses_def)
  next
    case False
    then show ?thesis unfolding put_link_def using l by (intro link_uses_update_other) auto
  qed
  then show ?thesis
    using assms Some by (auto simp: revoke_invite_link_def raise_def is_use_def link_event_def Let_def split: if_splits)
qed

interpretation links: invariant_machine "link_step repr" "link_inv lid m n"
  for repr lid m n
proof
  fix st op
  assume inv: "link_inv lid m n st"
  obtain hist trail where st: "st = (hist, trail)" by (cases st)
  from inv have hist: "hist \<noteq> []" "\<forall>e\<in>set hist. \<exists>k. link_uses lid e = [(Some m, k)]"
    by (simp_all add: link_inv_def st)
  from inv obtain k where k: "link_uses lid (hd hist) = [(Some m, k)]" "k \<le> m"
      "k = n + int (count_where (is_use lid) trail)"
    by (auto simp: link_inv_def st)
  obtain e evs where step: "link_step repr st op = (e # hist, trail @ evs)"
      and eff: "\<exists>k'. link_uses lid e = [(Some m, k')] \<and> k' = k + int (count_where (is_use lid) evs) \<and> k' \<le> m"
  proof (cases op)
    case (Link_Join i new_id now us b)
    obtain r e evs where call: "join_via_invite_link repr new_id now (hist ! (i mod length hist)) (hd hist) us b = (r, e, evs)"
      by (metis prod_cases3)
    have "hist ! (i mod length hist) \<in> set hist" using hist(1) by simp
    then have read: "\<exists>r. link_uses lid (hist ! (i mod length hist)) = [(Some m, r)]" using hist(2) by blast
    show ?thesis
      by (rule that [of e evs]) (use link_join_effect [OF k(1) read call] k(2) call in \<open>auto simp: st Link_Join\<close>)
  next
    case (Code_Join new_id now us b)
    obtain r e evs where call: "join_by_code repr new_id now (hd hist) us b = (r, e, evs)"
      by (metis prod_cases3)
    show ?thesis
      by (rule that [of e evs])
        (use code_join_links [OF call, of lid] k call link_uses_cong [of e "hd hist" lid] in
          \<open>auto simp: st Code_Join\<close>)
  next
    case (Link_Revoke now cid i)
    obtain r e evs where call: "revoke_invite_link now (hd hist) cid i = (r, e, evs)"
      by (metis prod_cases3)
    show ?thesis
      by (rule that [of e evs]) (use revoke_uses [OF call, of lid m k] k call in \<open>auto simp: st Link_Revoke\<close>)
  qed
  then show "link_inv lid m n (link_step repr st op)"
    using hist k(3) by (auto simp: link_inv_def)
qed


section \<open>A concrete link\<close>

definition link_db :: db where
  "link_db = empty_db\<lparr>db_competitions := [blank_competition ''A''],
     db_users := [blank_user ''u'', blank_user ''v''], db_roles := db_roles participant_db,
     db_invite_links := [\<lparr>il_id = ''l'', il_competition_id = ''A'', il_token = ''t'', il_capability = Join_Link,
       il_label = None, il_expires_at = None, il_max_uses = Some 1, il_use_count = 0,
       il_last_used_at = None, il_revoked_at = None, il_created_by = None, il_created_at = 0\<rparr>]\<rparr>"


end
