(* ===== verification/Teams.thy ===== *)
theory Teams
  imports Entry User_Admin
begin

text \<open>
  Teams (\<open>routers/teams.py\<close>, \<open>models/team.py\<close>): creating one, joining by its code or by a
  request its captain approves, editing, leaving with the inheritance of the captaincy, and what goes
  with a deleted team. The size check runs under a lock of the team's row, so counting and inserting
  are one operation here.
\<close>

section \<open>Lookups\<close>

definition get_team_competition :: "db \<Rightarrow> ident \<Rightarrow> competition res" where
  "get_team_competition d cid =
     (case get_competition d cid of
        None \<Rightarrow> Inl (HTTPException 404 ''Competition not found'')
      | Some c \<Rightarrow>
          res_bind (ensure (co_participation_mode c = Team_Mode) 400
            ''This competition is individual-mode; teams are disabled'') (\<lambda>_. Inr c))"

definition membership_of :: "db \<Rightarrow> ident \<Rightarrow> ident \<Rightarrow> team_membership option" where
  "membership_of d cid u = find (\<lambda>m. tm_competition_id m = cid \<and> tm_user_id m = u) (db_memberships d)"

text \<open>\<open>MyTeamOut\<close>: the team, its members (id, name, captain) in the order they joined, its answers.\<close>

type_synonym my_team_out = "team \<times> (ident \<times> string \<times> bool) list \<times> payload"

definition my_team_out_of :: "db \<Rightarrow> team \<Rightarrow> my_team_out" where
  "my_team_out_of d t =
     (t,
      [(tm_user_id m, us_display_name u, tm_is_captain m).
         m \<leftarrow> sort_key tm_created_at (filter (\<lambda>m. tm_team_id m = te_id t) (db_memberships d)),
         u \<leftarrow> db_users d, us_id u = tm_user_id m],
      get_values d (te_competition_id t) (te_id t))"

definition list_teams :: "db \<Rightarrow> ident \<Rightarrow> ident \<Rightarrow> (team \<times> nat) list res" where
  "list_teams d cid u =
     (case get_visible_competition d cid u of
        None \<Rightarrow> Inl (HTTPException 404 ''Competition not found'')
      | Some _ \<Rightarrow>
          Inr (map (\<lambda>t. (t, count_where (\<lambda>m. tm_team_id m = te_id t) (db_memberships d)))
            (sort_key te_created_at (filter (\<lambda>t. te_competition_id t = cid) (db_teams d)))))"

text \<open>A membership's team exists (foreign key); without it the handler fails on an attribute (500).\<close>

definition my_team :: "db \<Rightarrow> ident \<Rightarrow> ident \<Rightarrow> my_team_out res" where
  "my_team d cid u =
     (case membership_of d cid u of
        None \<Rightarrow> Inl (HTTPException 404 ''You are not in a team for this competition'')
      | Some m \<Rightarrow>
          (case get_team d (tm_team_id m) of
             None \<Rightarrow> Inl (HTTPException 500 ''Internal Server Error'')
           | Some t \<Rightarrow> Inr (my_team_out_of d t)))"

section \<open>Editing\<close>

text \<open>An edit: \<open>None\<close> is a field not sent; the profile texts can be sent as null.\<close>

record team_update =
  tu_name :: "string option"
  tu_affiliation :: "string option option"
  tu_country :: "string option option"
  tu_website :: "string option option"
  tu_approval_required :: "bool option"
  tu_field_values :: "payload option"

definition edited_team :: "team_update \<Rightarrow> team \<Rightarrow> team" where
  "edited_team b t = t\<lparr>te_name := coalesce (tu_name b) (te_name t),
     te_affiliation := coalesce (tu_affiliation b) (te_affiliation t),
     te_country := coalesce (tu_country b) (te_country t),
     te_website := coalesce (tu_website b) (te_website t),
     te_approval_required := coalesce (tu_approval_required b) (te_approval_required t)\<rparr>"

definition team_name_clash :: "db \<Rightarrow> ident \<Rightarrow> team \<Rightarrow> string option \<Rightarrow> bool" where
  "team_name_clash d cid t name =
     (case name of
        None \<Rightarrow> False
      | Some n \<Rightarrow> n \<noteq> te_name t
          \<and> exists_where (\<lambda>x. te_competition_id x = cid \<and> te_name x = n \<and> te_id x \<noteq> te_id t) (db_teams d))"

definition put_team :: "team \<Rightarrow> db \<Rightarrow> db" where
  "put_team t d = d\<lparr>db_teams := update_where (\<lambda>x. te_id x = te_id t) (\<lambda>_. t) (db_teams d)\<rparr>"

definition update_my_team ::
  "(pyval \<Rightarrow> string) \<Rightarrow> db \<Rightarrow> ident \<Rightarrow> ident \<Rightarrow> team_update \<Rightarrow> my_team_out outcome" where
  "update_my_team repr d cid u b =
     (case membership_of d cid u of
        None \<Rightarrow> raise d 403 ''Only the team captain can edit the team''
      | Some m \<Rightarrow>
          if \<not> tm_is_captain m then raise d 403 ''Only the team captain can edit the team''
          else (case get_team d (tm_team_id m) of
             None \<Rightarrow> raise d 500 ''Internal Server Error''
           | Some t \<Rightarrow>
               if team_name_clash d cid t (tu_name b)
               then raise d 409 ''A team with that name already exists in this competition''
               else (let t1 = edited_team b t; d1 = put_team t1 d in
                 case tu_field_values b of
                   None \<Rightarrow> (Inr (my_team_out_of d1 t1), d1, [])
                 | Some vs \<Rightarrow>
                     (case validate_values repr True vs (list_fields d cid) [] of
                        Inl e \<Rightarrow> (Inl e, d, [])
                      | Inr cleaned \<Rightarrow>
                          (let d2 = set_values cid (te_id t) cleaned d1 in
                           (Inr (my_team_out_of d2 t1), d2, [value_set_event cid (te_id t)]))))))"

section \<open>Creating\<close>

record team_create =
  tc_name :: string
  tc_affiliation :: "string option"
  tc_country :: "string option"
  tc_website :: "string option"
  tc_approval_required :: bool
  tc_field_values :: payload

definition already_teamed :: "db \<Rightarrow> ident \<Rightarrow> ident \<Rightarrow> unit res" where
  "already_teamed d cid u =
     ensure (membership_of d cid u = None) 409 ''You are already in a team for this competition''"

definition create_team_checks ::
  "(pyval \<Rightarrow> string) \<Rightarrow> db \<Rightarrow> ident \<Rightarrow> user \<Rightarrow> team_create \<Rightarrow> (competition \<times> payload) res" where
  "create_team_checks repr d cid us b =
     res_bind (get_team_competition d cid) (\<lambda>c.
     res_bind (ensure (can_see_competition d c (us_id us)) 404 ''Competition not found'') (\<lambda>_.
     res_bind (assert_email_verified_to_join d c us) (\<lambda>_.
     res_bind (require_rules_accepted d c (us_id us)) (\<lambda>_.
     res_bind (already_teamed d cid (us_id us)) (\<lambda>_.
     res_bind (ensure (\<not> exists_where (\<lambda>t. te_competition_id t = cid \<and> te_name t = tc_name b) (db_teams d)) 409
       ''A team with that name already exists in this competition'') (\<lambda>_.
     let form = list_fields d cid in
     res_bind (if form = [] then Inr [] else validate_values repr True (tc_field_values b) form []) (\<lambda>cleaned.
     Inr (c, cleaned))))))))"

definition new_membership :: "ident \<Rightarrow> ident \<Rightarrow> ident \<Rightarrow> bool \<Rightarrow> time \<Rightarrow> team_membership" where
  "new_membership cid tid u captain now = \<lparr>tm_competition_id = cid, tm_team_id = tid, tm_user_id = u,
     tm_is_captain = captain, tm_created_at = now\<rparr>"

definition member_joined :: "ident \<Rightarrow> ident \<Rightarrow> ident \<Rightarrow> event" where
  "member_joined cid tid u = Event ''team.member_joined''
     [(''competition_id'', PStr cid), (''team_id'', PStr tid), (''user_id'', PStr u)]"

text \<open>
  \<open>tid\<close>, \<open>aid\<close> and \<open>code\<close> are the new row ids and the random invite code; the primary key
  refuses an id that is taken.
\<close>

definition create_team ::
  "(pyval \<Rightarrow> string) \<Rightarrow> ident \<Rightarrow> ident \<Rightarrow> string \<Rightarrow> time \<Rightarrow> db \<Rightarrow> ident \<Rightarrow> user \<Rightarrow> team_create \<Rightarrow> my_team_out outcome" where
  "create_team repr tid aid code now d cid us b =
     (case create_team_checks repr d cid us b of
        Inl e \<Rightarrow> (Inl e, d, [])
      | Inr (_, cleaned) \<Rightarrow>
          if exists_where (\<lambda>t. te_id t = tid) (db_teams d) then raise d 500 ''Internal Server Error''
          else (let t = \<lparr>te_id = tid, te_competition_id = cid, te_name = tc_name b, te_invite_code = code,
                  te_affiliation = tc_affiliation b, te_country = tc_country b, te_website = tc_website b,
                  te_approval_required = tc_approval_required b, te_created_at = now\<rparr>;
                d1 = d\<lparr>db_teams := db_teams d @ [t],
                       db_memberships := db_memberships d @ [new_membership cid tid (us_id us) True now]\<rparr>;
                d2 = snd (ensure_participant_role aid d1 cid (us_id us));
                d3 = (if cleaned \<noteq> [] then set_values cid tid cleaned d2 else d2)
            in (Inr (my_team_out_of d3 t), d3,
                Event ''team.created'' [(''competition_id'', PStr cid), (''team_id'', PStr tid),
                   (''user_id'', PStr (us_id us)), (''name'', PStr (tc_name b))]
                # (if cleaned \<noteq> [] then [value_set_event cid tid] else []))))"

section \<open>Joining\<close>

definition team_size :: "db \<Rightarrow> ident \<Rightarrow> nat" where
  "team_size d tid = count_where (\<lambda>m. tm_team_id m = tid) (db_memberships d)"

definition assert_not_full :: "db \<Rightarrow> competition \<Rightarrow> ident \<Rightarrow> unit res" where
  "assert_not_full d c tid =
     (case co_max_team_size c of
        None \<Rightarrow> Inr ()
      | Some m \<Rightarrow> ensure (int (team_size d tid) < m) 409 ''This team is full'')"

definition join_team_checks :: "db \<Rightarrow> ident \<Rightarrow> user \<Rightarrow> string \<Rightarrow> (competition \<times> team) res" where
  "join_team_checks d cid us code =
     (let hit = (\<lambda>t. te_competition_id t = cid \<and> te_invite_code t = code) in
     res_bind (get_team_competition d cid) (\<lambda>c.
     res_bind (ensure (can_see_competition d c (us_id us) \<or> exists_where hit (db_teams d)) 404 ''Invalid invite code'') (\<lambda>_.
     res_bind (assert_email_verified_to_join d c us) (\<lambda>_.
     res_bind (require_rules_accepted d c (us_id us)) (\<lambda>_.
     res_bind (already_teamed d cid (us_id us)) (\<lambda>_.
     case find hit (db_teams d) of
       None \<Rightarrow> Inl (HTTPException 404 ''Invalid invite code'')
     | Some t \<Rightarrow> res_bind (assert_not_full d c (te_id t)) (\<lambda>_. Inr (c, t))))))))"

text \<open>The result: \<open>None\<close> while a request is pending, else the team.\<close>

definition join_team ::
  "ident \<Rightarrow> ident \<Rightarrow> time \<Rightarrow> db \<Rightarrow> ident \<Rightarrow> user \<Rightarrow> string \<Rightarrow> my_team_out option outcome" where
  "join_team apid aid now d cid us code =
     (case join_team_checks d cid us code of
        Inl e \<Rightarrow> (Inl e, d, [])
      | Inr (_, t) \<Rightarrow>
          if te_approval_required t
          then (Inr None,
                if exists_where (\<lambda>a. ta_team_id a = te_id t \<and> ta_user_id a = us_id us) (db_applications d) then d
                else d\<lparr>db_applications := db_applications d
                  @ [\<lparr>ta_id = apid, ta_competition_id = cid, ta_team_id = te_id t, ta_user_id = us_id us,
                       ta_created_at = now\<rparr>]\<rparr>, [])
          else (let d1 = d\<lparr>db_memberships := db_memberships d @ [new_membership cid (te_id t) (us_id us) False now]\<rparr>;
                    d2 = snd (ensure_participant_role aid d1 cid (us_id us))
                in (Inr (Some (my_team_out_of d2 t)), d2, [member_joined cid (te_id t) (us_id us)])))"

section \<open>Requests\<close>

definition captain_membership :: "db \<Rightarrow> ident \<Rightarrow> ident \<Rightarrow> team_membership res" where
  "captain_membership d cid u =
     (case membership_of d cid u of
        None \<Rightarrow> Inl (HTTPException 403 ''Only the captain can review join requests'')
      | Some m \<Rightarrow> res_bind (ensure (tm_is_captain m) 403 ''Only the captain can review join requests'') (\<lambda>_. Inr m))"

definition list_join_requests :: "db \<Rightarrow> ident \<Rightarrow> ident \<Rightarrow> (team_application \<times> string) list res" where
  "list_join_requests d cid u =
     res_bind (captain_membership d cid u) (\<lambda>m.
     Inr [(a, us_display_name x).
            a \<leftarrow> sort_key ta_created_at (filter (\<lambda>a. ta_team_id a = tm_team_id m) (db_applications d)),
            x \<leftarrow> db_users d, us_id x = ta_user_id a])"

definition captain_application :: "db \<Rightarrow> ident \<Rightarrow> ident \<Rightarrow> ident \<Rightarrow> team_application res" where
  "captain_application d cid u i =
     res_bind (captain_membership d cid u) (\<lambda>m.
     case find (\<lambda>a. ta_id a = i) (db_applications d) of
       None \<Rightarrow> Inl (HTTPException 404 ''Request not found'')
     | Some a \<Rightarrow> res_bind (ensure (ta_team_id a = tm_team_id m) 404 ''Request not found'') (\<lambda>_. Inr a))"

definition drop_application :: "ident \<Rightarrow> db \<Rightarrow> db" where
  "drop_application i d = d\<lparr>db_applications := delete_where (\<lambda>a. ta_id a = i) (db_applications d)\<rparr>"

definition approve_checks :: "db \<Rightarrow> ident \<Rightarrow> ident \<Rightarrow> ident \<Rightarrow> (team_application \<times> team) res" where
  "approve_checks d cid u i =
     res_bind (captain_application d cid u i) (\<lambda>a.
     case get_competition d cid of
       None \<Rightarrow> Inl (HTTPException 500 ''Internal Server Error'')
     | Some c \<Rightarrow>
         res_bind (assert_not_full d c (ta_team_id a)) (\<lambda>_.
         case get_team d (ta_team_id a) of
           None \<Rightarrow> Inl (HTTPException 500 ''Internal Server Error'')
         | Some t \<Rightarrow> Inr (a, t)))"

definition approve_join_request ::
  "ident \<Rightarrow> time \<Rightarrow> db \<Rightarrow> ident \<Rightarrow> ident \<Rightarrow> ident \<Rightarrow> my_team_out outcome" where
  "approve_join_request aid now d cid u i =
     (case approve_checks d cid u i of
        Inl e \<Rightarrow> (Inl e, d, [])
      | Inr (a, t) \<Rightarrow>
          (let d1 = (if membership_of d cid (ta_user_id a) = None
                 then snd (ensure_participant_role aid
                   (d\<lparr>db_memberships := db_memberships d @ [new_membership cid (ta_team_id a) (ta_user_id a) False now]\<rparr>)
                   cid (ta_user_id a))
                 else d);
               d2 = drop_application (ta_id a) d1
           in (Inr (my_team_out_of d2 t), d2, [member_joined cid (ta_team_id a) (ta_user_id a)])))"

definition reject_join_request :: "db \<Rightarrow> ident \<Rightarrow> ident \<Rightarrow> ident \<Rightarrow> unit outcome" where
  "reject_join_request d cid u i =
     (case captain_application d cid u i of
        Inl e \<Rightarrow> (Inl e, d, [])
      | Inr a \<Rightarrow> (Inr (), drop_application (ta_id a) d, []))"

section \<open>Leaving\<close>

text \<open>
  What a deleted team takes with it (\<open>ON DELETE CASCADE\<close>) and the references that become NULL
  (\<open>ON DELETE SET NULL\<close>).
\<close>

definition unless_team :: "ident \<Rightarrow> ident option \<Rightarrow> ident option" where
  "unless_team i x = (if x = Some i then None else x)"

definition cascade_team :: "ident \<Rightarrow> db \<Rightarrow> db" where
  "cascade_team i d = d\<lparr>
     db_teams := delete_where (\<lambda>t. te_id t = i) (db_teams d),
     db_memberships := delete_where (\<lambda>m. tm_team_id m = i) (db_memberships d),
     db_applications := delete_where (\<lambda>a. ta_team_id a = i) (db_applications d),
     db_guess_resets := delete_where (\<lambda>r. gr_team_id r = Some i) (db_guess_resets d),
     db_adjustments := delete_where (\<lambda>r. sa_team_id r = Some i) (db_adjustments d),
     db_achievements := map (\<lambda>r. r\<lparr>ac_team_id := unless_team i (ac_team_id r)\<rparr>) (db_achievements d),
     db_instances := map (\<lambda>r. r\<lparr>ci_team_id := unless_team i (ci_team_id r)\<rparr>) (db_instances d),
     db_hint_reveals := map (\<lambda>r. r\<lparr>hr_team_id := unless_team i (hr_team_id r)\<rparr>) (db_hint_reveals d),
     db_code_submissions := map (\<lambda>r. r\<lparr>cs_team_id := unless_team i (cs_team_id r)\<rparr>) (db_code_submissions d),
     db_judgings := map (\<lambda>r. r\<lparr>ju_team_id := unless_team i (ju_team_id r)\<rparr>) (db_judgings d),
     db_submissions := map (\<lambda>r. r\<lparr>su_team_id := unless_team i (su_team_id r)\<rparr>) (db_submissions d)\<rparr>"

text \<open>The earliest-joined member left becomes captain when the captain left.\<close>

definition inherit_captaincy :: "ident \<Rightarrow> team_membership list \<Rightarrow> team_membership list" where
  "inherit_captaincy tid rows =
     (case sort_key tm_created_at (filter (\<lambda>m. tm_team_id m = tid) rows) of
        [] \<Rightarrow> rows
      | heir # _ \<Rightarrow> update_where (\<lambda>m. tm_team_id m = tid \<and> tm_user_id m = tm_user_id heir)
                     (\<lambda>m. m\<lparr>tm_is_captain := True\<rparr>) rows)"

definition leave_team :: "db \<Rightarrow> ident \<Rightarrow> ident \<Rightarrow> unit outcome" where
  "leave_team d cid u =
     (case membership_of d cid u of
        None \<Rightarrow> raise d 404 ''You are not in a team for this competition''
      | Some m \<Rightarrow>
          (let tid = tm_team_id m;
               rows = delete_where (\<lambda>x. tm_competition_id x = cid \<and> tm_user_id x = u) (db_memberships d);
               deleted = (filter (\<lambda>x. tm_team_id x = tid) rows = []);
               d1 = (if deleted then cascade_team tid (d\<lparr>db_memberships := rows\<rparr>)
                     else if tm_is_captain m then d\<lparr>db_memberships := inherit_captaincy tid rows\<rparr>
                     else d\<lparr>db_memberships := rows\<rparr>);
               payload = [(''competition_id'', PStr cid), (''team_id'', PStr tid), (''user_id'', PStr u)]
           in (Inr (), d1, Event ''team.member_left'' payload
                 # (if deleted then [Event ''team.deleted'' payload] else []))))"

section \<open>Rosters\<close>

definition member_key :: "team_membership \<Rightarrow> ident \<times> ident" where
  "member_key m = (tm_competition_id m, tm_user_id m)"

definition captains :: "ident \<Rightarrow> team_membership list \<Rightarrow> nat" where
  "captains tid ms = count_where (\<lambda>m. tm_team_id m = tid \<and> tm_is_captain m) ms"

definition members :: "ident \<Rightarrow> team_membership list \<Rightarrow> nat" where
  "members tid ms = count_where (\<lambda>m. tm_team_id m = tid) ms"

text \<open>
  A sound roster: one team per user and competition, every membership in a team of its competition,
  exactly one captain per team (so no team is empty) and no team above the size limit.
\<close>

definition fits :: "int option \<Rightarrow> nat \<Rightarrow> bool" where
  "fits limit n = (case limit of None \<Rightarrow> True | Some k \<Rightarrow> int n \<le> k)"

lemma fits_mono: "fits limit n \<Longrightarrow> m \<le> n \<Longrightarrow> fits limit m"
  by (auto simp: fits_def split: option.splits)

definition roster_ok :: "(ident \<Rightarrow> int option) \<Rightarrow> team list \<Rightarrow> team_membership list \<Rightarrow> bool" where
  "roster_ok limit teams ms \<longleftrightarrow>
     distinct (map te_id teams) \<and> distinct (map member_key ms)
     \<and> (\<forall>m\<in>set ms. \<exists>t\<in>set teams. te_id t = tm_team_id m \<and> te_competition_id t = tm_competition_id m)
     \<and> (\<forall>t\<in>set teams. captains (te_id t) ms = 1
          \<and> fits (limit (te_competition_id t)) (members (te_id t) ms))"

lemma roster_okD:
  assumes "roster_ok limit teams ms"
  shows "distinct (map te_id teams)" "distinct (map member_key ms)"
    and "m \<in> set ms \<Longrightarrow> \<exists>t\<in>set teams. te_id t = tm_team_id m \<and> te_competition_id t = tm_competition_id m"
    and "t \<in> set teams \<Longrightarrow> captains (te_id t) ms = 1"
    and "t \<in> set teams \<Longrightarrow> fits (limit (te_competition_id t)) (members (te_id t) ms)"
  using assms unfolding roster_ok_def by blast+

lemma roster_okI:
  assumes "distinct (map te_id teams)" "distinct (map member_key ms)"
    and "\<And>m. m \<in> set ms \<Longrightarrow> \<exists>t\<in>set teams. te_id t = tm_team_id m \<and> te_competition_id t = tm_competition_id m"
    and "\<And>t. t \<in> set teams \<Longrightarrow> captains (te_id t) ms = 1"
    and "\<And>t. t \<in> set teams \<Longrightarrow> fits (limit (te_competition_id t)) (members (te_id t) ms)"
  shows "roster_ok limit teams ms"
  using assms unfolding roster_ok_def by blast

lemma team_id_inj: "distinct (map te_id teams) \<Longrightarrow> s \<in> set teams \<Longrightarrow> t \<in> set teams \<Longrightarrow> te_id s = te_id t \<Longrightarrow> s = t"
  by (metis distinct_map inj_onD)

lemma roster_create:
  assumes ok: "roster_ok limit teams ms" and new: "te_id t \<notin> te_id ` set teams"
    and free: "(te_competition_id t, u) \<notin> member_key ` set ms"
    and pos: "fits (limit (te_competition_id t)) 1"
  shows "roster_ok limit (teams @ [t]) (ms @ [new_membership (te_competition_id t) (te_id t) u True now])"
proof (rule roster_okI)
  let ?m = "new_membership (te_competition_id t) (te_id t) u True now"
  have none: "tm_team_id m \<noteq> te_id t" if "m \<in> set ms" for m
    using roster_okD(3) [OF ok that] new by (metis imageI)
  have away: "te_id s \<noteq> te_id t" if "s \<in> set teams" for s using that new by (metis imageI)
  show "distinct (map te_id (teams @ [t]))" using roster_okD(1) [OF ok] new by simp
  show "distinct (map member_key (ms @ [?m]))"
    using roster_okD(2) [OF ok] free by (simp add: member_key_def new_membership_def)
  show "\<exists>s\<in>set (teams @ [t]). te_id s = tm_team_id m \<and> te_competition_id s = tm_competition_id m"
    if "m \<in> set (ms @ [?m])" for m
    using that roster_okD(3) [OF ok, of m] by (auto simp: new_membership_def)
  have 0: "captains (te_id t) ms = 0" "members (te_id t) ms = 0"
    using none by (simp_all add: captains_def members_def count_where_0_iff)
  show "captains (te_id s) (ms @ [?m]) = 1" if s: "s \<in> set (teams @ [t])" for s
  proof (cases "s = t")
    case True
    then show ?thesis using 0 by (simp add: captains_def new_membership_def)
  next
    case False
    then show ?thesis using s roster_okD(4) [OF ok, of s] away [of s] by (simp add: captains_def new_membership_def)
  qed
  show "fits (limit (te_competition_id s)) (members (te_id s) (ms @ [?m]))" if s: "s \<in> set (teams @ [t])" for s
  proof (cases "s = t")
    case True
    then show ?thesis using 0 pos by (simp add: members_def new_membership_def)
  next
    case False
    then show ?thesis using s roster_okD(5) [OF ok, of s] away [of s] by (simp add: members_def new_membership_def)
  qed
qed

lemma roster_join:
  assumes ok: "roster_ok limit teams ms" and t: "t \<in> set teams"
    and free: "(te_competition_id t, u) \<notin> member_key ` set ms"
    and room: "fits (limit (te_competition_id t)) (Suc (members (te_id t) ms))"
  shows "roster_ok limit teams (ms @ [new_membership (te_competition_id t) (te_id t) u False now])"
proof (rule roster_okI)
  let ?m = "new_membership (te_competition_id t) (te_id t) u False now"
  show "distinct (map te_id teams)" by (rule roster_okD(1) [OF ok])
  show "distinct (map member_key (ms @ [?m]))"
    using roster_okD(2) [OF ok] free by (simp add: member_key_def new_membership_def)
  show "\<exists>s\<in>set teams. te_id s = tm_team_id m \<and> te_competition_id s = tm_competition_id m"
    if "m \<in> set (ms @ [?m])" for m
    using that t roster_okD(3) [OF ok, of m] by (auto simp: new_membership_def)
  show "captains (te_id s) (ms @ [?m]) = 1" if "s \<in> set teams" for s
    using roster_okD(4) [OF ok that] by (simp add: captains_def new_membership_def)
  show "fits (limit (te_competition_id s)) (members (te_id s) (ms @ [?m]))" if s: "s \<in> set teams" for s
  proof (cases "s = t")
    case True
    then show ?thesis using room by (simp add: members_def new_membership_def)
  next
    case False
    then have "te_id s \<noteq> te_id t" using team_id_inj [OF roster_okD(1) [OF ok] s t] by blast
    then show ?thesis using roster_okD(5) [OF ok s] by (simp add: members_def new_membership_def)
  qed
qed

lemma roster_edit:
  assumes ok: "roster_ok limit teams ms" and f: "\<And>t. t \<in> set teams \<Longrightarrow> te_id (f t) = te_id t"
    "\<And>t. t \<in> set teams \<Longrightarrow> te_competition_id (f t) = te_competition_id t"
  shows "roster_ok limit (map f teams) ms"
proof (rule roster_okI)
  have "map te_id (map f teams) = map te_id teams" using f by simp
  then show "distinct (map te_id (map f teams))" using roster_okD(1) [OF ok] by (simp only:)
  show "distinct (map member_key ms)" by (rule roster_okD(2) [OF ok])
  show "\<exists>s\<in>set (map f teams). te_id s = tm_team_id m \<and> te_competition_id s = tm_competition_id m"
    if "m \<in> set ms" for m
    using roster_okD(3) [OF ok that] f by auto
  show "captains (te_id s) ms = 1" if "s \<in> set (map f teams)" for s
    using that roster_okD(4) [OF ok] f by auto
  show "fits (limit (te_competition_id s)) (members (te_id s) ms)" if "s \<in> set (map f teams)" for s
    using that roster_okD(5) [OF ok] f by auto
qed

text \<open>Dropping one row of a keyed list.\<close>

lemma count_drop:
  assumes "distinct (map member_key ms)" "m \<in> set ms"
  shows "count_where P ms = count_where P (filter (\<lambda>x. member_key x \<noteq> member_key m) ms) + (if P m then 1 else 0)"
  using assms
proof (induction ms)
  case Nil
  then show ?case by simp
next
  case (Cons x ms)
  show ?case
  proof (cases "x = m")
    case True
    then have "filter (\<lambda>x. member_key x \<noteq> member_key m) ms = ms"
      using Cons.prems(1) by (auto simp: filter_id_conv intro: rev_image_eqI)
    with True show ?thesis by simp
  next
    case False
    then have m: "m \<in> set ms" using Cons.prems by simp
    then have "member_key m \<in> member_key ` set ms" by (rule imageI)
    then have "member_key x \<noteq> member_key m" using Cons.prems(1) by auto
    then show ?thesis using Cons.IH m Cons.prems(1) by simp
  qed
qed

lemma count_one:
  assumes "distinct (map member_key ms)" "m \<in> set ms" "P m" "\<And>x. x \<in> set ms \<Longrightarrow> P x \<Longrightarrow> x = m"
  shows "count_where P ms = 1"
proof -
  have "count_where P (filter (\<lambda>x. member_key x \<noteq> member_key m) ms) = 0"
    using assms(4) by (auto simp: count_where_0_iff)
  then show ?thesis using count_drop [OF assms(1,2), of P] assms(3) by simp
qed

lemma roster_leave:
  fixes limit teams ms m
  defines "rows \<equiv> filter (\<lambda>x. member_key x \<noteq> member_key m) ms"
  assumes ok: "roster_ok limit teams ms" and m: "m \<in> set ms"
  shows "filter (\<lambda>x. tm_team_id x = tm_team_id m) rows = [] \<Longrightarrow>
      roster_ok limit (delete_where (\<lambda>t. te_id t = tm_team_id m) teams) rows"
    and "\<not> tm_is_captain m \<Longrightarrow> roster_ok limit teams rows"
    and "filter (\<lambda>x. tm_team_id x = tm_team_id m) rows \<noteq> [] \<Longrightarrow> tm_is_captain m \<Longrightarrow>
      roster_ok limit teams (inherit_captaincy (tm_team_id m) rows)"
proof -
  let ?tid = "tm_team_id m"
  note keys = roster_okD(2) [OF ok]
  have dist: "distinct (map member_key rows)" unfolding rows_def by (rule distinct_map_filter [OF keys])
  have sub: "set rows \<subseteq> set ms" by (auto simp: rows_def)
  have caps: "captains i ms = captains i rows + (if ?tid = i \<and> tm_is_captain m then 1 else 0)" for i
    unfolding captains_def rows_def using count_drop [OF keys m, of "\<lambda>m. tm_team_id m = i \<and> tm_is_captain m"] by simp
  have mems: "members i rows \<le> members i ms" for i
    unfolding members_def rows_def using count_drop [OF keys m, of "\<lambda>m. tm_team_id m = i"] by simp
  have room: "fits (limit (te_competition_id t)) (members (te_id t) rows)" if "t \<in> set teams" for t
    using fits_mono [OF roster_okD(5) [OF ok that] mems] .
  have other: "captains (te_id t) rows = 1" if "t \<in> set teams" "te_id t \<noteq> ?tid" for t
    using roster_okD(4) [OF ok that(1)] caps [of "te_id t"] that(2) by auto
  have team: "\<exists>t\<in>set teams. te_id t = tm_team_id x \<and> te_competition_id t = tm_competition_id x" if "x \<in> set rows" for x
    using roster_okD(3) [OF ok] sub that by blast
  show "roster_ok limit (delete_where (\<lambda>t. te_id t = ?tid) teams) rows"
    if empty: "filter (\<lambda>x. tm_team_id x = ?tid) rows = []"
  proof (rule roster_okI)
    have away: "tm_team_id x \<noteq> ?tid" if "x \<in> set rows" for x
      using empty that by (auto simp: filter_empty_conv)
    show "distinct (map te_id (delete_where (\<lambda>t. te_id t = ?tid) teams))"
      unfolding delete_where_def by (rule distinct_map_filter [OF roster_okD(1) [OF ok]])
    show "\<exists>t\<in>set (delete_where (\<lambda>t. te_id t = ?tid) teams). te_id t = tm_team_id x \<and> te_competition_id t = tm_competition_id x"
      if "x \<in> set rows" for x
      using team [OF that] away [OF that] by (auto simp: delete_where_def)
  qed (use dist other room in \<open>auto simp: delete_where_def\<close>)
  show "roster_ok limit teams rows" if plain: "\<not> tm_is_captain m"
  proof (rule roster_okI)
    show "captains (te_id t) rows = 1" if "t \<in> set teams" for t
      using roster_okD(4) [OF ok that] caps [of "te_id t"] plain by simp
  qed (use dist team room roster_okD(1) [OF ok] in auto)
  show "roster_ok limit teams (inherit_captaincy ?tid rows)"
    if left: "filter (\<lambda>x. tm_team_id x = ?tid) rows \<noteq> []" and cap: "tm_is_captain m"
  proof -
    obtain heir rest where heir: "sort_key tm_created_at (filter (\<lambda>x. tm_team_id x = ?tid) rows) = heir # rest"
      using left by (metis list.exhaust set_empty set_sort)
    then have "heir \<in> set (filter (\<lambda>x. tm_team_id x = ?tid) rows)" by (metis list.set_intros(1) set_sort)
    then have h: "heir \<in> set rows" "tm_team_id heir = ?tid" by simp_all
    let ?hit = "\<lambda>x. tm_team_id x = ?tid \<and> tm_user_id x = tm_user_id heir"
    let ?f = "\<lambda>x. if ?hit x then x\<lparr>tm_is_captain := True\<rparr> else x"
    have inh: "inherit_captaincy ?tid rows = map ?f rows"
      by (simp add: inherit_captaincy_def heir update_where_def)
    obtain t where t: "t \<in> set teams" "te_id t = ?tid" using roster_okD(3) [OF ok m] by blast
    have none: "captains ?tid rows = 0" using roster_okD(4) [OF ok t(1)] caps [of ?tid] cap t(2) by simp
    have same: "tm_competition_id x = te_competition_id t" if x: "x \<in> set rows" "tm_team_id x = ?tid" for x
    proof -
      obtain s where "s \<in> set teams" "te_id s = tm_team_id x" "te_competition_id s = tm_competition_id x"
        using team [OF x(1)] by blast
      then show ?thesis using team_id_inj [OF roster_okD(1) [OF ok], of s t] t x(2) by simp
    qed
    have only: "x = heir" if x: "x \<in> set rows" "?hit x" for x
    proof -
      have "member_key x = member_key heir" using same x h by (simp add: member_key_def)
      then show ?thesis using dist x(1) h(1) by (metis distinct_map inj_onD)
    qed
    have "captains ?tid (map ?f rows) = count_where ?hit rows"
    proof -
      have "\<not> (tm_team_id x = ?tid \<and> tm_is_captain x)" if "x \<in> set rows" for x
        using none that by (auto simp: captains_def count_where_0_iff)
      then show ?thesis unfolding captains_def by (induction rows) auto
    qed
    also have "\<dots> = 1" using count_one [OF dist h(1), of ?hit] only h(2) by blast
    finally have captain: "captains ?tid (map ?f rows) = 1" .
    have rest: "captains i (map ?f rows) = captains i rows" if "i \<noteq> ?tid" for i
      unfolding captains_def using that by (induction rows) auto
    have size: "members i (map ?f rows) = members i rows" for i
      unfolding members_def by (induction rows) auto
    have "map member_key (map ?f rows) = map member_key rows" by (simp add: member_key_def)
    then have keys': "distinct (map member_key (map ?f rows))" using dist by (simp only:)
    show ?thesis
      unfolding inh
    proof (rule roster_okI)
      show "\<exists>t\<in>set teams. te_id t = tm_team_id x \<and> te_competition_id t = tm_competition_id x"
        if x: "x \<in> set (map ?f rows)" for x
      proof -
        obtain y where y: "y \<in> set rows" "x = ?f y" using x by (auto simp only: set_map image_iff)
        have "tm_team_id x = tm_team_id y" "tm_competition_id x = tm_competition_id y" by (simp_all add: y(2))
        then show ?thesis using team [OF y(1)] by simp
      qed
      show "captains (te_id s) (map ?f rows) = 1" if "s \<in> set teams" for s
        using captain rest other [OF that] by (cases "te_id s = ?tid") simp_all
      show "fits (limit (te_competition_id s)) (members (te_id s) (map ?f rows))" if "s \<in> set teams" for s
        unfolding size by (rule room [OF that])
    qed (use keys' roster_okD(1) [OF ok] in auto)
  qed
qed

section \<open>The rosters of the database\<close>

definition size_limit :: "db \<Rightarrow> ident \<Rightarrow> int option" where
  "size_limit d cid = Option.bind (get_competition d cid) co_max_team_size"

text \<open>The schema admits no limit below one.\<close>

definition teams_wf :: "db \<Rightarrow> bool" where
  "teams_wf d \<longleftrightarrow> roster_ok (size_limit d) (db_teams d) (db_memberships d)
     \<and> list_all (\<lambda>c. fits (co_max_team_size c) 1) (db_competitions d)"

datatype team_op =
    Create_Team ident ident string time ident user team_create
  | Join_Team ident ident time ident user string
  | Approve ident time ident ident ident
  | Reject ident ident ident
  | Edit_Team ident ident team_update
  | Leave ident ident

fun team_step :: "(pyval \<Rightarrow> string) \<Rightarrow> db \<Rightarrow> team_op \<Rightarrow> db" where
  "team_step repr d (Create_Team tid aid code now cid us b) = fst (snd (create_team repr tid aid code now d cid us b))"
| "team_step repr d (Join_Team apid aid now cid us code) = fst (snd (join_team apid aid now d cid us code))"
| "team_step repr d (Approve aid now cid u i) = fst (snd (approve_join_request aid now d cid u i))"
| "team_step repr d (Reject cid u i) = fst (snd (reject_join_request d cid u i))"
| "team_step repr d (Edit_Team cid u b) = fst (snd (update_my_team repr d cid u b))"
| "team_step repr d (Leave cid u) = fst (snd (leave_team d cid u))"

lemma ensure_participant_frame [simp]:
  "db_teams (snd (ensure_participant_role i d c u)) = db_teams d"
  "db_memberships (snd (ensure_participant_role i d c u)) = db_memberships d"
  "db_competitions (snd (ensure_participant_role i d c u)) = db_competitions d"
  by (simp_all add: ensure_participant_role_def split: option.split)

lemma set_values_frame [simp]:
  "db_teams (set_values cid sid vs d) = db_teams d"
  "db_memberships (set_values cid sid vs d) = db_memberships d"
  "db_competitions (set_values cid sid vs d) = db_competitions d"
  "db_assignments (set_values cid sid vs d) = db_assignments d"
  by (simp_all add: set_values_def Let_def)

lemma teams_wf_eq:
  assumes "db_competitions e = db_competitions d"
  shows "teams_wf e \<longleftrightarrow> roster_ok (size_limit d) (db_teams e) (db_memberships e)
    \<and> list_all (\<lambda>c. fits (co_max_team_size c) 1) (db_competitions d)"
proof -
  have "size_limit e = size_limit d"
    by (intro ext) (simp add: size_limit_def get_competition_def assms)
  then show ?thesis by (simp add: teams_wf_def assms)
qed

lemma teams_wfI:
  assumes "teams_wf d" "db_competitions e = db_competitions d"
    and "roster_ok (size_limit d) (db_teams e) (db_memberships e)"
  shows "teams_wf e"
  using assms(1,3) unfolding teams_wf_eq [OF assms(2)] teams_wf_def [of d] by (intro conjI) (blast, elim conjE)

lemma teams_wf_same:
  assumes "teams_wf d" "db_competitions e = db_competitions d" "db_teams e = db_teams d"
    "db_memberships e = db_memberships d"
  shows "teams_wf e"
  by (rule teams_wfI [OF assms(1,2)]) (use assms(1,3,4) in \<open>simp add: teams_wf_def\<close>)

lemma membership_of_None_iff: "membership_of d cid u = None \<longleftrightarrow> (cid, u) \<notin> member_key ` set (db_memberships d)"
  by (auto simp: membership_of_def find_None_iff member_key_def)

lemma membership_of_SomeD:
  assumes "membership_of d cid u = Some m"
  shows "m \<in> set (db_memberships d) \<and> member_key m = (cid, u)"
  using assms by (auto simp: membership_of_def member_key_def dest: find_Some_in)

lemma get_team_SomeD: "get_team d i = Some t \<Longrightarrow> t \<in> set (db_teams d) \<and> te_id t = i"
  by (auto simp: get_team_def dest: find_Some_in)

lemma not_full_fits:
  assumes "assert_not_full d c tid = Inr ()"
  shows "fits (co_max_team_size c) (Suc (members tid (db_memberships d)))"
  using assms by (auto simp: assert_not_full_def fits_def members_def team_size_def split: option.splits)

lemma size_limit_at: "get_competition d cid = Some c \<Longrightarrow> size_limit d cid = co_max_team_size c"
  by (simp add: size_limit_def)

lemma get_team_competition_ok: "get_team_competition d cid = Inr c \<Longrightarrow> get_competition d cid = Some c"
  by (auto simp: get_team_competition_def res_bind_Inr_iff split: option.splits)

lemma create_team_keeps:
  assumes wf: "teams_wf d"
  shows "teams_wf (fst (snd (create_team repr tid aid code now d cid us b)))"
proof (cases "create_team_checks repr d cid us b")
  case (Inl e)
  then show ?thesis using wf by (simp add: create_team_def)
next
  case (Inr p)
  obtain c cleaned where p: "create_team_checks repr d cid us b = Inr (c, cleaned)" using Inr by (cases p) simp
  then have comp: "get_competition d cid = Some c" and free: "membership_of d cid (us_id us) = None"
    by (auto simp: create_team_checks_def res_bind_Inr_iff already_teamed_def Let_def dest: get_team_competition_ok)
  show ?thesis
  proof (cases "exists_where (\<lambda>t. te_id t = tid) (db_teams d)")
    case True
    then show ?thesis using wf by (simp add: create_team_def p raise_def)
  next
    case False
    let ?t = "\<lparr>te_id = tid, te_competition_id = cid, te_name = tc_name b, te_invite_code = code,
                  te_affiliation = tc_affiliation b, te_country = tc_country b, te_website = tc_website b,
                  te_approval_required = tc_approval_required b, te_created_at = now\<rparr>"
    let ?e = "fst (snd (create_team repr tid aid code now d cid us b))"
    have e: "db_teams ?e = db_teams d @ [?t]"
        "db_memberships ?e = db_memberships d @ [new_membership cid tid (us_id us) True now]"
        "db_competitions ?e = db_competitions d"
      using False by (simp_all add: create_team_def p Let_def)
    have "c \<in> set (db_competitions d)" using comp by (auto simp: get_competition_def dest: find_Some_in)
    then have pos: "fits (size_limit d cid) 1"
      using wf by (simp add: size_limit_at [OF comp] teams_wf_def list_all_iff)
    have ok: "roster_ok (size_limit d) (db_teams d) (db_memberships d)" using wf by (simp add: teams_wf_def)
    have "roster_ok (size_limit d) (db_teams d @ [?t]) (db_memberships d @ [new_membership cid tid (us_id us) True now])"
      using roster_create [OF ok, of ?t "us_id us" now] False free pos
      by (auto simp: exists_where_iff membership_of_None_iff)
    then show ?thesis by (intro teams_wfI [OF wf e(3)]) (simp only: e(1,2))
  qed
qed

lemma joined_keeps:
  assumes wf: "teams_wf d" and t: "t \<in> set (db_teams d)" "te_competition_id t = cid"
    and c: "get_competition d cid = Some c" and free: "membership_of d cid u = None"
    and room: "assert_not_full d c (te_id t) = Inr ()"
    and e: "db_teams e = db_teams d" "db_competitions e = db_competitions d"
      "db_memberships e = db_memberships d @ [new_membership cid (te_id t) u False now]"
  shows "teams_wf e"
proof -
  have ok: "roster_ok (size_limit d) (db_teams d) (db_memberships d)" using wf by (simp add: teams_wf_def)
  have "roster_ok (size_limit d) (db_teams d) (db_memberships d @ [new_membership cid (te_id t) u False now])"
    using roster_join [OF ok t(1), of u now] free not_full_fits [OF room]
    by (simp add: t(2) membership_of_None_iff size_limit_at [OF c])
  then show ?thesis by (intro teams_wfI [OF wf e(2)]) (simp only: e(1,3))
qed

lemma join_team_checksD:
  assumes "join_team_checks d cid us code = Inr (c, t)"
  shows "get_competition d cid = Some c" "t \<in> set (db_teams d)" "te_competition_id t = cid"
    "te_invite_code t = code" "membership_of d cid (us_id us) = None" "assert_not_full d c (te_id t) = Inr ()"
    "assert_email_verified_to_join d c us = Inr ()" "require_rules_accepted d c (us_id us) = Inr ()"
  using assms
  by (auto simp: join_team_checks_def res_bind_Inr_iff already_teamed_def Let_def
      dest: get_team_competition_ok find_Some_in split: option.splits)

lemma join_team_keeps:
  assumes wf: "teams_wf d"
  shows "teams_wf (fst (snd (join_team apid aid now d cid us code)))"
proof (cases "join_team_checks d cid us code")
  case (Inl e)
  then show ?thesis using wf by (simp add: join_team_def)
next
  case (Inr p)
  obtain c t where p: "join_team_checks d cid us code = Inr (c, t)" using Inr by (cases p) simp
  note ck = join_team_checksD [OF p]
  show ?thesis
  proof (cases "te_approval_required t")
    case True
    show ?thesis by (rule teams_wf_same [OF wf]) (use True in \<open>simp_all add: join_team_def p\<close>)
  next
    case False
    show ?thesis
      by (rule joined_keeps [OF wf ck(2,3,1,5,6), of _ now]) (simp_all add: join_team_def p False Let_def)
  qed
qed

lemma captain_applicationD:
  assumes "captain_application d cid u i = Inr a"
  shows "\<exists>m. membership_of d cid u = Some m \<and> tm_is_captain m \<and> a \<in> set (db_applications d) \<and> ta_team_id a = tm_team_id m"
  using assms
  by (auto simp: captain_application_def captain_membership_def res_bind_Inr_iff dest: find_Some_in split: option.splits)

lemma approve_keeps:
  assumes wf: "teams_wf d"
  shows "teams_wf (fst (snd (approve_join_request aid now d cid u i)))"
proof (cases "approve_checks d cid u i")
  case (Inl e)
  then show ?thesis using wf by (simp add: approve_join_request_def)
next
  case (Inr p)
  obtain a t where p: "approve_checks d cid u i = Inr (a, t)" using Inr by (cases p) simp
  then obtain c where app: "captain_application d cid u i = Inr a" and c: "get_competition d cid = Some c"
      and room: "assert_not_full d c (ta_team_id a) = Inr ()" and t: "get_team d (ta_team_id a) = Some t"
    by (auto simp: approve_checks_def res_bind_Inr_iff split: option.splits)
  let ?e = "fst (snd (approve_join_request aid now d cid u i))"
  have ok: "roster_ok (size_limit d) (db_teams d) (db_memberships d)" using wf by (simp add: teams_wf_def)
  obtain m where m: "membership_of d cid u = Some m" "ta_team_id a = tm_team_id m"
    using captain_applicationD [OF app] by blast
  obtain s where s: "s \<in> set (db_teams d)" "te_id s = tm_team_id m" "te_competition_id s = tm_competition_id m"
    using roster_okD(3) [OF ok] membership_of_SomeD [OF m(1)] by blast
  have "s = t" using team_id_inj [OF roster_okD(1) [OF ok] s(1)] get_team_SomeD [OF t] s(2) m(2) by simp
  then have t': "t \<in> set (db_teams d)" "te_competition_id t = cid" "te_id t = ta_team_id a"
    using s m membership_of_SomeD [OF m(1)] by (auto simp: member_key_def)
  show ?thesis
  proof (cases "membership_of d cid (ta_user_id a) = None")
    case True
    show ?thesis
      by (rule joined_keeps [OF wf t'(1,2) c True, of ?e now])
        (use room True in \<open>simp_all add: approve_join_request_def p drop_application_def Let_def t'(3)\<close>)
  next
    case False
    show ?thesis
      by (rule teams_wf_same [OF wf])
        (use False in \<open>simp_all add: approve_join_request_def p drop_application_def Let_def\<close>)
  qed
qed

lemma edit_team_keeps:
  assumes wf: "teams_wf d"
  shows "teams_wf (fst (snd (update_my_team repr d cid u b)))"
proof -
  let ?e = "fst (snd (update_my_team repr d cid u b))"
  have ok: "roster_ok (size_limit d) (db_teams d) (db_memberships d)" using wf by (simp add: teams_wf_def)
  have edited: "roster_ok (size_limit d) (update_where (\<lambda>x. te_id x = te_id t) (\<lambda>_. edited_team b t) (db_teams d))
      (db_memberships d)" if t: "t \<in> set (db_teams d)" for t
    unfolding update_where_def
    using team_id_inj [OF roster_okD(1) [OF ok] _ t] by (intro roster_edit [OF ok]) (auto simp: edited_team_def)
  have "db_competitions ?e = db_competitions d \<and> roster_ok (size_limit d) (db_teams ?e) (db_memberships ?e)"
  proof (cases "?e = d")
    case True
    then show ?thesis using ok by simp
  next
    case False
    then obtain m t where m: "membership_of d cid u = Some m" "tm_is_captain m" and t: "get_team d (tm_team_id m) = Some t"
        and n: "\<not> team_name_clash d cid t (tu_name b)"
      by (auto simp: update_my_team_def raise_def split: option.splits if_splits)
    have id: "te_id (edited_team b t) = te_id t" by (simp add: edited_team_def)
    show ?thesis
      using False edited [of t] get_team_SomeD [OF t]
      by (auto simp: update_my_team_def raise_def m t n put_team_def id Let_def split: option.splits sum.splits)
  qed
  then show ?thesis using teams_wfI [OF wf] by blast
qed

lemma cascade_team_rows:
  "db_teams (cascade_team i d) = delete_where (\<lambda>t. te_id t = i) (db_teams d)"
  "db_memberships (cascade_team i d) = delete_where (\<lambda>m. tm_team_id m = i) (db_memberships d)"
  by (simp_all add: cascade_team_def)

lemma idle: "filter P xs = [] \<Longrightarrow> delete_where P xs = xs"
  by (induction xs) (auto simp: delete_where_def split: if_splits)

lemma leave_team_keeps:
  assumes wf: "teams_wf d"
  shows "teams_wf (fst (snd (leave_team d cid u)))"
proof (cases "membership_of d cid u")
  case None
  then show ?thesis using wf by (simp add: leave_team_def raise_def)
next
  case (Some m)
  have ok: "roster_ok (size_limit d) (db_teams d) (db_memberships d)" using wf by (simp add: teams_wf_def)
  note m = membership_of_SomeD [OF Some]
  let ?rows = "filter (\<lambda>x. member_key x \<noteq> member_key m) (db_memberships d)"
  have rows: "delete_where (\<lambda>x. tm_competition_id x = cid \<and> tm_user_id x = u) (db_memberships d) = ?rows"
    using m by (auto simp: delete_where_def member_key_def)
  let ?e = "fst (snd (leave_team d cid u))"
  have "db_competitions ?e = db_competitions d" by (simp add: leave_team_def Some Let_def cascade_team_def)
  moreover have "roster_ok (size_limit d) (db_teams ?e) (db_memberships ?e)"
  proof (cases "filter (\<lambda>x. tm_team_id x = tm_team_id m) ?rows = []")
    case True
    have e: "?e = cascade_team (tm_team_id m) (d\<lparr>db_memberships := ?rows\<rparr>)"
      by (simp only: leave_team_def Some Let_def rows True option.case fst_conv snd_conv simp_thms if_True)
    have left: "db_memberships (d\<lparr>db_memberships := ?rows\<rparr>) = ?rows"
        "db_teams (d\<lparr>db_memberships := ?rows\<rparr>) = db_teams d" by simp_all
    have "db_memberships ?e = ?rows" by (simp only: e cascade_team_rows left idle [OF True])
    moreover have "db_teams ?e = delete_where (\<lambda>t. te_id t = tm_team_id m) (db_teams d)"
      by (simp only: e cascade_team_rows left)
    ultimately show ?thesis by (simp only: roster_leave(1) [OF ok conjunct1 [OF m] True])
  next
    case False
    then show ?thesis
      using roster_leave(2,3) [OF ok conjunct1 [OF m]]
      by (cases "tm_is_captain m") (simp_all only: leave_team_def Some Let_def rows, simp_all)
  qed
  ultimately show ?thesis by (rule teams_wfI [OF wf])
qed

lemma reject_keeps: "teams_wf d \<Longrightarrow> teams_wf (fst (snd (reject_join_request d cid u i)))"
  by (erule teams_wf_same) (simp_all add: reject_join_request_def drop_application_def split: sum.split)

interpretation team_machine: invariant_machine "team_step repr" teams_wf for repr
proof
  fix d op
  assume "teams_wf d"
  then show "teams_wf (team_step repr d op)"
    by (cases op) (simp_all add: create_team_keeps join_team_keeps approve_keeps reject_keeps edit_team_keeps
        leave_team_keeps)
qed

text \<open>
  C35: Teams stay sound: whatever sequence of creations, joins, requests, approvals, edits and leavings
  is served, every user has at most one team per competition, every membership is in a team of its
  competition, no team exceeds the size limit, and every team has exactly one captain (who leaves
  hands the captaincy on, and an empty team is gone).
\<close>

theorem teams_stay_sound:
  assumes "teams_wf d" and "e = foldl (team_step repr) d ops"
  shows "distinct (map (\<lambda>m. (tm_competition_id m, tm_user_id m)) (db_memberships e))
    \<and> list_all (\<lambda>m. list_ex (\<lambda>t. te_id t = tm_team_id m \<and> te_competition_id t = tm_competition_id m) (db_teams e))
        (db_memberships e)
    \<and> list_all (\<lambda>t. count_where (\<lambda>m. tm_team_id m = te_id t \<and> tm_is_captain m) (db_memberships e) = 1
        \<and> (case get_competition e (te_competition_id t) of
             None \<Rightarrow> True
           | Some c \<Rightarrow> (case co_max_team_size c of None \<Rightarrow> True | Some k \<Rightarrow> int (team_size e (te_id t)) \<le> k)))
        (db_teams e)"
proof -
  have "roster_ok (size_limit e) (db_teams e) (db_memberships e)"
    using team_machine.run_inv [OF assms(1), of repr ops] by (simp add: assms(2) teams_wf_def)
  note ok = roster_okD [OF this]
  have size: "case get_competition e (te_competition_id t) of None \<Rightarrow> True
      | Some c \<Rightarrow> (case co_max_team_size c of None \<Rightarrow> True | Some k \<Rightarrow> int (team_size e (te_id t)) \<le> k)"
    if "t \<in> set (db_teams e)" for t
    using ok(5) [OF that]
    by (auto simp: size_limit_def fits_def members_def team_size_def split: option.splits)
  have keys: "distinct (map (\<lambda>m. (tm_competition_id m, tm_user_id m)) (db_memberships e))"
    using ok(2) by (simp add: member_key_def [abs_def])
  have teams: "list_all (\<lambda>m. list_ex (\<lambda>t. te_id t = tm_team_id m \<and> te_competition_id t = tm_competition_id m)
      (db_teams e)) (db_memberships e)"
    unfolding list_all_iff list_ex_iff using ok(3) by blast
  show ?thesis
    using keys teams size ok(4) unfolding list_all_iff captains_def by blast
qed

definition team_db :: db where
  "team_db = empty_db\<lparr>
     db_competitions := [blank_competition ''A''\<lparr>co_visibility := Public, co_max_team_size := Some 2\<rparr>],
     db_users := [blank_user ''u'', blank_user ''v'', blank_user ''w''], db_roles := db_roles participant_db\<rparr>"

text \<open>One founds a team, two want in where one fits, the founder leaves, and the heir approves nobody.\<close>

definition team_story :: "team_op list" where
  "team_story =
     [Create_Team ''t'' ''a'' ''code'' 1 ''A'' (blank_user ''u'')
        \<lparr>tc_name = ''T'', tc_affiliation = None, tc_country = None, tc_website = None,
         tc_approval_required = False, tc_field_values = []\<rparr>,
      Join_Team ''p'' ''b'' 2 ''A'' (blank_user ''v'') ''code'',
      Join_Team ''q'' ''c'' 3 ''A'' (blank_user ''w'') ''code'',
      Leave ''A'' ''u'']"

lemma teams_stay_sound_witness:
  "let e = foldl (team_step (\<lambda>_. ''[]'')) team_db team_story
   in map (\<lambda>m. (tm_user_id m, tm_is_captain m)) (db_memberships e) = [(''v'', True)]
      \<and> distinct (map (\<lambda>m. (tm_competition_id m, tm_user_id m)) (db_memberships e))
      \<and> team_size e ''t'' \<le> 2"
proof -
  have wf: "teams_wf team_db" by (simp add: teams_wf_def roster_ok_def team_db_def empty_db_def fits_def)
  have "map (\<lambda>m. (tm_user_id m, tm_is_captain m)) (db_memberships (foldl (team_step (\<lambda>_. ''[]'')) team_db team_story))
      = [(''v'', True)]
    \<and> team_size (foldl (team_step (\<lambda>_. ''[]'')) team_db team_story) ''t'' \<le> 2" by code_simp
  then show ?thesis using teams_stay_sound [OF wf refl, of "\<lambda>_. ''[]''" team_story] by (simp add: Let_def)
qed

text \<open>
  Two things the handlers do not do. An approval announces the applicant as a member also when they
  have joined another team since; and the deletion of a captain's account hands no captaincy on.
\<close>

lemma approval_announced_without_membership:
  assumes "approve_checks d cid u i = Inr (a, t)" and "membership_of d cid (ta_user_id a) \<noteq> None"
  shows "db_memberships (fst (snd (approve_join_request aid now d cid u i))) = db_memberships d
    \<and> snd (snd (approve_join_request aid now d cid u i)) = [member_joined cid (ta_team_id a) (ta_user_id a)]"
  using assms by (simp add: approve_join_request_def Let_def drop_application_def)

lemma deleted_captain_leaves_none:
  assumes "captains tid (db_memberships d) = 1" "m \<in> set (db_memberships d)" "tm_team_id m = tid" "tm_is_captain m"
  shows "captains tid (db_memberships (cascade_user (tm_user_id m) d)) = 0"
proof -
  have "length (filter (\<lambda>m. tm_team_id m = tid \<and> tm_is_captain m) (db_memberships d)) = 1"
    using assms(1) by (simp add: captains_def count_where_def)
  then obtain x where x: "filter (\<lambda>m. tm_team_id m = tid \<and> tm_is_captain m) (db_memberships d) = [x]"
    by (auto simp: length_Suc_conv)
  have "y = m" if "y \<in> set (db_memberships d)" "tm_team_id y = tid" "tm_is_captain y" for y
  proof -
    have "y \<in> set [x]" "m \<in> set [x]" using that assms(2-4) by (simp_all flip: x)
    then show ?thesis by simp
  qed
  then show ?thesis by (auto simp: captains_def count_where_0_iff cascade_user_def delete_where_def Let_def)
qed

section \<open>Every way in\<close>

text \<open>
  The calls that can bring a user into a competition, by a caller, and what each of them leaves of
  the database. A user is inside once they hold a role there, are in one of its teams or have
  applied to one.
\<close>

datatype entry_call =
    By_Code join_request
  | Publicly ident "payload option"
  | By_Link link_join_request
  | Founding ident string ident team_create
  | By_Team_Code ident ident string
  | By_Approval ident ident

fun enter :: "(pyval \<Rightarrow> string) \<Rightarrow> ident \<Rightarrow> time \<Rightarrow> db \<Rightarrow> user \<Rightarrow> entry_call \<Rightarrow> db" where
  "enter repr aid now d us (By_Code b) = fst (snd (join_by_code repr aid now d us b))"
| "enter repr aid now d us (Publicly cid vs) = fst (snd (join_competition repr aid d cid us vs))"
| "enter repr aid now d us (By_Link b) = fst (snd (join_via_invite_link repr aid now d d us b))"
| "enter repr aid now d us (Founding tid code cid b) = fst (snd (create_team repr tid aid code now d cid us b))"
| "enter repr aid now d us (By_Team_Code apid cid code) = fst (snd (join_team apid aid now d cid us code))"
| "enter repr aid now d us (By_Approval cid i) = fst (snd (approve_join_request aid now d cid (us_id us) i))"

definition inside :: "db \<Rightarrow> ident \<Rightarrow> ident \<Rightarrow> bool" where
  "inside d cid v \<longleftrightarrow> cid \<in> member_competition_ids d v
     \<or> exists_where (\<lambda>m. tm_competition_id m = cid \<and> tm_user_id m = v) (db_memberships d)
     \<or> exists_where (\<lambda>a. ta_competition_id a = cid \<and> ta_user_id a = v) (db_applications d)"

text \<open>
  The gates every self-serve entry passes, with the rules accepted before (\<open>d\<close>) or in the course of
  the call (\<open>e\<close>), and the right the call shows.
\<close>

definition gates_cleared :: "db \<Rightarrow> db \<Rightarrow> competition \<Rightarrow> user \<Rightarrow> bool" where
  "gates_cleared d e c us \<longleftrightarrow>
     \<not> (ss_email_verification_enabled (get_or_create_settings d) \<and> email_unverified us)
     \<and> (require_rules_accepted d c (us_id us) = Inr () \<or> has_accepted e (co_id c) (us_id us))"

fun entitled :: "time \<Rightarrow> db \<Rightarrow> competition \<Rightarrow> user \<Rightarrow> entry_call \<Rightarrow> bool" where
  "entitled now d c us (By_Code b) = (co_invite_code c = jq_invite_code b)"
| "entitled now d c us (Publicly cid vs) = (co_visibility c = Public)"
| "entitled now d c us (By_Link b) =
     (list_ex (\<lambda>l. il_token l = lj_token b \<and> il_competition_id l = co_id c \<and> il_capability l = Join_Link
        \<and> is_active now l) (db_invite_links d)
      \<and> co_archived_at c = None \<and> co_status c \<noteq> Ended \<and> registration_window_open now c)"
| "entitled now d c us (Founding tid code cid b) = can_see_competition d c (us_id us)"
| "entitled now d c us (By_Team_Code apid cid code) =
     list_ex (\<lambda>t. te_competition_id t = co_id c \<and> te_invite_code t = code) (db_teams d)"
| "entitled now d c us (By_Approval cid i) = False"

definition admission :: "time \<Rightarrow> db \<Rightarrow> db \<Rightarrow> user \<Rightarrow> ident \<Rightarrow> ident \<Rightarrow> entry_call \<Rightarrow> bool" where
  "admission now d e us cid v call \<longleftrightarrow> v = us_id us
     \<and> list_ex (\<lambda>c. co_id c = cid \<and> gates_cleared d e c us \<and> entitled now d c us call) (db_competitions d)"

text \<open>
  An approval has no gate of its own: the applicant passed them when applying, which made them one of
  those inside. What it decides is who comes to be on a team.
\<close>

definition on_team :: "db \<Rightarrow> ident \<Rightarrow> ident \<Rightarrow> ident \<Rightarrow> bool" where
  "on_team d cid tid v \<longleftrightarrow>
     exists_where (\<lambda>m. tm_competition_id m = cid \<and> tm_team_id m = tid \<and> tm_user_id m = v) (db_memberships d)"

definition approvable :: "db \<Rightarrow> user \<Rightarrow> ident \<Rightarrow> ident \<Rightarrow> ident \<Rightarrow> ident \<Rightarrow> bool" where
  "approvable d us cid i tid v \<longleftrightarrow>
     (\<exists>m. membership_of d cid (us_id us) = Some m \<and> tm_is_captain m \<and> tm_team_id m = tid)
     \<and> (\<exists>a. find (\<lambda>a. ta_id a = i) (db_applications d) = Some a \<and> ta_team_id a = tid \<and> ta_user_id a = v)
     \<and> (\<exists>c. get_competition d cid = Some c
          \<and> (case co_max_team_size c of None \<Rightarrow> True | Some n \<Rightarrow> int (team_size d tid) < n))
     \<and> get_team d tid \<noteq> None
     \<and> (\<forall>m\<in>set (db_memberships d). \<not> (tm_competition_id m = cid \<and> tm_user_id m = v))"

lemma exists_where_snoc [simp]: "exists_where P (xs @ [x]) \<longleftrightarrow> exists_where P xs \<or> P x"
  by (auto simp: exists_where_iff)

lemma ensure_participant_member:
  assumes "cid \<in> member_competition_ids (snd (ensure_participant_role i d c u)) v"
  shows "cid \<in> member_competition_ids d v \<or> cid = c \<and> v = u"
  using assms
  by (auto simp: ensure_participant_role_def member_competition_ids_def map_filter_def
      split: option.splits if_splits)

lemma members_of_assignments: "db_assignments e = db_assignments d \<Longrightarrow> member_competition_ids e = member_competition_ids d"
  by (intro ext) (simp add: member_competition_ids_def)

lemma ensure_participant_rest [simp]:
  "db_applications (snd (ensure_participant_role i d c u)) = db_applications d"
  "db_rules_acceptances (snd (ensure_participant_role i d c u)) = db_rules_acceptances d"
  by (simp_all add: ensure_participant_role_def split: option.split)

lemma set_values_rest [simp]:
  "db_applications (set_values cid sid vs d) = db_applications d"
  "db_rules_acceptances (set_values cid sid vs d) = db_rules_acceptances d"
  by (simp_all add: set_values_def Let_def)

lemma set_values_members [simp]: "member_competition_ids (set_values cid sid vs d) = member_competition_ids d"
  by (rule members_of_assignments) simp

lemma accept_with_join_cases:
  assumes "accept_with_join now accept d c u = (e, evs)"
  shows "(e = d \<or> has_accepted e (co_id c) u) \<and> db_assignments e = db_assignments d
    \<and> db_memberships e = db_memberships d \<and> db_applications e = db_applications d
    \<and> db_site_settings e = db_site_settings d"
  using assms
  by (auto simp: accept_with_join_def accept_rules_def has_accepted_def exists_where_iff split: if_splits)

lemma join_new:
  assumes "inside (fst (snd (join repr aid d c us fv req))) cid v" "\<not> inside d cid v"
  shows "v = us_id us \<and> cid = co_id c \<and> co_id c \<notin> member_competition_ids d (us_id us)
    \<and> \<not> (ss_email_verification_enabled (get_or_create_settings d) \<and> email_unverified us)
    \<and> require_rules_accepted d c (us_id us) = Inr ()
    \<and> db_rules_acceptances (fst (snd (join repr aid d c us fv req))) = db_rules_acceptances d"
proof (cases "join_checks repr d c us fv req")
  case (Inl e)
  then show ?thesis using assms by (simp add: join_def)
next
  case (Inr cleaned)
  obtain b d1 where e: "ensure_participant_role aid d (co_id c) (us_id us) = (b, d1)" by fastforce
  then have d1: "d1 = snd (ensure_participant_role aid d (co_id c) (us_id us))" by simp
  have ends: "fst (snd (join repr aid d c us fv req))
      = (if cleaned \<noteq> [] then set_values (co_id c) (us_id us) cleaned d1 else d1)"
    by (simp add: join_def Inr e)
  have "inside d1 cid v" using assms(1) unfolding ends by (auto simp: inside_def split: if_splits)
  then have new: "cid \<in> member_competition_ids d1 v" "cid \<notin> member_competition_ids d v"
    using assms(2) by (auto simp: inside_def d1)
  then have "cid = co_id c \<and> v = us_id us"
    using ensure_participant_member [of cid aid d "co_id c" "us_id us" v] by (simp add: d1)
  then show ?thesis
    using new Inr by (auto simp: ends d1 join_checks_def Let_def res_bind_Inr_iff)
qed

lemma joined_after_acceptance:
  assumes acc: "accept_with_join now accept d c (us_id us) = (d1, evs)"
    and links: "db_assignments d2 = db_assignments d1" "db_memberships d2 = db_memberships d1"
      "db_applications d2 = db_applications d1" "db_site_settings d2 = db_site_settings d1"
      "db_rules_acceptances d2 = db_rules_acceptances d1"
      "require_rules_accepted d2 c (us_id us) = require_rules_accepted d1 c (us_id us)"
    and new: "inside (fst (snd (join repr aid d2 c us fv req))) cid v" "\<not> inside d cid v"
  shows "v = us_id us \<and> cid = co_id c \<and> gates_cleared d (fst (snd (join repr aid d2 c us fv req))) c us"
proof -
  note a = accept_with_join_cases [OF acc]
  have "inside d2 cid v = inside d cid v"
    using a links members_of_assignments [of d2 d] by (simp add: inside_def)
  then have j: "v = us_id us" "cid = co_id c"
      "\<not> (ss_email_verification_enabled (get_or_create_settings d2) \<and> email_unverified us)"
      "require_rules_accepted d2 c (us_id us) = Inr ()"
      "db_rules_acceptances (fst (snd (join repr aid d2 c us fv req))) = db_rules_acceptances d2"
    using join_new [OF new(1)] new(2) by blast+
  have "get_or_create_settings d2 = get_or_create_settings d"
    using a links by (simp add: get_or_create_settings_def)
  then show ?thesis
    using j a links(5,6) by (auto simp: gates_cleared_def has_accepted_def)
qed

lemma by_code_admitted:
  assumes "inside (enter repr aid now d us (By_Code b)) cid v" "\<not> inside d cid v"
  shows "admission now d (enter repr aid now d us (By_Code b)) us cid v (By_Code b)"
proof -
  obtain c where c: "find (\<lambda>c. co_invite_code c = jq_invite_code b) (db_competitions d) = Some c"
    using assms by (cases "find (\<lambda>c. co_invite_code c = jq_invite_code b) (db_competitions d)")
      (auto simp: join_by_code_def raise_def)
  obtain d1 evs where acc: "accept_with_join now (jq_accept_rules b) d c (us_id us) = (d1, evs)" by fastforce
  have e: "enter repr aid now d us (By_Code b) = fst (snd (join repr aid d1 c us (jq_field_values b) False))"
    by (simp add: join_by_code_def c acc split: prod.split)
  show ?thesis
    unfolding e
    using joined_after_acceptance [OF acc _ _ _ _ _ _ assms(1) [unfolded e] assms(2)] find_Some_in [OF c]
    by (auto simp: admission_def list_ex_iff)
qed

lemma publicly_admitted:
  assumes "inside (enter repr aid now d us (Publicly i vs)) cid v" "\<not> inside d cid v"
  shows "admission now d (enter repr aid now d us (Publicly i vs)) us cid v (Publicly i vs)"
proof -
  obtain c where c: "get_competition d i = Some c" "co_visibility c = Public"
    using assms by (auto simp: join_competition_def raise_def split: option.splits if_splits)
  have e: "enter repr aid now d us (Publicly i vs) = fst (snd (join repr aid d c us vs True))"
    by (simp add: join_competition_def c)
  have "c \<in> set (db_competitions d)" using c(1) by (auto simp: get_competition_def dest: find_Some_in)
  then show ?thesis
    unfolding e
    using join_new [OF assms(1) [unfolded e] assms(2)] c(2) by (auto simp: admission_def gates_cleared_def list_ex_iff)
qed

lemma usable_join_linkD:
  assumes "usable_join_link now d token = Inr (l, c)"
  shows "l \<in> set (db_invite_links d) \<and> il_token l = token \<and> il_capability l = Join_Link \<and> is_active now l
    \<and> get_competition d (il_competition_id l) = Some c \<and> co_archived_at c = None \<and> join_blocked_reason now c = None"
  using assms
  by (auto simp: usable_join_link_def link_by_token_def dest: find_Some_in split: option.splits if_splits)

lemma not_blocked: "join_blocked_reason now c = None \<Longrightarrow> co_status c \<noteq> Ended \<and> registration_window_open now c"
  by (auto simp: join_blocked_reason_def registration_window_open_def split: if_splits)

lemma invite_links_frame [simp]:
  "user_has_permission (d\<lparr>db_invite_links := ls\<rparr>) = user_has_permission d"
  "require_rules_accepted (d\<lparr>db_invite_links := ls\<rparr>) c u = require_rules_accepted d c u"
proof -
  show *: "user_has_permission (d\<lparr>db_invite_links := ls\<rparr>) = user_has_permission d"
    by (intro ext user_has_permission_cong) simp_all
  have "effective_rules (d\<lparr>db_invite_links := ls\<rparr>) c = effective_rules d c"
    by (simp add: effective_rules_def get_or_create_settings_def)
  moreover have "is_rules_exempt (d\<lparr>db_invite_links := ls\<rparr>) = is_rules_exempt d"
    by (intro ext) (simp add: is_rules_exempt_def *)
  moreover have "has_accepted (d\<lparr>db_invite_links := ls\<rparr>) = has_accepted d"
    by (intro ext) (simp add: has_accepted_def)
  ultimately show "require_rules_accepted (d\<lparr>db_invite_links := ls\<rparr>) c u = require_rules_accepted d c u"
    by (simp only: require_rules_accepted_def)
qed

lemma link_join_shape:
  fixes repr aid
  assumes "usable_join_link now d (lj_token b) = Inr (l, c)"
    and "accept_with_join now (lj_accept_rules b) d c (us_id us) = (d1, evs)"
  defines "e \<equiv> fst (snd (join_via_invite_link repr aid now d d us b))"
  shows "\<exists>d2. (d2 = d1 \<or> reserve_use now (il_id l) d1 = Some d2)
    \<and> (e = d1 \<or> e = fst (snd (join repr aid d2 c us (lj_field_values b) False))
       \<or> e = count_plain_use now l (fst (snd (join repr aid d2 c us (lj_field_values b) False))))"
proof -
  define reserved where "reserved = (if co_id c \<notin> member_competition_ids d (us_id us) \<and> il_max_uses l \<noteq> None
    then reserve_use now (il_id l) d1 else Some d1)"
  note shape = join_via_invite_link_def assms(1,2) sum.case prod.case Let_def reserved_def [symmetric]
  show ?thesis
  proof (cases reserved)
    case None
    have "e = d1" unfolding e_def by (simp only: shape None option.case fst_conv snd_conv)
    then show ?thesis by blast
  next
    case (Some d2)
    then have d2: "d2 = d1 \<or> reserve_use now (il_id l) d1 = Some d2" by (auto simp: reserved_def split: if_splits)
    obtain r d3 evs' where j: "join repr aid d2 c us (lj_field_values b) False = (r, d3, evs')" by (cases "join repr aid d2 c us (lj_field_values b) False")
    have "e = d1 \<or> e = d3 \<or> e = count_plain_use now l d3"
      unfolding e_def by (cases r) (simp_all only: shape Some option.case j fst_conv snd_conv split: if_split, simp_all)
    then show ?thesis using d2 j by auto
  qed
qed

lemma by_link_admitted:
  assumes "inside (enter repr aid now d us (By_Link b)) cid v" "\<not> inside d cid v"
  shows "admission now d (enter repr aid now d us (By_Link b)) us cid v (By_Link b)"
proof (cases "usable_join_link now d (lj_token b)")
  case (Inl e)
  then show ?thesis using assms by (simp add: join_via_invite_link_def)
next
  case (Inr p)
  obtain l c where p: "usable_join_link now d (lj_token b) = Inr (l, c)" using Inr by (cases p) simp
  note u = usable_join_linkD [OF p]
  obtain d1 evs where acc: "accept_with_join now (lj_accept_rules b) d c (us_id us) = (d1, evs)" by fastforce
  have stay: "\<not> inside d1 cid v"
    using accept_with_join_cases [OF acc] assms(2) members_of_assignments [of d1 d] by (simp add: inside_def)
  let ?e = "enter repr aid now d us (By_Link b)"
  obtain d2 where d2: "d2 = d1 \<or> reserve_use now (il_id l) d1 = Some d2"
      and e: "?e = d1 \<or> ?e = fst (snd (join repr aid d2 c us (lj_field_values b) False))
        \<or> ?e = count_plain_use now l (fst (snd (join repr aid d2 c us (lj_field_values b) False)))"
    using link_join_shape [OF p acc] by auto
  let ?j = "fst (snd (join repr aid d2 c us (lj_field_values b) False))"
  have j: "inside ?j cid v" "db_rules_acceptances ?e = db_rules_acceptances ?j"
    using e assms(1) stay by (auto simp: inside_def count_plain_use_def member_competition_ids_def)
  have frame: "db_assignments d2 = db_assignments d1" "db_memberships d2 = db_memberships d1"
      "db_applications d2 = db_applications d1" "db_site_settings d2 = db_site_settings d1"
      "db_rules_acceptances d2 = db_rules_acceptances d1"
      "require_rules_accepted d2 c (us_id us) = require_rules_accepted d1 c (us_id us)"
    using d2 by (auto simp: reserve_use_def Let_def split: if_splits)
  have "has_accepted ?e = has_accepted ?j" by (intro ext) (simp only: has_accepted_def j(2))
  then have "v = us_id us \<and> cid = co_id c \<and> gates_cleared d ?e c us"
    using joined_after_acceptance [OF acc frame j(1) assms(2)] by (simp only: gates_cleared_def simp_thms)
  moreover have "c \<in> set (db_competitions d)" "il_competition_id l = co_id c"
    using u by (auto simp: get_competition_def dest: find_Some_in)
  moreover have "entitled now d c us (By_Link b)"
    using u not_blocked [of now c] \<open>il_competition_id l = co_id c\<close> by (auto simp: list_ex_iff)
  ultimately show ?thesis by (auto simp del: enter.simps entitled.simps simp: admission_def list_ex_iff)
qed

lemma email_ok_new:
  assumes "assert_email_verified_to_join d c us = Inr ()" "co_id c \<notin> member_competition_ids d (us_id us)"
  shows "\<not> (ss_email_verification_enabled (get_or_create_settings d) \<and> email_unverified us)"
  using assms by (simp add: assert_email_verified_to_join_def)

lemma create_team_checksD:
  assumes "create_team_checks repr d cid us b = Inr (c, cleaned)"
  shows "get_competition d cid = Some c" "can_see_competition d c (us_id us)"
    "assert_email_verified_to_join d c us = Inr ()" "require_rules_accepted d c (us_id us) = Inr ()"
  using assms
  by (auto simp: create_team_checks_def res_bind_Inr_iff Let_def dest: get_team_competition_ok)

lemma inside_new_membership:
  assumes "inside (snd (ensure_participant_role aid
      (d\<lparr>db_teams := ts, db_memberships := db_memberships d @ [new_membership cid tid u cap now]\<rparr>) cid u)) i v"
    and "\<not> inside d i v"
  shows "v = u \<and> i = cid \<and> cid \<notin> member_competition_ids d u"
  using assms
  by (auto simp: inside_def new_membership_def dest!: ensure_participant_member
      simp: members_of_assignments [of "d\<lparr>db_teams := ts, db_memberships := ms\<rparr>" d for ms])

lemma founding_admitted:
  assumes "inside (enter repr aid now d us (Founding tid code i b)) cid v" "\<not> inside d cid v"
  shows "admission now d (enter repr aid now d us (Founding tid code i b)) us cid v (Founding tid code i b)"
proof -
  let ?e = "enter repr aid now d us (Founding tid code i b)"
  obtain c cleaned where p: "create_team_checks repr d i us b = Inr (c, cleaned)"
      and fresh: "\<not> exists_where (\<lambda>t. te_id t = tid) (db_teams d)"
    using assms by (cases "create_team_checks repr d i us b") (auto simp: create_team_def raise_def split: if_splits)
  note ck = create_team_checksD [OF p]
  define ts where "ts = db_teams ?e"
  let ?m = "d\<lparr>db_teams := ts, db_memberships := db_memberships d @ [new_membership i tid (us_id us) True now]\<rparr>"
  let ?d2 = "snd (ensure_participant_role aid ?m i (us_id us))"
  have e: "?e = (if cleaned \<noteq> [] then set_values i tid cleaned ?d2 else ?d2)"
    by (simp add: ts_def create_team_def p fresh Let_def)
  have "inside ?d2 cid v" using assms(1) unfolding e by (auto simp: inside_def split: if_splits)
  then have new: "v = us_id us" "cid = i" "i \<notin> member_competition_ids d (us_id us)"
    using inside_new_membership [OF _ assms(2)] by blast+
  have c: "c \<in> set (db_competitions d)" "co_id c = i"
    using ck(1) by (auto simp: get_competition_def dest: find_Some_in)
  have "gates_cleared d ?e c us"
    using email_ok_new [OF ck(3)] new(3) ck(4) c(2) by (simp add: gates_cleared_def)
  then show ?thesis using c new ck(2) by (auto simp del: enter.simps simp: admission_def list_ex_iff)
qed

lemma by_team_code_admitted:
  assumes "inside (enter repr aid now d us (By_Team_Code apid i code)) cid v" "\<not> inside d cid v"
  shows "admission now d (enter repr aid now d us (By_Team_Code apid i code)) us cid v (By_Team_Code apid i code)"
proof -
  let ?e = "enter repr aid now d us (By_Team_Code apid i code)"
  obtain c t where p: "join_team_checks d i us code = Inr (c, t)"
    using assms by (cases "join_team_checks d i us code") (auto simp: join_team_def)
  note ck = join_team_checksD [OF p]
  have c: "c \<in> set (db_competitions d)" "co_id c = i"
    using ck(1) by (auto simp: get_competition_def dest: find_Some_in)
  have new: "v = us_id us \<and> cid = i \<and> i \<notin> member_competition_ids d (us_id us)"
  proof (cases "te_approval_required t")
    case True
    then show ?thesis
      using assms by (auto simp: join_team_def p inside_def member_competition_ids_def split: if_splits)
  next
    case False
    have "?e = snd (ensure_participant_role aid (d\<lparr>db_teams := db_teams d, db_memberships := db_memberships d
        @ [new_membership i (te_id t) (us_id us) False now]\<rparr>) i (us_id us))"
      using False by (simp add: join_team_def p Let_def)
    then show ?thesis using inside_new_membership assms by metis
  qed
  have "gates_cleared d ?e c us"
    using email_ok_new [OF ck(7)] new ck(8) c(2) by (simp add: gates_cleared_def)
  then show ?thesis using c new ck(2,3,4) by (auto simp del: enter.simps simp: admission_def list_ex_iff)
qed

text \<open>The captain's approval, as the memberships and the roles after it.\<close>

lemma approve_checks_iff:
  "approve_checks d cid u i = Inr (a, t) \<longleftrightarrow>
     captain_application d cid u i = Inr a \<and> get_team d (ta_team_id a) = Some t
     \<and> (\<exists>c. get_competition d cid = Some c \<and> assert_not_full d c (ta_team_id a) = Inr ())"
proof (cases "captain_application d cid u i")
  case (Inr b)
  then show ?thesis
    by (cases "get_competition d cid"; cases "get_team d (ta_team_id b)")
      (auto simp: approve_checks_def res_bind_Inr_iff)
qed (simp add: approve_checks_def)

lemma captain_application_iff:
  "captain_application d cid u i = Inr a \<longleftrightarrow>
     (\<exists>m. membership_of d cid u = Some m \<and> tm_is_captain m
        \<and> find (\<lambda>a. ta_id a = i) (db_applications d) = Some a \<and> ta_team_id a = tm_team_id m)"
  by (auto simp: captain_application_def captain_membership_def res_bind_Inr_iff split: option.splits)

lemma not_full_iff:
  "assert_not_full d c tid = Inr ()
     \<longleftrightarrow> (case co_max_team_size c of None \<Rightarrow> True | Some n \<Rightarrow> int (team_size d tid) < n)"
  by (simp add: assert_not_full_def split: option.split)

lemma approvable_iff:
  "approvable d us cid i tid v \<longleftrightarrow>
     (\<exists>a t. approve_checks d cid (us_id us) i = Inr (a, t) \<and> ta_team_id a = tid \<and> ta_user_id a = v
        \<and> membership_of d cid v = None)"
  unfolding approvable_def approve_checks_iff captain_application_iff not_full_iff
  by (auto simp: membership_of_def find_None_iff cong: option.case_cong)

lemma approval_effect:
  fixes repr :: "pyval \<Rightarrow> string" and aid :: ident and now :: time
  assumes "approve_checks d cid (us_id us) i = Inr (a, t)" "membership_of d cid (ta_user_id a) = None"
  defines "e \<equiv> enter repr aid now d us (By_Approval cid i)"
  shows "db_memberships e = db_memberships d @ [new_membership cid (ta_team_id a) (ta_user_id a) False now]"
    and "c \<in> member_competition_ids e v \<Longrightarrow> c \<in> member_competition_ids d v \<or> c = cid \<and> v = ta_user_id a"
proof -
  let ?m = "d\<lparr>db_memberships := db_memberships d @ [new_membership cid (ta_team_id a) (ta_user_id a) False now]\<rparr>"
  have e: "e = drop_application (ta_id a) (snd (ensure_participant_role aid ?m cid (ta_user_id a)))"
    using assms(1,2) by (simp add: e_def approve_join_request_def Let_def)
  show "db_memberships e = db_memberships d @ [new_membership cid (ta_team_id a) (ta_user_id a) False now]"
    by (simp add: e drop_application_def)
  assume "c \<in> member_competition_ids e v"
  then have "c \<in> member_competition_ids (snd (ensure_participant_role aid ?m cid (ta_user_id a))) v"
    by (simp add: e drop_application_def member_competition_ids_def)
  then show "c \<in> member_competition_ids d v \<or> c = cid \<and> v = ta_user_id a"
    using ensure_participant_member members_of_assignments [of ?m d] by fastforce
qed

lemma approval_idle:
  fixes repr :: "pyval \<Rightarrow> string" and aid :: ident and now :: time
  assumes "\<not> (\<exists>a t. approve_checks d cid (us_id us) i = Inr (a, t) \<and> membership_of d cid (ta_user_id a) = None)"
  defines "e \<equiv> enter repr aid now d us (By_Approval cid i)"
  shows "db_memberships e = db_memberships d" and "member_competition_ids e = member_competition_ids d"
proof -
  have "e = d \<or> (\<exists>k. e = drop_application k d)"
    using assms(1) by (auto simp: e_def approve_join_request_def Let_def split: sum.split prod.split)
  then show "db_memberships e = db_memberships d" and "member_competition_ids e = member_competition_ids d"
    by (auto simp: drop_application_def intro: members_of_assignments)
qed

lemma approval_admits:
  fixes repr :: "pyval \<Rightarrow> string" and aid :: ident and now :: time and d :: db and us :: user and i k :: ident
  defines "e \<equiv> enter repr aid now d us (By_Approval i k)"
  shows "on_team e cid tid v \<and> \<not> on_team d cid tid v \<longleftrightarrow> cid = i \<and> approvable d us i k tid v"
    and "cid \<in> member_competition_ids e v \<Longrightarrow> cid \<notin> member_competition_ids d v \<Longrightarrow>
      cid = i \<and> (\<exists>tid. approvable d us i k tid v)"
proof -
  consider a t where "approve_checks d i (us_id us) k = Inr (a, t)" "membership_of d i (ta_user_id a) = None"
    | "\<not> (\<exists>a t. approve_checks d i (us_id us) k = Inr (a, t) \<and> membership_of d i (ta_user_id a) = None)"
    by blast
  then have "(on_team e cid tid v \<and> \<not> on_team d cid tid v \<longleftrightarrow> cid = i \<and> approvable d us i k tid v)
    \<and> (cid \<in> member_competition_ids e v \<longrightarrow> cid \<notin> member_competition_ids d v \<longrightarrow>
        cid = i \<and> (\<exists>tid. approvable d us i k tid v))"
  proof cases
    case (1 a t)
    note eff = approval_effect [OF 1, where repr = repr and aid = aid and now = now, folded e_def]
    have only: "approvable d us i k tid v \<longleftrightarrow> tid = ta_team_id a \<and> v = ta_user_id a" for tid v
      using 1 by (auto simp: approvable_iff)
    have "\<not> on_team d i tid (ta_user_id a)" for tid
      using 1(2) by (auto simp: on_team_def exists_where_iff membership_of_def find_None_iff)
    then show ?thesis
      using eff by (auto simp: on_team_def only new_membership_def)
  next
    case 2
    then have "\<not> approvable d us i k tid v" for tid v by (auto simp: approvable_iff)
    then show ?thesis using approval_idle [OF 2, where repr = repr and aid = aid and now = now, folded e_def] by (simp add: on_team_def)
  qed
  then show "on_team e cid tid v \<and> \<not> on_team d cid tid v \<longleftrightarrow> cid = i \<and> approvable d us i k tid v"
    and "cid \<in> member_competition_ids e v \<Longrightarrow> cid \<notin> member_competition_ids d v \<Longrightarrow>
      cid = i \<and> (\<exists>tid. approvable d us i k tid v)" by blast+
qed

text \<open>
  C34: Every entry is gated. Whoever comes to be inside a competition (with a role, on a team or as an
  applicant) through a join by code, a public join, an invite link, the foundation of a team or a team
  code is the caller, with the e-mail gate passed and the mandatory rules accepted, and showed the
  right the call demands (the competition's code, a public competition, a live link inside its window,
  a team's code, a view of the competition). An approval puts a user on a team exactly when the caller
  is that team's captain, the request is that user's application to that team, the team is there and
  not full and the user is in no team yet; nobody else gets a role by it.
\<close>

theorem entry_gated:
  "case call of
     By_Approval i k \<Rightarrow>
       (\<forall>cid tid v. on_team (enter repr aid now d us call) cid tid v \<and> \<not> on_team d cid tid v
          \<longleftrightarrow> cid = i \<and> approvable d us i k tid v)
       \<and> (\<forall>cid v. cid \<in> member_competition_ids (enter repr aid now d us call) v \<and> cid \<notin> member_competition_ids d v
            \<longrightarrow> cid = i \<and> (\<exists>tid. approvable d us i k tid v))
   | _ \<Rightarrow> \<forall>cid v. inside (enter repr aid now d us call) cid v \<and> \<not> inside d cid v
            \<longrightarrow> admission now d (enter repr aid now d us call) us cid v call"
proof (cases call)
  case (By_Code b)
  then show ?thesis using by_code_admitted by (simp only: entry_call.case) blast
next
  case (Publicly i vs)
  then show ?thesis using publicly_admitted by (simp only: entry_call.case) blast
next
  case (By_Link b)
  then show ?thesis using by_link_admitted by (simp only: entry_call.case) blast
next
  case (Founding tid code i b)
  then show ?thesis using founding_admitted by (simp only: entry_call.case) blast
next
  case (By_Team_Code apid i code)
  then show ?thesis using by_team_code_admitted by (simp only: entry_call.case) blast
next
  case (By_Approval i k)
  then show ?thesis using approval_admits [where repr = repr and aid = aid and now = now and d = d and us = us and i = i and k = k] by (simp only: entry_call.case) blast
qed

text \<open>A team code lets one in; on a team that reviews, one applies and the captain approves.\<close>

definition review_db :: db where
  "review_db = foldl (team_step (\<lambda>_. ''[]'')) team_db
     [Create_Team ''t'' ''a'' ''code'' 1 ''A'' (blank_user ''u'')
        \<lparr>tc_name = ''T'', tc_affiliation = None, tc_country = None, tc_website = None,
         tc_approval_required = True, tc_field_values = []\<rparr>,
      Join_Team ''p'' ''b'' 2 ''A'' (blank_user ''v'') ''code'']"

lemma entry_gated_witness:
  "let d = team_step (\<lambda>_. ''[]'') team_db (hd team_story);
       call = By_Team_Code ''p'' ''A'' ''code'';
       e = enter (\<lambda>_. ''[]'') ''b'' 2 d (blank_user ''v'') call
   in inside e ''A'' ''v'' \<and> admission 2 d e (blank_user ''v'') ''A'' ''v'' call
      \<and> approvable review_db (blank_user ''u'') ''A'' ''p'' ''t'' ''v''"
proof -
  let ?d = "team_step (\<lambda>_. ''[]'') team_db (hd team_story)"
  let ?call = "By_Team_Code ''p'' ''A'' ''code''" and ?ok = "By_Approval ''A'' ''p''"
  have 1: "inside (enter (\<lambda>_. ''[]'') ''b'' 2 ?d (blank_user ''v'') ?call) ''A'' ''v''" by code_simp
  have 2: "\<not> inside ?d ''A'' ''v''" by code_simp
  have 3: "on_team (enter (\<lambda>_. ''[]'') ''b'' 3 review_db (blank_user ''u'') ?ok) ''A'' ''t'' ''v''" by code_simp
  have 4: "\<not> on_team review_db ''A'' ''t'' ''v''" by code_simp
  have "admission 2 ?d (enter (\<lambda>_. ''[]'') ''b'' 2 ?d (blank_user ''v'') ?call) (blank_user ''v'') ''A'' ''v'' ?call"
    using entry_gated [of "\<lambda>_. ''[]''" "''b''" 2 ?d "blank_user ''v''" ?call] 1 2 by (simp only: entry_call.case) blast
  moreover have "approvable review_db (blank_user ''u'') ''A'' ''p'' ''t'' ''v''"
    using entry_gated [of "\<lambda>_. ''[]''" "''b''" 3 review_db "blank_user ''u''" ?ok] 3 4 by (simp only: entry_call.case) blast
  ultimately show ?thesis using 1 by (simp only: Let_def simp_thms)
qed

end
