(* ===== verification/Sessions.thy ===== *)
theory Sessions
  imports User_Admin Rate_Limit
begin

text \<open>
  An account's own routes (\<open>routers/auth.py\<close>): registering, signing in, the rotation of refresh
  tokens with reuse detection, signing out, changing password, name and address, and the links
  mailed to reset a password or verify an address. Password hashing, the hash of a token and the
  random tokens are arguments; what the directory leg of a sign-in found is one too. The limiter
  is the in-memory one. A mail is its recipient and the raw token of its link; its delivery and
  the notice to a previous address are outside.
\<close>

section \<open>Throttling\<close>

definition throttle :: "int \<Rightarrow> time \<Rightarrow> time \<Rightarrow> string \<Rightarrow> history \<Rightarrow> unit res \<times> history" where
  "throttle limit window now key hits =
     (let (allowed, hits') = mem_hit limit window now (lower key) hits
      in (ensure allowed 429 ''Too many attempts - please wait a few minutes and try again'', hits'))"

definition step_up_allowed :: "time \<Rightarrow> ident \<Rightarrow> history \<Rightarrow> bool \<times> history" where
  "step_up_allowed now u hits = mem_hit 5 (300 * 1000000) now (''step-up:'' @ u) hits"

section \<open>Sessions\<close>

definition REFRESH_REUSE_GRACE :: time where
  "REFRESH_REUSE_GRACE = 10 * 1000000"

text \<open>\<open>family_id or secrets.token_hex(16)\<close>.\<close>

definition or_fresh :: "string option \<Rightarrow> string \<Rightarrow> string" where
  "or_fresh family fresh = (case family of None \<Rightarrow> fresh | Some f \<Rightarrow> if f = [] then fresh else f)"

definition issue_session ::
  "(string \<Rightarrow> string) \<Rightarrow> time \<Rightarrow> time \<Rightarrow> ident \<Rightarrow> string \<Rightarrow> string option \<Rightarrow> string \<Rightarrow> ident \<Rightarrow> db \<Rightarrow> db" where
  "issue_session sha ttl now rid raw family fresh u d =
     d\<lparr>db_sessions := db_sessions d @ [\<lparr>rs_id = rid, rs_user_id = u, rs_token_hash = sha raw,
       rs_expires_at = now + ttl, rs_revoked_at = None, rs_family_id = Some (or_fresh family fresh)\<rparr>]\<rparr>"

text \<open>The random material of a new session: its row id, its token and a fresh family.\<close>

record session_seed =
  sd_id :: ident
  sd_token :: string
  sd_family :: string

text \<open>
  \<open>directory\<close> is what \<open>_directory_login\<close> returns: the account a directory vouches for, with the
  throttle key of that directory. \<open>dummy\<close> is the hash verified when there is no account.
\<close>

definition login ::
  "(string \<Rightarrow> string) \<Rightarrow> (string \<Rightarrow> string \<Rightarrow> bool) \<Rightarrow> string \<Rightarrow> int \<Rightarrow> time \<Rightarrow> time \<Rightarrow> (user \<times> string) option
   \<Rightarrow> time \<Rightarrow> session_seed \<Rightarrow> history \<Rightarrow> db \<Rightarrow> string \<Rightarrow> string \<Rightarrow> user res \<times> history \<times> db" where
  "login sha verify dummy limit window ttl directory now seed hits d ident password =
     (let login_key = ''login:'' @ normalize_identifier ident in
      case throttle limit window now login_key hits of
        (Inl e, hits1) \<Rightarrow> (Inl e, hits1, d)
      | (Inr _, hits1) \<Rightarrow>
          (let account = find_by_identifier d ident;
               password_ok = verify password (case account of None \<Rightarrow> dummy | Some u \<Rightarrow> us_password_hash u);
               found = (case account of
                   Some u \<Rightarrow> if password_ok then Some (u, None)
                             else map_option (\<lambda>(u, k). (u, Some k)) directory
                 | None \<Rightarrow> map_option (\<lambda>(u, k). (u, Some k)) directory)
           in case found of
                None \<Rightarrow> (Inl (HTTPException 401 ''Invalid username or password''), hits1, d)
              | Some (u, directory_key) \<Rightarrow>
                  if \<not> us_is_active u
                  then (Inl (HTTPException 403 ''This account has been disabled. Contact an administrator.''), hits1, d)
                  else (let hits2 = mem_reset login_key hits1 in
                    (Inr u, (case directory_key of None \<Rightarrow> hits2 | Some k \<Rightarrow> mem_reset k hits2),
                     issue_session sha ttl now (sd_id seed) (sd_token seed) None (sd_family seed) (us_id u) d))))"

definition revoke_family :: "time \<Rightarrow> string \<Rightarrow> db \<Rightarrow> db" where
  "revoke_family now f d = d\<lparr>db_sessions := update_where
     (\<lambda>s. rs_family_id s = Some f \<and> rs_revoked_at s = None) (\<lambda>s. s\<lparr>rs_revoked_at := Some now\<rparr>) (db_sessions d)\<rparr>"

text \<open>
  The claim of a rotation: \<open>UPDATE ... WHERE id = ? AND revoked_at IS NULL\<close>, \<open>None\<close> unless exactly
  one row is updated; and the account behind it.
\<close>

definition claim_session :: "time \<Rightarrow> ident \<Rightarrow> string \<Rightarrow> db \<Rightarrow> db option" where
  "claim_session now sid family d =
     (let hit = (\<lambda>x. rs_id x = sid \<and> rs_revoked_at x = None) in
      if count_where hit (db_sessions d) \<noteq> 1 then None
      else Some (d\<lparr>db_sessions := update_where hit
             (\<lambda>x. x\<lparr>rs_revoked_at := Some now, rs_family_id := Some family\<rparr>) (db_sessions d)\<rparr>))"

definition session_owner :: "db \<Rightarrow> ident \<Rightarrow> user res" where
  "session_owner d u =
     (case get_user d u of
        None \<Rightarrow> Inl (HTTPException 401 ''This account has been disabled'')
      | Some us \<Rightarrow> res_bind (ensure (us_is_active us) 401 ''This account has been disabled'') (\<lambda>_. Inr us))"

text \<open>
  The first of the two transactions of a refresh: the presented session is looked up in \<open>read\<close> and
  claimed in \<open>d\<close>. The second, \<open>refresh_issue\<close>, may run at any later time.
\<close>

definition refresh_claim ::
  "(string \<Rightarrow> string) \<Rightarrow> time \<Rightarrow> string \<Rightarrow> string option \<Rightarrow> db \<Rightarrow> db \<Rightarrow> (user \<times> string) res \<times> db" where
  "refresh_claim sha now fresh cookie read d =
     (let invalid = Inl (HTTPException 401 ''Invalid or expired refresh token'') in
      if coalesce cookie [] = [] then (Inl (HTTPException 401 ''No refresh token''), d)
      else case find (\<lambda>s. rs_token_hash s = sha (coalesce cookie [])) (db_sessions read) of
        None \<Rightarrow> (invalid, d)
      | Some s \<Rightarrow>
          (case rs_revoked_at s of
             Some t \<Rightarrow>
               (invalid, case rs_family_id s of
                  None \<Rightarrow> d
                | Some f \<Rightarrow> if REFRESH_REUSE_GRACE < now - t then revoke_family now f d else d)
           | None \<Rightarrow>
               if rs_expires_at s \<le> now then (invalid, d)
               else (let family = or_fresh (rs_family_id s) fresh
                     in case claim_session now (rs_id s) family d of
                          None \<Rightarrow> (invalid, d)
                        | Some d1 \<Rightarrow> (res_bind (session_owner d1 (rs_user_id s)) (\<lambda>u. Inr (u, family)), d1))))"

definition refresh_issue ::
  "(string \<Rightarrow> string) \<Rightarrow> time \<Rightarrow> time \<Rightarrow> session_seed \<Rightarrow> user \<times> string \<Rightarrow> db \<Rightarrow> db" where
  "refresh_issue sha ttl now seed claimed d =
     issue_session sha ttl now (sd_id seed) (sd_token seed) (Some (snd claimed)) (sd_family seed)
       (us_id (fst claimed)) d"

text \<open>The write of a sign-out goes by the row's id, whatever has happened to it since it was read.\<close>

definition logout :: "(string \<Rightarrow> string) \<Rightarrow> time \<Rightarrow> string option \<Rightarrow> db \<Rightarrow> db \<Rightarrow> db" where
  "logout sha now cookie read d =
     (if coalesce cookie [] = [] then d
      else case find (\<lambda>s. rs_token_hash s = sha (coalesce cookie [])) (db_sessions read) of
        None \<Rightarrow> d
      | Some s \<Rightarrow>
          if rs_revoked_at s \<noteq> None then d
          else d\<lparr>db_sessions := update_where (\<lambda>x. rs_id x = rs_id s)
                  (\<lambda>x. x\<lparr>rs_revoked_at := Some now\<rparr>) (db_sessions d)\<rparr>)"

section \<open>Password and name\<close>

definition set_password :: "ident \<Rightarrow> string \<Rightarrow> db \<Rightarrow> db" where
  "set_password u h d = d\<lparr>db_users := update_where (\<lambda>x. us_id x = u) (\<lambda>x. x\<lparr>us_password_hash := h\<rparr>) (db_users d)\<rparr>"

text \<open>\<open>me\<close> is the caller's row as the request loaded it.\<close>

definition change_password ::
  "(string \<Rightarrow> string \<Rightarrow> bool) \<Rightarrow> (string \<Rightarrow> string) \<Rightarrow> time \<Rightarrow> history \<Rightarrow> db \<Rightarrow> user \<Rightarrow> string \<Rightarrow> string
   \<Rightarrow> unit res \<times> history \<times> db \<times> event list" where
  "change_password verify hash_password now hits d me current_password new_password =
     (let (allowed, hits1) = step_up_allowed now (us_id me) hits in
      if \<not> allowed
      then (Inl (HTTPException 429 ''Too many attempts - please wait a few minutes and try again''), hits1, d, [])
      else if \<not> verify current_password (us_password_hash me)
      then (Inl (HTTPException 400 ''Current password is incorrect''), hits1, d, [])
      else (Inr (), hits1, revoke_sessions now (us_id me) (set_password (us_id me) (hash_password new_password) d),
            [Event ''user.password_changed'' [(''user_id'', PStr (us_id me))]]))"

definition USERNAME_CHANGE_COOLDOWN :: time where
  "USERNAME_CHANGE_COOLDOWN = 30 * 24 * 3600 * 1000000"

definition username_change_allowed_at :: "user \<Rightarrow> time option" where
  "username_change_allowed_at u = map_option (\<lambda>t. t + USERNAME_CHANGE_COOLDOWN) (us_username_changed_at u)"

definition username_checks ::
  "(string \<Rightarrow> string \<Rightarrow> bool) \<Rightarrow> time \<Rightarrow> db \<Rightarrow> user \<Rightarrow> string \<Rightarrow> string \<Rightarrow> string res" where
  "username_checks verify now d me current_password new_display_name =
     res_bind (ensure (case db_site_settings d of None \<Rightarrow> True | Some s \<Rightarrow> ss_username_changes_enabled s) 403
       ''Username changes are disabled on this platform'') (\<lambda>_.
     res_bind (ensure (verify current_password (us_password_hash me)) 400 ''Current password is incorrect'') (\<lambda>_.
     let new_name = strip new_display_name in
     res_bind (ensure (new_name \<noteq> []) 400 ''Enter a username'') (\<lambda>_.
     res_bind (ensure (new_name \<noteq> us_display_name me) 400 ''That's already your username'') (\<lambda>_.
     res_bind (ensure (case username_change_allowed_at me of None \<Rightarrow> True | Some t \<Rightarrow> t \<le> now) 409
       ''You've changed your username recently - try again later'') (\<lambda>_.
     res_bind (ensure (\<not> display_name_taken d new_name (Some (us_id me))) 409
       ''That username is already taken'') (\<lambda>_. Inr new_name))))))"

definition change_username ::
  "(string \<Rightarrow> string \<Rightarrow> bool) \<Rightarrow> time \<Rightarrow> history \<Rightarrow> db \<Rightarrow> user \<Rightarrow> string \<Rightarrow> string
   \<Rightarrow> user res \<times> history \<times> db \<times> event list" where
  "change_username verify now hits d me current_password new_display_name =
     (let (allowed, hits1) = step_up_allowed now (us_id me) hits in
      if \<not> allowed
      then (Inl (HTTPException 429 ''Too many attempts - please wait a few minutes and try again''), hits1, d, [])
      else case username_checks verify now d me current_password new_display_name of
        Inl e \<Rightarrow> (Inl e, hits1, d, [])
      | Inr n \<Rightarrow>
          (Inr (me\<lparr>us_display_name := n, us_username_changed_at := Some now\<rparr>), hits1,
           d\<lparr>db_users := update_where (\<lambda>x. us_id x = us_id me)
             (\<lambda>x. x\<lparr>us_display_name := n, us_username_changed_at := Some now\<rparr>) (db_users d)\<rparr>,
           [Event ''user.renamed'' [(''user_id'', PStr (us_id me)), (''old_name'', PStr (us_display_name me)),
              (''new_name'', PStr n), (''actor_user_id'', PStr (us_id me))]]))"

section \<open>Addresses\<close>

type_synonym mail = "string \<times> string"

definition domain_allowed :: "string \<Rightarrow> string list \<Rightarrow> bool" where
  "domain_allowed email allowed_domains =
     (if CHR ''@'' \<notin> set email then False
      else (let domain = lower (strip (rev (takeWhile (\<lambda>c. c \<noteq> CHR ''@'') (rev email))))
            in list_ex (\<lambda>allowed. domain = allowed \<or> suffix (''.'' @ allowed) domain) allowed_domains))"

text \<open>A verification link: it replaces those outstanding and is bound to the address it goes to.\<close>

definition send_verification_email ::
  "(string \<Rightarrow> string) \<Rightarrow> time \<Rightarrow> ident \<Rightarrow> string \<Rightarrow> user \<Rightarrow> db \<Rightarrow> mail list \<times> db" where
  "send_verification_email sha now tid raw u d =
     ([(coalesce (us_email u) ''None'', raw)],
      d\<lparr>db_verification_tokens := delete_where (\<lambda>t. mt_user_id t = us_id u) (db_verification_tokens d)
        @ [\<lparr>mt_id = tid, mt_user_id = us_id u, mt_token_hash = sha raw,
             mt_expires_at = now + 24 * 3600 * 1000000, mt_email = us_email u\<rparr>]\<rparr>)"

record register_request =
  rg_display_name :: string
  rg_password :: string
  rg_email :: "string option"

definition register_checks :: "db \<Rightarrow> register_request \<Rightarrow> unit res" where
  "register_checks d b =
     (let site = db_site_settings d;
          on = (\<lambda>flag. case site of None \<Rightarrow> False | Some s \<Rightarrow> flag s);
          domains = (case site of None \<Rightarrow> [] | Some s \<Rightarrow> ss_allowed_email_domains s) in
      res_bind (ensure (\<not> instance_needs_setup d) 403 ''This instance hasn't been set up yet.'') (\<lambda>_.
      res_bind (ensure (case site of None \<Rightarrow> True | Some s \<Rightarrow> ss_registration_open s) 403
        ''Registration is closed. Contact an administrator for an account.'') (\<lambda>_.
      res_bind (ensure (\<not> on ss_email_domain_allowlist_enabled
          \<or> (case rg_email b of None \<Rightarrow> False | Some e \<Rightarrow> domain_allowed e domains)) 403
        ''Registration is not permitted with that email address.'') (\<lambda>_.
      res_bind (ensure (\<not> (on ss_email_verification_enabled \<and> rg_email b = None)) 400
        ''An email address is required to verify your account'') (\<lambda>_.
      res_bind (ensure (\<not> display_name_taken d (rg_display_name b) None) 409
        ''That display name is already taken'') (\<lambda>_.
      ensure (case rg_email b of None \<Rightarrow> True | Some e \<Rightarrow> \<not> email_taken d e None) 409
        ''Email already registered''))))))"

definition verification_on :: "db \<Rightarrow> bool" where
  "verification_on d = (case db_site_settings d of None \<Rightarrow> False | Some s \<Rightarrow> ss_email_verification_enabled s)"

text \<open>\<open>uid\<close>, \<open>tid\<close> and \<open>raw\<close>: the new account's id, the verification token's row id and token.\<close>

definition register ::
  "(string \<Rightarrow> string) \<Rightarrow> (string \<Rightarrow> string) \<Rightarrow> int \<Rightarrow> time \<Rightarrow> time \<Rightarrow> time \<Rightarrow> ident \<Rightarrow> ident \<Rightarrow> string \<Rightarrow> session_seed
   \<Rightarrow> history \<Rightarrow> db \<Rightarrow> register_request \<Rightarrow> user res \<times> history \<times> db \<times> mail list \<times> event list" where
  "register sha hash_password limit window ttl now uid tid raw seed hits d b =
     (case throttle limit window now (''register:'' @ normalize_identifier (rg_display_name b)) hits of
        (Inl e, hits1) \<Rightarrow> (Inl e, hits1, d, [], [])
      | (Inr _, hits1) \<Rightarrow>
          (case register_checks d b of
             Inl e \<Rightarrow> (Inl e, hits1, d, [], [])
           | Inr _ \<Rightarrow>
               (let u = \<lparr>us_id = uid, us_email = rg_email b, us_password_hash = hash_password (rg_password b),
                      us_display_name = rg_display_name b, us_is_active = True, us_email_verified_at = None,
                      us_username_changed_at = None, us_created_at = now\<rparr>;
                    d1 = d\<lparr>db_users := db_users d @ [u]\<rparr>;
                    (mails, d2) = (if verification_on d \<and> us_email u \<noteq> None
                      then send_verification_email sha now tid raw u d1 else ([], d1))
                in (Inr u, hits1,
                    issue_session sha ttl now (sd_id seed) (sd_token seed) None (sd_family seed) uid d2, mails,
                    [Event ''user.registered'' [(''user_id'', PStr uid), (''email'', pstr (rg_email b))]]))))"

text \<open>The address an edit leads to; the outer \<open>None\<close> is a request that changes nothing.\<close>

definition new_address :: "db \<Rightarrow> user \<Rightarrow> string option \<Rightarrow> string option option res" where
  "new_address d me new_email =
     (case new_email of
        None \<Rightarrow>
          res_bind (ensure (\<not> verification_on d) 400
            ''This instance requires a verified email, so it can't be removed'') (\<lambda>_.
          Inr (if us_email me = None then None else Some None))
      | Some e \<Rightarrow>
          if map_option lower (us_email me) = Some (lower (strip e)) then Inr None
          else
            res_bind (ensure (case db_site_settings d of None \<Rightarrow> True
                | Some s \<Rightarrow> \<not> ss_email_domain_allowlist_enabled s
                    \<or> domain_allowed (strip e) (ss_allowed_email_domains s)) 403
              ''That email domain isn't allowed on this instance'') (\<lambda>_.
            res_bind (ensure (\<not> email_taken d (strip e) (Some (us_id me))) 409
              ''That email is already registered'') (\<lambda>_. Inr (Some (Some (strip e))))))"

definition change_email ::
  "(string \<Rightarrow> string) \<Rightarrow> (string \<Rightarrow> string \<Rightarrow> bool) \<Rightarrow> time \<Rightarrow> ident \<Rightarrow> string \<Rightarrow> history \<Rightarrow> db \<Rightarrow> user
   \<Rightarrow> string \<Rightarrow> string option \<Rightarrow> user res \<times> history \<times> db \<times> mail list \<times> event list" where
  "change_email sha verify now tid raw hits d me current_password new_email =
     (let (allowed, hits1) = step_up_allowed now (us_id me) hits in
      if \<not> allowed
      then (Inl (HTTPException 429 ''Too many attempts - please wait a few minutes and try again''), hits1, d, [], [])
      else if \<not> verify current_password (us_password_hash me)
      then (Inl (HTTPException 400 ''Current password is incorrect''), hits1, d, [], [])
      else case new_address d me new_email of
        Inl e \<Rightarrow> (Inl e, hits1, d, [], [])
      | Inr None \<Rightarrow> (Inr me, hits1, d, [], [])
      | Inr (Some address) \<Rightarrow>
          (let me1 = me\<lparr>us_email := address, us_email_verified_at := None\<rparr>;
               d1 = drop_mail_tokens (us_id me) (d\<lparr>db_users := update_where (\<lambda>x. us_id x = us_id me)
                 (\<lambda>x. x\<lparr>us_email := address, us_email_verified_at := None\<rparr>) (db_users d)\<rparr>);
               (mails, d2) = (if address \<noteq> None \<and> verification_on d
                 then send_verification_email sha now tid raw me1 d1 else ([], d1))
           in (Inr me1, hits1, d2, mails, [account_event ''user.updated'' (us_id me) (us_id me)])))"

section \<open>Links\<close>

text \<open>Always answered alike; what follows from it is a task of its own: whom to mail, where.\<close>

definition forgot_password ::
  "int \<Rightarrow> time \<Rightarrow> time \<Rightarrow> history \<Rightarrow> db \<Rightarrow> string \<Rightarrow> unit res \<times> history \<times> (ident \<times> string) option" where
  "forgot_password limit window now hits d email =
     (case throttle limit window now (''forgot-password:'' @ email) hits of
        (Inl e, hits1) \<Rightarrow> (Inl e, hits1, None)
      | (Inr _, hits1) \<Rightarrow>
          (Inr (), hits1,
           case find (\<lambda>u. map_option lower (us_email u) = Some (lower (strip email))) (db_users d) of
             None \<Rightarrow> None | Some u \<Rightarrow> if us_is_active u then Some (us_id u, email) else None))"

definition deliver_password_reset ::
  "(string \<Rightarrow> string) \<Rightarrow> time \<Rightarrow> ident \<Rightarrow> string \<Rightarrow> ident \<times> string \<Rightarrow> db \<Rightarrow> mail list \<times> db" where
  "deliver_password_reset sha now tid raw task d =
     (case Option.bind (get_user d (fst task)) (\<lambda>u. if us_is_active u then us_email u else None) of
        None \<Rightarrow> ([], d)
      | Some current \<Rightarrow>
          if lower current \<noteq> lower (strip (snd task)) then ([], d)
          else ([(current, raw)],
            d\<lparr>db_reset_tokens := db_reset_tokens d @ [\<lparr>mt_id = tid, mt_user_id = fst task, mt_token_hash = sha raw,
              mt_expires_at = now + 3600 * 1000000, mt_email = Some current\<rparr>]\<rparr>))"

text \<open>The rows a link may write: the account it was minted for, while it holds the link's address.\<close>

definition holds_address :: "mail_token \<Rightarrow> user \<Rightarrow> bool" where
  "holds_address t u =
     (case mt_email t of
        None \<Rightarrow> False
      | Some a \<Rightarrow> a \<noteq> [] \<and> us_id u = mt_user_id t \<and> map_option lower (us_email u) = Some (lower a))"

definition live_link :: "(string \<Rightarrow> string) \<Rightarrow> time \<Rightarrow> string \<Rightarrow> mail_token list \<Rightarrow> mail_token option" where
  "live_link sha now raw tokens =
     (case find (\<lambda>t. mt_token_hash t = sha raw) tokens of
        None \<Rightarrow> None | Some t \<Rightarrow> if mt_expires_at t < now then None else Some t)"

definition reset_password ::
  "(string \<Rightarrow> string) \<Rightarrow> (string \<Rightarrow> string) \<Rightarrow> int \<Rightarrow> time \<Rightarrow> time \<Rightarrow> history \<Rightarrow> db \<Rightarrow> db \<Rightarrow> string \<Rightarrow> string
   \<Rightarrow> unit res \<times> history \<times> db \<times> event list" where
  "reset_password sha hash_password limit window now hits read d raw new_password =
     (let invalid = Inl (HTTPException 400 ''This reset link is invalid or has expired'') in
      case throttle limit window now (''reset-password:'' @ take 16 raw) hits of
        (Inl e, hits1) \<Rightarrow> (Inl e, hits1, d, [])
      | (Inr _, hits1) \<Rightarrow>
          (case live_link sha now raw (db_reset_tokens read) of
             None \<Rightarrow> (invalid, hits1, d, [])
           | Some t \<Rightarrow>
               if count_where (holds_address t) (db_users d) \<noteq> 1
               then (invalid, hits1,
                     d\<lparr>db_reset_tokens := delete_where (\<lambda>x. mt_id x = mt_id t) (db_reset_tokens d)\<rparr>, [])
               else (let u = mt_user_id t;
                         d1 = d\<lparr>db_users := update_where (holds_address t)
                                  (\<lambda>x. x\<lparr>us_password_hash := hash_password new_password\<rparr>) (db_users d),
                                db_reset_tokens := delete_where (\<lambda>x. mt_user_id x = u) (db_reset_tokens d)\<rparr>;
                         (ids, d2) = revoke_user_api_tokens now u (revoke_sessions now u d1)
                     in (Inr (), hits1, d2,
                         Event ''user.password_changed'' [(''user_id'', PStr u)] # emit_revoked ids u u))))"

definition verify_email ::
  "(string \<Rightarrow> string) \<Rightarrow> int \<Rightarrow> time \<Rightarrow> time \<Rightarrow> history \<Rightarrow> db \<Rightarrow> db \<Rightarrow> string
   \<Rightarrow> unit res \<times> history \<times> db \<times> event list" where
  "verify_email sha limit window now hits read d raw =
     (case throttle limit window now (''verify-email:'' @ take 16 raw) hits of
        (Inl e, hits1) \<Rightarrow> (Inl e, hits1, d, [])
      | (Inr _, hits1) \<Rightarrow>
          (case live_link sha now raw (db_verification_tokens read) of
             None \<Rightarrow> (Inl (HTTPException 400 ''This verification link is invalid or has expired''), hits1, d, [])
           | Some t \<Rightarrow>
               if count_where (holds_address t) (db_users d) \<noteq> 1
               then (Inl (HTTPException 400 (''This verification link no longer matches your account's email ''
                       @ ''address - request a new one'')), hits1,
                     d\<lparr>db_verification_tokens := delete_where (\<lambda>x. mt_id x = mt_id t) (db_verification_tokens d)\<rparr>, [])
               else (Inr (), hits1,
                     d\<lparr>db_users := update_where (holds_address t) (\<lambda>x. x\<lparr>us_email_verified_at := Some now\<rparr>) (db_users d),
                       db_verification_tokens := delete_where (\<lambda>x. mt_user_id x = mt_user_id t) (db_verification_tokens d)\<rparr>,
                     [Event ''user.email_verified'' [(''user_id'', PStr (mt_user_id t))]])))"

definition resend_verification ::
  "(string \<Rightarrow> string) \<Rightarrow> time \<Rightarrow> ident \<Rightarrow> string \<Rightarrow> history \<Rightarrow> db \<Rightarrow> user \<Rightarrow> unit res \<times> history \<times> db \<times> mail list" where
  "resend_verification sha now tid raw hits d me =
     (case res_bind (ensure (verification_on d) 400 ''Email verification isn't enabled on this instance'') (\<lambda>_.
           res_bind (ensure (coalesce (us_email me) [] \<noteq> []) 400 ''Add an email address to your account first'') (\<lambda>_.
           ensure (us_email_verified_at me = None) 400 ''This account is already verified'')) of
        Inl e \<Rightarrow> (Inl e, hits, d, [])
      | Inr _ \<Rightarrow>
          (let (allowed, hits1) = mem_hit 1 (60 * 1000000) now (''resend-verification:'' @ us_id me) hits in
           if \<not> allowed
           then (Inl (HTTPException 429 ''Please wait before requesting another verification email''), hits1, d, [])
           else (let (mails, d1) = send_verification_email sha now tid raw me d in (Inr (), hits1, d1, mails))))"

section \<open>Accounts over time\<close>

text \<open>
  The routes served in any order, each deciding on what it reads from any earlier state: the history
  of the database (newest first), the claimed refreshes whose new session is still owed, the mails
  sent. What the limiter says is left open. Random material is new (a seed that is not is refused).
\<close>

record auth_env =
  ae_sha :: "string \<Rightarrow> string"
  ae_verify :: "string \<Rightarrow> string \<Rightarrow> bool"
  ae_hash :: "string \<Rightarrow> string"
  ae_dummy :: string
  ae_limit :: int
  ae_window :: time
  ae_ttl :: time

record auth_world =
  aw_hist :: "db list"
  aw_owed :: "(user \<times> string) list"
  aw_mails :: "mail list"

datatype auth_op =
    Sign_Up time ident ident string session_seed history register_request
  | Sign_In "(user \<times> string) option" time session_seed history string string
  | Claim_Refresh nat time string "string option"
  | Issue_Refresh nat time session_seed
  | Sign_Out nat time "string option"
  | Set_Password nat time history ident string string
  | Set_Email nat time ident string history ident string "string option"
  | Mail_Reset time ident string "ident \<times> string"
  | Mail_Verification nat time ident string history ident
  | Reset nat time history string string
  | Verify nat time history string
  | Admin_Create ident time ident user_create
  | Admin_Edit time ident ident user_update
  | Admin_Ban time ident ident
  | Admin_Unban ident ident
  | Admin_Delete ident ident

definition now_db :: "auth_world \<Rightarrow> db" where
  "now_db w = hd (aw_hist w)"

definition seen_db :: "auth_world \<Rightarrow> nat \<Rightarrow> db" where
  "seen_db w i = aw_hist w ! (i mod length (aw_hist w))"

definition used_families :: "auth_world \<Rightarrow> string set" where
  "used_families w = (\<Union>e\<in>set (aw_hist w). \<Union>s\<in>set (db_sessions e). set_option (rs_family_id s))
     \<union> snd ` set (aw_owed w)"

definition used_session_ids :: "auth_world \<Rightarrow> ident set" where
  "used_session_ids w = (\<Union>e\<in>set (aw_hist w). rs_id ` set (db_sessions e))"

definition new_seed :: "auth_world \<Rightarrow> session_seed \<Rightarrow> bool" where
  "new_seed w seed \<longleftrightarrow> sd_id seed \<notin> used_session_ids w \<and> sd_family seed \<notin> used_families w"

text \<open>What one call makes of the newest state, of the sessions owed and of the mails.\<close>

fun auth_effect :: "auth_env \<Rightarrow> auth_world \<Rightarrow> auth_op \<Rightarrow> db \<times> (user \<times> string) list \<times> mail list" where
  "auth_effect env w (Sign_Up now uid tid raw seed hits b) =
     (if \<not> new_seed w seed then (now_db w, aw_owed w, [])
      else (let (_, _, e, ms, _) = register (ae_sha env) (ae_hash env) (ae_limit env) (ae_window env) (ae_ttl env)
              now uid tid raw seed hits (now_db w) b in (e, aw_owed w, ms)))"
| "auth_effect env w (Sign_In directory now seed hits ident password) =
     (if \<not> new_seed w seed then (now_db w, aw_owed w, [])
      else (let (_, _, e) = login (ae_sha env) (ae_verify env) (ae_dummy env) (ae_limit env) (ae_window env)
              (ae_ttl env) directory now seed hits (now_db w) ident password in (e, aw_owed w, [])))"
| "auth_effect env w (Claim_Refresh i now fresh cookie) =
     (if fresh \<in> used_families w \<or> fresh = [] then (now_db w, aw_owed w, [])
      else case refresh_claim (ae_sha env) now fresh cookie (seen_db w i) (now_db w) of
        (Inl _, e) \<Rightarrow> (e, aw_owed w, [])
      | (Inr claimed, e) \<Rightarrow> (e, claimed # aw_owed w, []))"
| "auth_effect env w (Issue_Refresh k now seed) =
     (if \<not> new_seed w seed \<or> length (aw_owed w) \<le> k then (now_db w, aw_owed w, [])
      else (refresh_issue (ae_sha env) (ae_ttl env) now seed (aw_owed w ! k) (now_db w),
            take k (aw_owed w) @ drop (Suc k) (aw_owed w), []))"
| "auth_effect env w (Sign_Out i now cookie) =
     (logout (ae_sha env) now cookie (seen_db w i) (now_db w), aw_owed w, [])"
| "auth_effect env w (Set_Password i now hits u current new) =
     (case get_user (seen_db w i) u of
        None \<Rightarrow> (now_db w, aw_owed w, [])
      | Some me \<Rightarrow> (let (_, _, e, _) = change_password (ae_verify env) (ae_hash env) now hits (now_db w) me current new
                   in (e, aw_owed w, [])))"
| "auth_effect env w (Set_Email i now tid raw hits u current new) =
     (case get_user (seen_db w i) u of
        None \<Rightarrow> (now_db w, aw_owed w, [])
      | Some me \<Rightarrow> (let (_, _, e, ms, _) = change_email (ae_sha env) (ae_verify env) now tid raw hits (now_db w) me current new
                   in (e, aw_owed w, ms)))"
| "auth_effect env w (Mail_Reset now tid raw task) =
     (let (ms, e) = deliver_password_reset (ae_sha env) now tid raw task (now_db w) in (e, aw_owed w, ms))"
| "auth_effect env w (Mail_Verification i now tid raw hits u) =
     (case get_user (seen_db w i) u of
        None \<Rightarrow> (now_db w, aw_owed w, [])
      | Some me \<Rightarrow> (let (_, _, e, ms) = resend_verification (ae_sha env) now tid raw hits (now_db w) me
                   in (e, aw_owed w, ms)))"
| "auth_effect env w (Reset i now hits raw new) =
     (let (_, _, e, _) = reset_password (ae_sha env) (ae_hash env) (ae_limit env) (ae_window env) now hits
        (seen_db w i) (now_db w) raw new in (e, aw_owed w, []))"
| "auth_effect env w (Verify i now hits raw) =
     (let (_, _, e, _) = verify_email (ae_sha env) (ae_limit env) (ae_window env) now hits (seen_db w i) (now_db w) raw
      in (e, aw_owed w, []))"
| "auth_effect env w (Admin_Create uid now actor b) =
     (fst (snd (create_user (ae_hash env) uid now (now_db w) actor b)), aw_owed w, [])"
| "auth_effect env w (Admin_Edit now actor u b) =
     (fst (snd (update_user (ae_hash env) now (now_db w) actor u b)), aw_owed w, [])"
| "auth_effect env w (Admin_Ban now actor u) = (fst (snd (ban_user now (now_db w) actor u)), aw_owed w, [])"
| "auth_effect env w (Admin_Unban actor u) = (fst (snd (unban_user (now_db w) actor u)), aw_owed w, [])"
| "auth_effect env w (Admin_Delete actor u) = (fst (snd (delete_user (now_db w) actor u)), aw_owed w, [])"

definition auth_step :: "auth_env \<Rightarrow> auth_world \<Rightarrow> auth_op \<Rightarrow> auth_world" where
  "auth_step env w op = (let (e, owed, ms) = auth_effect env w op
     in \<lparr>aw_hist = e # aw_hist w, aw_owed = owed, aw_mails = aw_mails w @ ms\<rparr>)"

definition auth_start :: "db \<Rightarrow> auth_world" where
  "auth_start d = \<lparr>aw_hist = [d], aw_owed = [], aw_mails = []\<rparr>"

section \<open>Lineages\<close>

text \<open>The live sessions of a family, and the successors owed to it.\<close>

definition live_in :: "string \<Rightarrow> refresh_session list \<Rightarrow> nat" where
  "live_in f xs = count_where (\<lambda>s. rs_family_id s = Some f \<and> rs_revoked_at s = None) xs"

definition owed_to :: "string \<Rightarrow> (user \<times> string) list \<Rightarrow> nat" where
  "owed_to f ps = count_where (\<lambda>p. snd p = f) ps"

definition lineage_ok :: "auth_world \<Rightarrow> bool" where
  "lineage_ok w \<longleftrightarrow> aw_hist w \<noteq> [] \<and> distinct (map rs_id (db_sessions (now_db w)))
     \<and> (\<forall>f. live_in f (db_sessions (now_db w)) + owed_to f (aw_owed w) \<le> 1)
     \<and> (\<forall>p\<in>set (aw_owed w). snd p \<noteq> [])
     \<and> (\<forall>e\<in>set (aw_hist w). \<forall>s\<in>set (db_sessions e). \<forall>x\<in>set (db_sessions (now_db w)).
          rs_id x = rs_id s \<and> rs_revoked_at x = None \<longrightarrow> s = x)"

lemma lineage_okD:
  assumes "lineage_ok w"
  shows "aw_hist w \<noteq> []" "distinct (map rs_id (db_sessions (now_db w)))"
    "live_in f (db_sessions (now_db w)) + owed_to f (aw_owed w) \<le> 1"
    "e \<in> set (aw_hist w) \<Longrightarrow> s \<in> set (db_sessions e) \<Longrightarrow> x \<in> set (db_sessions (now_db w)) \<Longrightarrow>
       rs_id x = rs_id s \<Longrightarrow> rs_revoked_at x = None \<Longrightarrow> s = x"
    "p \<in> set (aw_owed w) \<Longrightarrow> snd p \<noteq> []"
  using assms unfolding lineage_ok_def by blast+

text \<open>A change that only drops and revokes rows.\<close>

definition retires :: "refresh_session list \<Rightarrow> refresh_session list \<Rightarrow> bool" where
  "retires xs ys \<longleftrightarrow> (\<exists>P g. ys = map g (filter P xs)
     \<and> (\<forall>s. rs_id (g s) = rs_id s \<and> (rs_revoked_at (g s) = None \<longrightarrow> g s = s)))"

lemma retires_refl [simp]: "retires xs xs"
  unfolding retires_def by (rule exI [of _ "\<lambda>_. True"], rule exI [of _ id]) simp

lemma retires_update:
  assumes "\<And>s. rs_id (f s) = rs_id s" "\<And>s. rs_revoked_at (f s) \<noteq> None"
  shows "retires xs (update_where P f xs)"
proof -
  have "\<not> rs_revoked_at (f s) = None" for s using assms(2) by blast
  then show ?thesis
    unfolding retires_def
    by (intro exI [of _ "\<lambda>_. True"] exI [of _ "\<lambda>s. if P s then f s else s"])
      (simp add: update_where_def assms(1) del: not_None_eq)
qed

lemma retires_delete: "retires xs (delete_where P xs)"
  unfolding retires_def delete_where_def by (rule exI [of _ "\<lambda>s. \<not> P s"], rule exI [of _ id]) simp

lemma retires_live:
  assumes "retires xs ys"
  shows "live_in f ys \<le> live_in f xs" and "y \<in> set ys \<Longrightarrow> rs_revoked_at y = None \<Longrightarrow> y \<in> set xs"
    and "distinct (map rs_id xs) \<Longrightarrow> distinct (map rs_id ys)"
proof -
  obtain P g where ys: "ys = map g (filter P xs)"
      and g: "\<And>s. rs_id (g s) = rs_id s" "\<And>s. rs_revoked_at (g s) = None \<Longrightarrow> g s = s"
    using assms unfolding retires_def by blast
  have "live_in f (map g (filter P zs)) \<le> live_in f zs" for zs
  proof (induction zs)
    case Nil
    then show ?case by simp
  next
    case (Cons z zs)
    then show ?case using g(2) [of z] by (auto simp: live_in_def)
  qed
  then show "live_in f ys \<le> live_in f xs" by (simp only: ys)
  show "y \<in> set xs" if y: "y \<in> set ys" "rs_revoked_at y = None"
  proof -
    obtain x where x: "x \<in> set xs" "y = g x" using y(1) by (auto simp: ys)
    then have "g x = x" using g(2) y(2) by blast
    with x show ?thesis by simp
  qed
  have "map rs_id ys = map rs_id (filter P xs)" by (simp add: ys g(1))
  then show "distinct (map rs_id ys)" if "distinct (map rs_id xs)"
    using distinct_map_filter [OF that] by simp
qed

lemma lineage_retire:
  assumes ok: "lineage_ok w" and r: "retires (db_sessions (now_db w)) (db_sessions e)"
    and owed: "\<And>f. live_in f (db_sessions e) + owed_to f ps \<le> 1" and named: "\<And>p. p \<in> set ps \<Longrightarrow> snd p \<noteq> []"
  shows "lineage_ok \<lparr>aw_hist = e # aw_hist w, aw_owed = ps, aw_mails = ms\<rparr>"
proof -
  have dist: "distinct (map rs_id (db_sessions e))"
    by (rule retires_live(3) [OF r lineage_okD(2) [OF ok]])
  have "s = x" if "e' \<in> set (e # aw_hist w)" "s \<in> set (db_sessions e')" "x \<in> set (db_sessions e)"
      "rs_id x = rs_id s" "rs_revoked_at x = None" for e' s x
  proof (cases "e' \<in> set (aw_hist w)")
    case True
    show ?thesis by (rule lineage_okD(4) [OF ok True that(2) retires_live(2) [OF r that(3,5)] that(4,5)])
  next
    case False
    then have "s \<in> set (db_sessions e)" using that(1,2) by auto
    then show ?thesis using dist that(3,4) by (metis distinct_map inj_onD)
  qed
  then show ?thesis using dist owed named by (auto simp: lineage_ok_def now_db_def)
qed

lemma lineage_retire_same:
  assumes ok: "lineage_ok w" and r: "retires (db_sessions (now_db w)) (db_sessions e)"
  shows "lineage_ok \<lparr>aw_hist = e # aw_hist w, aw_owed = aw_owed w, aw_mails = ms\<rparr>"
proof (rule lineage_retire [OF ok r _ lineage_okD(5) [OF ok]])
  show "live_in f (db_sessions e) + owed_to f (aw_owed w) \<le> 1" for f
    using retires_live(1) [OF r, of f] lineage_okD(3) [OF ok, of f] by simp
qed

lemma lineage_new:
  assumes ok: "lineage_ok w" and e: "db_sessions e = db_sessions (now_db w) @ [x]"
    and fresh: "rs_id x \<notin> used_session_ids w"
    and owed: "\<And>f. live_in f (db_sessions e) + owed_to f ps \<le> 1" and named: "\<And>p. p \<in> set ps \<Longrightarrow> snd p \<noteq> []"
  shows "lineage_ok \<lparr>aw_hist = e # aw_hist w, aw_owed = ps, aw_mails = ms\<rparr>"
proof -
  have now: "now_db w \<in> set (aw_hist w)" using lineage_okD(1) [OF ok] by (simp add: now_db_def)
  have away: "rs_id s \<noteq> rs_id x" if "s \<in> set (db_sessions e')" "e' \<in> set (aw_hist w)" for s e'
    using fresh that unfolding used_session_ids_def by (metis UN_I imageI)
  have "rs_id x \<notin> rs_id ` set (db_sessions (now_db w))" using away [OF _ now] by (metis imageE)
  then have dist: "distinct (map rs_id (db_sessions e))" using lineage_okD(2) [OF ok] by (simp add: e)
  have "s = y" if "e' \<in> set (e # aw_hist w)" "s \<in> set (db_sessions e')" "y \<in> set (db_sessions e)"
      "rs_id y = rs_id s" "rs_revoked_at y = None" for e' s y
  proof (cases "e' \<in> set (aw_hist w)")
    case True
    have "y \<in> set (db_sessions (now_db w))" using that(3,4) away [OF that(2) True] by (auto simp: e)
    then show ?thesis by (rule lineage_okD(4) [OF ok True that(2) _ that(4,5)])
  next
    case False
    then have "s \<in> set (db_sessions e)" using that(1,2) by auto
    then show ?thesis using dist that(3,4) by (metis distinct_map inj_onD)
  qed
  then show ?thesis using dist owed named by (auto simp: lineage_ok_def now_db_def)
qed

lemma unused_family:
  assumes "lineage_ok w" "f \<notin> used_families w"
  shows "live_in f (db_sessions (now_db w)) = 0 \<and> owed_to f (aw_owed w) = 0"
proof -
  have now: "now_db w \<in> set (aw_hist w)" using lineage_okD(1) [OF assms(1)] by (simp add: now_db_def)
  have "rs_family_id s \<noteq> Some f" if "s \<in> set (db_sessions (now_db w))" for s
    using assms(2) now that unfolding used_families_def by (metis UN_I UnI1 option.set_intros)
  moreover have "snd p \<noteq> f" if "p \<in> set (aw_owed w)" for p
    using assms(2) that unfolding used_families_def by (metis UnI2 imageI)
  ultimately show ?thesis by (auto simp: live_in_def owed_to_def count_where_0_iff)
qed

lemma issued:
  "db_sessions (issue_session sha ttl now rid raw family fresh u d) = db_sessions d
     @ [\<lparr>rs_id = rid, rs_user_id = u, rs_token_hash = sha raw, rs_expires_at = now + ttl,
          rs_revoked_at = None, rs_family_id = Some (or_fresh family fresh)\<rparr>]"
  by (simp add: issue_session_def)

text \<open>A sign-in starts a family of its own.\<close>

lemma lineage_sign_in:
  assumes ok: "lineage_ok w" and seed: "new_seed w seed" and same: "db_sessions d = db_sessions (now_db w)"
  shows "lineage_ok \<lparr>aw_hist = issue_session sha ttl now (sd_id seed) raw None (sd_family seed) u d # aw_hist w,
    aw_owed = aw_owed w, aw_mails = ms\<rparr>"
proof (rule lineage_new [OF ok])
  show "db_sessions (issue_session sha ttl now (sd_id seed) raw None (sd_family seed) u d) = db_sessions (now_db w)
     @ [\<lparr>rs_id = sd_id seed, rs_user_id = u, rs_token_hash = sha raw, rs_expires_at = now + ttl,
          rs_revoked_at = None, rs_family_id = Some (sd_family seed)\<rparr>]"
    by (simp add: issued same or_fresh_def)
  show "rs_id \<lparr>rs_id = sd_id seed, rs_user_id = u, rs_token_hash = sha raw, rs_expires_at = now + ttl,
          rs_revoked_at = None, rs_family_id = Some (sd_family seed)\<rparr> \<notin> used_session_ids w"
    using seed by (simp add: new_seed_def)
  show "live_in f (db_sessions (issue_session sha ttl now (sd_id seed) raw None (sd_family seed) u d))
      + owed_to f (aw_owed w) \<le> 1" for f
    using lineage_okD(3) [OF ok, of f] unused_family [OF ok, of "sd_family seed"] seed
    by (cases "f = sd_family seed") (simp_all add: issued same or_fresh_def live_in_def new_seed_def)
qed (rule lineage_okD(5) [OF ok])

lemma count_take_drop:
  assumes "k < length xs"
  shows "count_where P xs = count_where P (take k xs @ drop (Suc k) xs) + (if P (xs ! k) then 1 else 0)"
proof -
  have "count_where P xs = count_where P (take k xs @ xs ! k # drop (Suc k) xs)"
    using id_take_nth_drop [OF assms] by simp
  then show ?thesis by (simp add: count_where_def)
qed

lemma lineage_issue:
  assumes ok: "lineage_ok w" and seed: "new_seed w seed" and k: "k < length (aw_owed w)"
  shows "lineage_ok \<lparr>aw_hist = refresh_issue sha ttl now seed (aw_owed w ! k) (now_db w) # aw_hist w,
    aw_owed = take k (aw_owed w) @ drop (Suc k) (aw_owed w), aw_mails = ms\<rparr>"
proof (rule lineage_new [OF ok])
  have named: "snd (aw_owed w ! k) \<noteq> []" by (rule lineage_okD(5) [OF ok nth_mem [OF k]])
  let ?x = "\<lparr>rs_id = sd_id seed, rs_user_id = us_id (fst (aw_owed w ! k)), rs_token_hash = sha (sd_token seed),
     rs_expires_at = now + ttl, rs_revoked_at = None, rs_family_id = Some (snd (aw_owed w ! k))\<rparr>"
  show e: "db_sessions (refresh_issue sha ttl now seed (aw_owed w ! k) (now_db w)) = db_sessions (now_db w) @ [?x]"
    using named by (simp add: refresh_issue_def issued or_fresh_def)
  show "rs_id ?x \<notin> used_session_ids w" using seed by (simp add: new_seed_def)
  show "live_in f (db_sessions (refresh_issue sha ttl now seed (aw_owed w ! k) (now_db w)))
      + owed_to f (take k (aw_owed w) @ drop (Suc k) (aw_owed w)) \<le> 1" for f
    using lineage_okD(3) [OF ok, of f] count_take_drop [OF k, of "\<lambda>p. snd p = f"]
    by (cases "snd (aw_owed w ! k) = f") (simp_all add: e live_in_def owed_to_def)
  show "snd p \<noteq> []" if "p \<in> set (take k (aw_owed w) @ drop (Suc k) (aw_owed w))" for p
    using that lineage_okD(5) [OF ok, of p] by (auto dest: in_set_takeD in_set_dropD)
qed

lemma live_in_less:
  assumes r: "\<And>s. rs_revoked_at (g s) = None \<Longrightarrow> g s = s"
    and x: "x \<in> set xs" "rs_family_id x = Some f" "rs_revoked_at x = None" "rs_revoked_at (g x) \<noteq> None"
  shows "live_in f (map g xs) < live_in f xs"
  using x(1)
proof (induction xs)
  case Nil
  then show ?case by simp
next
  case (Cons z zs)
  have le: "live_in f (map g zs) \<le> live_in f zs"
  proof (induction zs)
    case Nil
    then show ?case by simp
  next
    case (Cons y ys)
    then show ?case using r [of y] by (auto simp: live_in_def)
  qed
  show ?case
  proof (cases "z = x")
    case True
    then show ?thesis using le x(2-4) by (auto simp: live_in_def)
  next
    case False
    then have "live_in f (map g zs) < live_in f zs" using Cons by simp
    then show ?thesis using r [of z] by (auto simp: live_in_def)
  qed
qed

lemma claim_sessionD:
  assumes "claim_session now sid family d = Some e"
  shows "\<exists>x\<in>set (db_sessions d). rs_id x = sid \<and> rs_revoked_at x = None"
    and "db_sessions e = map (\<lambda>y. if rs_id y = sid \<and> rs_revoked_at y = None
       then y\<lparr>rs_revoked_at := Some now, rs_family_id := Some family\<rparr> else y) (db_sessions d)"
proof -
  let ?hit = "\<lambda>x. rs_id x = sid \<and> rs_revoked_at x = None"
  have "count_where ?hit (db_sessions d) \<noteq> 0" using assms by (simp add: claim_session_def Let_def split: if_splits)
  then show "\<exists>x\<in>set (db_sessions d). ?hit x" unfolding count_where_0_iff by blast
  show "db_sessions e = map (\<lambda>y. if rs_id y = sid \<and> rs_revoked_at y = None
       then y\<lparr>rs_revoked_at := Some now, rs_family_id := Some family\<rparr> else y) (db_sessions d)"
    using assms by (auto simp: claim_session_def Let_def update_where_def split: if_splits)
qed

lemma refresh_claimE:
  assumes "refresh_claim sha now fresh cookie read d = (r, e)"
  obtains (refused) err where "r = Inl err" "retires (db_sessions d) (db_sessions e)"
  | (claimed) s where "s \<in> set (db_sessions read)" "rs_revoked_at s = None"
      "claim_session now (rs_id s) (or_fresh (rs_family_id s) fresh) d = Some e"
      "\<And>u f. r = Inr (u, f) \<Longrightarrow> f = or_fresh (rs_family_id s) fresh"
proof (cases "coalesce cookie [] = []")
  case True
  then show ?thesis using assms refused by (auto simp: refresh_claim_def)
next
  case cookie: False
  show ?thesis
  proof (cases "find (\<lambda>s. rs_token_hash s = sha (coalesce cookie [])) (db_sessions read)")
    case None
    then show ?thesis using assms cookie refused by (auto simp: refresh_claim_def Let_def)
  next
    case found: (Some s)
    show ?thesis
    proof (cases "rs_revoked_at s")
      case (Some t)
      have "retires (db_sessions d) (db_sessions (revoke_family now f d))" for f
        unfolding revoke_family_def by (simp add: retires_update)
      then show ?thesis
        using assms cookie found Some refused
        by (auto simp: refresh_claim_def Let_def split: option.splits if_splits)
    next
      case None
      show ?thesis
      proof (cases "rs_expires_at s \<le> now")
        case True
        then show ?thesis using assms cookie found None refused by (auto simp: refresh_claim_def Let_def)
      next
        case False
        let ?family = "or_fresh (rs_family_id s) fresh"
        show ?thesis
        proof (cases "claim_session now (rs_id s) ?family d")
          case no: None
          then show ?thesis using assms cookie found None False refused by (auto simp: refresh_claim_def Let_def)
        next
          case yes: (Some d1)
          have e: "e = d1" and r: "r = res_bind (session_owner d1 (rs_user_id s)) (\<lambda>u. Inr (u, ?family))"
            using assms cookie found None False yes by (auto simp: refresh_claim_def Let_def)
          show ?thesis
          proof (rule claimed [of s])
            show "s \<in> set (db_sessions read)" using find_Some_in [OF found] by blast
            show "claim_session now (rs_id s) ?family d = Some e" using yes e by simp
            show "f = ?family" if "r = Inr (u, f)" for u f using that unfolding r by (auto simp: res_bind_Inr_iff)
          qed (rule None)
        qed
      qed
    qed
  qed
qed

lemma lineage_claim:
  assumes ok: "lineage_ok w" and fresh: "fresh \<notin> used_families w" "fresh \<noteq> []"
    and read: "read \<in> set (aw_hist w)"
    and claim: "refresh_claim sha now fresh cookie read (now_db w) = (r, e)"
  shows "lineage_ok \<lparr>aw_hist = e # aw_hist w,
    aw_owed = (case r of Inl _ \<Rightarrow> aw_owed w | Inr p \<Rightarrow> p # aw_owed w), aw_mails = ms\<rparr>"
  using claim
proof (cases rule: refresh_claimE)
  case (refused err)
  then show ?thesis using lineage_retire_same [OF ok] by simp
next
  case (claimed s)
  obtain x where x: "x \<in> set (db_sessions (now_db w))" "rs_id x = rs_id s" "rs_revoked_at x = None"
    using claim_sessionD(1) [OF claimed(3)] by blast
  note e = claim_sessionD(2) [OF claimed(3)]
  let ?f = "or_fresh (rs_family_id s) fresh"
  let ?g = "\<lambda>y. if rs_id y = rs_id s \<and> rs_revoked_at y = None
         then y\<lparr>rs_revoked_at := Some now, rs_family_id := Some ?f\<rparr> else y"
  have r: "retires (db_sessions (now_db w)) (db_sessions e)"
    unfolding e retires_def
    by (rule exI [of _ "\<lambda>_. True"], rule exI [of _ ?g]) simp
  have named: "?f \<noteq> []" using fresh(2) by (auto simp: or_fresh_def split: option.split)
  have "s = x" by (rule lineage_okD(4) [OF ok read claimed(1) x])
  have free: "live_in ?f (db_sessions e) = 0 \<and> owed_to ?f (aw_owed w) = 0"
  proof (cases "rs_family_id s = Some ?f")
    case True
    have "live_in ?f (map ?g (db_sessions (now_db w))) < live_in ?f (db_sessions (now_db w))"
    proof (rule live_in_less [OF _ x(1) _ x(3)])
      show "rs_family_id x = Some ?f" using True \<open>s = x\<close> by (simp only:)
      show "rs_revoked_at (?g x) \<noteq> None" by (simp add: x(2,3))
      show "?g y = y" if "rs_revoked_at (?g y) = None" for y using that by (simp split: if_splits)
    qed
    then show ?thesis using lineage_okD(3) [OF ok, of ?f] unfolding e by linarith
  next
    case False
    then have "?f = fresh" by (auto simp: or_fresh_def split: option.splits)
    then show ?thesis using unused_family [OF ok fresh(1)] retires_live(1) [OF r, of fresh] by simp
  qed
  show ?thesis
  proof (rule lineage_retire [OF ok r])
    show "live_in f (db_sessions e) + owed_to f (case r of Inl _ \<Rightarrow> aw_owed w | Inr p \<Rightarrow> p # aw_owed w) \<le> 1" for f
      using free claimed(4) lineage_okD(3) [OF ok, of f] retires_live(1) [OF r, of f]
      by (cases r) (auto simp: owed_to_def split: if_splits)
    show "snd p \<noteq> []" if "p \<in> set (case r of Inl _ \<Rightarrow> aw_owed w | Inr p \<Rightarrow> p # aw_owed w)" for p
      using that named claimed(4) lineage_okD(5) [OF ok, of p] by (cases r) auto
  qed
qed

text \<open>Every other route only drops and revokes sessions.\<close>

lemma logout_retires: "retires (db_sessions d) (db_sessions (logout sha now cookie read d))"
  by (auto simp: logout_def retires_update split: option.split)

lemma revoke_sessions_retires: "retires (db_sessions d) (db_sessions (revoke_sessions now u d))"
  by (simp add: revoke_sessions_def retires_update)

lemma put_user_frame [simp]:
  "db_sessions (put_user u d) = db_sessions d" "db_reset_tokens (put_user u d) = db_reset_tokens d"
  "db_verification_tokens (put_user u d) = db_verification_tokens d"
  by (simp_all add: put_user_def)

lemma revoke_frame [simp]:
  "db_sessions (snd (revoke_user_api_tokens now u d)) = db_sessions d"
  "db_reset_tokens (snd (revoke_user_api_tokens now u d)) = db_reset_tokens d"
  "db_verification_tokens (snd (revoke_user_api_tokens now u d)) = db_verification_tokens d"
  "db_reset_tokens (revoke_sessions now u d) = db_reset_tokens d"
  "db_verification_tokens (revoke_sessions now u d) = db_verification_tokens d"
  by (simp_all add: revoke_user_api_tokens_def revoke_sessions_def)

lemma drop_mail_tokens_frame [simp]: "db_sessions (drop_mail_tokens u d) = db_sessions d"
  by (simp add: drop_mail_tokens_def)

lemma send_verification_frame [simp]:
  "db_sessions (snd (send_verification_email sha now tid raw u d)) = db_sessions d"
  "db_reset_tokens (snd (send_verification_email sha now tid raw u d)) = db_reset_tokens d"
  by (simp_all add: send_verification_email_def)

definition token_rows :: "db \<Rightarrow> mail_token set" where
  "token_rows d = set (db_reset_tokens d) \<union> set (db_verification_tokens d)"

text \<open>What the routes of the account administration leave of sessions and links.\<close>

definition calm :: "db \<Rightarrow> db \<Rightarrow> bool" where
  "calm d e \<longleftrightarrow> retires (db_sessions d) (db_sessions e) \<and> token_rows e \<subseteq> token_rows d"

lemma calm_refl [simp]: "calm d d"
  by (simp add: calm_def)

lemma create_user_quiet: "calm d (fst (snd (create_user hash uid now d actor b)))"
  by (simp add: create_user_def gated_def raise_def calm_def token_rows_def Let_def)

lemma ban_user_quiet: "calm d (fst (snd (ban_user now d actor i)))"
  using revoke_sessions_retires [of "put_user u d" now i for u]
  by (auto simp: ban_user_def gated_def calm_def token_rows_def Let_def case_prod_beta split: sum.split)

lemma unban_user_quiet: "calm d (fst (snd (unban_user d actor i)))"
  by (auto simp: unban_user_def gated_def calm_def token_rows_def Let_def split: sum.split)

lemma delete_user_quiet: "calm d (fst (snd (delete_user d actor i)))"
proof -
  have "calm d (cascade_user i d)"
    using retires_delete [of "db_sessions d" "\<lambda>r. rs_user_id r = i"]
    by (auto simp: calm_def cascade_user_def token_rows_def Let_def delete_where_def)
  then show ?thesis by (auto simp: delete_user_def gated_def split: sum.split)
qed

lemma checked_user_update_db:
  assumes "checked_user_update now d actor i b = Inr (u, renamed, d1)"
  shows "d1 = d \<or> (\<exists>k. d1 = drop_mail_tokens k d)"
  using assms
  by (auto simp: checked_user_update_def update_user_email_def res_bind_Inr_iff split: option.splits if_splits)

lemma update_user_quiet: "calm d (fst (snd (update_user hash now d actor i b)))"
proof (cases "user_has_permission d actor ''manage_users'' None")
  case True
  show ?thesis
  proof (cases "checked_user_update now d actor i b")
    case (Inl e)
    then show ?thesis using True by (simp add: update_user_def gated_def)
  next
    case (Inr p)
    obtain u renamed d1 where p: "checked_user_update now d actor i b = Inr (u, renamed, d1)"
      using Inr by (metis prod_cases3)
    have "db_sessions d1 = db_sessions d \<and> token_rows d1 \<subseteq> token_rows d" using checked_user_update_db [OF p]
      by (auto simp: token_rows_def drop_mail_tokens_def delete_where_def)
    then show ?thesis
      using True revoke_sessions_retires [of d1 now i]
      by (cases "uu_password b")
        (simp_all add: update_user_def gated_def p Let_def case_prod_beta calm_def token_rows_def)
  qed
qed (simp add: update_user_def gated_def)

lemma change_password_retires:
  "retires (db_sessions d) (db_sessions (fst (snd (snd (change_password verify hash now hits d me cur new)))))"
  "token_rows (fst (snd (snd (change_password verify hash now hits d me cur new)))) = token_rows d"
  using revoke_sessions_retires [of "set_password (us_id me) (hash new) d" now "us_id me"]
  by (simp_all add: change_password_def case_prod_beta set_password_def token_rows_def)

lemma change_email_sessions:
  "db_sessions (fst (snd (snd (change_email sha verify now tid raw hits d me cur new)))) = db_sessions d"
  by (auto simp: change_email_def case_prod_beta Let_def split: sum.split option.split)

lemma resend_sessions:
  "db_sessions (fst (snd (snd (resend_verification sha now tid raw hits d me)))) = db_sessions d"
  by (auto simp: resend_verification_def case_prod_beta Let_def split: sum.split)

lemma deliver_sessions: "db_sessions (snd (deliver_password_reset sha now tid raw task d)) = db_sessions d"
  by (auto simp: deliver_password_reset_def split: option.split)

lemma reset_retires:
  "retires (db_sessions d) (db_sessions (fst (snd (snd (reset_password sha hash limit window now hits read d raw new)))))"
proof -
  have "retires (db_sessions d) (db_sessions (revoke_sessions now u (d\<lparr>db_users := us, db_reset_tokens := ts\<rparr>)))" for u us ts
    using revoke_sessions_retires [of "d\<lparr>db_users := us, db_reset_tokens := ts\<rparr>" now u] by simp
  then show ?thesis
    by (auto simp: reset_password_def case_prod_beta Let_def split: sum.split option.split)
qed

lemma verify_sessions:
  "db_sessions (fst (snd (snd (verify_email sha limit window now hits read d raw)))) = db_sessions d"
  by (auto simp: verify_email_def case_prod_beta Let_def split: sum.split option.split)

lemma register_sessions:
  assumes "register sha hash limit window ttl now uid tid raw seed hits d b = (r, hits', e, ms, evs)"
  shows "e = d \<or> (\<exists>d2. e = issue_session sha ttl now (sd_id seed) (sd_token seed) None (sd_family seed) uid d2
    \<and> db_sessions d2 = db_sessions d)"
  using assms
  by (auto simp: register_def Let_def send_verification_email_def split: prod.splits sum.splits if_splits)

lemma login_sessions:
  assumes "login sha verify dummy limit window ttl directory now seed hits d ident password = (r, hits', e)"
  shows "e = d \<or> (\<exists>u. e = issue_session sha ttl now (sd_id seed) (sd_token seed) None (sd_family seed) u d)"
  using assms by (auto simp: login_def Let_def split: prod.splits sum.splits option.splits if_splits)

lemma lineage_step:
  assumes ok: "lineage_ok w"
  shows "lineage_ok (auth_step env w op)"
proof -
  have read: "seen_db w i \<in> set (aw_hist w)" for i
    using lineage_okD(1) [OF ok] by (simp add: seen_db_def)
  note same = lineage_retire_same [OF ok retires_refl]
  show ?thesis
  proof (cases op)
    case (Sign_Up now uid tid raw seed hits b)
    obtain r hits' e ms evs where e: "register (ae_sha env) (ae_hash env) (ae_limit env) (ae_window env) (ae_ttl env)
        now uid tid raw seed hits (now_db w) b = (r, hits', e, ms, evs)" by (metis prod_cases5)
    show ?thesis
      using same lineage_sign_in [OF ok, of seed] register_sessions [OF e] lineage_retire_same [OF ok, of e]
      by (auto simp: auth_step_def Sign_Up e)
  next
    case (Sign_In directory now seed hits ident password)
    obtain r hits' e where e: "login (ae_sha env) (ae_verify env) (ae_dummy env) (ae_limit env) (ae_window env)
        (ae_ttl env) directory now seed hits (now_db w) ident password = (r, hits', e)" by (metis prod_cases3)
    show ?thesis
      using same lineage_sign_in [OF ok, of seed] login_sessions [OF e] lineage_retire_same [OF ok, of e]
      by (auto simp: auth_step_def Sign_In e)
  next
    case (Claim_Refresh i now fresh cookie)
    obtain r e where e: "refresh_claim (ae_sha env) now fresh cookie (seen_db w i) (now_db w) = (r, e)" by fastforce
    show ?thesis
      using same lineage_claim [OF ok _ _ read e] by (auto simp: auth_step_def Claim_Refresh e split: sum.split)
  next
    case (Issue_Refresh k now seed)
    then show ?thesis using same lineage_issue [OF ok, of seed k] by (auto simp: auth_step_def)
  next
    case (Sign_Out i now cookie)
    then show ?thesis using lineage_retire_same [OF ok logout_retires] by (simp add: auth_step_def)
  next
    case (Set_Password i now hits u current new)
    then show ?thesis
      using same lineage_retire_same [OF ok change_password_retires(1)]
      by (simp add: auth_step_def case_prod_beta split: option.split)
  next
    case (Set_Email i now tid raw hits u current new)
    then show ?thesis
      using same lineage_retire_same [OF ok, of "fst (snd (snd (change_email sha verify now tid raw hits (now_db w) me current new)))"
          for sha verify me] change_email_sessions
      by (simp add: auth_step_def case_prod_beta split: option.split)
  next
    case (Mail_Reset now tid raw task)
    then show ?thesis
      using lineage_retire_same [OF ok, of "snd (deliver_password_reset (ae_sha env) now tid raw task (now_db w))"]
      by (simp add: auth_step_def case_prod_beta deliver_sessions)
  next
    case (Mail_Verification i now tid raw hits u)
    then show ?thesis
      using same lineage_retire_same [OF ok, of "fst (snd (snd (resend_verification sha now tid raw hits (now_db w) me)))"
          for sha me] resend_sessions
      by (simp add: auth_step_def case_prod_beta split: option.split)
  next
    case (Reset i now hits raw new)
    then show ?thesis using lineage_retire_same [OF ok reset_retires] by (simp add: auth_step_def case_prod_beta)
  next
    case (Verify i now hits raw)
    then show ?thesis
      using lineage_retire_same [OF ok, of "fst (snd (snd (verify_email (ae_sha env) (ae_limit env) (ae_window env)
          now hits (seen_db w i) (now_db w) raw)))"]
      by (simp add: auth_step_def case_prod_beta verify_sessions)
  next
    case (Admin_Create uid now actor b)
    then show ?thesis
      using lineage_retire_same [OF ok] create_user_quiet by (simp add: auth_step_def calm_def)
  next
    case (Admin_Edit now actor u b)
    then show ?thesis
      using lineage_retire_same [OF ok] update_user_quiet by (simp add: auth_step_def calm_def)
  next
    case (Admin_Ban now actor u)
    then show ?thesis
      using lineage_retire_same [OF ok] ban_user_quiet by (simp add: auth_step_def calm_def)
  next
    case (Admin_Unban actor u)
    then show ?thesis
      using lineage_retire_same [OF ok] unban_user_quiet by (simp add: auth_step_def calm_def)
  next
    case (Admin_Delete actor u)
    then show ?thesis
      using lineage_retire_same [OF ok] delete_user_quiet by (simp add: auth_step_def calm_def)
  qed
qed

interpretation lineages: invariant_machine "auth_step env" lineage_ok for env
  by unfold_locales (rule lineage_step)

text \<open>A family that is used up: no live session, none owed. It stays so.\<close>

definition ended :: "string \<Rightarrow> auth_world \<Rightarrow> bool" where
  "ended f w \<longleftrightarrow> lineage_ok w \<and> f \<in> used_families w
     \<and> live_in f (db_sessions (now_db w)) = 0 \<and> owed_to f (aw_owed w) = 0"

lemma used_families_step: "f \<in> used_families w \<Longrightarrow> owed_to f (aw_owed w) = 0 \<Longrightarrow> f \<in> used_families (auth_step env w op)"
  by (auto simp: used_families_def auth_step_def owed_to_def count_where_0_iff split: prod.split)

lemma retires_none: "retires xs ys \<Longrightarrow> live_in f xs = 0 \<Longrightarrow> live_in f ys = 0"
  using retires_live(1) [of xs ys f] by simp

lemma issue_other:
  assumes "live_in f (db_sessions d) = 0" "or_fresh family fresh \<noteq> f"
  shows "live_in f (db_sessions (issue_session sha ttl now rid raw family fresh u d)) = 0"
  using assms by (simp add: issued live_in_def)

lemma claim_other:
  assumes e: "ended f w" and fresh: "fresh \<notin> used_families w" "fresh \<noteq> []" and read: "read \<in> set (aw_hist w)"
    and claim: "refresh_claim sha now fresh cookie read (now_db w) = (r, e)"
  shows "live_in f (db_sessions e) = 0 \<and> (\<forall>p. r = Inr p \<longrightarrow> snd p \<noteq> f)"
  using claim
proof (cases rule: refresh_claimE)
  case (refused err)
  then show ?thesis using e by (simp add: ended_def retires_none)
next
  case (claimed s)
  have ok: "lineage_ok w" using e by (simp add: ended_def)
  obtain x where x: "x \<in> set (db_sessions (now_db w))" "rs_id x = rs_id s" "rs_revoked_at x = None"
    using claim_sessionD(1) [OF claimed(3)] by blast
  have "s = x" by (rule lineage_okD(4) [OF ok read claimed(1) x])
  moreover have "rs_family_id x \<noteq> Some f"
    using e x by (auto simp: ended_def live_in_def count_where_0_iff)
  moreover have "fresh \<noteq> f" using fresh e by (auto simp: ended_def)
  ultimately have other: "or_fresh (rs_family_id s) fresh \<noteq> f" by (auto simp: or_fresh_def split: option.split)
  have "rs_family_id y = Some f \<longrightarrow> rs_revoked_at y \<noteq> None" if "y \<in> set (db_sessions (now_db w))" for y
    using e that by (auto simp: ended_def live_in_def count_where_0_iff)
  then have "live_in f (db_sessions e) = 0"
    unfolding claim_sessionD(2) [OF claimed(3)] by (auto simp: live_in_def count_where_0_iff)
  then show ?thesis using other claimed(4) by auto
qed

lemma owed_to_part: "owed_to f ps = 0 \<Longrightarrow> owed_to f (take k ps @ drop (Suc k) ps) = 0"
  by (auto simp: owed_to_def count_where_0_iff dest: in_set_takeD in_set_dropD)

text \<open>Sessions and debts of a step, by the kind of call.\<close>

lemma step_cases:
  assumes ok: "lineage_ok w"
  obtains (calm) "retires (db_sessions (now_db w)) (db_sessions (now_db (auth_step env w op)))"
      "aw_owed (auth_step env w op) = aw_owed w"
  | (opened) sha ttl now seed u d2 where "new_seed w seed" "db_sessions d2 = db_sessions (now_db w)"
      "now_db (auth_step env w op) = issue_session sha ttl now (sd_id seed) (sd_token seed) None (sd_family seed) u d2"
      "aw_owed (auth_step env w op) = aw_owed w"
  | (claim) i now fresh cookie r e where "op = Claim_Refresh i now fresh cookie"
      "fresh \<notin> used_families w" "fresh \<noteq> []" "seen_db w i \<in> set (aw_hist w)"
      "refresh_claim (ae_sha env) now fresh cookie (seen_db w i) (now_db w) = (r, e)"
      "now_db (auth_step env w op) = e"
      "aw_owed (auth_step env w op) = (case r of Inl _ \<Rightarrow> aw_owed w | Inr p \<Rightarrow> p # aw_owed w)"
  | (issue) k now seed where "op = Issue_Refresh k now seed" "k < length (aw_owed w)"
      "now_db (auth_step env w op) = refresh_issue (ae_sha env) (ae_ttl env) now seed (aw_owed w ! k) (now_db w)"
      "aw_owed (auth_step env w op) = take k (aw_owed w) @ drop (Suc k) (aw_owed w)"
proof -
  have read: "seen_db w i \<in> set (aw_hist w)" for i
    using lineage_okD(1) [OF ok] by (simp add: seen_db_def)
  have now: "now_db (auth_step env w op) = fst (auth_effect env w op)"
      "aw_owed (auth_step env w op) = fst (snd (auth_effect env w op))"
    by (simp_all add: auth_step_def now_db_def case_prod_beta Let_def)
  show ?thesis
  proof (cases op)
    case (Sign_Up now uid tid raw seed hits b)
    obtain r hits' e ms evs where e: "register (ae_sha env) (ae_hash env) (ae_limit env) (ae_window env) (ae_ttl env)
        now uid tid raw seed hits (now_db w) b = (r, hits', e, ms, evs)" by (metis prod_cases5)
    have eff: "auth_effect env w op = (if new_seed w seed then (e, aw_owed w, ms) else (now_db w, aw_owed w, []))"
      by (simp add: Sign_Up e)
    show ?thesis
    proof (cases "new_seed w seed \<and> e \<noteq> now_db w")
      case True
      with register_sessions [OF e] show ?thesis using opened now by (auto simp: eff)
    next
      case False
      then show ?thesis using calm now by (auto simp: eff)
    qed
  next
    case (Sign_In directory now' seed hits ident password)
    obtain r hits' e where e: "login (ae_sha env) (ae_verify env) (ae_dummy env) (ae_limit env) (ae_window env)
        (ae_ttl env) directory now' seed hits (now_db w) ident password = (r, hits', e)" by (metis prod_cases3)
    have eff: "auth_effect env w op = (if new_seed w seed then (e, aw_owed w, []) else (now_db w, aw_owed w, []))"
      by (simp add: Sign_In e)
    show ?thesis
    proof (cases "new_seed w seed \<and> e \<noteq> now_db w")
      case True
      with login_sessions [OF e] show ?thesis using opened now by (auto simp: eff)
    next
      case False
      then show ?thesis using calm now by (auto simp: eff)
    qed
  next
    case (Claim_Refresh i now' fresh cookie)
    obtain r e where e: "refresh_claim (ae_sha env) now' fresh cookie (seen_db w i) (now_db w) = (r, e)" by fastforce
    show ?thesis
    proof (cases "fresh \<in> used_families w \<or> fresh = []")
      case True
      then show ?thesis using calm now by (simp add: Claim_Refresh)
    next
      case False
      then show ?thesis
        using now by (intro claim [OF Claim_Refresh _ _ read e]) (auto simp: Claim_Refresh e split: sum.split)
    qed
  next
    case (Issue_Refresh k now' seed)
    show ?thesis
    proof (cases "\<not> new_seed w seed \<or> length (aw_owed w) \<le> k")
      case True
      then show ?thesis using calm now by (simp add: Issue_Refresh)
    next
      case False
      then show ?thesis using now by (intro issue [OF Issue_Refresh]) (auto simp: Issue_Refresh)
    qed
  qed (use calm now logout_retires change_password_retires(1) reset_retires create_user_quiet update_user_quiet
      ban_user_quiet unban_user_quiet delete_user_quiet in
      \<open>auto simp: case_prod_beta calm_def change_email_sessions resend_sessions deliver_sessions verify_sessions
        split: option.split\<close>)
qed

lemma ended_step:
  assumes e: "ended f w"
  shows "ended f (auth_step env w op)"
proof -
  have ok: "lineage_ok w" and used: "f \<in> used_families w" and live: "live_in f (db_sessions (now_db w)) = 0"
      and owed: "owed_to f (aw_owed w) = 0" using e by (simp_all add: ended_def)
  have "live_in f (db_sessions (now_db (auth_step env w op))) = 0 \<and> owed_to f (aw_owed (auth_step env w op)) = 0"
    using ok
  proof (cases rule: step_cases [where env = env and op = op])
    case calm
    then show ?thesis using live owed retires_none by simp
  next
    case (opened sha ttl now seed u d2)
    have "sd_family seed \<noteq> f" using opened(1) used by (auto simp: new_seed_def)
    then show ?thesis using issue_other [of f d2 None "sd_family seed"] opened live owed by (simp add: or_fresh_def)
  next
    case (claim i now fresh cookie r e')
    then show ?thesis using claim_other [OF e claim(2-5)] owed by (auto simp: owed_to_def split: sum.split)
  next
    case (issue k now seed)
    have "aw_owed w ! k \<in> set (aw_owed w)" using issue(2) by simp
    then have "snd (aw_owed w ! k) \<noteq> f" "snd (aw_owed w ! k) \<noteq> []"
      using owed lineage_okD(5) [OF ok] by (auto simp: owed_to_def count_where_0_iff)
    then show ?thesis
      using issue issue_other [of f "now_db w" "Some (snd (aw_owed w ! k))" "sd_family seed"] live owed_to_part [OF owed]
      by (simp add: refresh_issue_def or_fresh_def)
  qed
  then show ?thesis using lineage_step [OF ok] used_families_step [OF used owed] by (simp add: ended_def)
qed

interpretation endings: invariant_machine "auth_step env" "ended f" for env f
  by unfold_locales (rule ended_step)

lemma start_lineage: "db_sessions d = [] \<Longrightarrow> lineage_ok (auth_start d)"
  by (simp add: lineage_ok_def auth_start_def now_db_def live_in_def owed_to_def)

text \<open>
  C31: One live token per lineage: however sign-ups, sign-ins, the two halves of refreshes, sign-outs,
  password and address changes, resets and administrative edits interleave, each deciding on any
  earlier state, a sign-in's family of refresh tokens never has more than one live session (the one
  still owed to a claimed refresh included), and a session that was once revoked is never live again.
\<close>

theorem session_lineage:
  assumes "db_sessions d = []" and "w = foldl (auth_step env) (auth_start d) ops"
  shows "count_where (\<lambda>s. rs_family_id s = Some f \<and> rs_revoked_at s = None) (db_sessions (now_db w))
      + count_where (\<lambda>p. snd p = f) (aw_owed w) \<le> 1
    \<and> list_all (\<lambda>e. list_all (\<lambda>s. list_all
        (\<lambda>x. \<not> (rs_id x = rs_id s \<and> rs_revoked_at s \<noteq> None \<and> rs_revoked_at x = None))
        (db_sessions (now_db w))) (db_sessions e)) (aw_hist w)"
proof -
  have ok: "lineage_ok w" unfolding assms(2) by (rule lineages.run_inv [OF start_lineage [OF assms(1)]])
  have "\<not> (rs_id x = rs_id s \<and> rs_revoked_at s \<noteq> None \<and> rs_revoked_at x = None)"
    if "e \<in> set (aw_hist w)" "s \<in> set (db_sessions e)" "x \<in> set (db_sessions (now_db w))" for e s x
    using lineage_okD(4) [OF ok that] by auto
  then show ?thesis using lineage_okD(3) [OF ok, of f] unfolding live_in_def owed_to_def list_all_iff by blast
qed

text \<open>
  C33: A replay ends its lineage: once a refresh token that was revoked longer than the grace period
  ago is presented again, and no successor is owed to its family at that moment, the family never
  has a live session again, whatever is served afterwards.
\<close>

theorem reuse_ends_the_lineage:
  assumes "db_sessions d = []" and "w = foldl (auth_step env) (auth_start d) ops"
    and "find (\<lambda>s. rs_token_hash s = ae_sha env raw) (db_sessions (seen_db w i)) = Some s"
    and "rs_revoked_at s = Some t" and "rs_family_id s = Some f" and "t + REFRESH_REUSE_GRACE < now"
    and "raw \<noteq> []" and "fresh \<notin> used_families w" and "fresh \<noteq> []" and "owed_to f (aw_owed w) = 0"
  shows "live_in f (db_sessions (now_db
    (foldl (auth_step env) (auth_step env w (Claim_Refresh i now fresh (Some raw))) later))) = 0"
proof -
  have ok: "lineage_ok w" unfolding assms(2) by (rule lineages.run_inv [OF start_lineage [OF assms(1)]])
  have "seen_db w i \<in> set (aw_hist w)" using lineage_okD(1) [OF ok] by (simp add: seen_db_def)
  then have "f \<in> used_families w"
    using find_Some_in [OF assms(3)] assms(5) by (auto simp: used_families_def intro!: bexI)
  moreover have "refresh_claim (ae_sha env) now fresh (Some raw) (seen_db w i) (now_db w)
      = (Inl (HTTPException 401 ''Invalid or expired refresh token''), revoke_family now f (now_db w))"
    using assms(3-7) by (simp add: refresh_claim_def Let_def)
  then have "now_db (auth_step env w (Claim_Refresh i now fresh (Some raw))) = revoke_family now f (now_db w)"
      "aw_owed (auth_step env w (Claim_Refresh i now fresh (Some raw))) = aw_owed w"
    using assms(8,9) by (simp_all add: auth_step_def now_db_def)
  moreover have "live_in f (db_sessions (revoke_family now f e)) = 0" for e
    by (auto simp: live_in_def count_where_0_iff revoke_family_def update_where_def)
  ultimately have "ended f (auth_step env w (Claim_Refresh i now fresh (Some raw)))"
    using lineage_step [OF ok] used_families_step assms(10) by (simp add: ended_def)
  then show ?thesis using endings.run_inv unfolding ended_def by blast
qed

section \<open>Links prove the mailbox\<close>

definition minted :: "(string \<Rightarrow> string) \<Rightarrow> mail list \<Rightarrow> mail_token set" where
  "minted sha ms = {t. \<exists>(a, raw)\<in>set ms. mt_email t = Some a \<and> mt_token_hash t = sha raw}"

lemma send_verification_rows:
  assumes "us_email u \<noteq> None" "send_verification_email sha now tid raw u d = (ms, e)"
  shows "token_rows e \<subseteq> token_rows d \<union> minted sha ms"
  using assms by (auto simp: send_verification_email_def token_rows_def minted_def delete_where_def)

lemma deliver_rows:
  "token_rows (snd (deliver_password_reset sha now tid raw task d))
     \<subseteq> token_rows d \<union> minted sha (fst (deliver_password_reset sha now tid raw task d))"
  by (auto simp: deliver_password_reset_def token_rows_def minted_def split: option.splits)

lemma resend_rows:
  assumes "resend_verification sha now tid raw hits d me = (r, hits', e, ms)"
  shows "token_rows e \<subseteq> token_rows d \<union> minted sha ms"
proof (cases "us_email me")
  case None
  then have "e = d" using assms by (auto simp: resend_verification_def res_bind_Inr_iff split: sum.splits)
  then show ?thesis by simp
next
  case (Some a)
  obtain ms' e' where m: "send_verification_email sha now tid raw me d = (ms', e')" by fastforce
  show ?thesis
    using assms send_verification_rows [OF _ m] Some
    by (auto simp: resend_verification_def m case_prod_beta Let_def split: sum.splits if_splits)
qed

lemma change_email_rows:
  assumes "change_email sha verify now tid raw hits d me cur new = (r, hits', e, ms, evs)"
  shows "token_rows e \<subseteq> token_rows d \<union> minted sha ms"
proof (cases "e = d")
  case False
  obtain a where a: "new_address d me new = Inr (Some a)"
    using assms False by (auto simp: change_email_def case_prod_beta Let_def split: if_splits sum.splits option.splits)
  let ?me1 = "me\<lparr>us_email := a, us_email_verified_at := None\<rparr>"
  let ?d1 = "drop_mail_tokens (us_id me) (d\<lparr>db_users := update_where (\<lambda>x. us_id x = us_id me)
                 (\<lambda>x. x\<lparr>us_email := a, us_email_verified_at := None\<rparr>) (db_users d)\<rparr>)"
  have d1: "token_rows ?d1 \<subseteq> token_rows d" by (auto simp: token_rows_def drop_mail_tokens_def delete_where_def)
  obtain ms' e' where m: "send_verification_email sha now tid raw ?me1 ?d1 = (ms', e')" by fastforce
  have "(ms, e) = (if a \<noteq> None \<and> verification_on d then (ms', e') else ([], ?d1))"
    using assms False a m by (auto simp: change_email_def case_prod_beta Let_def split: if_splits)
  then show ?thesis
    using d1 send_verification_rows [OF _ m] by (auto split: if_splits)
qed simp

lemma register_rows:
  assumes "register sha hash limit window ttl now uid tid raw seed hits d b = (r, hits', e, ms, evs)"
  shows "token_rows e \<subseteq> token_rows d \<union> minted sha ms"
proof (cases "e = d")
  case False
  let ?u = "\<lparr>us_id = uid, us_email = rg_email b, us_password_hash = hash (rg_password b),
     us_display_name = rg_display_name b, us_is_active = True, us_email_verified_at = None,
     us_username_changed_at = None, us_created_at = now\<rparr>"
  let ?d1 = "d\<lparr>db_users := db_users d @ [?u]\<rparr>"
  obtain ms' e' where m: "send_verification_email sha now tid raw ?u ?d1 = (ms', e')" by fastforce
  obtain d2 where "(ms, d2) = (if verification_on d \<and> rg_email b \<noteq> None then (ms', e') else ([], ?d1))"
      and e: "e = issue_session sha ttl now (sd_id seed) (sd_token seed) None (sd_family seed) uid d2"
    using assms False m
    by (auto simp: register_def case_prod_beta Let_def split: if_splits sum.splits prod.splits)
  moreover have "token_rows ?d1 = token_rows d" by (simp add: token_rows_def)
  moreover have "token_rows e = token_rows d2" by (simp add: e issue_session_def token_rows_def)
  ultimately show ?thesis using send_verification_rows [OF _ m] by (auto split: if_splits)
qed simp

lemma reset_rows:
  "token_rows (fst (snd (snd (reset_password sha hash limit window now hits read d raw new)))) \<subseteq> token_rows d"
  by (auto simp: reset_password_def case_prod_beta Let_def token_rows_def delete_where_def
      split: sum.splits option.splits if_splits)

lemma verify_rows:
  "token_rows (fst (snd (snd (verify_email sha limit window now hits read d raw)))) \<subseteq> token_rows d"
  by (auto simp: verify_email_def case_prod_beta Let_def token_rows_def delete_where_def
      split: sum.splits option.splits if_splits)

lemma session_rows:
  "token_rows (issue_session sha ttl now rid raw family fresh u d) = token_rows d"
  "token_rows (logout sha now cookie read d) = token_rows d"
  by (auto simp: issue_session_def logout_def token_rows_def split: option.splits)

lemma claim_rows:
  assumes "refresh_claim sha now fresh cookie read d = (r, e)"
  shows "token_rows e = token_rows d"
proof -
  have "db_reset_tokens e = db_reset_tokens d \<and> db_verification_tokens e = db_verification_tokens d"
    using assms
    by (auto simp: refresh_claim_def claim_session_def revoke_family_def Let_def split: option.splits if_splits)
  then show ?thesis by (simp add: token_rows_def)
qed

lemma login_rows:
  assumes "login sha verify dummy limit window ttl directory now seed hits d ident password = (r, hits', e)"
  shows "token_rows e = token_rows d"
  using login_sessions [OF assms] by (auto simp: session_rows)

lemma calmD: "calm d e \<Longrightarrow> token_rows e \<subseteq> token_rows d"
  by (simp add: calm_def)

lemma effect_rows:
  "token_rows (fst (auth_effect env w op))
     \<subseteq> token_rows (now_db w) \<union> minted (ae_sha env) (snd (snd (auth_effect env w op)))"
proof (cases op)
  case (Sign_Up now uid tid raw seed hits b)
  obtain r hits' e ms evs where e: "register (ae_sha env) (ae_hash env) (ae_limit env) (ae_window env) (ae_ttl env)
      now uid tid raw seed hits (now_db w) b = (r, hits', e, ms, evs)" by (metis prod_cases5)
  show ?thesis using register_rows [OF e] by (simp add: Sign_Up e)
next
  case (Sign_In directory now seed hits ident password)
  obtain r hits' e where e: "login (ae_sha env) (ae_verify env) (ae_dummy env) (ae_limit env) (ae_window env)
      (ae_ttl env) directory now seed hits (now_db w) ident password = (r, hits', e)" by (metis prod_cases3)
  show ?thesis using login_rows [OF e] by (simp add: Sign_In e)
next
  case (Claim_Refresh i now fresh cookie)
  obtain r e where e: "refresh_claim (ae_sha env) now fresh cookie (seen_db w i) (now_db w) = (r, e)" by fastforce
  show ?thesis using claim_rows [OF e] by (simp add: Claim_Refresh e split: sum.split)
next
  case (Issue_Refresh k now seed)
  then show ?thesis by (simp add: refresh_issue_def session_rows)
next
  case (Set_Email i now tid raw hits u current new)
  show ?thesis
  proof (cases "get_user (seen_db w i) u")
    case (Some me)
    obtain r hits' e ms evs where e: "change_email (ae_sha env) (ae_verify env) now tid raw hits (now_db w) me current new
        = (r, hits', e, ms, evs)" by (metis prod_cases5)
    show ?thesis using change_email_rows [OF e] by (simp add: Set_Email Some e)
  qed (simp add: Set_Email)
next
  case (Mail_Reset now tid raw task)
  then show ?thesis using deliver_rows by (simp add: case_prod_beta)
next
  case (Mail_Verification i now tid raw hits u)
  show ?thesis
  proof (cases "get_user (seen_db w i) u")
    case (Some me)
    obtain r hits' e ms where e: "resend_verification (ae_sha env) now tid raw hits (now_db w) me = (r, hits', e, ms)"
      by (metis prod_cases4)
    show ?thesis using resend_rows [OF e] by (simp add: Mail_Verification Some e)
  qed (simp add: Mail_Verification)
qed (simp_all add: case_prod_beta session_rows change_password_retires(2) reset_rows verify_rows le_supI1
    create_user_quiet [THEN calmD] update_user_quiet [THEN calmD] ban_user_quiet [THEN calmD]
    unban_user_quiet [THEN calmD] delete_user_quiet [THEN calmD] split: option.split)

definition mails_ok :: "auth_env \<Rightarrow> auth_world \<Rightarrow> bool" where
  "mails_ok env w \<longleftrightarrow> aw_hist w \<noteq> [] \<and> (\<forall>e\<in>set (aw_hist w). token_rows e \<subseteq> minted (ae_sha env) (aw_mails w))"

lemma mails_step:
  assumes ok: "mails_ok env w"
  shows "mails_ok env (auth_step env w op)"
proof -
  have "now_db w \<in> set (aw_hist w)" using ok by (simp add: mails_ok_def now_db_def)
  then have "token_rows (now_db w) \<subseteq> minted (ae_sha env) (aw_mails w)" using ok by (simp add: mails_ok_def)
  moreover have "minted sha (xs @ ys) = minted sha xs \<union> minted sha ys" for sha xs ys by (auto simp: minted_def)
  ultimately show ?thesis
    using ok effect_rows [of env w op] by (auto simp: mails_ok_def auth_step_def case_prod_beta Let_def)
qed

interpretation mailing: invariant_machine "auth_step env" "mails_ok env" for env
  by unfold_locales (rule mails_step)

lemma live_link_row:
  assumes "live_link sha now raw tokens = Some t"
  shows "t \<in> set tokens" "mt_token_hash t = sha raw"
  using assms by (auto simp: live_link_def dest: find_Some_in split: option.splits if_splits)

lemma holds_address_email: "holds_address t u \<Longrightarrow> mt_email t = Some a \<Longrightarrow> map_option lower (us_email u) = Some (lower a)"
  by (simp add: holds_address_def)

lemma reset_changes:
  assumes "u \<in> set (db_users d)"
    and "u \<notin> set (db_users (fst (snd (snd (reset_password sha hash limit window now hits read d raw new)))))"
  shows "\<exists>t. t \<in> token_rows read \<and> mt_token_hash t = sha raw \<and> holds_address t u"
proof -
  have "\<exists>t. live_link sha now raw (db_reset_tokens read) = Some t \<and> holds_address t u"
    using assms
    by (auto simp: reset_password_def case_prod_beta Let_def update_where_def revoke_user_api_tokens_def
        revoke_sessions_def image_iff split: sum.splits option.splits if_splits)
  then show ?thesis using live_link_row unfolding token_rows_def by blast
qed

lemma verify_changes:
  assumes "u \<in> set (db_users d)"
    and "u \<notin> set (db_users (fst (snd (snd (verify_email sha limit window now hits read d raw)))))"
  shows "\<exists>t. t \<in> token_rows read \<and> mt_token_hash t = sha raw \<and> holds_address t u"
proof -
  have "\<exists>t. live_link sha now raw (db_verification_tokens read) = Some t \<and> holds_address t u"
    using assms
    by (auto simp: verify_email_def case_prod_beta Let_def update_where_def image_iff
        split: sum.splits option.splits if_splits)
  then show ?thesis using live_link_row unfolding token_rows_def by blast
qed

text \<open>
  C32: A link proves the mailbox: a password reset or an address verification, decided on any earlier
  state, changes an account only when a link with that token (or one of the same hash) was mailed to
  the very address the account holds at that moment.
\<close>

theorem links_prove_the_mailbox:
  assumes "db_reset_tokens d = []" "db_verification_tokens d = []"
    and "w = foldl (auth_step env) (auth_start d) ops"
    and "op = Reset i now hits raw new \<or> op = Verify i now hits raw"
  shows "list_all (\<lambda>u. u \<in> set (db_users (now_db (auth_step env w op)))
      \<or> list_ex (\<lambda>(a, raw'). ae_sha env raw' = ae_sha env raw \<and> map_option lower (us_email u) = Some (lower a))
          (aw_mails w)) (db_users (now_db w))"
proof -
  have "mails_ok env (auth_start d)" using assms(1,2) by (simp add: mails_ok_def auth_start_def token_rows_def)
  then have ok: "mails_ok env w" unfolding assms(3) by (rule mailing.run_inv)
  have read: "seen_db w i \<in> set (aw_hist w)" using ok by (simp add: mails_ok_def seen_db_def)
  have now: "now_db (auth_step env w op) = fst (auth_effect env w op)"
    by (simp add: auth_step_def now_db_def case_prod_beta Let_def)
  have "list_ex (\<lambda>(a, raw'). ae_sha env raw' = ae_sha env raw \<and> map_option lower (us_email u) = Some (lower a)) (aw_mails w)"
    if u: "u \<in> set (db_users (now_db w))" "u \<notin> set (db_users (now_db (auth_step env w op)))" for u
  proof -
    have "\<exists>t. t \<in> token_rows (seen_db w i) \<and> mt_token_hash t = ae_sha env raw \<and> holds_address t u"
      using assms(4)
    proof
      assume "op = Reset i now hits raw new"
      then have "fst (auth_effect env w op) = fst (snd (snd (reset_password (ae_sha env) (ae_hash env) (ae_limit env)
          (ae_window env) now hits (seen_db w i) (now_db w) raw new)))"
        by (simp add: case_prod_beta)
      from reset_changes [OF u(1) u(2) [unfolded now this]] show ?thesis .
    next
      assume "op = Verify i now hits raw"
      then have "fst (auth_effect env w op) = fst (snd (snd (verify_email (ae_sha env) (ae_limit env)
          (ae_window env) now hits (seen_db w i) (now_db w) raw)))"
        by (simp add: case_prod_beta)
      from verify_changes [OF u(1) u(2) [unfolded now this]] show ?thesis .
    qed
    then obtain t where t: "t \<in> token_rows (seen_db w i)" "mt_token_hash t = ae_sha env raw" "holds_address t u"
      by blast
    then have "t \<in> minted (ae_sha env) (aw_mails w)" using ok read by (auto simp: mails_ok_def)
    then obtain a raw' where m: "(a, raw') \<in> set (aw_mails w)" "mt_email t = Some a" "mt_token_hash t = ae_sha env raw'"
      by (auto simp: minted_def)
    have "ae_sha env raw' = ae_sha env raw" using m(3) t(2) by simp
    then show ?thesis
      using holds_address_email [OF t(3) m(2)] unfolding list_ex_iff by (intro bexI [OF _ m(1)]) simp
  qed
  then show ?thesis unfolding list_all_iff by blast
qed

section \<open>Runs\<close>

definition auth_demo :: auth_env where
  "auth_demo = \<lparr>ae_sha = (\<lambda>s. ''#'' @ s), ae_verify = (\<lambda>p h. p = h), ae_hash = (\<lambda>p. p), ae_dummy = ''-'',
     ae_limit = 10, ae_window = 300000000, ae_ttl = 1209600000000\<rparr>"

definition auth_db :: db where
  "auth_db = empty_db\<lparr>db_users := [(blank_user ''u'')\<lparr>us_email := Some ''U@x'', us_password_hash := ''pw''\<rparr>]\<rparr>"

definition sign_in_demo :: auth_op where
  "sign_in_demo = Sign_In None 0 \<lparr>sd_id = ''s'', sd_token = ''a'', sd_family = ''f''\<rparr> (\<lambda>_. []) ''U'' ''pw''"

text \<open>Two refreshes read the same live session; one claims it, and its successor is issued.\<close>

lemma session_lineage_witness:
  "let w = foldl (auth_step auth_demo) (auth_start auth_db)
         [sign_in_demo, Claim_Refresh 0 5 ''g'' (Some ''a''), Claim_Refresh 1 5 ''h'' (Some ''a''),
          Issue_Refresh 0 6 \<lparr>sd_id = ''t'', sd_token = ''b'', sd_family = ''i''\<rparr>]
   in map (\<lambda>s. (rs_id s, rs_revoked_at s)) (db_sessions (now_db w)) = [(''s'', Some 5), (''t'', None)]
      \<and> count_where (\<lambda>s. rs_family_id s = Some ''f'' \<and> rs_revoked_at s = None) (db_sessions (now_db w))
        + count_where (\<lambda>p. snd p = ''f'') (aw_owed w) \<le> 1"
proof -
  let ?ops = "[sign_in_demo, Claim_Refresh 0 5 ''g'' (Some ''a''), Claim_Refresh 1 5 ''h'' (Some ''a''),
          Issue_Refresh 0 6 \<lparr>sd_id = ''t'', sd_token = ''b'', sd_family = ''i''\<rparr>]"
  have 1: "db_sessions auth_db = []" by (simp add: auth_db_def empty_db_def)
  have 2: "map (\<lambda>s. (rs_id s, rs_revoked_at s))
      (db_sessions (now_db (foldl (auth_step auth_demo) (auth_start auth_db) ?ops))) = [(''s'', Some 5), (''t'', None)]"
    by code_simp
  show ?thesis using session_lineage [OF 1 refl, where env = auth_demo and ops = ?ops and f = "''f''"] 2 by (simp only: Let_def)
qed

text \<open>The rotated token is presented again after the grace period: its family is over for good.\<close>

lemma reuse_ends_the_lineage_witness:
  "let w = foldl (auth_step auth_demo) (auth_start auth_db)
         [sign_in_demo, Claim_Refresh 0 5 ''g'' (Some ''a''),
          Issue_Refresh 0 6 \<lparr>sd_id = ''t'', sd_token = ''b'', sd_family = ''i''\<rparr>]
   in live_in ''f'' (db_sessions (now_db w)) = 1
      \<and> live_in ''f'' (db_sessions (now_db (foldl (auth_step auth_demo)
          (auth_step auth_demo w (Claim_Refresh 0 20000000 ''h'' (Some ''a'')))
          [Claim_Refresh 1 20000001 ''k'' (Some ''b'')]))) = 0"
proof -
  let ?ops = "[sign_in_demo, Claim_Refresh 0 5 ''g'' (Some ''a''),
          Issue_Refresh 0 6 \<lparr>sd_id = ''t'', sd_token = ''b'', sd_family = ''i''\<rparr>]"
  let ?w = "foldl (auth_step auth_demo) (auth_start auth_db) ?ops"
  let ?s = "\<lparr>rs_id = ''s'', rs_user_id = ''u'', rs_token_hash = ''#a'', rs_expires_at = 1209600000000,
     rs_revoked_at = Some 5, rs_family_id = Some ''f''\<rparr>"
  have 1: "db_sessions auth_db = []" by (simp add: auth_db_def empty_db_def)
  have 2: "find (\<lambda>s. rs_token_hash s = ae_sha auth_demo ''a'') (db_sessions (seen_db ?w 0)) = Some ?s" by code_simp
  have 3: "''h'' \<notin> used_families ?w" by code_simp
  have 4: "owed_to ''f'' (aw_owed ?w) = 0" by code_simp
  have 5: "live_in ''f'' (db_sessions (now_db ?w)) = 1" by code_simp
  have 6: "rs_revoked_at ?s = Some 5" "rs_family_id ?s = Some ''f''" "5 + REFRESH_REUSE_GRACE < 20000000"
    by (simp_all add: REFRESH_REUSE_GRACE_def)
  show ?thesis
    using reuse_ends_the_lineage [OF 1 refl 2 6 _ 3 _ 4, of "[Claim_Refresh 1 20000001 ''k'' (Some ''b'')]"] 5
    by (simp only: Let_def) simp
qed

text \<open>The mailed link resets the password; the account then has another one.\<close>

lemma links_prove_the_mailbox_witness:
  "let w = foldl (auth_step auth_demo) (auth_start auth_db) [Mail_Reset 0 ''l'' ''secret'' (''u'', ''u@X'')];
       e = auth_step auth_demo w (Reset 0 7 (\<lambda>_. []) ''secret'' ''new'')
   in aw_mails w = [(''U@x'', ''secret'')] \<and> map us_password_hash (db_users (now_db e)) = [''new'']
      \<and> list_all (\<lambda>u. u \<in> set (db_users (now_db e))
         \<or> list_ex (\<lambda>(a, raw'). ae_sha auth_demo raw' = ae_sha auth_demo ''secret''
              \<and> map_option lower (us_email u) = Some (lower a)) (aw_mails w)) (db_users (now_db w))"
proof -
  let ?ops = "[Mail_Reset 0 ''l'' ''secret'' (''u'', ''u@X'')]"
  let ?w = "foldl (auth_step auth_demo) (auth_start auth_db) ?ops"
  have 1: "db_reset_tokens auth_db = []" "db_verification_tokens auth_db = []" by (simp_all add: auth_db_def empty_db_def)
  have 2: "aw_mails ?w = [(''U@x'', ''secret'')]" by code_simp
  have 3: "map us_password_hash (db_users (now_db (auth_step auth_demo ?w (Reset 0 7 (\<lambda>_. []) ''secret'' ''new'')))) = [''new'']"
    by code_simp
  show ?thesis
    using links_prove_the_mailbox [OF 1 refl disjI1 [OF refl], of auth_demo ?ops 0 7 "\<lambda>_. []" "''secret''" "''new''"] 2 3
    by (simp only: Let_def)
qed

text \<open>
  What the two transactions of a refresh leave open. A replay that is detected between them revokes a
  family whose successor is issued afterwards; a password reset in between likewise leaves the
  account with a live session.
\<close>

lemma replay_misses_the_successor:
  "let w = foldl (auth_step auth_demo) (auth_start auth_db)
         [sign_in_demo, Claim_Refresh 0 5 ''g'' (Some ''a''),
          Issue_Refresh 0 6 \<lparr>sd_id = ''t'', sd_token = ''b'', sd_family = ''i''\<rparr>,
          Claim_Refresh 0 20000000 ''h'' (Some ''b''), Claim_Refresh 0 20000001 ''k'' (Some ''a''),
          Issue_Refresh 0 20000002 \<lparr>sd_id = ''r'', sd_token = ''c'', sd_family = ''j''\<rparr>]
   in map (\<lambda>s. (rs_id s, rs_family_id s, rs_revoked_at s)) (db_sessions (now_db w))
      = [(''s'', Some ''f'', Some 5), (''t'', Some ''f'', Some 20000000), (''r'', Some ''f'', None)]"
  by code_simp

lemma refresh_outlives_reset:
  "let w = foldl (auth_step auth_demo) (auth_start auth_db)
         [sign_in_demo, Mail_Reset 1 ''l'' ''secret'' (''u'', ''u@x''), Claim_Refresh 0 5 ''g'' (Some ''a''),
          Reset 0 7 (\<lambda>_. []) ''secret'' ''new'',
          Issue_Refresh 0 8 \<lparr>sd_id = ''t'', sd_token = ''b'', sd_family = ''i''\<rparr>]
   in map us_password_hash (db_users (now_db w)) = [''new'']
      \<and> map (\<lambda>s. (rs_id s, rs_user_id s, rs_revoked_at s)) (db_sessions (now_db w))
        = [(''s'', ''u'', Some 5), (''t'', ''u'', None)]"
  by code_simp

end
