(* ===== verification/Spec2Isabelle.thy ===== *)
theory Spec2Isabelle
  imports Permissions Competition_Status Scoring Grading Scoreboard Rate_Limit Module_Loader
    Instance_Claims Instance_Routes Judge_Runs Challenge_Access Submit_Safety Delegation Insights
    Hints Teams Sessions
begin

text \<open>
  Flagpost, a platform that runs capture-the-flag competitions (\<open>src/backend\<close>, Python:
  FastAPI routes over an SQL database). The theories model its core logic as executable
  functions over a value of the database and prove what the platform promises about
  permissions, accounts, entry, scores, awards, hints, boards, containers and judgings.

  \<^bold>\<open>How the program maps to the model.\<close> A table is a list of records in \<open>Data_Model.db\<close>, one
  field per column the modelled code reads or writes; an SQL statement is a list function
  (\<open>filter\<close>, \<open>update_where\<close>, \<open>delete_where\<close>, \<open>count_where\<close>, \<open>sort_key\<close>). A route or helper is a
  function of the database that returns its result, or the \<open>HTTPException\<close> it raises (\<open>Inl\<close>),
  with the state it commits and the events it emits, in order. Ids, clocks, random tokens and
  hashes that the code obtains from outside are arguments. A JSON value is a \<open>pyval\<close>; the models
  keep the names of the functions they translate. Microseconds since the epoch are \<open>int\<close>;
  Python's \<open>round\<close> of a \<open>float\<close> is computed exactly in \<open>Py_Float\<close> (53-bit significands, round
  half even, no overflow: the arguments are bounded by the schema).

  \<^bold>\<open>Concurrency.\<close> One database session is one atomic operation; code that opens several sessions is
  several operations, composed by a step relation or by a list of operations. Where a check may be
  overtaken before its write, the state the check read is an argument \<open>read\<close> of its own, and the
  theorems let it be any earlier state, or say what may not have committed in between. A
  conditional UPDATE, a unique index and a row lock are what they are in the code: they decide on the
  state written to. Row locks are those of PostgreSQL (SQLite, which the tests use, has none). A
  launch of an instance takes its lock on the settings row, so launches are serial once that row
  exists and run side by side before it does.

  \<^bold>\<open>Theories, components and what their lemmas show.\<close>
  \<^item> \<open>Prelude\<close>, \<open>Data_Model\<close>: results and errors, table operations, the locales \<open>invariant_machine\<close>
    (steps that keep an invariant keep it over every run), \<open>lifecycle\<close> and \<open>ranked_lifecycle\<close> (status
    tables); the rows of \<open>models/*.py\<close>.
  \<^item> \<open>Permissions\<close> (\<open>auth/permissions.py\<close>, \<open>auth/deps.py\<close>, \<open>auth/membership.py\<close>): the catalog,
    the check, its enforcement by routes, bearer and API tokens, the reported sets, the audience
    query. The check against the rule its documentation states; reported sets are enforced sets.
  \<^item> \<open>Identity\<close> (\<open>auth/identity.py\<close>, \<open>auth/setup.py\<close>, \<open>auth/containment.py\<close>,
    \<open>utils/competitions.py\<close>), \<open>Roles\<close> (\<open>routers/roles.py\<close>), \<open>User_Admin\<close> (\<open>routers/users.py\<close>,
    \<open>utils/api_tokens.py\<close>), \<open>Delegation\<close>: who may change whose permissions. No sequence of calls by a
    group of delegates takes the group beyond what some member held, and none leaves the platform
    without an administrator.
  \<^item> \<open>Sessions\<close> (\<open>routers/auth.py\<close>): signing up, in and out, the rotation of refresh tokens, password,
    name and address changes, and mailed links. A sign-in's lineage has one live token at most, a
    replay ends it, and a link changes an account only while it holds the address mailed to.
  \<^item> \<open>Registration\<close> (\<open>utils/rules.py\<close>, \<open>utils/registration_fields.py\<close> and their routers),
    \<open>Entry\<close> (the joins of \<open>routers/competitions.py\<close>, \<open>utils/invite_links.py\<close>,
    \<open>routers/invite_links.py\<close>), \<open>Teams\<close> (\<open>routers/teams.py\<close>): the gates of a competition and every
    way through them. Stored answers are stable, a capped link holds its cap, rosters stay sound, every
    entry passed its gates, and an approval admits exactly the captain's own applicants.
  \<^item> \<open>Competition_Status\<close> (\<open>utils/competition_status.py\<close>, the lifecycle part of
    \<open>routers/competitions.py\<close> and \<open>utils/automation_scheduler.py\<close>): started and ended are announced
    once, and a manual stop is final.
  \<^item> \<open>Challenges\<close>, \<open>Challenge_Access\<close> (\<open>routers/challenges.py\<close>, \<open>schemas/challenge.py\<close>): authoring and
    reading challenges; the card agrees with the detail (but for the guesses left to a viewer who
    scores for nobody) and shows only what is unlocked.
  \<^item> \<open>Flags\<close> (\<open>utils/flags.py\<close>), \<open>Submit\<close>, \<open>Submit_Safety\<close> (\<open>routers/submissions.py\<close>, \<open>submit_code\<close>
    of \<open>routers/judge_submissions.py\<close>): guards, limiter, guess cap, log and redaction of a submission.
  \<^item> \<open>Hints\<close> (\<open>routers/hints.py\<close>, the hint part of \<open>utils/automation_scheduler.py\<close>): bodies are
    confidential until paid for, and paid for once when reveals do not overlap.
  \<^item> \<open>Py_Float\<close>, \<open>Scoring\<close> (\<open>utils/scoring.py\<close>), \<open>Grading\<close> (\<open>utils/grading.py\<close> and the partial
    unique index of \<open>models/submission.py\<close>): one award per subject under every interleaving, rows
    valued at the challenge's worth after grades that do not race (two that do leave them overvalued),
    and the statement sequence of a regrade against its row-wise specification.
  \<^item> \<open>Scoreboard\<close> (\<open>utils/scoreboard.py\<close>, its routes and the broadcasting plugin), \<open>Timeline\<close>
    (\<open>utils/scoreboard_timeline.py\<close>), \<open>Insights\<close> (\<open>utils/public_insights.py\<close>): ranks, freeze, cache,
    chart and spectator pages. Chart and board agree, the recompute of a frozen board is the live one
    where every award stands at its challenge's value (not after a points edit or a deleted team), and
    a freeze hides every score movement after it, though not who joined.
  \<^item> \<open>Module_Loader\<close> (\<open>plugins/loader.py\<close>, \<open>plugins/manifest.py\<close>): load orders exist exactly for
    satisfiable module sets and respect the dependencies. \<open>Rate_Limit\<close> (\<open>ratelimit/\<close>): the contract
    of a limiter as a locale; both implementations give its verdicts.
  \<^item> \<open>Instances\<close> (\<open>utils/instance_service.py\<close>, \<open>utils/instance_reaper.py\<close>), \<open>Instance_World\<close> (the
    step relation of launches, provisioning jobs, teardowns, sweeps, restarts, edits and deletions
    against a container backend; \<open>platform_step\<close> adds the deletion of teams), \<open>Instance_Claims\<close>,
    \<open>Instance_Routes\<close> (\<open>routers/instances.py\<close>, \<open>utils/instance_grading.py\<close>): containers are accounted
    for, ceilings and caps hold under the admission lock (and only there), sweeps left alone remove the
    orphans, the flag of an instance grades.
  \<^item> \<open>Judge\<close> (\<open>utils/judge_worker.py\<close>, \<open>routers/judge_jury.py\<close>, \<open>models/judging.py\<close>),
    \<open>Judge_World\<close> (the invariant and its preservation by each session), \<open>Judge_Runs\<close> (the step
    relation, reachable states): a score follows the latest verdict, for teams and for users playing
    alone, the award sits on the earliest correct code, a lost claim writes nothing.

  \<^bold>\<open>Parameters and hypotheses.\<close> SHA-256, the regular-expression engine, \<open>repr\<close>, password hashing,
  JWT decoding, the Redis sorted set and the container backend are arguments of the definitions that
  use them; the theorems that need it name what they rely on (no collision of the hash, the documented
  laws of the Redis commands). Rows carry distinct ids where a theorem says so: the code's ids are
  random UUIDs and primary keys.

  \<^bold>\<open>Bounds and fuel.\<close> No definition takes fuel: loops are structural or carry a termination proof by
  a measure (the port scan, the depth-first visit of the load order, the reaper's rounds, the walk of
  a rich-text document). Numeric limits are those of the code (\<open>MAX_ATTEMPTS\<close>, \<open>MAX_EXTENDS\<close>,
  \<open>REAP_BATCH\<close>, \<open>MAX_IN_FLIGHT\<close>, \<open>TIMELINE_MAX_POINTS\<close>, \<open>MAX_VALUE_LENGTH\<close>) or arguments where they
  are configuration.

  \<^bold>\<open>Simplifications.\<close> Characters of messages outside ASCII are written in ASCII. A JSON number is an
  integer. NULL sent for a column that cannot be NULL (an integrity error, 500) is left out. Reading
  the site settings takes a missing row as one with the defaults; its creation is not recorded. The
  calls of \<open>Delegation\<close> and of \<open>Teams\<close> are served one after the other. The judge's step relation
  excludes deleting users, teams and challenges and switching a challenge that has submissions to or
  from the programming type. The in-memory limiter stands for both limiters in \<open>Submit\<close> and
  \<open>Sessions\<close>; in the runs of \<open>Sessions\<close> its answers are left open.

  \<^bold>\<open>Not modelled.\<close> Single sign-on and directories; the first-run setup; minting API tokens; the automation engine and its
  actions; announcements, notifications, tickets, feedback, certificates and reports; staff analytics
  and dashboards; CSV, archive and backup formats; the drivers of Docker, Kubernetes and the judge's
  sandbox; the AI assistant and the marketplace; uploads, themes and pages; realtime transport; start-up,
  configuration and migrations. They are input and output formats, external services, or screens with
  no effect on access, scores or containers; where a modelled component meets them, their effect is an
  argument or an event.
\<close>

end
